(* ===== verification/Go_Prelude.thy ===== *)
theory Go_Prelude
  imports Main "HOL-Library.Word" "HOL-Library.AList" "HOL-Library.Char_ord"
    "HOL-Library.List_Lexorder" "HOL-Library.Multiset" "HOL-Library.Sublist"
begin

text \<open>
  The Go side of the model that every component shares: the parts of the language and of its
  standard library the operator uses.

  \<^item> Go maps are association lists with distinct keys (\<open>gomap\<close>): \<open>gm_get\<close> reads, \<open>gm_put\<close>
    writes, \<open>length\<close> is Go's \<open>len\<close>. Where the code ranges over a map and the order can be
    seen, the model takes the order as an argument or sorts as the code does.
  \<^item> \<open>int32\<close> values are \<open>int\<close>s with the wrap-around of the arithmetic and of the
    conversions written out (\<open>i32\<close>, \<open>i64\<close>); \<open>uint64\<close> values are \<open>64 word\<close>s.
  \<^item> Strings are byte strings (\<open>string\<close>), compared byte by byte as Go does.
  \<^item> A \<open>resource.Quantity\<close> is the integer number of thousandths it denotes: Kubernetes
    documents that a quantity carries at most three decimal places.

  The collections \<open>go_defs\<close>, \<open>gomap_simps\<close> and \<open>slice_simps\<close> carry the automation.
\<close>

section \<open>Collections of facts\<close>

named_theorems go_defs \<open>definitions of the Go library functions\<close>
named_theorems gomap_simps \<open>lookup and length laws of Go maps\<close>
named_theorems slice_simps \<open>laws of the slices package\<close>

section \<open>Integers\<close>

type_synonym int32 = int
type_synonym int64 = int
type_synonym uint64 = "64 word"

definition wrap_signed :: "nat \<Rightarrow> int \<Rightarrow> int" where
  "wrap_signed w x = (x + 2 ^ (w - 1)) mod 2 ^ w - 2 ^ (w - 1)"

definition i32 :: "int \<Rightarrow> int32" where
  "i32 x = wrap_signed 32 x"

definition i64 :: "int \<Rightarrow> int64" where
  "i64 x = wrap_signed 64 x"

lemma i32_id: "- (2 ^ 31) \<le> x \<Longrightarrow> x < 2 ^ 31 \<Longrightarrow> i32 x = x"
  by (simp add: i32_def wrap_signed_def)

lemma i32_small [simp]: "0 \<le> x \<Longrightarrow> x \<le> 65535 \<Longrightarrow> i32 x = x"
  by (rule i32_id) auto

lemma i64_id: "- (2 ^ 63) \<le> x \<Longrightarrow> x < 2 ^ 63 \<Longrightarrow> i64 x = x"
  by (simp add: i64_def wrap_signed_def)

lemma i32_range: "- (2 ^ 31) \<le> i32 x \<and> i32 x < 2 ^ 31"
proof -
  have "0 \<le> (x + 2 ^ 31) mod 2 ^ 32" and "(x + 2 ^ 31) mod 2 ^ 32 < (2 ^ 32 :: int)"
    by simp_all
  then show ?thesis by (simp add: i32_def wrap_signed_def)
qed

section \<open>Quantities\<close>

type_synonym Quantity = int

text \<open>\<open>Quantity.Cmp\<close> is -1, 0 or 1; \<open>Quantity.Value\<close> rounds up, away from zero.\<close>

definition qCmp :: "Quantity \<Rightarrow> Quantity \<Rightarrow> int" where
  "qCmp a b = (if a < b then - 1 else if a = b then 0 else 1)"

definition qSign :: "Quantity \<Rightarrow> int" where
  "qSign a = sgn a"

definition qValue :: "Quantity \<Rightarrow> int" where
  "qValue a = sgn a * ((\<bar>a\<bar> + 999) div 1000)"

lemma qCmp_less [simp]: "qCmp a b < 0 \<longleftrightarrow> a < b"
  by (simp add: qCmp_def)

lemma qCmp_ge [simp]: "0 \<le> qCmp a b \<longleftrightarrow> b \<le> a"
  by (simp add: qCmp_def)

lemma qCmp_one [simp]: "qCmp a b = 1 \<longleftrightarrow> b < a"
  by (auto simp: qCmp_def)

lemma qCmp_minus_one [simp]: "qCmp a b = - 1 \<longleftrightarrow> a < b"
  by (auto simp: qCmp_def)

lemma qSign_le [simp]: "qSign a \<le> 0 \<longleftrightarrow> a \<le> 0"
  by (simp add: qSign_def sgn_if)

lemma qValue_pos: "0 < a \<Longrightarrow> 0 < qValue a"
  by (simp add: qValue_def)

section \<open>Maps\<close>

type_synonym ('k, 'v) gomap = "('k \<times> 'v) list"

definition gm_get :: "('k, 'v) gomap \<Rightarrow> 'k \<Rightarrow> 'v option" where
  "gm_get m k = map_of m k"

definition gm_put :: "'k \<Rightarrow> 'v \<Rightarrow> ('k, 'v) gomap \<Rightarrow> ('k, 'v) gomap" where
  "gm_put k v m = AList.update k v m"

text \<open>\<open>maps.Copy(dst, src)\<close>: every entry of \<open>src\<close> is written over \<open>dst\<close>.\<close>

definition gm_copy :: "('k, 'v) gomap \<Rightarrow> ('k, 'v) gomap \<Rightarrow> ('k, 'v) gomap" where
  "gm_copy dst src = fold (\<lambda>(k, v). gm_put k v) src dst"

definition gm_ok :: "('k, 'v) gomap \<Rightarrow> bool" where
  "gm_ok m \<longleftrightarrow> distinct (map fst m)"

text \<open>An index of a string map that may lack the key reads the zero value.\<close>

definition gm_str :: "('k, string) gomap \<Rightarrow> 'k \<Rightarrow> string" where
  "gm_str m k = (case gm_get m k of None \<Rightarrow> [] | Some v \<Rightarrow> v)"

lemma gm_get_put [gomap_simps, simp]:
  "gm_get (gm_put k v m) k' = (if k' = k then Some v else gm_get m k')"
  by (simp add: gm_get_def gm_put_def update_conv)

lemma gm_get_Nil [gomap_simps, simp]: "gm_get [] k = None"
  by (simp add: gm_get_def)

lemma gm_get_Cons [gomap_simps, simp]:
  "gm_get ((k, v) # m) k' = (if k' = k then Some v else gm_get m k')"
  by (simp add: gm_get_def)

lemma gm_put_put: "gm_put k v (gm_put k w m) = gm_put k v m"
  by (induction m) (auto simp: gm_put_def)

lemma gm_put_entry: "(k', w) \<in> set (gm_put k v m) \<Longrightarrow> (k', w) \<in> set m \<or> k' = k \<and> w = v"
  by (induction m) (auto simp: gm_put_def split: if_splits)

lemma gm_put_ok [gomap_simps, simp]: "gm_ok m \<Longrightarrow> gm_ok (gm_put k v m)"
  by (simp add: gm_ok_def gm_put_def distinct_update)

lemma gm_put_keys: "set (map fst (gm_put k v m)) = insert k (set (map fst m))"
  by (auto simp: gm_put_def update_keys)

lemma gm_get_None_iff: "gm_get m k = None \<longleftrightarrow> k \<notin> set (map fst m)"
  by (simp add: gm_get_def map_of_eq_None_iff)

lemma gm_get_Some_key: "gm_get m k = Some v \<Longrightarrow> k \<in> set (map fst m)"
  by (auto simp: gm_get_def dest: map_of_SomeD intro: rev_image_eqI)

lemma gm_get_copy: "gm_ok src \<Longrightarrow>
    gm_get (gm_copy dst src) k = (case gm_get src k of None \<Rightarrow> gm_get dst k | Some v \<Rightarrow> Some v)"
proof (induction src arbitrary: dst)
  case Nil
  then show ?case by (simp add: gm_copy_def)
next
  case (Cons p src)
  obtain a b where p: "p = (a, b)" by (cases p)
  from Cons.prems have ok: "gm_ok src" and fresh: "gm_get src a = None"
    by (auto simp: p gm_ok_def gm_get_None_iff)
  have "gm_copy dst (p # src) = gm_copy (gm_put a b dst) src"
    by (simp add: gm_copy_def p)
  then show ?case
    using fresh by (auto simp: p Cons.IH [OF ok] split: option.splits)
qed

section \<open>Decimal numbers\<close>

definition digit_char :: "nat \<Rightarrow> char" where
  "digit_char d = char_of (48 + d)"

text \<open>\<open>strconv.Itoa\<close>, the \<open>%d\<close> verb.\<close>

fun itoa_nat :: "nat \<Rightarrow> string" where
  "itoa_nat n = (if n < 10 then [digit_char n] else itoa_nat (n div 10) @ [digit_char (n mod 10)])"

declare itoa_nat.simps [simp del]

definition itoa :: "int \<Rightarrow> string" where
  "itoa i = (if i < 0 then CHR ''-'' # itoa_nat (nat (- i)) else itoa_nat (nat i))"

lemma digit_char_inj: "a < 10 \<Longrightarrow> b < 10 \<Longrightarrow> digit_char a = digit_char b \<Longrightarrow> a = b"
proof -
  assume a: "a < 10" and b: "b < 10" and e: "digit_char a = digit_char b"
  from e have "of_char (char_of (48 + a) :: char) = (of_char (char_of (48 + b) :: char) :: nat)"
    by (simp add: digit_char_def)
  with a b show "a = b" by simp
qed

lemma digit_char_not_dash: "d < 10 \<Longrightarrow> digit_char d \<noteq> CHR ''-''"
proof
  assume d: "d < 10" and "digit_char d = CHR ''-''"
  then have "of_char (char_of (48 + d) :: char) = (of_char (CHR ''-'') :: nat)"
    by (simp add: digit_char_def)
  with d show False by simp
qed

lemma itoa_nat_small: "n < 10 \<Longrightarrow> itoa_nat n = [digit_char n]"
  by (simp add: itoa_nat.simps)

lemma itoa_nat_big: "10 \<le> n \<Longrightarrow> itoa_nat n = itoa_nat (n div 10) @ [digit_char (n mod 10)]"
  by (subst itoa_nat.simps) simp

lemma itoa_nat_nonempty: "itoa_nat n \<noteq> []"
  by (subst itoa_nat.simps) simp

lemma itoa_nat_no_dash: "CHR ''-'' \<notin> set (itoa_nat n)"
proof (induction n rule: itoa_nat.induct)
  case (1 n)
  show ?case
  proof (cases "n < 10")
    case True
    then show ?thesis using digit_char_not_dash [of n] by (simp add: itoa_nat_small) 
  next
    case False
    with 1 have "CHR ''-'' \<notin> set (itoa_nat (n div 10))" by simp
    with False digit_char_not_dash [of "n mod 10"] show ?thesis
      by (auto simp: itoa_nat_big not_less)
  qed
qed

lemma itoa_nat_inj: "itoa_nat m = itoa_nat n \<Longrightarrow> m = n"
proof (induction m arbitrary: n rule: itoa_nat.induct)
  case (1 m)
  show ?case
  proof (cases "m < 10")
    case True
    show ?thesis
    proof (cases "n < 10")
      case True
      with \<open>m < 10\<close> "1.prems" digit_char_inj show ?thesis by (simp add: itoa_nat_small)
    next
      case False
      with \<open>m < 10\<close> "1.prems" itoa_nat_nonempty [of "n div 10"] show ?thesis
        by (simp add: itoa_nat_small itoa_nat_big not_less)
    qed
  next
    case False
    then have m: "itoa_nat m = itoa_nat (m div 10) @ [digit_char (m mod 10)]"
      by (simp add: itoa_nat_big)
    show ?thesis
    proof (cases "n < 10")
      case True
      with m "1.prems" itoa_nat_nonempty [of "m div 10"] show ?thesis
        by (simp add: itoa_nat_small)
    next
      case False
      then have "itoa_nat n = itoa_nat (n div 10) @ [digit_char (n mod 10)]"
        by (simp add: itoa_nat_big)
      with m "1.prems" have q: "itoa_nat (m div 10) = itoa_nat (n div 10)"
        and r: "digit_char (m mod 10) = digit_char (n mod 10)" by simp_all
      from q \<open>\<not> m < 10\<close> have "m div 10 = n div 10" using "1.IH" by blast
      moreover from r have "m mod 10 = n mod 10" by (auto intro: digit_char_inj)
      ultimately show ?thesis by (metis div_mult_mod_eq)
    qed
  qed
qed

lemma itoa_of_nat [simp]: "itoa (int n) = itoa_nat n"
  by (simp add: itoa_def)

section \<open>Strings\<close>

definition strings_TrimSuffix :: "string \<Rightarrow> string \<Rightarrow> string" where
  "strings_TrimSuffix s suf = (if suffix suf s then take (length s - length suf) s else s)"

text \<open>\<open>strings.Cut\<close> around the first occurrence of a one-byte separator.\<close>

definition strings_Cut :: "string \<Rightarrow> char \<Rightarrow> string \<times> string \<times> bool" where
  "strings_Cut s c =
     (if c \<in> set s then (takeWhile (\<lambda>x. x \<noteq> c) s, tl (dropWhile (\<lambda>x. x \<noteq> c) s), True)
      else (s, [], False))"

definition strings_ContainsAny :: "string \<Rightarrow> string \<Rightarrow> bool" where
  "strings_ContainsAny s chars \<longleftrightarrow> list_ex (\<lambda>c. c \<in> set chars) s"

definition strings_Contains :: "string \<Rightarrow> string \<Rightarrow> bool" where
  "strings_Contains s sub \<longleftrightarrow> sublist sub s"

fun strings_Join :: "string list \<Rightarrow> string \<Rightarrow> string" where
  "strings_Join [] sep = []"
| "strings_Join [x] sep = x"
| "strings_Join (x # y # ys) sep = x @ sep @ strings_Join (y # ys) sep"

lemma strings_Cut_join:
  "strings_Cut s c = (a, b, True) \<Longrightarrow> s = a @ c # b \<and> c \<notin> set a"
proof -
  assume "strings_Cut s c = (a, b, True)"
  then have c: "c \<in> set s" and a: "a = takeWhile (\<lambda>x. x \<noteq> c) s"
    and b: "b = tl (dropWhile (\<lambda>x. x \<noteq> c) s)"
    by (auto simp: strings_Cut_def split: if_splits)
  from c obtain d ds where d: "dropWhile (\<lambda>x. x \<noteq> c) s = d # ds"
    by (cases "dropWhile (\<lambda>x. x \<noteq> c) s") (auto simp: dropWhile_eq_Nil_conv)
  then have "d = c" using hd_dropWhile [of "\<lambda>x. x \<noteq> c" s] by simp
  with a b d have "s = a @ c # b"
    using takeWhile_dropWhile_id [of "\<lambda>x. x \<noteq> c" s] by simp
  moreover from a have "c \<notin> set a" by (auto dest: set_takeWhileD)
  ultimately show ?thesis by simp
qed

section \<open>The slices package\<close>

text \<open>
  \<open>slices.Sort\<close> and \<open>slices.SortFunc\<close> on a key, \<open>slices.Compact\<close> (drops equal neighbours)
  and \<open>slices.Contains\<close>. Go's sort is not stable; where two elements could have equal keys
  the components say why the order is still determined.
\<close>

abbreviation slices_Sort :: "'a::linorder list \<Rightarrow> 'a list" where
  "slices_Sort \<equiv> sort"

abbreviation slices_SortFunc :: "('a \<Rightarrow> 'k::linorder) \<Rightarrow> 'a list \<Rightarrow> 'a list" where
  "slices_SortFunc \<equiv> sort_key"

abbreviation slices_Compact :: "'a list \<Rightarrow> 'a list" where
  "slices_Compact \<equiv> remdups_adj"

definition slices_Contains :: "'a list \<Rightarrow> 'a \<Rightarrow> bool" where
  "slices_Contains xs x \<longleftrightarrow> x \<in> set xs"

lemma slices_Contains_iff [slice_simps, simp]: "slices_Contains xs x \<longleftrightarrow> x \<in> set xs"
  by (simp add: slices_Contains_def)

lemma sorted_compact_strict:
  "sorted xs \<Longrightarrow> sorted (slices_Compact xs) \<and> distinct (slices_Compact xs)"
proof (induction xs rule: remdups_adj.induct)
  case (3 x y xs)
  then show ?case
    by (cases "x = y") (auto simp: remdups_adj_set)
qed simp_all

lemma sorted_strict_unique:
  fixes xs ys :: "'a::linorder list"
  assumes "sorted xs" "distinct xs" "sorted ys" "distinct ys" "set xs = set ys"
  shows "xs = ys"
  using assms by (metis sorted_distinct_set_unique)

text \<open>Sorting on a key that determines the element gives one list for one set.\<close>

lemma sort_key_unique:
  assumes "mset xs = mset ys" and "distinct (map f xs)"
  shows "slices_SortFunc f xs = slices_SortFunc f ys"
proof (rule sort_key_inj_key_eq)
  show "mset xs = mset (slices_SortFunc f ys)" using assms(1) by simp
  show "inj_on f (set xs)" using assms(2) by (simp add: distinct_map)
qed simp

text \<open>The three results of a step, taken apart.\<close>

lemma triple_parts: "x = (fst x, fst (snd x), snd (snd x))"
  by simp

section \<open>What a run adds to a history\<close>

text \<open>The effects of a run are the calls it appends to the history of calls: all of them satisfy a predicate.\<close>

definition emits :: "('c \<Rightarrow> bool) \<Rightarrow> 'c list \<Rightarrow> 'c list \<Rightarrow> bool" where
  "emits P h h' \<longleftrightarrow> (\<exists>cs. h' = h @ cs \<and> list_all P cs)"

named_theorems emits_intros \<open>what the operations add to the history\<close>

lemma emits_refl [simp, emits_intros]: "emits P h h"
  by (simp add: emits_def)

lemma emits_trans: "emits P h h' \<Longrightarrow> emits P h' h'' \<Longrightarrow> emits P h h''"
  by (auto simp: emits_def)

lemma emits_snoc [emits_intros]: "P c \<Longrightarrow> emits P h h' \<Longrightarrow> emits P h (h' @ [c])"
  by (auto simp: emits_def)

lemma emits_one [simp]: "emits P h (h @ [c]) \<longleftrightarrow> P c"
  by (auto simp: emits_def)

lemma emits_mono: "emits P h h' \<Longrightarrow> (\<And>c. P c \<Longrightarrow> Q c) \<Longrightarrow> emits Q h h'"
  by (auto simp: emits_def list_all_iff)

end
