(* ===== verification/Go_Errors.thy ===== *)
theory Go_Errors
  imports Go_Prelude
begin

text \<open>
  Errors and messages.

  A Go \<open>error\<close> is a value of \<open>error\<close>: an API status error of Kubernetes, one of the
  sentinels of \<open>internal/fsclient/client.go\<close>, an HTTP status of the admin API, an S3 error
  code, a fresh error, or one of these wrapped by \<open>errors.Wrap\<close>. A function that may fail
  returns \<open>error + 'a\<close>, or \<open>error option\<close> when success carries no value.

  The text of a message is kept as the format string of the source and its arguments
  (\<open>Sprintf fmt args\<close>); what is never looked at, the formatting itself, is not modelled.
\<close>

section \<open>Errors\<close>

datatype apierr = NotFound | AlreadyExists | OtherApi string

datatype sentinel = ErrNoLayout | ErrLayoutRejected | ErrBucketNotFound | ErrSchemeRejected

datatype error =
    ApiError apierr
  | Sentinel sentinel
  | AdminStatus int string
  | S3Error string
  | NewError string "string list"
  | Wrap error string "string list"

type_synonym 'a result = "error + 'a"

text \<open>\<open>errors.Is\<close>, \<open>apierrors.IsNotFound\<close> and \<open>apierrors.IsAlreadyExists\<close> look through wrapping.\<close>

primrec errors_Is :: "error \<Rightarrow> sentinel \<Rightarrow> bool" where
  "errors_Is (ApiError a) s = False"
| "errors_Is (Sentinel t) s = (t = s)"
| "errors_Is (AdminStatus c m) s = False"
| "errors_Is (S3Error c) s = False"
| "errors_Is (NewError f as) s = False"
| "errors_Is (Wrap e f as) s = errors_Is e s"

primrec api_cause :: "error \<Rightarrow> apierr option" where
  "api_cause (ApiError a) = Some a"
| "api_cause (Sentinel t) = None"
| "api_cause (AdminStatus c m) = None"
| "api_cause (S3Error c) = None"
| "api_cause (NewError f as) = None"
| "api_cause (Wrap e f as) = api_cause e"

definition isNotFound :: "error \<Rightarrow> bool" where
  "isNotFound e \<longleftrightarrow> api_cause e = Some NotFound"

definition isAlreadyExists :: "error \<Rightarrow> bool" where
  "isAlreadyExists e \<longleftrightarrow> api_cause e = Some AlreadyExists"

text \<open>\<open>client.IgnoreNotFound\<close>.\<close>

definition ignoreNotFound :: "error \<Rightarrow> error option" where
  "ignoreNotFound e = (if isNotFound e then None else Some e)"

lemma isNotFound_Wrap [simp]: "isNotFound (Wrap e f as) = isNotFound e"
  by (simp add: isNotFound_def)

lemma isAlreadyExists_Wrap [simp]: "isAlreadyExists (Wrap e f as) = isAlreadyExists e"
  by (simp add: isAlreadyExists_def)

lemma isNotFound_base [simp]:
  "isNotFound (ApiError a) = (a = NotFound)" "\<not> isNotFound (Sentinel s)"
  by (simp_all add: isNotFound_def)

section \<open>Messages\<close>

datatype message = Sprintf string "arg list"
  and arg =
    AS string
  | AD int
  | AV "string list"
  | AVD "int list"
  | AE error
  | AM message

abbreviation msg :: "string \<Rightarrow> message" where
  "msg s \<equiv> Sprintf s []"

text \<open>The empty string, the zero value of a message.\<close>

definition no_message :: message where
  "no_message = msg []"

end
