(* ===== verification/Api_Types.thy ===== *)
theory Api_Types
  imports Go_Errors
begin

text \<open>
  The custom resources of \<open>api/v1alpha1\<close>: \<open>fscluster_types.go\<close>, \<open>fsbucket_types.go\<close>,
  \<open>fsaccesskey_types.go\<close> and the condition vocabulary of \<open>conditions.go\<close>. A struct is a
  record with the source's fields in the source's order, prefixed by the record they belong
  to; a pointer field is an \<open>option\<close>; a typed string keeps its string, so that the zero value
  is the empty string as in Go. The Kubernetes value types a spec only carries through
  (resource requirements, tolerations, environment variables) are records of the fields
  Kubernetes documents for them.
\<close>

section \<open>Kubernetes values carried through\<close>

type_synonym LocalObjectReference = string

record ResourceRequirements =
  res_Limits :: "(string, Quantity) gomap"
  res_Requests :: "(string, Quantity) gomap"

record Toleration =
  tol_Key :: string
  tol_Operator :: string
  tol_Value :: string
  tol_Effect :: string

text \<open>Where an environment variable's value comes from: a key of a Secret, or a source the
  operator never builds and only passes on.\<close>

datatype EnvVarSource = SecretKeyRef string string | OtherSource string

record EnvVar =
  env_Name :: string
  env_Value :: string
  env_ValueFrom :: "EnvVarSource option"

section \<open>FSClusterSpec\<close>

record ImageSpec =
  img_Repository :: string
  img_Tag :: string
  img_Digest :: string
  img_PullPolicy :: string
  img_PullSecrets :: "LocalObjectReference list"

record RackSpec =
  rack_Name :: string
  rack_Nodes :: int32
  rack_Zone :: string
  rack_NodeSelector :: "(string, string) gomap"

record TopologySpec =
  topo_Nodes :: "int32 option"
  topo_Racks :: "RackSpec list"
  topo_PodAntiAffinity :: string

record StorageSpec =
  sto_Size :: Quantity
  sto_StorageClass :: string
  sto_ReclaimPolicy :: string

record LayoutSpec =
  lay_Widths :: "int32 list"

record AuthSpec =
  auth_RootCredentialsSecretRef :: "LocalObjectReference option"
  auth_PublicReadBuckets :: "string list"

record S3ServiceSpec =
  svc_Type :: string
  svc_Port :: int32
  svc_Annotations :: "(string, string) gomap"

record S3TLSSpec =
  tls_SecretName :: string

record S3Spec =
  s3_Service :: S3ServiceSpec
  s3_TLS :: S3TLSSpec

text \<open>A \<open>metav1.Duration\<close> is its number of nanoseconds.\<close>

type_synonym Duration = int

record UpdatePolicySpec =
  upd_ConvergenceTimeout :: "Duration option"

record OTLPSpec =
  otlp_Endpoint :: string
  otlp_Protocol :: string

record SignalSpec =
  sig_Exporter :: string
  sig_Endpoint :: string
  sig_Protocol :: string

text \<open>\<open>MetricsSpec\<close> has the fields of \<open>SignalSpec\<close>.\<close>

record MetricsSpec =
  met_Exporter :: string
  met_Endpoint :: string
  met_Protocol :: string

record ObservabilitySpec =
  obs_OTLP :: OTLPSpec
  obs_Traces :: SignalSpec
  obs_Logs :: SignalSpec
  obs_Metrics :: MetricsSpec
  obs_LogLevel :: string
  obs_PodMonitor :: bool
  obs_Pprof :: "bool option"
  obs_ResourceAttributes :: "(string, string) gomap"

record PodTemplate =
  pt_Resources :: ResourceRequirements
  pt_NodeSelector :: "(string, string) gomap"
  pt_Tolerations :: "Toleration list"
  pt_PriorityClassName :: string
  pt_Annotations :: "(string, string) gomap"
  pt_Labels :: "(string, string) gomap"
  pt_ExtraEnv :: "EnvVar list"

record FSClusterSpec =
  spec_Image :: ImageSpec
  spec_Topology :: TopologySpec
  spec_Storage :: StorageSpec
  spec_Layout :: LayoutSpec
  spec_ClusterSecretRef :: "LocalObjectReference option"
  spec_Auth :: AuthSpec
  spec_S3 :: S3Spec
  spec_UpdatePolicy :: UpdatePolicySpec
  spec_Observability :: ObservabilitySpec
  spec_NetworkPolicy :: bool
  spec_PodTemplate :: PodTemplate

section \<open>Typed strings\<close>

definition AntiAffinityRequired :: string where "AntiAffinityRequired = ''Required''"
definition AntiAffinityPreferred :: string where "AntiAffinityPreferred = ''Preferred''"
definition AntiAffinityNone :: string where "AntiAffinityNone = ''None''"

definition ReclaimRetain :: string where "ReclaimRetain = ''Retain''"
definition ReclaimDelete :: string where "ReclaimDelete = ''Delete''"

definition UpdatePhasePreflight :: string where "UpdatePhasePreflight = ''Preflight''"
definition UpdatePhaseRollingNodes :: string where "UpdatePhaseRollingNodes = ''RollingNodes''"
definition UpdatePhaseDraining :: string where "UpdatePhaseDraining = ''Draining''"

lemmas phase_defs = UpdatePhasePreflight_def UpdatePhaseRollingNodes_def UpdatePhaseDraining_def

lemma phases_distinct [simp]:
  "UpdatePhasePreflight \<noteq> UpdatePhaseRollingNodes" "UpdatePhaseRollingNodes \<noteq> UpdatePhasePreflight"
  "UpdatePhasePreflight \<noteq> UpdatePhaseDraining" "UpdatePhaseDraining \<noteq> UpdatePhasePreflight"
  "UpdatePhaseRollingNodes \<noteq> UpdatePhaseDraining" "UpdatePhaseDraining \<noteq> UpdatePhaseRollingNodes"
  by (simp_all add: phase_defs)

section \<open>Conditions and their reasons\<close>

type_synonym ConditionType = string
type_synonym ConditionReason = string

definition ConditionSpecValid :: ConditionType where "ConditionSpecValid = ''SpecValid''"
definition ConditionReconcileSucceeded :: ConditionType where
  "ConditionReconcileSucceeded = ''ReconcileSucceeded''"
definition ConditionReady :: ConditionType where "ConditionReady = ''Ready''"
definition ConditionNodesHealthy :: ConditionType where "ConditionNodesHealthy = ''NodesHealthy''"
definition ConditionClusterSizeAligned :: ConditionType where
  "ConditionClusterSizeAligned = ''ClusterSizeAligned''"
definition ConditionConfigurationInSync :: ConditionType where
  "ConditionConfigurationInSync = ''ConfigurationInSync''"
definition ConditionConverged :: ConditionType where "ConditionConverged = ''Converged''"

lemmas condition_type_defs =
  ConditionSpecValid_def ConditionReconcileSucceeded_def ConditionReady_def
  ConditionNodesHealthy_def ConditionClusterSizeAligned_def ConditionConfigurationInSync_def
  ConditionConverged_def

lemma condition_types_distinct: "distinct
  [ConditionSpecValid, ConditionReconcileSucceeded, ConditionReady, ConditionNodesHealthy,
   ConditionClusterSizeAligned, ConditionConfigurationInSync, ConditionConverged]"
  by (simp add: condition_type_defs)

lemma condition_types_neq [simp]:
  "ConditionSpecValid \<noteq> ConditionReady" "ConditionReady \<noteq> ConditionSpecValid"
  "ConditionSpecValid \<noteq> ConditionReconcileSucceeded" "ConditionReconcileSucceeded \<noteq> ConditionSpecValid"
  "ConditionSpecValid \<noteq> ConditionNodesHealthy" "ConditionNodesHealthy \<noteq> ConditionSpecValid"
  "ConditionSpecValid \<noteq> ConditionClusterSizeAligned" "ConditionClusterSizeAligned \<noteq> ConditionSpecValid"
  "ConditionSpecValid \<noteq> ConditionConfigurationInSync" "ConditionConfigurationInSync \<noteq> ConditionSpecValid"
  "ConditionSpecValid \<noteq> ConditionConverged" "ConditionConverged \<noteq> ConditionSpecValid"
  "ConditionReconcileSucceeded \<noteq> ConditionReady" "ConditionReady \<noteq> ConditionReconcileSucceeded"
  "ConditionReconcileSucceeded \<noteq> ConditionNodesHealthy" "ConditionNodesHealthy \<noteq> ConditionReconcileSucceeded"
  "ConditionReconcileSucceeded \<noteq> ConditionClusterSizeAligned" "ConditionClusterSizeAligned \<noteq> ConditionReconcileSucceeded"
  "ConditionReconcileSucceeded \<noteq> ConditionConfigurationInSync" "ConditionConfigurationInSync \<noteq> ConditionReconcileSucceeded"
  "ConditionReconcileSucceeded \<noteq> ConditionConverged" "ConditionConverged \<noteq> ConditionReconcileSucceeded"
  "ConditionReady \<noteq> ConditionNodesHealthy" "ConditionNodesHealthy \<noteq> ConditionReady"
  "ConditionReady \<noteq> ConditionClusterSizeAligned" "ConditionClusterSizeAligned \<noteq> ConditionReady"
  "ConditionReady \<noteq> ConditionConfigurationInSync" "ConditionConfigurationInSync \<noteq> ConditionReady"
  "ConditionReady \<noteq> ConditionConverged" "ConditionConverged \<noteq> ConditionReady"
  "ConditionNodesHealthy \<noteq> ConditionClusterSizeAligned" "ConditionClusterSizeAligned \<noteq> ConditionNodesHealthy"
  "ConditionNodesHealthy \<noteq> ConditionConfigurationInSync" "ConditionConfigurationInSync \<noteq> ConditionNodesHealthy"
  "ConditionNodesHealthy \<noteq> ConditionConverged" "ConditionConverged \<noteq> ConditionNodesHealthy"
  "ConditionClusterSizeAligned \<noteq> ConditionConfigurationInSync" "ConditionConfigurationInSync \<noteq> ConditionClusterSizeAligned"
  "ConditionClusterSizeAligned \<noteq> ConditionConverged" "ConditionConverged \<noteq> ConditionClusterSizeAligned"
  "ConditionConfigurationInSync \<noteq> ConditionConverged" "ConditionConverged \<noteq> ConditionConfigurationInSync"
  by (simp_all add: condition_type_defs)

definition ReasonSpecValid :: ConditionReason where "ReasonSpecValid = ''SpecValid''"
definition ReasonSpecInvalid :: ConditionReason where "ReasonSpecInvalid = ''SpecInvalid''"
definition ReasonReconcileFinished :: ConditionReason where
  "ReasonReconcileFinished = ''ReconcileFinished''"
definition ReasonReconcileError :: ConditionReason where "ReasonReconcileError = ''ReconcileError''"
definition ReasonLayoutTopologyMismatch :: ConditionReason where
  "ReasonLayoutTopologyMismatch = ''LayoutTopologyMismatch''"
definition ReasonUnsupportedTopology :: ConditionReason where
  "ReasonUnsupportedTopology = ''UnsupportedTopology''"
definition ReasonStorageShrinkForbidden :: ConditionReason where
  "ReasonStorageShrinkForbidden = ''StorageShrinkForbidden''"
definition ReasonStorageExpanding :: ConditionReason where
  "ReasonStorageExpanding = ''StorageExpanding''"
definition ReasonAllNodesReady :: ConditionReason where "ReasonAllNodesReady = ''AllNodesReady''"
definition ReasonNodesNotReady :: ConditionReason where "ReasonNodesNotReady = ''NodesNotReady''"
definition ReasonQuorumAvailable :: ConditionReason where
  "ReasonQuorumAvailable = ''QuorumAvailable''"
definition ReasonQuorumUnavailable :: ConditionReason where
  "ReasonQuorumUnavailable = ''QuorumUnavailable''"
definition ReasonUpToDate :: ConditionReason where "ReasonUpToDate = ''UpToDate''"
definition ReasonScalingUp :: ConditionReason where "ReasonScalingUp = ''ScalingUp''"
definition ReasonDraining :: ConditionReason where "ReasonDraining = ''Draining''"
definition ReasonRollingNodes :: ConditionReason where "ReasonRollingNodes = ''RollingNodes''"
definition ReasonConfigReloadPending :: ConditionReason where
  "ReasonConfigReloadPending = ''ConfigReloadPending''"
definition ReasonConverged :: ConditionReason where "ReasonConverged = ''Converged''"
definition ReasonConvergenceTimeout :: ConditionReason where
  "ReasonConvergenceTimeout = ''ConvergenceTimeout''"
definition ReasonLayoutPending :: ConditionReason where "ReasonLayoutPending = ''LayoutPending''"
definition ReasonLayoutRejected :: ConditionReason where "ReasonLayoutRejected = ''LayoutRejected''"
definition ReasonLayoutTransition :: ConditionReason where
  "ReasonLayoutTransition = ''LayoutTransition''"
definition ReasonBucketReady :: ConditionReason where "ReasonBucketReady = ''BucketReady''"
definition ReasonBucketNotEmpty :: ConditionReason where "ReasonBucketNotEmpty = ''BucketNotEmpty''"
definition ReasonClusterNotFound :: ConditionReason where
  "ReasonClusterNotFound = ''ClusterNotFound''"
definition ReasonClusterNotReady :: ConditionReason where
  "ReasonClusterNotReady = ''ClusterNotReady''"
definition ReasonSchemeRejected :: ConditionReason where "ReasonSchemeRejected = ''SchemeRejected''"
definition ReasonBucketError :: ConditionReason where "ReasonBucketError = ''BucketError''"
definition ReasonKeyAccepted :: ConditionReason where "ReasonKeyAccepted = ''KeyAccepted''"
definition ReasonWeakSecretKey :: ConditionReason where "ReasonWeakSecretKey = ''WeakSecretKey''"
definition ReasonSecretNotFound :: ConditionReason where "ReasonSecretNotFound = ''SecretNotFound''"
definition ReasonSecretInvalid :: ConditionReason where "ReasonSecretInvalid = ''SecretInvalid''"

text \<open>\<open>metav1.ConditionStatus\<close> and \<open>metav1.Condition\<close>; the transition time is the API
  machinery's business (\<open>meta.SetStatusCondition\<close>) and nothing in the operator reads it.\<close>

datatype ConditionStatus = ConditionTrue | ConditionFalse | ConditionUnknown

record Condition =
  cond_Type :: ConditionType
  cond_Status :: ConditionStatus
  cond_Reason :: ConditionReason
  cond_Message :: message
  cond_ObservedGeneration :: int64

section \<open>FSClusterStatus\<close>

type_synonym Time = int

record LayoutStatus =
  ls_Version :: int64
  ls_Members :: int32
  ls_Widths :: "int32 list"
  ls_RetainedVersions :: "int64 list"

record UpdateStatus =
  us_Phase :: string
  us_Node :: string
  us_StartedAt :: "Time option"

record EndpointsStatus =
  ep_S3 :: string

record FSClusterStatus =
  st_ObservedGeneration :: int64
  st_Nodes :: int32
  st_ReadyNodes :: int32
  st_UpNodes :: int32
  st_ConfigurationRevision :: string
  st_StatefulSetRevision :: string
  st_CurrentRevision :: string
  st_UpdateRevision :: string
  st_Layout :: "LayoutStatus option"
  st_Update :: "UpdateStatus option"
  st_Endpoints :: "EndpointsStatus option"
  st_Conditions :: "Condition list"

text \<open>The object: of the metadata, what the code reads. The deletion timestamp is an option.\<close>

record FSCluster =
  fsc_Name :: string
  fsc_Namespace :: string
  fsc_Generation :: int64
  fsc_DeletionTimestamp :: "Time option"
  fsc_Spec :: FSClusterSpec
  fsc_Status :: FSClusterStatus

section \<open>FSBucket and FSAccessKey\<close>

record FSBucketSpec =
  bs_ClusterRef :: string
  bs_BucketName :: string
  bs_Scheme :: string
  bs_ReclaimPolicy :: string

record FSBucketStatus =
  bst_ObservedGeneration :: int64
  bst_Scheme :: string
  bst_Conditions :: "Condition list"

record FSBucket =
  fsb_Name :: string
  fsb_Namespace :: string
  fsb_Generation :: int64
  fsb_DeletionTimestamp :: "Time option"
  fsb_Finalizers :: "string list"
  fsb_Spec :: FSBucketSpec
  fsb_Status :: FSBucketStatus

record GrantSpec =
  gr_Bucket :: string
  gr_Permission :: string

record FSAccessKeySpec =
  aks_ClusterRef :: string
  aks_SecretName :: string
  aks_ExistingSecretRef :: "LocalObjectReference option"
  aks_Grants :: "GrantSpec list"

record FSAccessKeyStatus =
  akst_ObservedGeneration :: int64
  akst_AccessKey :: string
  akst_Conditions :: "Condition list"

record FSAccessKey =
  ak_Name :: string
  ak_Namespace :: string
  ak_Generation :: int64
  ak_DeletionTimestamp :: "Time option"
  ak_Finalizers :: "string list"
  ak_Annotations :: "(string, string) gomap"
  ak_Spec :: FSAccessKeySpec
  ak_Status :: FSAccessKeyStatus

end
