(* ===== verification/Api_Defaults.thy ===== *)
theory Api_Defaults
  imports Api_Types
begin

text \<open>
  \<open>api/v1alpha1/defaults.go\<close>: the static defaults, the registry rewrite, and the functions
  that expand and measure a topology. \<open>schema_topology\<close> is what the CRD schema admits (the
  kubebuilder markers of \<open>TopologySpec\<close> and \<open>RackSpec\<close>); under it the \<open>int32\<close> sum of
  \<open>TotalNodes\<close> does not wrap and the node names are distinct.

  A \<open>make\<close> with a negative capacity panics in Go: the functions that allocate return
  \<open>None\<close> then, and only then.
\<close>

section \<open>Static defaults\<close>

definition DefaultImageRepository :: string where
  "DefaultImageRepository = ''ghcr.io/go-faster/fs''"
definition DefaultImageTag :: string where "DefaultImageTag = ''v0.15.0''"
definition DefaultLayoutWidth :: int32 where "DefaultLayoutWidth = 3"
definition DefaultS3Port :: int32 where "DefaultS3Port = 8080"
definition DefaultConvergenceTimeout :: Duration where
  "DefaultConvergenceTimeout = 30 * 60 * 1000000000"
definition DefaultLogLevel :: string where "DefaultLogLevel = ''info''"
definition SDKDefaultOTLPProtocol :: string where "SDKDefaultOTLPProtocol = ''grpc''"
definition ExporterOTLP :: string where "ExporterOTLP = ''otlp''"
definition ExporterPrometheus :: string where "ExporterPrometheus = ''prometheus''"
definition ExporterNone :: string where "ExporterNone = ''none''"
definition PullIfNotPresent :: string where "PullIfNotPresent = ''IfNotPresent''"
definition ServiceTypeClusterIP :: string where "ServiceTypeClusterIP = ''ClusterIP''"

lemmas exporter_defs = ExporterOTLP_def ExporterPrometheus_def ExporterNone_def

lemmas default_defs = DefaultImageRepository_def DefaultImageTag_def DefaultLayoutWidth_def
  DefaultS3Port_def DefaultConvergenceTimeout_def DefaultLogLevel_def PullIfNotPresent_def
  ServiceTypeClusterIP_def AntiAffinityRequired_def ReclaimRetain_def

section \<open>ApplyRegistry\<close>

definition ApplyRegistry :: "string \<Rightarrow> string \<Rightarrow> string" where
  "ApplyRegistry repository registry =
     (if registry = [] \<or> repository = [] then repository
      else
        let registry' = strings_TrimSuffix registry ''/''
        in case strings_Cut repository (CHR ''/'') of
             (host, rest, ok) \<Rightarrow>
               if ok \<and> strings_ContainsAny host ''.:'' then registry' @ ''/'' @ rest
               else registry' @ ''/'' @ repository)"

section \<open>WithDefaults\<close>

definition or_default :: "string \<Rightarrow> string \<Rightarrow> string" where
  "or_default s d = (if s = [] then d else s)"

definition withSignalDefaults :: "ObservabilitySpec \<Rightarrow> ObservabilitySpec" where
  "withSignalDefaults o0 =
     (let o1 =
        (if sig_Exporter (obs_Traces o0) = []
         then o0\<lparr>obs_Traces := (obs_Traces o0)\<lparr>sig_Exporter :=
                (if sig_Endpoint (obs_Traces o0) \<noteq> [] \<or> otlp_Endpoint (obs_OTLP o0) \<noteq> []
                 then ExporterOTLP else ExporterNone)\<rparr>\<rparr>
         else o0);
          o2 =
        (if sig_Exporter (obs_Logs o1) = []
         then o1\<lparr>obs_Logs := (obs_Logs o1)\<lparr>sig_Exporter := ExporterNone\<rparr>\<rparr> else o1)
      in if met_Exporter (obs_Metrics o2) = []
         then o2\<lparr>obs_Metrics := (obs_Metrics o2)\<lparr>met_Exporter := ExporterPrometheus\<rparr>\<rparr> else o2)"

definition WithDefaults :: "FSClusterSpec \<Rightarrow> FSClusterSpec" where
  "WithDefaults s =
     (let img = spec_Image s;
          img' = img\<lparr>img_Repository := or_default (img_Repository img) DefaultImageRepository,
                     img_Tag := or_default (img_Tag img) DefaultImageTag,
                     img_PullPolicy := or_default (img_PullPolicy img) PullIfNotPresent\<rparr>;
          lay = spec_Layout s;
          lay' = (if lay_Widths lay = [] then lay\<lparr>lay_Widths := [DefaultLayoutWidth]\<rparr> else lay);
          topo = spec_Topology s;
          topo' = topo\<lparr>topo_PodAntiAffinity :=
                    or_default (topo_PodAntiAffinity topo) AntiAffinityRequired\<rparr>;
          sto = spec_Storage s;
          sto' = sto\<lparr>sto_ReclaimPolicy := or_default (sto_ReclaimPolicy sto) ReclaimRetain\<rparr>;
          svc = s3_Service (spec_S3 s);
          svc' = svc\<lparr>svc_Type := or_default (svc_Type svc) ServiceTypeClusterIP,
                     svc_Port := (if svc_Port svc = 0 then DefaultS3Port else svc_Port svc)\<rparr>;
          upd = spec_UpdatePolicy s;
          upd' = (if upd_ConvergenceTimeout upd = None
                  then upd\<lparr>upd_ConvergenceTimeout := Some DefaultConvergenceTimeout\<rparr> else upd);
          obs = spec_Observability s;
          obs' = obs\<lparr>obs_LogLevel := or_default (obs_LogLevel obs) DefaultLogLevel,
                     obs_Pprof := (if obs_Pprof obs = None then Some True else obs_Pprof obs)\<rparr>
      in s\<lparr>spec_Image := img', spec_Layout := lay', spec_Topology := topo', spec_Storage := sto',
           spec_S3 := (spec_S3 s)\<lparr>s3_Service := svc'\<rparr>, spec_UpdatePolicy := upd',
           spec_Observability := withSignalDefaults obs'\<rparr>)"

section \<open>Names and counts of a topology\<close>

definition NodeName :: "string \<Rightarrow> string \<Rightarrow> int \<Rightarrow> string" where
  "NodeName cluster rack index =
     (if rack = [] then cluster @ ''-'' @ itoa index
      else cluster @ ''-'' @ rack @ ''-'' @ itoa index)"

definition TotalNodes :: "FSClusterSpec \<Rightarrow> int32" where
  "TotalNodes s = (case topo_Nodes (spec_Topology s) of
      Some n \<Rightarrow> n
    | None \<Rightarrow> fold (\<lambda>rack total. i32 (total + rack_Nodes rack)) (topo_Racks (spec_Topology s)) 0)"

text \<open>The indices of \<open>for i := range int(n)\<close>; a negative \<open>n\<close> runs no iteration.\<close>

definition range_int :: "int \<Rightarrow> int list" where
  "range_int n = map int [0 ..< nat n]"

definition NodeNames :: "FSClusterSpec \<Rightarrow> string \<Rightarrow> string list option" where
  "NodeNames s cluster =
     (if TotalNodes s < 0 then None
      else Some (case topo_Nodes (spec_Topology s) of
          Some n \<Rightarrow> map (NodeName cluster []) (range_int n)
        | None \<Rightarrow> concat (map (\<lambda>rack. map (NodeName cluster (rack_Name rack)) (range_int (rack_Nodes rack)))
                     (topo_Racks (spec_Topology s)))))"

definition SingleNode :: "FSClusterSpec \<Rightarrow> bool" where
  "SingleNode s \<longleftrightarrow> TotalNodes s = 1"

text \<open>The loop of \<open>FailureDomains\<close>: \<open>None\<close> is its early return at a rack without a zone.\<close>

fun rack_zones :: "RackSpec list \<Rightarrow> string list \<Rightarrow> string list option" where
  "rack_zones [] zones = Some zones"
| "rack_zones (rack # racks) zones =
     (if rack_Zone rack = [] then None else rack_zones racks (List.insert (rack_Zone rack) zones))"

definition FailureDomains :: "FSClusterSpec \<Rightarrow> int32" where
  "FailureDomains s = (case topo_Nodes (spec_Topology s) of
      Some n \<Rightarrow> n
    | None \<Rightarrow>
        (let racks = topo_Racks (spec_Topology s)
         in case rack_zones racks [] of
              None \<Rightarrow> i32 (int (length racks))
            | Some zones \<Rightarrow>
                if 1 < length zones then i32 (int (length zones)) else i32 (int (length racks))))"

definition MaxWidth :: "FSClusterSpec \<Rightarrow> int32" where
  "MaxWidth s = (case lay_Widths (spec_Layout s) of
      [] \<Rightarrow> DefaultLayoutWidth
    | w # ws \<Rightarrow> fold max ws w)"

definition FSBucketSpec_WithDefaults :: "FSBucketSpec \<Rightarrow> string \<Rightarrow> FSBucketSpec" where
  "FSBucketSpec_WithDefaults s name =
     s\<lparr>bs_BucketName := or_default (bs_BucketName s) name,
       bs_ReclaimPolicy := or_default (bs_ReclaimPolicy s) ReclaimRetain\<rparr>"

definition CredentialsSecretName :: "FSAccessKeySpec \<Rightarrow> string \<Rightarrow> string" where
  "CredentialsSecretName s name =
     (if aks_ExistingSecretRef s \<noteq> None then []
      else if aks_SecretName s \<noteq> [] then aks_SecretName s
      else name @ ''-credentials'')"

section \<open>What the CRD schema admits\<close>

definition schema_rack :: "RackSpec \<Rightarrow> bool" where
  "schema_rack r \<longleftrightarrow> rack_Name r \<noteq> [] \<and> 1 \<le> rack_Nodes r \<and> rack_Nodes r \<le> 16"

definition schema_topology :: "TopologySpec \<Rightarrow> bool" where
  "schema_topology t \<longleftrightarrow>
     (case topo_Nodes t of
        Some n \<Rightarrow> topo_Racks t = [] \<and> 1 \<le> n \<and> n \<le> 16 \<and> n \<noteq> 2
      | None \<Rightarrow> topo_Racks t \<noteq> [] \<and> length (topo_Racks t) \<le> 16 \<and> list_all schema_rack (topo_Racks t)
               \<and> distinct (map rack_Name (topo_Racks t)))"

section \<open>Facts about names\<close>

lemma split_last_separator:
  assumes "a @ c # s = b @ c # t" and "c \<notin> set s" and "c \<notin> set t"
  shows "a = b \<and> s = t"
proof -
  have tw: "c \<notin> set u \<Longrightarrow> takeWhile (\<lambda>x. x \<noteq> c) (rev (v @ c # u)) = rev u" for u v
    by (subst rev_append, subst rev.simps, subst append_assoc, subst takeWhile_append2) auto
  have "rev s = rev t"
    using tw [OF assms(2), of a] tw [OF assms(3), of b] assms(1) by simp
  with assms(1) show ?thesis by simp
qed

lemma NodeName_inj:
  assumes "NodeName c r (int i) = NodeName c r' (int j)" and "r \<noteq> [] \<longleftrightarrow> r' \<noteq> []"
  shows "r = r' \<and> i = j"
proof -
  have d: "CHR ''-'' \<notin> set (itoa_nat n)" for n by (rule itoa_nat_no_dash)
  show ?thesis
  proof (cases "r = []")
    case True
    with assms d show ?thesis by (auto simp: NodeName_def dest: itoa_nat_inj)
  next
    case False
    with assms have "r @ CHR ''-'' # itoa_nat i = r' @ CHR ''-'' # itoa_nat j"
      by (simp add: NodeName_def)
    from split_last_separator [OF this d d] show ?thesis by (auto dest: itoa_nat_inj)
  qed
qed

lemma distinct_node_range:
  "distinct (map (NodeName c r) (range_int n))"
proof -
  have "inj_on (\<lambda>i. NodeName c r (int i)) A" for A :: "nat set"
    by (rule inj_onI) (use NodeName_inj in blast)
  then show ?thesis by (simp add: range_int_def distinct_map comp_def)
qed

lemma set_node_range:
  "set (map (NodeName c r) (range_int n)) = (\<lambda>i. NodeName c r (int i)) ` {0 ..< nat n}"
  by (auto simp: range_int_def)

lemma distinct_rack_names:
  assumes "list_all schema_rack racks" and "distinct (map rack_Name racks)"
  shows "distinct (concat (map (\<lambda>r. map (NodeName c (rack_Name r)) (range_int (rack_Nodes r))) racks))"
  using assms
proof (induction racks)
  case Nil
  then show ?case by simp
next
  case (Cons r racks)
  let ?f = "\<lambda>r. map (NodeName c (rack_Name r)) (range_int (rack_Nodes r))"
  have "set (?f r) \<inter> set (concat (map ?f racks)) = {}"
  proof (rule ccontr)
    assume "\<not> ?thesis"
    then obtain r' i j where r': "r' \<in> set racks"
      and eq: "NodeName c (rack_Name r) (int i) = NodeName c (rack_Name r') (int j)"
      by (auto simp: range_int_def)
    from Cons.prems r' have "rack_Name r \<noteq> []" "rack_Name r' \<noteq> []" "rack_Name r \<noteq> rack_Name r'"
      by (auto simp: schema_rack_def list_all_iff)
    with NodeName_inj [OF eq] show False by simp
  qed
  with Cons show ?case by (simp add: distinct_node_range)
qed

section \<open>Facts about counts\<close>

lemma fold_rack_total:
  assumes "list_all schema_rack racks" and "0 \<le> t" and "t + 16 * int (length racks) \<le> 65535"
  shows "fold (\<lambda>rack total. i32 (total + rack_Nodes rack)) racks t = t + sum_list (map rack_Nodes racks)
    \<and> int (length racks) \<le> sum_list (map rack_Nodes racks)
    \<and> sum_list (map rack_Nodes racks) \<le> 16 * int (length racks)"
  using assms
proof (induction racks arbitrary: t)
  case Nil
  then show ?case by simp
next
  case (Cons r racks)
  then have r: "1 \<le> rack_Nodes r" "rack_Nodes r \<le> 16" by (simp_all add: schema_rack_def)
  with Cons.prems have "i32 (t + rack_Nodes r) = t + rack_Nodes r" by simp
  moreover have "t + rack_Nodes r + 16 * int (length racks) \<le> 65535"
    and "list_all schema_rack racks" and "0 \<le> t + rack_Nodes r"
    using Cons.prems r by simp_all
  ultimately show ?case
    using Cons.IH [of "t + rack_Nodes r"] r by simp
qed

lemma TotalNodes_racks:
  assumes "schema_topology (spec_Topology s)" and "topo_Nodes (spec_Topology s) = None"
  shows "TotalNodes s = sum_list (map rack_Nodes (topo_Racks (spec_Topology s)))
    \<and> 1 \<le> TotalNodes s \<and> TotalNodes s \<le> 256"
proof -
  let ?racks = "topo_Racks (spec_Topology s)"
  from assms have ok: "list_all schema_rack ?racks" and ne: "?racks \<noteq> []" and len: "length ?racks \<le> 16"
    by (simp_all add: schema_topology_def)
  from ne have "1 \<le> int (length ?racks)" by (cases ?racks) simp_all
  moreover from len have "0 + 16 * int (length ?racks) \<le> 65535" by simp
  ultimately show ?thesis
    using fold_rack_total [OF ok, of 0] assms(2) len by (simp add: TotalNodes_def)
qed

lemma length_range_int [simp]: "0 \<le> n \<Longrightarrow> int (length (range_int n)) = n"
  by (simp add: range_int_def)

lemma length_rack_names:
  "list_all schema_rack racks \<Longrightarrow>
   int (length (concat (map (\<lambda>r. map (NodeName c (rack_Name r)) (range_int (rack_Nodes r))) racks)))
     = sum_list (map rack_Nodes racks)"
  by (induction racks) (simp_all add: schema_rack_def)

lemma rack_zones_spec:
  "rack_zones racks zs =
     (if list_ex (\<lambda>r. rack_Zone r = []) racks then None
      else Some (fold List.insert (map rack_Zone racks) zs))"
  by (induction racks arbitrary: zs) auto

lemma fold_insert_zones:
  "distinct zs \<Longrightarrow> distinct (fold List.insert xs zs) \<and> set (fold List.insert xs zs) = set xs \<union> set zs"
  by (induction xs arbitrary: zs) auto

lemma zones_count:
  "length (fold List.insert xs []) = card (set xs)"
  using fold_insert_zones [of "[]" xs] distinct_card [of "fold List.insert xs []"] by simp

lemma fold_max_ge: "w \<le> fold max ws (w :: int) \<and> (\<forall>x \<in> set ws. x \<le> fold max ws w)
    \<and> fold max ws w \<in> insert w (set ws)"
proof (induction ws arbitrary: w)
  case (Cons a ws)
  from Cons.IH [of "max a w"] show ?case by (auto simp: max_def split: if_splits)
qed simp

lemma fold_max_upper: "x \<in> insert w (set ws) \<Longrightarrow> x \<le> fold max ws (w :: int)"
  using fold_max_ge [of w ws] by auto

lemma fold_max_in: "fold max ws (w :: int) \<in> insert w (set ws)"
  using fold_max_ge [of w ws] by auto

section \<open>Facts about registries\<close>

lemma strings_Cut_at:
  "c \<notin> set h \<Longrightarrow> strings_Cut (h @ c # r) c = (h, r, True)"
proof -
  assume c: "c \<notin> set h"
  then have "takeWhile (\<lambda>x. x \<noteq> c) (h @ c # r) = h" and "dropWhile (\<lambda>x. x \<noteq> c) (h @ c # r) = c # r"
    by (auto simp: takeWhile_append dropWhile_append)
  then show ?thesis by (simp add: strings_Cut_def)
qed

section \<open>Facts about defaulting\<close>

lemma or_default_idem [simp]: "d \<noteq> [] \<Longrightarrow> or_default (or_default s d) d = or_default s d"
  by (simp add: or_default_def)

lemma or_default_nonempty [simp]: "d \<noteq> [] \<Longrightarrow> or_default s d \<noteq> []"
  by (simp add: or_default_def)

lemma withSignalDefaults_frame [simp]:
  "obs_OTLP (withSignalDefaults o0) = obs_OTLP o0"
  "obs_LogLevel (withSignalDefaults o0) = obs_LogLevel o0"
  "obs_Pprof (withSignalDefaults o0) = obs_Pprof o0"
  "obs_PodMonitor (withSignalDefaults o0) = obs_PodMonitor o0"
  "obs_ResourceAttributes (withSignalDefaults o0) = obs_ResourceAttributes o0"
  "sig_Endpoint (obs_Traces (withSignalDefaults o0)) = sig_Endpoint (obs_Traces o0)"
  "sig_Endpoint (obs_Logs (withSignalDefaults o0)) = sig_Endpoint (obs_Logs o0)"
  "met_Endpoint (obs_Metrics (withSignalDefaults o0)) = met_Endpoint (obs_Metrics o0)"
  "sig_Protocol (obs_Traces (withSignalDefaults o0)) = sig_Protocol (obs_Traces o0)"
  "sig_Protocol (obs_Logs (withSignalDefaults o0)) = sig_Protocol (obs_Logs o0)"
  "met_Protocol (obs_Metrics (withSignalDefaults o0)) = met_Protocol (obs_Metrics o0)"
  by (simp_all add: withSignalDefaults_def Let_def)

lemma withSignalDefaults_fixed:
  assumes "sig_Exporter (obs_Traces o0) \<noteq> []" "sig_Exporter (obs_Logs o0) \<noteq> []"
    "met_Exporter (obs_Metrics o0) \<noteq> []"
  shows "withSignalDefaults o0 = o0"
  using assms by (simp add: withSignalDefaults_def)

lemma withSignalDefaults_exporters [simp]:
  "sig_Exporter (obs_Traces (withSignalDefaults o0)) \<noteq> []"
  "sig_Exporter (obs_Logs (withSignalDefaults o0)) \<noteq> []"
  "met_Exporter (obs_Metrics (withSignalDefaults o0)) \<noteq> []"
  by (simp_all add: withSignalDefaults_def Let_def exporter_defs)

lemma withSignalDefaults_idem [simp]:
  "withSignalDefaults (withSignalDefaults o0) = withSignalDefaults o0"
  by (rule withSignalDefaults_fixed) simp_all

lemma obs_update_same:
  "obs_LogLevel q = l \<Longrightarrow> obs_Pprof q = b \<Longrightarrow> q\<lparr>obs_LogLevel := l, obs_Pprof := b\<rparr> = q"
  by simp

lemma WithDefaults_fields:
  "spec_Image (WithDefaults s) = (spec_Image s)
     \<lparr>img_Repository := or_default (img_Repository (spec_Image s)) DefaultImageRepository,
      img_Tag := or_default (img_Tag (spec_Image s)) DefaultImageTag,
      img_PullPolicy := or_default (img_PullPolicy (spec_Image s)) PullIfNotPresent\<rparr>"
  "spec_Layout (WithDefaults s) = (if lay_Widths (spec_Layout s) = []
     then (spec_Layout s)\<lparr>lay_Widths := [DefaultLayoutWidth]\<rparr> else spec_Layout s)"
  "spec_Topology (WithDefaults s) = (spec_Topology s)
     \<lparr>topo_PodAntiAffinity := or_default (topo_PodAntiAffinity (spec_Topology s)) AntiAffinityRequired\<rparr>"
  "spec_Storage (WithDefaults s) = (spec_Storage s)
     \<lparr>sto_ReclaimPolicy := or_default (sto_ReclaimPolicy (spec_Storage s)) ReclaimRetain\<rparr>"
  "s3_Service (spec_S3 (WithDefaults s)) = (s3_Service (spec_S3 s))
     \<lparr>svc_Type := or_default (svc_Type (s3_Service (spec_S3 s))) ServiceTypeClusterIP,
      svc_Port := (if svc_Port (s3_Service (spec_S3 s)) = 0 then DefaultS3Port
                   else svc_Port (s3_Service (spec_S3 s)))\<rparr>"
  "s3_TLS (spec_S3 (WithDefaults s)) = s3_TLS (spec_S3 s)"
  "spec_UpdatePolicy (WithDefaults s) = (if upd_ConvergenceTimeout (spec_UpdatePolicy s) = None
     then (spec_UpdatePolicy s)\<lparr>upd_ConvergenceTimeout := Some DefaultConvergenceTimeout\<rparr>
     else spec_UpdatePolicy s)"
  "spec_Observability (WithDefaults s) = withSignalDefaults ((spec_Observability s)
     \<lparr>obs_LogLevel := or_default (obs_LogLevel (spec_Observability s)) DefaultLogLevel,
      obs_Pprof := (if obs_Pprof (spec_Observability s) = None then Some True
                    else obs_Pprof (spec_Observability s))\<rparr>)"
  "spec_ClusterSecretRef (WithDefaults s) = spec_ClusterSecretRef s"
  "spec_Auth (WithDefaults s) = spec_Auth s"
  "spec_NetworkPolicy (WithDefaults s) = spec_NetworkPolicy s"
  "spec_PodTemplate (WithDefaults s) = spec_PodTemplate s"
  by (simp_all add: WithDefaults_def Let_def)

lemma WithDefaults_topology [simp]:
  "topo_Nodes (spec_Topology (WithDefaults s)) = topo_Nodes (spec_Topology s)"
  "topo_Racks (spec_Topology (WithDefaults s)) = topo_Racks (spec_Topology s)"
  "sto_Size (spec_Storage (WithDefaults s)) = sto_Size (spec_Storage s)"
  by (simp_all add: WithDefaults_def Let_def)

lemma TotalNodes_WithDefaults [simp]: "TotalNodes (WithDefaults s) = TotalNodes s"
  by (simp add: TotalNodes_def split: option.split)

lemma SingleNode_WithDefaults [simp]: "SingleNode (WithDefaults s) = SingleNode s"
  by (simp add: SingleNode_def)

lemma FailureDomains_WithDefaults [simp]: "FailureDomains (WithDefaults s) = FailureDomains s"
  by (simp add: FailureDomains_def split: option.split)

lemma MaxWidth_WithDefaults [simp]: "MaxWidth (WithDefaults s) = MaxWidth s"
  by (simp add: MaxWidth_def WithDefaults_def Let_def split: list.splits)

lemma schema_topology_WithDefaults [simp]:
  "schema_topology (spec_Topology (WithDefaults s)) = schema_topology (spec_Topology s)"
  by (simp add: schema_topology_def split: option.split)

section \<open>Properties\<close>

text \<open>A complete spec for the concrete checks: \<open>sample_spec topology quantity\<close>.\<close>

definition sample_spec :: "TopologySpec \<Rightarrow> Quantity \<Rightarrow> FSClusterSpec" where
  "sample_spec topo qty =
     \<lparr>spec_Image = \<lparr>img_Repository = [], img_Tag = [], img_Digest = [], img_PullPolicy = [],
        img_PullSecrets = []\<rparr>,
      spec_Topology = topo,
      spec_Storage = \<lparr>sto_Size = qty, sto_StorageClass = [], sto_ReclaimPolicy = []\<rparr>,
      spec_Layout = \<lparr>lay_Widths = []\<rparr>,
      spec_ClusterSecretRef = None,
      spec_Auth = \<lparr>auth_RootCredentialsSecretRef = None, auth_PublicReadBuckets = []\<rparr>,
      spec_S3 = \<lparr>s3_Service = \<lparr>svc_Type = [], svc_Port = 0, svc_Annotations = []\<rparr>,
                 s3_TLS = \<lparr>tls_SecretName = []\<rparr>\<rparr>,
      spec_UpdatePolicy = \<lparr>upd_ConvergenceTimeout = None\<rparr>,
      spec_Observability =
        \<lparr>obs_OTLP = \<lparr>otlp_Endpoint = [], otlp_Protocol = []\<rparr>,
         obs_Traces = \<lparr>sig_Exporter = [], sig_Endpoint = [], sig_Protocol = []\<rparr>,
         obs_Logs = \<lparr>sig_Exporter = [], sig_Endpoint = [], sig_Protocol = []\<rparr>,
         obs_Metrics = \<lparr>met_Exporter = [], met_Endpoint = [], met_Protocol = []\<rparr>,
         obs_LogLevel = [], obs_PodMonitor = False, obs_Pprof = None, obs_ResourceAttributes = []\<rparr>,
      spec_NetworkPolicy = False,
      spec_PodTemplate =
        \<lparr>pt_Resources = \<lparr>res_Limits = [], res_Requests = []\<rparr>, pt_NodeSelector = [], pt_Tolerations = [],
         pt_PriorityClassName = [], pt_Annotations = [], pt_Labels = [], pt_ExtraEnv = []\<rparr>\<rparr>"

definition two_racks :: TopologySpec where
  "two_racks = \<lparr>topo_Nodes = None,
     topo_Racks = [\<lparr>rack_Name = ''a'', rack_Nodes = 2, rack_Zone = ''z1'', rack_NodeSelector = []\<rparr>,
                   \<lparr>rack_Name = ''b'', rack_Nodes = 1, rack_Zone = ''z2'', rack_NodeSelector = []\<rparr>],
     topo_PodAntiAffinity = []\<rparr>"

text \<open>
  C40. For every topology the schema admits, the node names exist (the allocation does not
  panic), are pairwise distinct, and are as many as \<open>TotalNodes\<close> counts; the 32-bit sum behind
  that count does not wrap and lies between 1 and 256.
\<close>

theorem NodeNames_unique:
  assumes "schema_topology (spec_Topology s)"
  shows "\<exists>names. NodeNames s c = Some names \<and> distinct names \<and> int (length names) = TotalNodes s
    \<and> 1 \<le> TotalNodes s \<and> TotalNodes s \<le> 256"
proof (cases "topo_Nodes (spec_Topology s)")
  case (Some n)
  with assms show ?thesis
    by (simp add: NodeNames_def TotalNodes_def schema_topology_def distinct_node_range)
next
  case None
  with assms show ?thesis
    using TotalNodes_racks [OF assms None] distinct_rack_names length_rack_names [of _ c]
    by (simp add: NodeNames_def schema_topology_def)
qed

theorem NodeNames_unique_witness:
  "schema_topology two_racks
   \<and> NodeNames (sample_spec two_racks 1000) ''fs'' = Some [''fs-a-0'', ''fs-a-1'', ''fs-b-0'']
   \<and> (\<exists>names. NodeNames (sample_spec two_racks 1000) ''fs'' = Some names \<and> distinct names)"
proof -
  have t: "schema_topology two_racks" by (simp add: two_racks_def schema_topology_def schema_rack_def)
  then have "\<exists>names. NodeNames (sample_spec two_racks 1000) ''fs'' = Some names \<and> distinct names"
    using NodeNames_unique [of "sample_spec two_racks 1000" "''fs''"] by (auto simp: sample_spec_def)
  moreover have "NodeNames (sample_spec two_racks 1000) ''fs'' = Some [''fs-a-0'', ''fs-a-1'', ''fs-b-0'']"
    by code_simp
  ultimately show ?thesis using t by blast
qed

text \<open>
  Defaulting is idempotent: a spec that was defaulted and stored is not changed by
  defaulting it again, in whatever order the signal exporters depend on each other.
\<close>

theorem WithDefaults_idempotent: "WithDefaults (WithDefaults s) = WithDefaults s"
proof (rule FSClusterSpec.equality)
  show "spec_Observability (WithDefaults (WithDefaults s)) = spec_Observability (WithDefaults s)"
    by (simp add: WithDefaults_fields(8) obs_update_same default_defs)
qed (simp_all add: WithDefaults_fields(1-7,9-12) default_defs or_default_def)

text \<open>
  A registry override replaces the registry host of a repository (a first path component
  with a dot or a colon) and goes in front of a repository without one; the path is kept.
  Applying an override that is itself a bare host twice is the same as applying it once.
\<close>

theorem ApplyRegistry_rewrites:
  assumes "CHR ''/'' \<notin> set host" and "registry \<noteq> []"
  shows "ApplyRegistry (host @ CHR ''/'' # rest) registry = strings_TrimSuffix registry ''/'' @ ''/''
      @ (if strings_ContainsAny host ''.:'' then rest else host @ ''/'' @ rest)
    \<and> (CHR ''/'' \<notin> set registry \<and> strings_ContainsAny registry ''.:'' \<longrightarrow>
       ApplyRegistry (ApplyRegistry repo registry) registry = ApplyRegistry repo registry)"
proof -
  have path: "ApplyRegistry (h @ CHR ''/'' # r) reg = strings_TrimSuffix reg ''/'' @ ''/''
      @ (if strings_ContainsAny h ''.:'' then r else h @ ''/'' @ r)"
    if "CHR ''/'' \<notin> set h" and "reg \<noteq> []" for h r reg
    using that by (simp add: ApplyRegistry_def Let_def strings_Cut_at)
  have "ApplyRegistry (ApplyRegistry repo registry) registry = ApplyRegistry repo registry"
    if r: "CHR ''/'' \<notin> set registry" "strings_ContainsAny registry ''.:''"
  proof (cases "repo = []")
    case True
    then show ?thesis by (simp add: ApplyRegistry_def)
  next
    case False
    have trim: "strings_TrimSuffix registry ''/'' = registry"
      using r by (auto simp: strings_TrimSuffix_def dest: set_mono_suffix)
    obtain r' where "ApplyRegistry repo registry = registry @ CHR ''/'' # r'"
      using False assms(2)
      by (cases "strings_Cut repo (CHR ''/'')") (force simp: ApplyRegistry_def Let_def trim)
    then show ?thesis using path [OF r(1) assms(2), of r'] r(2) trim by simp
  qed
  with path [OF assms] show ?thesis by blast
qed

theorem ApplyRegistry_rewrites_witness:
  "ApplyRegistry ''ghcr.io/go-faster/fs'' ''mirror.local:5000'' = ''mirror.local:5000/go-faster/fs''
   \<and> ApplyRegistry (ApplyRegistry ''fs'' ''mirror.local:5000'') ''mirror.local:5000''
     = ApplyRegistry ''fs'' ''mirror.local:5000''"
proof -
  have "CHR ''/'' \<notin> set ''ghcr.io''" and "''mirror.local:5000'' \<noteq> []"
    and "CHR ''/'' \<notin> set ''mirror.local:5000'' \<and> strings_ContainsAny ''mirror.local:5000'' ''.:''"
    by code_simp+
  from ApplyRegistry_rewrites [OF this(1,2), of "''go-faster/fs''" "''fs''"] this(3)
  have "ApplyRegistry (ApplyRegistry ''fs'' ''mirror.local:5000'') ''mirror.local:5000''
     = ApplyRegistry ''fs'' ''mirror.local:5000''" by blast
  moreover have "ApplyRegistry ''ghcr.io/go-faster/fs'' ''mirror.local:5000'' = ''mirror.local:5000/go-faster/fs''"
    by code_simp
  ultimately show ?thesis by blast
qed

end
