(* ===== verification/Cluster_Nodes.thy ===== *)
theory Cluster_Nodes
  imports Api_Defaults
begin

text \<open>
  \<open>internal/controller/fscluster/names.go\<close> and \<open>nodes.go\<close>: the names of everything a cluster
  owns, and the expansion of a topology into its ordered node set. The container ports of
  \<open>config.go\<close> are here because the addresses carry them.
\<close>

section \<open>Ports\<close>

definition S3Port :: int32 where "S3Port = 8080"
definition PeerPort :: int32 where "PeerPort = 7080"
definition AdminPort :: int32 where "AdminPort = 8090"
definition MetricsPort :: int32 where "MetricsPort = 9464"
definition PprofPort :: int32 where "PprofPort = 9010"

definition PortNameS3 :: string where "PortNameS3 = ''http''"
definition PortNamePeer :: string where "PortNamePeer = ''peer''"
definition PortNameAdmin :: string where "PortNameAdmin = ''admin''"
definition PortNameMetrics :: string where "PortNameMetrics = ''metrics''"
definition PortNamePprof :: string where "PortNamePprof = ''pprof''"

section \<open>Names\<close>

definition PeersServiceName :: "string \<Rightarrow> string" where
  "PeersServiceName cluster = cluster @ ''-peers''"

definition ClientServiceName :: "string \<Rightarrow> string" where
  "ClientServiceName cluster = cluster"

definition ConfigSecretName :: "string \<Rightarrow> string" where
  "ConfigSecretName node = node @ ''-config''"

definition ClusterSecretName :: "string \<Rightarrow> string" where
  "ClusterSecretName cluster = cluster @ ''-cluster-secret''"

definition AdminTokenSecretName :: "string \<Rightarrow> string" where
  "AdminTokenSecretName cluster = cluster @ ''-admin-token''"

definition RootCredentialsSecretName :: "string \<Rightarrow> string" where
  "RootCredentialsSecretName cluster = cluster @ ''-root-credentials''"

definition PodName :: "string \<Rightarrow> string" where
  "PodName node = node @ ''-0''"

definition AdvertiseAddr :: "string \<Rightarrow> string \<Rightarrow> string \<Rightarrow> string" where
  "AdvertiseAddr cluster namespace node =
     PodName node @ ''.'' @ PeersServiceName cluster @ ''.'' @ namespace @ ''.svc:'' @ itoa PeerPort"

definition AdminURL :: "string \<Rightarrow> string \<Rightarrow> string \<Rightarrow> string" where
  "AdminURL cluster namespace node =
     ''http://'' @ PodName node @ ''.'' @ PeersServiceName cluster @ ''.'' @ namespace @ ''.svc:'' @ itoa AdminPort"

definition S3Endpoint :: "string \<Rightarrow> string \<Rightarrow> int32 \<Rightarrow> bool \<Rightarrow> string" where
  "S3Endpoint cluster namespace port tls =
     (if tls then ''https'' else ''http'') @ ''://'' @ ClientServiceName cluster @ ''.'' @ namespace
     @ ''.svc:'' @ itoa port"

definition PVCName :: "string \<Rightarrow> string \<Rightarrow> string" where
  "PVCName claim node = claim @ ''-'' @ PodName node"

section \<open>Nodes\<close>

record Node =
  node_Name :: string
  node_Rack :: string
  node_Index :: int
  node_Zone :: string
  node_NodeSelector :: "(string, string) gomap"

definition flat_node :: "string \<Rightarrow> int \<Rightarrow> Node" where
  "flat_node cluster i =
     \<lparr>node_Name = NodeName cluster [] i, node_Rack = [], node_Index = i, node_Zone = [],
      node_NodeSelector = []\<rparr>"

definition rack_node :: "string \<Rightarrow> RackSpec \<Rightarrow> int \<Rightarrow> Node" where
  "rack_node cluster rack i =
     \<lparr>node_Name = NodeName cluster (rack_Name rack) i, node_Rack = rack_Name rack, node_Index = i,
      node_Zone = rack_Zone rack, node_NodeSelector = rack_NodeSelector rack\<rparr>"

text \<open>\<open>None\<close> is the panic of \<open>make\<close> with a negative capacity.\<close>

definition Nodes :: "FSCluster \<Rightarrow> Node list option" where
  "Nodes cluster =
     (let spec = fsc_Spec cluster in
      case topo_Nodes (spec_Topology spec) of
        Some n \<Rightarrow>
          if n < 0 then None else Some (map (flat_node (fsc_Name cluster)) (range_int n))
      | None \<Rightarrow>
          if TotalNodes spec < 0 then None
          else Some (concat (map (\<lambda>rack. map (rack_node (fsc_Name cluster) rack) (range_int (rack_Nodes rack)))
                       (topo_Racks (spec_Topology spec)))))"

text \<open>
  \<open>domainOf\<close> of \<open>status.go\<close>: the failure domain a node belongs to at the widest level the
  layout spreads over.
\<close>

definition domainOf :: "FSClusterSpec \<Rightarrow> Node \<Rightarrow> string" where
  "domainOf spec node =
     (if node_Rack node = [] then node_Name node
      else if node_Zone node \<noteq> []
              \<and> FailureDomains spec < i32 (int (length (topo_Racks (spec_Topology spec))))
      then ''zone/'' @ node_Zone node
      else node_Rack node)"

section \<open>Facts\<close>

lemma node_names_NodeNames:
  assumes "Nodes cluster = Some nodes"
  shows "NodeNames (fsc_Spec cluster) (fsc_Name cluster) = Some (map node_Name nodes)"
proof -
  have f: "map (node_Name \<circ> flat_node c) xs = map (NodeName c []) xs" for c xs
    by (simp add: flat_node_def)
  have r: "map (node_Name \<circ> rack_node c k) xs = map (NodeName c (rack_Name k)) xs" for c k xs
    by (simp add: rack_node_def)
  show ?thesis
  proof (cases "topo_Nodes (spec_Topology (fsc_Spec cluster))")
    case (Some n)
    then have "TotalNodes (fsc_Spec cluster) = n" by (simp add: TotalNodes_def)
    with Some assms show ?thesis
      by (auto simp: Nodes_def NodeNames_def Let_def f simp del: map_map comp_apply split: if_splits
          simp add: list.map_comp)
  next
    case None
    with assms show ?thesis
      by (auto simp: Nodes_def NodeNames_def Let_def map_concat comp_def rack_node_def split: if_splits)
  qed
qed

lemma Nodes_schema:
  assumes "schema_topology (spec_Topology (fsc_Spec cluster))"
  shows "Nodes cluster \<noteq> None"
proof (cases "topo_Nodes (spec_Topology (fsc_Spec cluster))")
  case (Some n)
  with assms show ?thesis by (simp add: Nodes_def schema_topology_def)
next
  case None
  with TotalNodes_racks [OF assms None] show ?thesis by (simp add: Nodes_def Let_def)
qed

section \<open>Properties\<close>

text \<open>
  The node set the resources are built from and the peer list the configurations are
  rendered from name the same nodes in the same order: \<open>Nodes\<close> panics exactly when
  \<open>NodeNames\<close> does, and otherwise gives one node per name. Every address of a node determines
  the node within its cluster.
\<close>

theorem Nodes_agree_with_NodeNames:
  "NodeNames (fsc_Spec cluster) (fsc_Name cluster) = map_option (map node_Name) (Nodes cluster)
   \<and> (AdvertiseAddr c ns n = AdvertiseAddr c ns n' \<longleftrightarrow> n = n')
   \<and> (AdminURL c ns n = AdminURL c ns n' \<longleftrightarrow> n = n')"
proof -
  have "Nodes cluster = None \<Longrightarrow> NodeNames (fsc_Spec cluster) (fsc_Name cluster) = None"
    by (auto simp: Nodes_def NodeNames_def TotalNodes_def Let_def split: option.splits if_splits)
  then have "NodeNames (fsc_Spec cluster) (fsc_Name cluster) = map_option (map node_Name) (Nodes cluster)"
    using node_names_NodeNames by (cases "Nodes cluster") auto
  then show ?thesis by (simp add: AdvertiseAddr_def AdminURL_def PodName_def)
qed

end
