(* ===== verification/Go_Crypto.thy ===== *)
theory Go_Crypto
  imports Go_Errors
begin

unbundle bit_operations_syntax

text \<open>
  The parts of Go's standard library behind fingerprints and generated secrets:
  \<open>crypto/sha256\<close> (FIPS 180-4), \<open>encoding/hex\<close> and the unpadded URL alphabet of
  \<open>encoding/base64\<close>, on byte strings; and \<open>internal/keygen/keygen.go\<close> on top of them, with the
  random bytes as an argument.
\<close>

section \<open>SHA-256\<close>

definition sha_K :: "32 word list" where
  "sha_K =
    [1116352408, 1899447441, 3049323471, 3921009573, 961987163, 1508970993, 2453635748,
     2870763221, 3624381080, 310598401, 607225278, 1426881987, 1925078388, 2162078206,
     2614888103, 3248222580, 3835390401, 4022224774, 264347078, 604807628, 770255983,
     1249150122, 1555081692, 1996064986, 2554220882, 2821834349, 2952996808, 3210313671,
     3336571891, 3584528711, 113926993, 338241895, 666307205, 773529912, 1294757372,
     1396182291, 1695183700, 1986661051, 2177026350, 2456956037, 2730485921, 2820302411,
     3259730800, 3345764771, 3516065817, 3600352804, 4094571909, 275423344, 430227734,
     506948616, 659060556, 883997877, 958139571, 1322822218, 1537002063, 1747873779,
     1955562222, 2024104815, 2227730452, 2361852424, 2428436474, 2756734187, 3204031479,
     3329325298]"

type_synonym sha_state =
  "32 word \<times> 32 word \<times> 32 word \<times> 32 word \<times> 32 word \<times> 32 word \<times> 32 word \<times> 32 word"

definition sha_init :: sha_state where
  "sha_init =
    (1779033703, 3144134277, 1013904242, 2773480762, 1359893119, 2600822924,
     528734635, 1541459225)"

definition sha_s0 :: "32 word \<Rightarrow> 32 word" where
  "sha_s0 x = word_rotr 7 x XOR word_rotr 18 x XOR drop_bit 3 x"
definition sha_s1 :: "32 word \<Rightarrow> 32 word" where
  "sha_s1 x = word_rotr 17 x XOR word_rotr 19 x XOR drop_bit 10 x"
definition sha_S0 :: "32 word \<Rightarrow> 32 word" where
  "sha_S0 x = word_rotr 2 x XOR word_rotr 13 x XOR word_rotr 22 x"
definition sha_S1 :: "32 word \<Rightarrow> 32 word" where
  "sha_S1 x = word_rotr 6 x XOR word_rotr 11 x XOR word_rotr 25 x"

text \<open>The message schedule: \<open>n\<close> more words after the block's sixteen.\<close>

primrec sha_schedule :: "nat \<Rightarrow> 32 word list \<Rightarrow> 32 word list" where
  "sha_schedule 0 w = w"
| "sha_schedule (Suc n) w =
     sha_schedule n (w @ [sha_s1 (w ! (length w - 2)) + w ! (length w - 7)
                          + sha_s0 (w ! (length w - 15)) + w ! (length w - 16)])"

definition sha_round :: "32 word \<times> 32 word \<Rightarrow> sha_state \<Rightarrow> sha_state" where
  "sha_round = (\<lambda>(k, w) (a, b, c, d, e, f, g, h).
     let t1 = h + sha_S1 e + ((e AND f) XOR (NOT e AND g)) + k + w;
         t2 = sha_S0 a + ((a AND b) XOR (a AND c) XOR (b AND c))
     in (t1 + t2, a, b, c, d + t1, e, f, g))"

definition sha_add :: "sha_state \<Rightarrow> sha_state \<Rightarrow> sha_state" where
  "sha_add = (\<lambda>(a, b, c, d, e, f, g, h) (a', b', c', d', e', f', g', h').
     (a + a', b + b', c + c', d + d', e + e', f + f', g + g', h + h'))"

definition sha_block :: "32 word list \<Rightarrow> sha_state \<Rightarrow> sha_state" where
  "sha_block ws st = sha_add st (fold sha_round (zip sha_K (sha_schedule 48 ws)) st)"

definition byte_of :: "nat \<Rightarrow> char" where
  "byte_of n = char_of n"

definition be_bytes :: "nat \<Rightarrow> nat \<Rightarrow> string" where
  "be_bytes k n = map (\<lambda>i. byte_of (n div 256 ^ (k - 1 - i) mod 256)) [0 ..< k]"

definition be_word :: "string \<Rightarrow> 32 word" where
  "be_word bs = of_nat (fold (\<lambda>c n. n * 256 + of_char c) bs 0)"

text \<open>\<open>chunks n\<close> cuts into pieces of \<open>n + 1\<close>.\<close>

fun chunks :: "nat \<Rightarrow> 'a list \<Rightarrow> 'a list list" where
  "chunks n [] = []"
| "chunks n (x # xs) = (x # take n xs) # chunks n (drop n xs)"

definition sha_pad :: "string \<Rightarrow> string" where
  "sha_pad s =
     (let k = (119 - length s mod 64) mod 64
      in s @ [byte_of 128] @ replicate k (byte_of 0) @ be_bytes 8 (8 * length s))"

definition sha_blocks :: "string \<Rightarrow> 32 word list list" where
  "sha_blocks s = map (\<lambda>blk. map be_word (chunks 3 blk)) (chunks 63 (sha_pad s))"

definition sha256_Sum256 :: "string \<Rightarrow> string" where
  "sha256_Sum256 s =
     (case fold sha_block (sha_blocks s) sha_init of
        (a, b, c, d, e, f, g, h) \<Rightarrow>
          concat (map (\<lambda>w. be_bytes 4 (unat w)) [a, b, c, d, e, f, g, h]))"

section \<open>Hexadecimal\<close>

definition hex_digit :: "nat \<Rightarrow> char" where
  "hex_digit d = (if d < 10 then char_of (48 + d) else char_of (87 + d))"

definition hex_EncodeToString :: "string \<Rightarrow> string" where
  "hex_EncodeToString bs =
     concat (map (\<lambda>c. [hex_digit (of_char c div 16), hex_digit (of_char c mod 16)]) bs)"

section \<open>Base64, URL alphabet, no padding\<close>

definition b64_alphabet :: string where
  "b64_alphabet = ''ABCDEFGHIJKLMNOPQRSTUVWXYZabcdefghijklmnopqrstuvwxyz0123456789-_''"

definition b64_char :: "nat \<Rightarrow> char" where
  "b64_char i = b64_alphabet ! (i mod 64)"

fun b64_groups :: "nat list \<Rightarrow> string" where
  "b64_groups [] = []"
| "b64_groups [a] = [b64_char (a div 4), b64_char (a mod 4 * 16)]"
| "b64_groups [a, b] = [b64_char (a div 4), b64_char (a mod 4 * 16 + b div 16), b64_char (b mod 16 * 4)]"
| "b64_groups (a # b # c # rest) =
     b64_char (a div 4) # b64_char (a mod 4 * 16 + b div 16)
     # b64_char (b mod 16 * 4 + c div 64) # b64_char (c mod 64) # b64_groups rest"

definition base64_RawURL :: "string \<Rightarrow> string" where
  "base64_RawURL bs = b64_groups (map of_char bs)"

section \<open>Keygen\<close>

text \<open>
  \<open>rand\<close> is what \<open>rand.Read\<close> does with a buffer of a given length: it fills it, or fails.
\<close>

definition tokenBytes :: nat where "tokenBytes = 32"
definition accessKeyBytes :: nat where "accessKeyBytes = 9"
definition accessKeyPrefix :: string where "accessKeyPrefix = ''AK''"

definition fmt_read_random :: string where "fmt_read_random = ''read random''"

definition keygen_Token :: "(nat \<Rightarrow> string result) \<Rightarrow> string result" where
  "keygen_Token rand = (case rand tokenBytes of
      Inl e \<Rightarrow> Inl (Wrap e fmt_read_random [])
    | Inr buf \<Rightarrow> Inr (base64_RawURL buf))"

definition keygen_AccessKey :: "(nat \<Rightarrow> string result) \<Rightarrow> string result" where
  "keygen_AccessKey rand = (case rand accessKeyBytes of
      Inl e \<Rightarrow> Inl (Wrap e fmt_read_random [])
    | Inr buf \<Rightarrow> Inr (accessKeyPrefix @ hex_EncodeToString buf))"

section \<open>Facts\<close>

lemma length_hex [simp]: "length (hex_EncodeToString bs) = 2 * length bs"
  by (induction bs) (simp_all add: hex_EncodeToString_def)

lemma length_be_bytes [simp]: "length (be_bytes k n) = k"
  by (simp add: be_bytes_def)

lemma length_sha256 [simp]: "length (sha256_Sum256 s) = 32"
  by (simp add: sha256_Sum256_def split: prod.splits)

lemma char_nat_lt: "(of_char c :: nat) < 256"
  by (cases c) (simp add: of_char_def)

lemma hex_digit_inj: "a < 16 \<Longrightarrow> b < 16 \<Longrightarrow> hex_digit a = hex_digit b \<Longrightarrow> a = b"
proof -
  assume a: "a < 16" and b: "b < 16" and e: "hex_digit a = hex_digit b"
  define f :: "nat \<Rightarrow> nat" where "f d = (if d < 10 then 48 + d else 87 + d)" for d
  have h: "hex_digit d = char_of (f d)" for d by (simp add: hex_digit_def f_def)
  from a b have "f a < 256" "f b < 256" by (simp_all add: f_def)
  moreover from e have "(of_char (char_of (f a) :: char) :: nat) = of_char (char_of (f b) :: char)"
    by (simp add: h)
  ultimately have "f a = f b" by simp
  with a b show "a = b" by (auto simp: f_def split: if_splits)
qed

lemma hex_inj: "hex_EncodeToString xs = hex_EncodeToString ys \<Longrightarrow> xs = ys"
proof (induction xs arbitrary: ys)
  case Nil
  then show ?case by (cases ys) (simp_all add: hex_EncodeToString_def)
next
  case (Cons x xs)
  then obtain y zs where ys: "ys = y # zs" by (cases ys) (simp_all add: hex_EncodeToString_def)
  have lt: "(of_char c :: nat) div 16 < 16" for c using char_nat_lt [of c] by linarith
  have ml: "(of_char c :: nat) mod 16 < 16" for c :: char by simp
  from Cons.prems have "hex_digit (of_char x div 16) = hex_digit (of_char y div 16)"
    and "hex_digit (of_char x mod 16) = hex_digit (of_char y mod 16)"
    and t: "hex_EncodeToString xs = hex_EncodeToString zs"
    by (simp_all add: ys hex_EncodeToString_def)
  then have "(of_char x :: nat) div 16 = of_char y div 16" "(of_char x :: nat) mod 16 = of_char y mod 16"
    using hex_digit_inj lt ml by blast+
  then have "(of_char x :: nat) = of_char y" by (metis div_mult_mod_eq)
  then have "x = y" by (simp add: of_char_eq_iff)
  with Cons.IH [OF t] ys show ?case by simp
qed

lemma b64_distinct: "distinct b64_alphabet" "length b64_alphabet = 64"
  by (simp_all add: b64_alphabet_def)

lemma b64_char_inj: "a < 64 \<Longrightarrow> b < 64 \<Longrightarrow> b64_char a = b64_char b \<Longrightarrow> a = b"
  using b64_distinct by (simp add: b64_char_def nth_eq_iff_index_eq)

lemma b64_char_in [simp]: "b64_char i \<in> set b64_alphabet"
  using b64_distinct(2) by (simp add: b64_char_def)

lemma b64_groups_alphabet: "set (b64_groups ns) \<subseteq> set b64_alphabet"
  by (induction ns rule: b64_groups.induct) simp_all

lemma b64_groups_length: "length (b64_groups ns) = (4 * length ns + 2) div 3"
  by (induction ns rule: b64_groups.induct) simp_all

lemma radix_digits:
  assumes "x * n + y = x' * n + y'" and "y < n" and "y' < (n :: nat)"
  shows "x = x'" and "y = y'"
proof -
  have "(x * n + y) div n = x" "(x' * n + y') div n = x'" using assms(2,3) by simp_all
  with assms(1) show "x = x'" by simp
  with assms(1) show "y = y'" by simp
qed

text \<open>The first three bytes of a group are determined by its four characters.\<close>

lemma b64_group_inj:
  assumes "a < 256" "b < 256" "c < 256" "a' < 256" "b' < 256" "c' < (256 :: nat)"
    and "b64_char (a div 4) = b64_char (a' div 4)"
    and "b64_char (a mod 4 * 16 + b div 16) = b64_char (a' mod 4 * 16 + b' div 16)"
    and "b64_char (b mod 16 * 4 + c div 64) = b64_char (b' mod 16 * 4 + c' div 64)"
    and "b64_char (c mod 64) = b64_char (c' mod 64)"
  shows "a = a' \<and> b = b' \<and> c = c'"
proof -
  have "a div 4 = a' div 4" using assms by (intro b64_char_inj) auto
  moreover have "a mod 4 * 16 + b div 16 = a' mod 4 * 16 + b' div 16"
    using assms by (intro b64_char_inj) auto
  moreover have "b mod 16 * 4 + c div 64 = b' mod 16 * 4 + c' div 64"
    using assms by (intro b64_char_inj) auto
  moreover have "c mod 64 = c' mod 64" using assms by (intro b64_char_inj) auto
  moreover have "b div 16 < 16" "b' div 16 < 16" "c div 64 < 4" "c' div 64 < 4" using assms(1-6) by auto
  ultimately have "a mod 4 = a' mod 4" "b div 16 = b' div 16" "b mod 16 = b' mod 16" "c div 64 = c' div 64"
    using radix_digits by blast+
  with \<open>a div 4 = a' div 4\<close> \<open>c mod 64 = c' mod 64\<close> show ?thesis by (metis div_mult_mod_eq)
qed

lemma b64_groups_inj:
  "\<forall>x \<in> set xs. x < 256 \<Longrightarrow> \<forall>y \<in> set ys. y < 256 \<Longrightarrow> length xs = length ys \<Longrightarrow>
   b64_groups xs = b64_groups ys \<Longrightarrow> xs = ys"
proof (induction xs arbitrary: ys rule: b64_groups.induct)
  case 1
  then show ?case by simp
next
  case (2 a)
  then obtain a' where ys: "ys = [a']" by (cases ys) auto
  with 2 b64_group_inj [of a 0 0 a' 0 0] show ?case by simp
next
  case (3 a b)
  then obtain a' b' where ys: "ys = [a', b']" by (cases ys; cases "tl ys") auto
  with 3 b64_group_inj [of a b 0 a' b' 0] show ?case by simp
next
  case (4 a b c rest)
  obtain a' b' c' r where ys: "ys = a' # b' # c' # r"
    using "4.prems"(3) by (cases ys; cases "tl ys"; cases "tl (tl ys)") auto
  have "a = a' \<and> b = b' \<and> c = c'"
    using "4.prems" by (intro b64_group_inj) (simp_all add: ys)
  moreover have "rest = r" using "4.prems" by (intro "4.IH") (simp_all add: ys)
  ultimately show ?case by (simp add: ys)
qed

lemma base64_inj: "length xs = length ys \<Longrightarrow> base64_RawURL xs = base64_RawURL ys \<Longrightarrow> xs = ys"
proof -
  assume l: "length xs = length ys" and e: "base64_RawURL xs = base64_RawURL ys"
  have "map (of_char :: char \<Rightarrow> nat) xs = map of_char ys"
    using e l by (intro b64_groups_inj) (auto simp: base64_RawURL_def char_nat_lt)
  then show "xs = ys" by (metis inj_map_eq_map inj_of_char)
qed

section \<open>Properties\<close>

text \<open>
  What the operator mints is well formed and keeps all the entropy it read: a token has 43
  characters of the URL-safe alphabet (fs wants at least 16), an access key is the prefix and
  18 hexadecimal digits, and two different random buffers never give the same one.
\<close>

theorem keygen_faithful:
  assumes "rand tokenBytes = Inr buf" and "length buf = tokenBytes"
    and "rand accessKeyBytes = Inr buf2" and "length buf2 = accessKeyBytes"
  shows "\<exists>t k. keygen_Token rand = Inr t \<and> length t = 43 \<and> set t \<subseteq> set b64_alphabet
    \<and> keygen_AccessKey rand = Inr k \<and> length k = 20 \<and> take 2 k = ''AK''
    \<and> (rand' tokenBytes = Inr other \<and> length other = tokenBytes \<and> other \<noteq> buf
         \<longrightarrow> keygen_Token rand' \<noteq> keygen_Token rand)
    \<and> (rand' accessKeyBytes = Inr other2 \<and> other2 \<noteq> buf2
         \<longrightarrow> keygen_AccessKey rand' \<noteq> keygen_AccessKey rand)"
proof -
  have "length (base64_RawURL buf) = 43" "set (base64_RawURL buf) \<subseteq> set b64_alphabet"
    using assms(2) b64_groups_alphabet
    by (simp_all add: base64_RawURL_def b64_groups_length tokenBytes_def)
  moreover have "other \<noteq> buf \<longrightarrow> length other = tokenBytes \<longrightarrow> base64_RawURL other \<noteq> base64_RawURL buf"
    using base64_inj [of other buf] assms(2) by auto
  moreover have "other2 \<noteq> buf2 \<longrightarrow> hex_EncodeToString other2 \<noteq> hex_EncodeToString buf2"
    using hex_inj by blast
  ultimately show ?thesis
    using assms by (simp add: keygen_Token_def keygen_AccessKey_def accessKeyPrefix_def accessKeyBytes_def)
qed

theorem keygen_faithful_witness:
  "\<exists>t k. keygen_Token (\<lambda>n. Inr (replicate n CHR ''x'')) = Inr t \<and> length t = 43
     \<and> keygen_AccessKey (\<lambda>n. Inr (replicate n CHR ''x'')) = Inr k \<and> length k = 20"
  using keygen_faithful [of "\<lambda>n. Inr (replicate n CHR ''x'')" "replicate tokenBytes CHR ''x''"
      "replicate accessKeyBytes CHR ''x''" "\<lambda>n. Inr []" "[]" "[]"] by auto

end
