(* ===== verification/Fs_Config.thy ===== *)
theory Fs_Config
  imports Cluster_Nodes Go_Crypto
begin

text \<open>
  \<open>internal/fsconfig/config.go\<close>, the schema of one node's configuration file, and
  \<open>internal/controller/fscluster/config.go\<close>, which renders it from the spec and fingerprints it.

  The YAML library is not part of the repository: an encoder and a decoder are arguments
  (\<open>yaml_codec\<close>). A struct whose zero value is omitted in YAML is still a record here; its zero
  value is the record of zero values.
\<close>

section \<open>The schema\<close>

record TLS =
  tlsf_CertFile :: string
  tlsf_KeyFile :: string

record Server =
  srv_Addr :: string
  srv_ReadTimeout :: Duration
  srv_WriteTimeout :: Duration
  srv_IdleTimeout :: Duration
  srv_HealthPath :: string
  srv_TLS :: TLS

record Storage =
  stg_Root :: string
  stg_Fsync :: string

record Grant =
  grant_Bucket :: string
  grant_Permission :: string

record Key =
  key_AccessKey :: string
  key_SecretKey :: string
  key_Grants :: "Grant list"

record Auth =
  au_Keys :: "Key list"
  au_PublicReadBuckets :: "string list"

record Admin =
  adm_Enabled :: bool
  adm_Addr :: string

record Cluster =
  clu_NodeID :: string
  clu_Addr :: string
  clu_AdvertiseAddr :: string
  clu_Peers :: "string list"

record Observability =
  ob_ServiceName :: string
  ob_EnableRequestLogging :: bool
  ob_EnableMetrics :: bool
  ob_EnableTracing :: bool

record Config =
  cfg_Server :: Server
  cfg_Storage :: Storage
  cfg_Auth :: Auth
  cfg_Admin :: Admin
  cfg_Cluster :: Cluster
  cfg_Observability :: Observability
  cfg_Revision :: string

definition zero_TLS :: TLS where "zero_TLS = \<lparr>tlsf_CertFile = [], tlsf_KeyFile = []\<rparr>"
definition zero_Auth :: Auth where "zero_Auth = \<lparr>au_Keys = [], au_PublicReadBuckets = []\<rparr>"
definition zero_Cluster :: Cluster where
  "zero_Cluster = \<lparr>clu_NodeID = [], clu_Addr = [], clu_AdvertiseAddr = [], clu_Peers = []\<rparr>"

section \<open>Encoding\<close>

text \<open>What the YAML library does: encoding gives the bytes or fails, closing the encoder may
  fail, decoding with known fields only gives a configuration or fails.\<close>

record yaml_codec =
  yaml_Encode :: "Config \<Rightarrow> string result"
  yaml_Close :: "Config \<Rightarrow> error option"
  yaml_Decode :: "string \<Rightarrow> Config result"

definition fmt_encode :: string where "fmt_encode = ''encode''"
definition fmt_close :: string where "fmt_close = ''close encoder''"
definition fmt_decode :: string where "fmt_decode = ''decode''"

definition Marshal :: "yaml_codec \<Rightarrow> Config \<Rightarrow> string result" where
  "Marshal y cfg = (case yaml_Encode y cfg of
      Inl e \<Rightarrow> Inl (Wrap e fmt_encode [])
    | Inr buf \<Rightarrow> (case yaml_Close y cfg of
        Some e \<Rightarrow> Inl (Wrap e fmt_close [])
      | None \<Rightarrow> Inr buf))"

definition Unmarshal :: "yaml_codec \<Rightarrow> string \<Rightarrow> Config result" where
  "Unmarshal y data = (case yaml_Decode y data of
      Inl e \<Rightarrow> Inl (Wrap e fmt_decode []) | Inr cfg \<Rightarrow> Inr cfg)"

definition fmt_v_addr :: string where "fmt_v_addr = ''server.addr is required''"
definition fmt_v_timeouts :: string where "fmt_v_timeouts = ''server timeouts must be positive''"
definition fmt_v_root :: string where "fmt_v_root = ''storage.root is required''"
definition fmt_v_service :: string where "fmt_v_service = ''observability.service_name is required''"
definition fmt_v_nonode :: string where "fmt_v_nonode = ''cluster settings without cluster.node_id''"
definition fmt_v_advertise :: string where
  "fmt_v_advertise = ''cluster.advertise_addr is required (peers must be able to dial this node)''"

definition Config_Validate :: "Config \<Rightarrow> error option" where
  "Config_Validate c =
     (if srv_Addr (cfg_Server c) = [] then Some (NewError fmt_v_addr [])
      else if srv_ReadTimeout (cfg_Server c) \<le> 0 \<or> srv_WriteTimeout (cfg_Server c) \<le> 0
              \<or> srv_IdleTimeout (cfg_Server c) \<le> 0
      then Some (NewError fmt_v_timeouts [])
      else if stg_Root (cfg_Storage c) = [] then Some (NewError fmt_v_root [])
      else if ob_ServiceName (cfg_Observability c) = [] then Some (NewError fmt_v_service [])
      else if clu_NodeID (cfg_Cluster c) = []
      then (if clu_AdvertiseAddr (cfg_Cluster c) \<noteq> [] \<or> 0 < length (clu_Peers (cfg_Cluster c))
            then Some (NewError fmt_v_nonode []) else None)
      else if clu_AdvertiseAddr (cfg_Cluster c) = [] then Some (NewError fmt_v_advertise [])
      else None)"

section \<open>Rendering\<close>

definition StorageRoot :: string where "StorageRoot = ''/var/lib/fs''"
definition ConfigDir :: string where "ConfigDir = ''/etc/fs''"
definition ConfigFileName :: string where "ConfigFileName = ''config.yaml''"
definition ConfigPath :: string where "ConfigPath = ConfigDir @ ''/'' @ ConfigFileName"
definition TLSDir :: string where "TLSDir = ConfigDir @ ''/tls''"
definition TLSCertPath :: string where "TLSCertPath = TLSDir @ ''/tls.crt''"
definition TLSKeyPath :: string where "TLSKeyPath = TLSDir @ ''/tls.key''"
definition serverReadTimeout :: Duration where "serverReadTimeout = 60 * 1000000000"
definition serverWriteTimeout :: Duration where "serverWriteTimeout = 120 * 1000000000"
definition serverIdleTimeout :: Duration where "serverIdleTimeout = 300 * 1000000000"
definition healthPath :: string where "healthPath = ''/health''"
definition debugLogLevel :: string where "debugLogLevel = ''debug''"

lemmas config_consts = StorageRoot_def serverReadTimeout_def serverWriteTimeout_def
  serverIdleTimeout_def healthPath_def

record RenderOptions =
  ro_Keys :: "Key list"

record RenderedConfig =
  rc_Data :: string
  rc_Revision :: string

definition listenAddr :: "int32 \<Rightarrow> string" where
  "listenAddr port = '':'' @ itoa port"

definition serverConfig :: "FSClusterSpec \<Rightarrow> Server" where
  "serverConfig spec =
     \<lparr>srv_Addr = listenAddr S3Port, srv_ReadTimeout = serverReadTimeout,
      srv_WriteTimeout = serverWriteTimeout, srv_IdleTimeout = serverIdleTimeout,
      srv_HealthPath = healthPath,
      srv_TLS = (if tls_SecretName (s3_TLS (spec_S3 spec)) \<noteq> []
                 then \<lparr>tlsf_CertFile = TLSCertPath, tlsf_KeyFile = TLSKeyPath\<rparr> else zero_TLS)\<rparr>"

text \<open>
  \<open>NodeNames\<close> panics only where the expansion of the nodes has panicked before
  (\<open>Nodes_agree_with_NodeNames\<close>), so its \<open>None\<close> is read as no peers.
\<close>

definition clusterConfig :: "FSCluster \<Rightarrow> Node \<Rightarrow> Cluster" where
  "clusterConfig cluster node =
     (let names = (case NodeNames (fsc_Spec cluster) (fsc_Name cluster) of None \<Rightarrow> [] | Some ns \<Rightarrow> ns);
          peers = map (AdvertiseAddr (fsc_Name cluster) (fsc_Namespace cluster))
                    (filter (\<lambda>name. name \<noteq> node_Name node) names)
      in \<lparr>clu_NodeID = node_Name node, clu_Addr = listenAddr PeerPort,
          clu_AdvertiseAddr = AdvertiseAddr (fsc_Name cluster) (fsc_Namespace cluster) (node_Name node),
          clu_Peers = peers\<rparr>)"

definition observabilityConfig :: "FSCluster \<Rightarrow> Observability" where
  "observabilityConfig cluster =
     (let obs = spec_Observability (fsc_Spec cluster)
      in \<lparr>ob_ServiceName = fsc_Name cluster,
          ob_EnableRequestLogging = (obs_LogLevel obs = debugLogLevel),
          ob_EnableMetrics = True,
          ob_EnableTracing = (otlp_Endpoint (obs_OTLP obs) \<noteq> [])\<rparr>)"

definition fmt_need_cluster :: string where "fmt_need_cluster = ''cluster name and namespace are required''"
definition fmt_need_node :: string where "fmt_need_node = ''node name is required''"
definition fmt_marshal_config :: string where "fmt_marshal_config = ''marshal config of node %q''"

definition nodeConfig :: "FSCluster \<Rightarrow> Node \<Rightarrow> RenderOptions \<Rightarrow> Config result" where
  "nodeConfig cluster node opts =
     (if fsc_Name cluster = [] \<or> fsc_Namespace cluster = [] then Inl (NewError fmt_need_cluster [])
      else if node_Name node = [] then Inl (NewError fmt_need_node [])
      else
        let spec = fsc_Spec cluster
        in Inr \<lparr>cfg_Server = serverConfig spec,
                cfg_Storage = \<lparr>stg_Root = StorageRoot, stg_Fsync = []\<rparr>,
                cfg_Auth = \<lparr>au_Keys = ro_Keys opts,
                            au_PublicReadBuckets = auth_PublicReadBuckets (spec_Auth spec)\<rparr>,
                cfg_Admin = \<lparr>adm_Enabled = True, adm_Addr = listenAddr AdminPort\<rparr>,
                cfg_Cluster = (if SingleNode spec then zero_Cluster else clusterConfig cluster node),
                cfg_Observability = observabilityConfig cluster,
                cfg_Revision = []\<rparr>)"

definition configHeader :: "FSCluster \<Rightarrow> Node \<Rightarrow> string" where
  "configHeader cluster node =
     ''# Rendered by fs-operator for node '' @ node_Name node @ '' of FSCluster '' @ fsc_Namespace cluster
     @ ''/'' @ fsc_Name cluster @ ''. Do not edit.'' @ [CHR 0x0A]"

section \<open>Fingerprints\<close>

definition revisionPrefix :: string where "revisionPrefix = ''cfg-''"
definition templatePrefix :: string where "templatePrefix = ''sts-''"
definition revisionDigits :: nat where "revisionDigits = 12"

definition format_revision :: "string \<Rightarrow> string \<Rightarrow> string" where
  "format_revision pre digest = pre @ take revisionDigits (hex_EncodeToString digest)"

definition Revision :: "string \<Rightarrow> string" where
  "Revision config = format_revision revisionPrefix (sha256_Sum256 config)"

definition RenderNodeConfig ::
    "yaml_codec \<Rightarrow> FSCluster \<Rightarrow> Node \<Rightarrow> RenderOptions \<Rightarrow> RenderedConfig result" where
  "RenderNodeConfig y cluster node opts =
     (case nodeConfig cluster node opts of
        Inl e \<Rightarrow> Inl e
      | Inr cfg \<Rightarrow>
          (case Marshal y cfg of
             Inl e \<Rightarrow> Inl (Wrap e fmt_marshal_config [node_Name node])
           | Inr base \<Rightarrow>
               (let cfg' = cfg\<lparr>cfg_Revision := Revision base\<rparr>
                in case Marshal y cfg' of
                     Inl e \<Rightarrow> Inl (Wrap e fmt_marshal_config [node_Name node])
                   | Inr data \<Rightarrow> Inr \<lparr>rc_Data = configHeader cluster node @ data,
                                     rc_Revision = cfg_Revision cfg'\<rparr>)))"

fun render_loop ::
    "yaml_codec \<Rightarrow> FSCluster \<Rightarrow> RenderOptions \<Rightarrow> Node list \<Rightarrow> (string, RenderedConfig) gomap
     \<Rightarrow> (string, RenderedConfig) gomap result" where
  "render_loop y cluster opts [] configs = Inr configs"
| "render_loop y cluster opts (node # nodes) configs =
     (case RenderNodeConfig y cluster node opts of
        Inl e \<Rightarrow> Inl e
      | Inr rendered \<Rightarrow> render_loop y cluster opts nodes (gm_put (node_Name node) rendered configs))"

definition RenderNodeConfigs ::
    "yaml_codec \<Rightarrow> FSCluster \<Rightarrow> Node list \<Rightarrow> RenderOptions \<Rightarrow> (string, RenderedConfig) gomap result" where
  "RenderNodeConfigs y cluster nodes opts = render_loop y cluster opts nodes []"

text \<open>\<open>%d:%s%d:\<close> and the data: one entry of what a set of files is hashed as.\<close>

definition hash_entry :: "string \<Rightarrow> string \<Rightarrow> string" where
  "hash_entry name data = itoa (int (length name)) @ '':'' @ name @ itoa (int (length data)) @ '':'' @ data"

definition config_preimage :: "(string, RenderedConfig) gomap \<Rightarrow> string" where
  "config_preimage configs =
     concat (map (\<lambda>name. hash_entry name (case gm_get configs name of None \<Rightarrow> [] | Some r \<Rightarrow> rc_Data r))
       (slices_Sort (map fst configs)))"

definition ConfigRevision :: "(string, RenderedConfig) gomap \<Rightarrow> string" where
  "ConfigRevision configs = format_revision revisionPrefix (sha256_Sum256 (config_preimage configs))"

definition RestartRevision ::
    "yaml_codec \<Rightarrow> FSCluster \<Rightarrow> Node \<Rightarrow> RenderOptions \<Rightarrow> string result" where
  "RestartRevision y cluster node opts =
     (case nodeConfig cluster node opts of
        Inl e \<Rightarrow> Inl e
      | Inr cfg \<Rightarrow>
          (let cfg' = cfg\<lparr>cfg_Auth := zero_Auth,
                          cfg_Cluster := (cfg_Cluster cfg)\<lparr>clu_Peers := []\<rparr>,
                          cfg_Revision := []\<rparr>
           in case Marshal y cfg' of
                Inl e \<Rightarrow> Inl (Wrap e fmt_marshal_config [node_Name node])
              | Inr data \<Rightarrow> Inr (Revision data)))"

section \<open>Facts\<close>

lemma itoa_nonempty [simp]: "itoa i \<noteq> []"
  by (simp add: itoa_def itoa_nat_nonempty)

lemma listenAddr_nonempty [simp]: "listenAddr p \<noteq> []"
  by (simp add: listenAddr_def)

lemma AdvertiseAddr_nonempty [simp]: "AdvertiseAddr c n m \<noteq> []"
  by (simp add: AdvertiseAddr_def)

lemma length_Revision: "length (format_revision p (sha256_Sum256 s)) = length p + 12"
  by (simp add: format_revision_def revisionDigits_def)

lemma digit_char_not_colon: "d < 10 \<Longrightarrow> digit_char d \<noteq> CHR '':''"
proof
  assume d: "d < 10" and "digit_char d = CHR '':''"
  then have "of_char (char_of (48 + d) :: char) = (of_char (CHR '':'') :: nat)"
    by (simp add: digit_char_def)
  with d show False by simp
qed

lemma itoa_nat_no_colon: "CHR '':'' \<notin> set (itoa_nat n)"
proof (induction n rule: itoa_nat.induct)
  case (1 n)
  show ?case
  proof (cases "n < 10")
    case True
    then show ?thesis using digit_char_not_colon [of n] by (simp add: itoa_nat_small)
  next
    case False
    with 1 digit_char_not_colon [of "n mod 10"] show ?thesis by (auto simp: itoa_nat_big not_less)
  qed
qed

lemma split_first_separator:
  "s @ c # a = t @ c # b \<Longrightarrow> c \<notin> set s \<Longrightarrow> c \<notin> set t \<Longrightarrow> s = t \<and> a = b"
proof (induction s arbitrary: t)
  case Nil
  then show ?case by (cases t) auto
next
  case (Cons x s)
  then show ?case by (cases t) auto
qed

text \<open>A length prefix is read back: the number, then exactly that many bytes.\<close>

lemma length_prefix_inj:
  assumes "itoa (int (length x)) @ CHR '':'' # x @ a = itoa (int (length y)) @ CHR '':'' # y @ b"
  shows "x = y \<and> a = b"
proof -
  have "itoa (int (length x)) = itoa (int (length y)) \<and> x @ a = y @ b"
    using assms itoa_nat_no_colon by (intro split_first_separator) simp_all
  moreover from this have "length x = length y" using itoa_nat_inj by simp
  ultimately show ?thesis by simp
qed

lemma hash_entry_inj:
  "hash_entry n d @ a = hash_entry n' d' @ b \<Longrightarrow> n = n' \<and> d = d' \<and> a = b"
proof -
  assume "hash_entry n d @ a = hash_entry n' d' @ b"
  then have "n = n' \<and> itoa (int (length d)) @ CHR '':'' # d @ a = itoa (int (length d')) @ CHR '':'' # d' @ b"
    by (intro length_prefix_inj) (simp add: hash_entry_def)
  then show ?thesis using length_prefix_inj by blast
qed

lemma hash_entry_nonempty: "hash_entry n d \<noteq> []"
  by (simp add: hash_entry_def)

lemma concat_entries_inj:
  "concat (map (\<lambda>n. hash_entry n (f n)) ns) = concat (map (\<lambda>n. hash_entry n (g n)) ms) \<Longrightarrow>
   ns = ms \<and> (\<forall>n \<in> set ns. f n = g n)"
proof (induction ns arbitrary: ms)
  case Nil
  then show ?case using hash_entry_nonempty by (cases ms) auto
next
  case (Cons n ns)
  then obtain m ms' where ms: "ms = m # ms'"
    using hash_entry_nonempty by (cases ms) auto
  have "hash_entry n (f n) @ concat (map (\<lambda>n. hash_entry n (f n)) ns)
      = hash_entry m (g m) @ concat (map (\<lambda>n. hash_entry n (g n)) ms')"
    using Cons.prems by (simp add: ms)
  from hash_entry_inj [OF this] Cons.IH [of ms'] show ?case by (auto simp: ms)
qed

lemma nodeConfig_Inr:
  "nodeConfig cluster node opts = Inr cfg \<Longrightarrow>
   fsc_Name cluster \<noteq> [] \<and> fsc_Namespace cluster \<noteq> [] \<and> node_Name node \<noteq> []
   \<and> cfg_Revision cfg = [] \<and> cfg_Observability cfg = observabilityConfig cluster
   \<and> cfg_Server cfg = serverConfig (fsc_Spec cluster) \<and> stg_Root (cfg_Storage cfg) = StorageRoot
   \<and> cfg_Cluster cfg = (if SingleNode (fsc_Spec cluster) then zero_Cluster else clusterConfig cluster node)
   \<and> cfg_Auth cfg = \<lparr>au_Keys = ro_Keys opts,
        au_PublicReadBuckets = auth_PublicReadBuckets (spec_Auth (fsc_Spec cluster))\<rparr>"
  by (auto simp: nodeConfig_def Let_def split: if_splits)

text \<open>The part of a configuration only a restart applies.\<close>

definition restart_part :: "Config \<Rightarrow> Config" where
  "restart_part cfg = cfg\<lparr>cfg_Auth := zero_Auth, cfg_Cluster := (cfg_Cluster cfg)\<lparr>clu_Peers := []\<rparr>,
     cfg_Revision := []\<rparr>"

lemma RestartRevision_alt:
  "RestartRevision y c n opts = (case map_sum id restart_part (nodeConfig c n opts) of
      Inl e \<Rightarrow> Inl e
    | Inr cfg \<Rightarrow> (case Marshal y cfg of
        Inl e \<Rightarrow> Inl (Wrap e fmt_marshal_config [node_Name n]) | Inr data \<Rightarrow> Inr (Revision data)))"
  by (simp add: RestartRevision_def restart_part_def Let_def split: sum.split)

section \<open>Properties\<close>

text \<open>
  C36. Every configuration the operator renders passes the checks fs makes at startup,
  whatever the spec: the single node without any cluster section, and every other node with an
  identity and an address.
\<close>

theorem rendered_config_valid:
  assumes "nodeConfig cluster node opts = Inr cfg"
  shows "Config_Validate (cfg\<lparr>cfg_Revision := marker\<rparr>) = None
    \<and> (clu_NodeID (cfg_Cluster cfg) = [] \<longleftrightarrow> SingleNode (fsc_Spec cluster))"
  using nodeConfig_Inr [OF assms]
  by (auto simp: Config_Validate_def serverConfig_def config_consts observabilityConfig_def Let_def
      clusterConfig_def zero_Cluster_def)

definition config_cluster :: "string list \<Rightarrow> TopologySpec \<Rightarrow> FSCluster" where
  "config_cluster public topo =
     \<lparr>fsc_Name = ''fs'', fsc_Namespace = ''storage'', fsc_Generation = 1, fsc_DeletionTimestamp = None,
      fsc_Spec = (sample_spec topo 1000)\<lparr>spec_Auth :=
        \<lparr>auth_RootCredentialsSecretRef = None, auth_PublicReadBuckets = public\<rparr>\<rparr>,
      fsc_Status =
        \<lparr>st_ObservedGeneration = 0, st_Nodes = 0, st_ReadyNodes = 0, st_UpNodes = 0,
         st_ConfigurationRevision = [], st_StatefulSetRevision = [], st_CurrentRevision = [],
         st_UpdateRevision = [], st_Layout = None, st_Update = None, st_Endpoints = None,
         st_Conditions = []\<rparr>\<rparr>"

theorem rendered_config_valid_witness:
  "\<exists>cfg. nodeConfig (config_cluster [] two_racks) (flat_node ''fs'' 0) \<lparr>ro_Keys = []\<rparr> = Inr cfg
     \<and> Config_Validate (cfg\<lparr>cfg_Revision := ''cfg-1''\<rparr>) = None"
proof -
  obtain cfg where "nodeConfig (config_cluster [] two_racks) (flat_node ''fs'' 0) \<lparr>ro_Keys = []\<rparr> = Inr cfg"
    by (simp add: nodeConfig_def config_cluster_def flat_node_def NodeName_def Let_def)
  with rendered_config_valid [OF this] show ?thesis by blast
qed

text \<open>
  C37. The restart fingerprint of a node does not move with anything a reload or a join takes
  care of: credentials and their grants, public buckets, and the peers, so neither a key nor a
  scale-out replaces a pod; nor with the S3 Service (its port, type and annotations), the storage,
  the image, the pod template or any other part of the spec. It is a function of the cluster's and
  node's names and four switches: whether S3 has a certificate, whether requests are logged
  (the log level is debug), whether there is a shared OTLP endpoint, and whether the cluster is a
  single node.
\<close>

theorem RestartRevision_stable:
  assumes "fsc_Name c' = fsc_Name c" and "fsc_Namespace c' = fsc_Namespace c"
    and "tls_SecretName (s3_TLS (spec_S3 (fsc_Spec c'))) = [] \<longleftrightarrow> tls_SecretName (s3_TLS (spec_S3 (fsc_Spec c))) = []"
    and "obs_LogLevel (spec_Observability (fsc_Spec c')) = debugLogLevel
      \<longleftrightarrow> obs_LogLevel (spec_Observability (fsc_Spec c)) = debugLogLevel"
    and "otlp_Endpoint (obs_OTLP (spec_Observability (fsc_Spec c'))) = []
      \<longleftrightarrow> otlp_Endpoint (obs_OTLP (spec_Observability (fsc_Spec c))) = []"
    and "SingleNode (fsc_Spec c') = SingleNode (fsc_Spec c)"
    and "node_Name n' = node_Name n"
  shows "RestartRevision y c' n' opts' = RestartRevision y c n opts"
proof -
  have "map_sum id restart_part (nodeConfig c' n' opts') = map_sum id restart_part (nodeConfig c n opts)"
  proof -
    have 1: "serverConfig (fsc_Spec c') = serverConfig (fsc_Spec c)"
      using assms(3) by (simp add: serverConfig_def Let_def)
    have 2: "observabilityConfig c' = observabilityConfig c"
      using assms(1,4,5) by (simp add: observabilityConfig_def Let_def)
    have 3: "(clusterConfig c' n')\<lparr>clu_Peers := []\<rparr> = (clusterConfig c n)\<lparr>clu_Peers := []\<rparr>"
      using assms(1,2,7) by (simp add: clusterConfig_def Let_def)
    show ?thesis
      by (simp add: nodeConfig_def restart_part_def Let_def assms(1,2,6,7) 1 2 3)
  qed
  then show ?thesis by (simp only: RestartRevision_alt assms(7))
qed

text \<open>A cluster with public buckets whose S3 Service is on another port.\<close>

definition other_port_cluster :: FSCluster where
  "other_port_cluster = (let c = config_cluster [''pub''] two_racks; s3 = spec_S3 (fsc_Spec c)
     in c\<lparr>fsc_Spec := (fsc_Spec c)\<lparr>spec_S3 := s3\<lparr>s3_Service := (s3_Service s3)\<lparr>svc_Port := 9000\<rparr>\<rparr>\<rparr>\<rparr>)"

theorem RestartRevision_stable_witness:
  "RestartRevision \<lparr>yaml_Encode = (\<lambda>c. Inr (srv_Addr (cfg_Server c))), yaml_Close = (\<lambda>c. None),
        yaml_Decode = (\<lambda>s. Inl (NewError s []))\<rparr>
      other_port_cluster (flat_node ''fs'' 0)
      \<lparr>ro_Keys = [\<lparr>key_AccessKey = ''AK1'', key_SecretKey = ''0123456789abcdef'', key_Grants = []\<rparr>]\<rparr>
   = RestartRevision \<lparr>yaml_Encode = (\<lambda>c. Inr (srv_Addr (cfg_Server c))), yaml_Close = (\<lambda>c. None),
        yaml_Decode = (\<lambda>s. Inl (NewError s []))\<rparr>
      (config_cluster [] \<lparr>topo_Nodes = Some 5, topo_Racks = [], topo_PodAntiAffinity = []\<rparr>)
      (flat_node ''fs'' 0) \<lparr>ro_Keys = []\<rparr>"
proof (rule RestartRevision_stable)
  show "SingleNode (fsc_Spec other_port_cluster)
      = SingleNode (fsc_Spec (config_cluster [] \<lparr>topo_Nodes = Some 5, topo_Racks = [], topo_PodAntiAffinity = []\<rparr>))"
    by code_simp
qed (simp_all add: other_port_cluster_def config_cluster_def sample_spec_def)

text \<open>
  What a set of configurations is hashed as determines the set: no two different sets of
  node names and files have the same preimage, so bytes cannot be shifted between a name and a
  file, or between two files, without changing it. The revision has 16 characters and starts with its prefix.
\<close>

theorem config_preimage_injective:
  assumes "gm_ok configs" and "gm_ok configs'" and "config_preimage configs = config_preimage configs'"
  shows "set (map fst configs) = set (map fst configs')
    \<and> (\<forall>name. map_option rc_Data (gm_get configs name) = map_option rc_Data (gm_get configs' name))
    \<and> length (ConfigRevision configs) = 16 \<and> take 4 (ConfigRevision configs) = revisionPrefix"
proof -
  let ?f = "\<lambda>cs name. case gm_get cs name of None \<Rightarrow> [] | Some r \<Rightarrow> rc_Data r"
  from assms(3) have *: "slices_Sort (map fst configs) = slices_Sort (map fst configs')
      \<and> (\<forall>n \<in> set (slices_Sort (map fst configs)). ?f configs n = ?f configs' n)"
    unfolding config_preimage_def by (rule concat_entries_inj)
  then have keys: "set (map fst configs) = set (map fst configs')" by (metis set_sort)
  have "map_option rc_Data (gm_get configs n) = map_option rc_Data (gm_get configs' n)" for n
  proof (cases "n \<in> set (map fst configs)")
    case True
    then have "gm_get configs n \<noteq> None" "gm_get configs' n \<noteq> None"
      using keys by (simp_all add: gm_get_None_iff del: set_map)
    then obtain r r' where r: "gm_get configs n = Some r" and r': "gm_get configs' n = Some r'" by blast
    have "?f configs n = ?f configs' n" using * True by (simp del: set_map)
    with r r' show ?thesis by simp
  next
    case False
    then have "gm_get configs n = None" "gm_get configs' n = None"
      using keys by (simp_all add: gm_get_None_iff del: set_map)
    then show ?thesis by simp
  qed
  moreover have "length (ConfigRevision configs) = 16" "take 4 (ConfigRevision configs) = revisionPrefix"
    by (simp_all add: ConfigRevision_def format_revision_def revisionDigits_def revisionPrefix_def)
  ultimately show ?thesis using keys by blast
qed

theorem config_preimage_injective_witness:
  "config_preimage [(''a'', \<lparr>rc_Data = ''x'', rc_Revision = []\<rparr>), (''b'', \<lparr>rc_Data = ''y'', rc_Revision = []\<rparr>)]
   = config_preimage [(''b'', \<lparr>rc_Data = ''y'', rc_Revision = []\<rparr>), (''a'', \<lparr>rc_Data = ''x'', rc_Revision = []\<rparr>)]
   \<and> length (ConfigRevision [(''a'', \<lparr>rc_Data = ''x'', rc_Revision = []\<rparr>), (''b'', \<lparr>rc_Data = ''y'', rc_Revision = []\<rparr>)]) = 16"
proof -
  let ?c = "[(''a'', \<lparr>rc_Data = ''x'', rc_Revision = []\<rparr>), (''b'', \<lparr>rc_Data = ''y'', rc_Revision = []\<rparr>)]"
  let ?d = "[(''b'', \<lparr>rc_Data = ''y'', rc_Revision = []\<rparr>), (''a'', \<lparr>rc_Data = ''x'', rc_Revision = []\<rparr>)]"
  have e: "config_preimage ?c = config_preimage ?d" by (simp add: config_preimage_def)
  have "gm_ok ?c" "gm_ok ?d" by (simp_all add: gm_ok_def)
  from config_preimage_injective [OF this e] e show ?thesis by blast
qed

end
