(* ===== verification/Kube_Objects.thy ===== *)
theory Kube_Objects
  imports Api_Types
begin

text \<open>
  The Kubernetes objects the operator reads and writes, as records of the fields it sets or
  looks at. An absent map is the empty map and an absent pointer is \<open>None\<close>. Owner references
  are not a field: they are what \<open>SetControllerReference\<close> adds, and a write records the owner
  beside the object.
\<close>

section \<open>Pods\<close>

record SecretVolume =
  sv_Name :: string
  sv_SecretName :: string
  sv_DefaultMode :: int32

record VolumeMount =
  vm_Name :: string
  vm_MountPath :: string
  vm_ReadOnly :: bool

record ContainerPort =
  cp_Name :: string
  cp_ContainerPort :: int32
  cp_Protocol :: string

record Probe =
  pr_Path :: string
  pr_Port :: string
  pr_Scheme :: string
  pr_PeriodSeconds :: int32
  pr_TimeoutSeconds :: int32
  pr_FailureThreshold :: int32

record SecurityContext =
  sc_AllowPrivilegeEscalation :: bool
  sc_ReadOnlyRootFilesystem :: bool
  sc_Drop :: "string list"

record Container =
  con_Name :: string
  con_Image :: string
  con_ImagePullPolicy :: string
  con_Args :: "string list"
  con_Ports :: "ContainerPort list"
  con_Env :: "EnvVar list"
  con_VolumeMounts :: "VolumeMount list"
  con_Resources :: ResourceRequirements
  con_StartupProbe :: Probe
  con_LivenessProbe :: Probe
  con_ReadinessProbe :: Probe
  con_SecurityContext :: SecurityContext

record PodSecurityContext =
  psc_RunAsNonRoot :: bool
  psc_RunAsUser :: int64
  psc_RunAsGroup :: int64
  psc_FSGroup :: int64
  psc_SeccompProfile :: string

record PodAffinityTerm =
  pat_MatchLabels :: "(string, string) gomap"
  pat_TopologyKey :: string

text \<open>The node affinity is one required term: key, operator and values.\<close>

record NodeSelectorRequirement =
  nsr_Key :: string
  nsr_Operator :: string
  nsr_Values :: "string list"

datatype PodAntiAffinity = RequiredDuringScheduling "PodAffinityTerm list"
  | PreferredDuringScheduling "(int32 \<times> PodAffinityTerm) list"

record Affinity =
  aff_NodeAffinity :: "NodeSelectorRequirement option"
  aff_PodAntiAffinity :: "PodAntiAffinity option"

record PodTemplateSpec =
  pts_Labels :: "(string, string) gomap"
  pts_Annotations :: "(string, string) gomap"
  pts_Containers :: "Container list"
  pts_Volumes :: "SecretVolume list"
  pts_ImagePullSecrets :: "LocalObjectReference list"
  pts_NodeSelector :: "(string, string) gomap"
  pts_Affinity :: "Affinity option"
  pts_Tolerations :: "Toleration list"
  pts_PriorityClassName :: string
  pts_SecurityContext :: PodSecurityContext
  pts_TerminationGracePeriodSeconds :: int64
  pts_AutomountServiceAccountToken :: bool

section \<open>Claims, StatefulSets, Secrets\<close>

record PersistentVolumeClaim =
  pvc_Name :: string
  pvc_Namespace :: string
  pvc_Labels :: "(string, string) gomap"
  pvc_AccessModes :: "string list"
  pvc_Requests :: "(string, Quantity) gomap option"
  pvc_StorageClassName :: "string option"

record StatefulSetSpec =
  sts_Replicas :: int32
  sts_ServiceName :: string
  sts_MatchLabels :: "(string, string) gomap"
  sts_Template :: PodTemplateSpec
  sts_VolumeClaimTemplates :: "PersistentVolumeClaim list"
  sts_WhenDeleted :: string
  sts_WhenScaled :: string

record StatefulSetStatus =
  ss_ObservedGeneration :: int64
  ss_ReadyReplicas :: int32
  ss_UpdatedReplicas :: int32

definition zero_set_status :: StatefulSetStatus where
  "zero_set_status = \<lparr>ss_ObservedGeneration = 0, ss_ReadyReplicas = 0, ss_UpdatedReplicas = 0\<rparr>"

record StatefulSet =
  set_APIVersion :: string
  set_Kind :: string
  set_Name :: string
  set_Namespace :: string
  set_Labels :: "(string, string) gomap"
  set_Annotations :: "(string, string) gomap"
  set_ResourceVersion :: string
  set_CreationTimestamp :: "Time option"
  set_Generation :: int64
  set_ManagedFields :: "string list"
  set_Spec :: StatefulSetSpec
  set_Status :: StatefulSetStatus

record Secret =
  sec_Name :: string
  sec_Namespace :: string
  sec_Labels :: "(string, string) gomap"
  sec_Annotations :: "(string, string) gomap"
  sec_Data :: "(string, string) gomap"
  sec_StringData :: "(string, string) gomap"

section \<open>Services, budgets, policies, monitors\<close>

record ServicePort =
  sp_Name :: string
  sp_Port :: int32
  sp_TargetPort :: string
  sp_Protocol :: string

record Service =
  ser_Name :: string
  ser_Namespace :: string
  ser_Labels :: "(string, string) gomap"
  ser_Annotations :: "(string, string) gomap"
  ser_Type :: string
  ser_ClusterIP :: string
  ser_PublishNotReadyAddresses :: bool
  ser_Selector :: "(string, string) gomap"
  ser_Ports :: "ServicePort list"

record PodDisruptionBudget =
  pdb_Name :: string
  pdb_Namespace :: string
  pdb_Labels :: "(string, string) gomap"
  pdb_MaxUnavailable :: int32
  pdb_MatchLabels :: "(string, string) gomap"

datatype NetworkPolicyPeer = PodSelectorPeer "(string, string) gomap"
  | NamespaceSelectorPeer "(string, string) gomap"

record NetworkPolicyPort =
  npp_Protocol :: string
  npp_Port :: int32

text \<open>An ingress rule with no \<open>From\<close> admits every source.\<close>

record NetworkPolicyIngressRule =
  npi_From :: "NetworkPolicyPeer list"
  npi_Ports :: "NetworkPolicyPort list"

record NetworkPolicy =
  np_Name :: string
  np_Namespace :: string
  np_Labels :: "(string, string) gomap"
  np_PodSelector :: "(string, string) gomap"
  np_PolicyTypes :: "string list"
  np_Ingress :: "NetworkPolicyIngressRule list"

record PodMonitor =
  pm_Name :: string
  pm_Namespace :: string
  pm_Labels :: "(string, string) gomap"
  pm_MatchLabels :: "(string, string) gomap"
  pm_Port :: string
  pm_Path :: string

section \<open>Any of them\<close>

datatype object =
    KStatefulSet StatefulSet
  | KSecret Secret
  | KService Service
  | KPodDisruptionBudget PodDisruptionBudget
  | KNetworkPolicy NetworkPolicy
  | KPodMonitor PodMonitor

datatype kind = KindStatefulSet | KindSecret | KindService | KindPodDisruptionBudget
  | KindNetworkPolicy | KindPodMonitor | KindPod

primrec kind_of :: "object \<Rightarrow> kind" where
  "kind_of (KStatefulSet s) = KindStatefulSet"
| "kind_of (KSecret s) = KindSecret"
| "kind_of (KService s) = KindService"
| "kind_of (KPodDisruptionBudget s) = KindPodDisruptionBudget"
| "kind_of (KNetworkPolicy s) = KindNetworkPolicy"
| "kind_of (KPodMonitor s) = KindPodMonitor"

primrec name_of :: "object \<Rightarrow> string" where
  "name_of (KStatefulSet s) = set_Name s"
| "name_of (KSecret s) = sec_Name s"
| "name_of (KService s) = ser_Name s"
| "name_of (KPodDisruptionBudget s) = pdb_Name s"
| "name_of (KNetworkPolicy s) = np_Name s"
| "name_of (KPodMonitor s) = pm_Name s"

primrec namespace_of :: "object \<Rightarrow> string" where
  "namespace_of (KStatefulSet s) = set_Namespace s"
| "namespace_of (KSecret s) = sec_Namespace s"
| "namespace_of (KService s) = ser_Namespace s"
| "namespace_of (KPodDisruptionBudget s) = pdb_Namespace s"
| "namespace_of (KNetworkPolicy s) = np_Namespace s"
| "namespace_of (KPodMonitor s) = pm_Namespace s"

end
