(* ===== verification/Builders.thy ===== *)
theory Builders
  imports Fs_Config Kube_Objects
begin

text \<open>
  \<open>internal/controller/fscluster/builders.go\<close>, \<open>statefulset.go\<close>, the builder halves of
  \<open>networkpolicy.go\<close> and \<open>podmonitor.go\<close>: how a defaulted cluster and one of its nodes become the
  objects that are applied. Minted secrets take the random source as an argument; the JSON of
  a pod template, which depends on Kubernetes' own struct tags, is an argument too (\<open>json\<close>).
\<close>

section \<open>Labels, annotations and keys\<close>

definition LabelName :: string where "LabelName = ''app.kubernetes.io/name''"
definition LabelInstance :: string where "LabelInstance = ''app.kubernetes.io/instance''"
definition LabelManagedBy :: string where "LabelManagedBy = ''app.kubernetes.io/managed-by''"
definition LabelCluster :: string where "LabelCluster = ''fs.go-faster.org/cluster''"
definition LabelNode :: string where "LabelNode = ''fs.go-faster.org/node''"
definition LabelRack :: string where "LabelRack = ''fs.go-faster.org/rack''"
definition AppName :: string where "AppName = ''fs''"
definition OperatorName :: string where "OperatorName = ''fs-operator''"
definition AnnotationRestartRevision :: string where
  "AnnotationRestartRevision = ''fs.go-faster.org/restart-revision''"
definition AnnotationConfigRevision :: string where
  "AnnotationConfigRevision = ''fs.go-faster.org/config-revision''"
definition AnnotationTemplateRevision :: string where
  "AnnotationTemplateRevision = ''fs.go-faster.org/template-revision''"
definition ClusterSecretKey :: string where "ClusterSecretKey = ''secret''"
definition AdminTokenKey :: string where "AdminTokenKey = ''token''"
definition AccessKeyKey :: string where "AccessKeyKey = ''access-key''"
definition SecretKeyKey :: string where "SecretKeyKey = ''secret-key''"

lemmas label_defs = LabelName_def LabelInstance_def LabelManagedBy_def LabelCluster_def
  LabelNode_def LabelRack_def

definition SelectorLabels :: "string \<Rightarrow> (string, string) gomap" where
  "SelectorLabels cluster = [(LabelName, AppName), (LabelCluster, cluster)]"

definition NodeSelectorLabels :: "string \<Rightarrow> string \<Rightarrow> (string, string) gomap" where
  "NodeSelectorLabels cluster node = gm_put LabelNode node (SelectorLabels cluster)"

definition ObjectLabels :: "string \<Rightarrow> (string, string) gomap" where
  "ObjectLabels cluster =
     gm_put LabelManagedBy OperatorName (gm_put LabelInstance cluster (SelectorLabels cluster))"

definition NodeObjectLabels :: "string \<Rightarrow> Node \<Rightarrow> (string, string) gomap" where
  "NodeObjectLabels cluster node =
     (let labels = gm_put LabelNode (node_Name node) (ObjectLabels cluster)
      in if node_Rack node \<noteq> [] then gm_put LabelRack (node_Rack node) labels else labels)"

definition ClusterSecretSource :: "FSCluster \<Rightarrow> string" where
  "ClusterSecretSource cluster = (case spec_ClusterSecretRef (fsc_Spec cluster) of
      Some name \<Rightarrow> if name \<noteq> [] then name else ClusterSecretName (fsc_Name cluster)
    | None \<Rightarrow> ClusterSecretName (fsc_Name cluster))"

definition RootCredentialsSource :: "FSCluster \<Rightarrow> string" where
  "RootCredentialsSource cluster = (case auth_RootCredentialsSecretRef (spec_Auth (fsc_Spec cluster)) of
      Some name \<Rightarrow> if name \<noteq> [] then name else RootCredentialsSecretName (fsc_Name cluster)
    | None \<Rightarrow> RootCredentialsSecretName (fsc_Name cluster))"

section \<open>Secrets\<close>

definition newSecret :: "FSCluster \<Rightarrow> string \<Rightarrow> (string, string) gomap \<Rightarrow> Secret" where
  "newSecret cluster name data =
     \<lparr>sec_Name = name, sec_Namespace = fsc_Namespace cluster, sec_Labels = ObjectLabels (fsc_Name cluster),
      sec_Annotations = [], sec_Data = [], sec_StringData = data\<rparr>"

definition fmt_mint_cluster :: string where "fmt_mint_cluster = ''mint cluster secret''"
definition fmt_mint_admin :: string where "fmt_mint_admin = ''mint admin token''"
definition fmt_mint_root_ak :: string where "fmt_mint_root_ak = ''mint root access key''"
definition fmt_mint_root_sk :: string where "fmt_mint_root_sk = ''mint root secret key''"

text \<open>Two reads of the random source may differ: the second has its own argument.\<close>

definition NewClusterSecret :: "(nat \<Rightarrow> string result) \<Rightarrow> FSCluster \<Rightarrow> Secret result" where
  "NewClusterSecret rand cluster = (case keygen_Token rand of
      Inl e \<Rightarrow> Inl (Wrap e fmt_mint_cluster [])
    | Inr secret \<Rightarrow> Inr (newSecret cluster (ClusterSecretName (fsc_Name cluster)) [(ClusterSecretKey, secret)]))"

definition NewAdminTokenSecret :: "(nat \<Rightarrow> string result) \<Rightarrow> FSCluster \<Rightarrow> Secret result" where
  "NewAdminTokenSecret rand cluster = (case keygen_Token rand of
      Inl e \<Rightarrow> Inl (Wrap e fmt_mint_admin [])
    | Inr token \<Rightarrow> Inr (newSecret cluster (AdminTokenSecretName (fsc_Name cluster)) [(AdminTokenKey, token)]))"

definition NewRootCredentialsSecret ::
    "(nat \<Rightarrow> string result) \<Rightarrow> (nat \<Rightarrow> string result) \<Rightarrow> FSCluster \<Rightarrow> Secret result" where
  "NewRootCredentialsSecret rand rand2 cluster = (case keygen_AccessKey rand of
      Inl e \<Rightarrow> Inl (Wrap e fmt_mint_root_ak [])
    | Inr accessKey \<Rightarrow> (case keygen_Token rand2 of
        Inl e \<Rightarrow> Inl (Wrap e fmt_mint_root_sk [])
      | Inr secretKey \<Rightarrow> Inr (newSecret cluster (RootCredentialsSecretName (fsc_Name cluster))
          [(AccessKeyKey, accessKey), (SecretKeyKey, secretKey)])))"

definition NewNodeConfigSecret :: "FSCluster \<Rightarrow> Node \<Rightarrow> RenderedConfig \<Rightarrow> Secret" where
  "NewNodeConfigSecret cluster node config =
     \<lparr>sec_Name = ConfigSecretName (node_Name node), sec_Namespace = fsc_Namespace cluster,
      sec_Labels = NodeObjectLabels (fsc_Name cluster) node,
      sec_Annotations = [(AnnotationConfigRevision, rc_Revision config)],
      sec_Data = [(ConfigFileName, rc_Data config)], sec_StringData = []\<rparr>"

section \<open>Services and the budget\<close>

definition servicePort :: "string \<Rightarrow> int32 \<Rightarrow> ServicePort" where
  "servicePort name port = \<lparr>sp_Name = name, sp_Port = port, sp_TargetPort = name, sp_Protocol = ''TCP''\<rparr>"

definition NewPeersService :: "FSCluster \<Rightarrow> Service" where
  "NewPeersService cluster =
     \<lparr>ser_Name = PeersServiceName (fsc_Name cluster), ser_Namespace = fsc_Namespace cluster,
      ser_Labels = ObjectLabels (fsc_Name cluster), ser_Annotations = [], ser_Type = [],
      ser_ClusterIP = ''None'', ser_PublishNotReadyAddresses = True,
      ser_Selector = SelectorLabels (fsc_Name cluster),
      ser_Ports = [servicePort PortNamePeer PeerPort, servicePort PortNameAdmin AdminPort,
                   servicePort PortNameMetrics MetricsPort]\<rparr>"

definition NewClientService :: "FSCluster \<Rightarrow> Service" where
  "NewClientService cluster =
     (let svc = s3_Service (spec_S3 (fsc_Spec cluster))
      in \<lparr>ser_Name = ClientServiceName (fsc_Name cluster), ser_Namespace = fsc_Namespace cluster,
          ser_Labels = ObjectLabels (fsc_Name cluster), ser_Annotations = svc_Annotations svc,
          ser_Type = svc_Type svc, ser_ClusterIP = [], ser_PublishNotReadyAddresses = False,
          ser_Selector = SelectorLabels (fsc_Name cluster),
          ser_Ports = [servicePort PortNameS3 (svc_Port svc)]\<rparr>)"

definition NewPodDisruptionBudget :: "FSCluster \<Rightarrow> PodDisruptionBudget" where
  "NewPodDisruptionBudget cluster =
     \<lparr>pdb_Name = fsc_Name cluster, pdb_Namespace = fsc_Namespace cluster,
      pdb_Labels = ObjectLabels (fsc_Name cluster), pdb_MaxUnavailable = 1,
      pdb_MatchLabels = SelectorLabels (fsc_Name cluster)\<rparr>"

section \<open>The container\<close>

definition ContainerName :: string where "ContainerName = ''fs''"
definition configVolumeName :: string where "configVolumeName = ''config''"
definition tlsVolumeName :: string where "tlsVolumeName = ''tls''"
definition DataVolumeName :: string where "DataVolumeName = ''data''"
definition readyPath :: string where "readyPath = ''/ready''"
definition flagConfig :: string where "flagConfig = ''--config''"
definition capAll :: string where "capAll = ''ALL''"
definition runAsUser :: int64 where "runAsUser = 1000"
definition runAsGroup :: int64 where "runAsGroup = 1000"
definition startupPeriodSeconds :: int32 where "startupPeriodSeconds = 5"
definition startupFailureThreshold :: int32 where "startupFailureThreshold = 60"
definition livenessPeriodSeconds :: int32 where "livenessPeriodSeconds = 10"
definition livenessTimeoutSeconds :: int32 where "livenessTimeoutSeconds = 3"
definition livenessFailureThreshold :: int32 where "livenessFailureThreshold = 3"
definition readinessPeriodSeconds :: int32 where "readinessPeriodSeconds = 10"
definition readinessFailureThreshold :: int32 where "readinessFailureThreshold = 3"
definition secretFileMode :: int32 where "secretFileMode = 288"
definition terminationGracePeriodSeconds :: int64 where "terminationGracePeriodSeconds = 60"
definition hostnameTopologyKey :: string where "hostnameTopologyKey = ''kubernetes.io/hostname''"
definition zoneLabel :: string where "zoneLabel = ''topology.kubernetes.io/zone''"
definition preferredAntiAffinityWeight :: int32 where "preferredAntiAffinityWeight = 100"

definition Image :: "FSCluster \<Rightarrow> string" where
  "Image cluster =
     (let image = spec_Image (fsc_Spec cluster)
      in if strings_Contains (img_Repository image) ''@'' then img_Repository image
         else if img_Digest image \<noteq> [] then img_Repository image @ ''@'' @ img_Digest image
         else img_Repository image @ '':'' @ img_Tag image)"

definition MetricsScraped :: "FSCluster \<Rightarrow> bool" where
  "MetricsScraped cluster \<longleftrightarrow>
     (let exporter = met_Exporter (obs_Metrics (spec_Observability (fsc_Spec cluster)))
      in exporter = [] \<or> exporter = ExporterPrometheus)"

definition pprofEnabled :: "FSCluster \<Rightarrow> bool" where
  "pprofEnabled cluster \<longleftrightarrow> (case obs_Pprof (spec_Observability (fsc_Spec cluster)) of
      None \<Rightarrow> True | Some b \<Rightarrow> b)"

definition containerPort :: "string \<Rightarrow> int32 \<Rightarrow> ContainerPort" where
  "containerPort name port = \<lparr>cp_Name = name, cp_ContainerPort = port, cp_Protocol = ''TCP''\<rparr>"

definition containerPorts :: "FSCluster \<Rightarrow> ContainerPort list" where
  "containerPorts cluster =
     [containerPort PortNameS3 S3Port, containerPort PortNamePeer PeerPort,
      containerPort PortNameAdmin AdminPort]
     @ (if MetricsScraped cluster then [containerPort PortNameMetrics MetricsPort] else [])
     @ (if pprofEnabled cluster then [containerPort PortNamePprof PprofPort] else [])"

definition probe :: "FSCluster \<Rightarrow> string \<Rightarrow> int32 \<Rightarrow> int32 \<Rightarrow> Probe" where
  "probe cluster path period failures =
     \<lparr>pr_Path = path, pr_Port = PortNameS3,
      pr_Scheme = (if tls_SecretName (s3_TLS (spec_S3 (fsc_Spec cluster))) \<noteq> [] then ''HTTPS'' else ''HTTP''),
      pr_PeriodSeconds = period, pr_TimeoutSeconds = livenessTimeoutSeconds,
      pr_FailureThreshold = failures\<rparr>"

text \<open>Environment variables fs and its telemetry SDK read.\<close>

definition envClusterSecret :: string where [simp]: "envClusterSecret = ''FS_CLUSTER_SECRET''"
definition envAdminToken :: string where [simp]: "envAdminToken = ''FS_ADMIN_TOKEN''"
definition envRootAccessKey :: string where [simp]: "envRootAccessKey = ''FS_ROOT_ACCESS_KEY''"
definition envRootSecretKey :: string where [simp]: "envRootSecretKey = ''FS_ROOT_SECRET_KEY''"
definition envMetricsAddr :: string where [simp]: "envMetricsAddr = ''METRICS_ADDR''"
definition envPprofAddr :: string where [simp]: "envPprofAddr = ''PPROF_ADDR''"
definition envLogLevel :: string where [simp]: "envLogLevel = ''OTEL_LOG_LEVEL''"
definition envTracesExporter :: string where [simp]: "envTracesExporter = ''OTEL_TRACES_EXPORTER''"
definition envLogsExporter :: string where [simp]: "envLogsExporter = ''OTEL_LOGS_EXPORTER''"
definition envMetricsExport :: string where [simp]: "envMetricsExport = ''OTEL_METRICS_EXPORTER''"
definition envOTLPEndpoint :: string where [simp]: "envOTLPEndpoint = ''OTEL_EXPORTER_OTLP_ENDPOINT''"
definition envOTLPProtocol :: string where [simp]: "envOTLPProtocol = ''OTEL_EXPORTER_OTLP_PROTOCOL''"
definition envOTLPTracesProto :: string where [simp]: "envOTLPTracesProto = ''OTEL_EXPORTER_OTLP_TRACES_PROTOCOL''"
definition envOTLPLogsProto :: string where [simp]: "envOTLPLogsProto = ''OTEL_EXPORTER_OTLP_LOGS_PROTOCOL''"
definition envOTLPMetricsProto :: string where [simp]: "envOTLPMetricsProto = ''OTEL_EXPORTER_OTLP_METRICS_PROTOCOL''"
definition envOTLPTracesEndpoint :: string where [simp]: "envOTLPTracesEndpoint = ''OTEL_EXPORTER_OTLP_TRACES_ENDPOINT''"
definition envOTLPLogsEndpoint :: string where [simp]: "envOTLPLogsEndpoint = ''OTEL_EXPORTER_OTLP_LOGS_ENDPOINT''"
definition envOTLPMetricsEndpoint :: string where [simp]: "envOTLPMetricsEndpoint = ''OTEL_EXPORTER_OTLP_METRICS_ENDPOINT''"
definition envResourceAttrs :: string where [simp]: "envResourceAttrs = ''OTEL_RESOURCE_ATTRIBUTES''"

definition secretEnv :: "string \<Rightarrow> string \<Rightarrow> string \<Rightarrow> EnvVar" where
  "secretEnv name secret key =
     \<lparr>env_Name = name, env_Value = [], env_ValueFrom = Some (SecretKeyRef secret key)\<rparr>"

definition valueEnv :: "string \<Rightarrow> string \<Rightarrow> EnvVar" where
  "valueEnv name v = \<lparr>env_Name = name, env_Value = v, env_ValueFrom = None\<rparr>"

definition resourceAttributes :: "FSCluster \<Rightarrow> Node \<Rightarrow> string" where
  "resourceAttributes cluster node =
     (let extra = obs_ResourceAttributes (spec_Observability (fsc_Spec cluster))
      in strings_Join
        ([''fs.cluster='' @ fsc_Name cluster, ''k8s.namespace.name='' @ fsc_Namespace cluster,
          ''fs.node='' @ node_Name node]
         @ (if node_Rack node \<noteq> [] then [''fs.rack='' @ node_Rack node] else [])
         @ map (\<lambda>key. key @ ''='' @ gm_str extra key) (slices_Sort (map fst extra)))
        '','')"

definition signalEndpoint :: "string \<Rightarrow> string \<Rightarrow> string \<Rightarrow> EnvVar" where
  "signalEndpoint name exporter endpoint =
     (if endpoint = [] \<or> exporter \<noteq> ExporterOTLP then valueEnv [] [] else valueEnv name endpoint)"

definition signalProtocol :: "string \<Rightarrow> string \<Rightarrow> string \<Rightarrow> EnvVar" where
  "signalProtocol name exporter protocol =
     (if protocol = [] \<or> exporter \<noteq> ExporterOTLP then valueEnv [] [] else valueEnv name protocol)"

definition telemetryEnv :: "ObservabilitySpec \<Rightarrow> EnvVar list" where
  "telemetryEnv spec =
     (let te = sig_Exporter (obs_Traces spec); le = sig_Exporter (obs_Logs spec);
          me = met_Exporter (obs_Metrics spec)
      in [valueEnv envTracesExporter te, valueEnv envLogsExporter le,
          valueEnv envMetricsExport me]
         @ (if me = ExporterPrometheus then [valueEnv envMetricsAddr (listenAddr MetricsPort)] else [])
         @ (if otlp_Endpoint (obs_OTLP spec) \<noteq> []
            then [valueEnv envOTLPEndpoint (otlp_Endpoint (obs_OTLP spec))] else [])
         @ (if otlp_Protocol (obs_OTLP spec) \<noteq> []
            then [valueEnv envOTLPProtocol (otlp_Protocol (obs_OTLP spec))] else [])
         @ filter (\<lambda>v. env_Name v \<noteq> [])
             [signalEndpoint envOTLPTracesEndpoint te (sig_Endpoint (obs_Traces spec)),
              signalEndpoint envOTLPLogsEndpoint le (sig_Endpoint (obs_Logs spec)),
              signalEndpoint envOTLPMetricsEndpoint me (met_Endpoint (obs_Metrics spec)),
              signalProtocol envOTLPTracesProto te (sig_Protocol (obs_Traces spec)),
              signalProtocol envOTLPLogsProto le (sig_Protocol (obs_Logs spec)),
              signalProtocol envOTLPMetricsProto me (met_Protocol (obs_Metrics spec))])"

definition env_vars :: "FSCluster \<Rightarrow> Node \<Rightarrow> EnvVar list" where
  "env_vars cluster node =
     (let spec = fsc_Spec cluster
      in [secretEnv envClusterSecret (ClusterSecretSource cluster) ClusterSecretKey,
          secretEnv envAdminToken (AdminTokenSecretName (fsc_Name cluster)) AdminTokenKey,
          secretEnv envRootAccessKey (RootCredentialsSource cluster) AccessKeyKey,
          secretEnv envRootSecretKey (RootCredentialsSource cluster) SecretKeyKey,
          valueEnv envLogLevel (obs_LogLevel (spec_Observability spec)),
          valueEnv envResourceAttrs (resourceAttributes cluster node)]
         @ telemetryEnv (spec_Observability spec)
         @ (if pprofEnabled cluster then [valueEnv envPprofAddr (listenAddr PprofPort)] else [])
         @ pt_ExtraEnv (spec_PodTemplate spec))"

definition volumeMounts :: "FSCluster \<Rightarrow> VolumeMount list" where
  "volumeMounts cluster =
     [\<lparr>vm_Name = DataVolumeName, vm_MountPath = StorageRoot, vm_ReadOnly = False\<rparr>,
      \<lparr>vm_Name = configVolumeName, vm_MountPath = ConfigDir, vm_ReadOnly = True\<rparr>]
     @ (if tls_SecretName (s3_TLS (spec_S3 (fsc_Spec cluster))) \<noteq> []
        then [\<lparr>vm_Name = tlsVolumeName, vm_MountPath = TLSDir, vm_ReadOnly = True\<rparr>] else [])"

definition fsContainer :: "FSCluster \<Rightarrow> Node \<Rightarrow> Container" where
  "fsContainer cluster node =
     (let spec = fsc_Spec cluster
      in \<lparr>con_Name = ContainerName, con_Image = Image cluster,
          con_ImagePullPolicy = img_PullPolicy (spec_Image spec),
          con_Args = [''s3'', flagConfig, ConfigPath], con_Ports = containerPorts cluster,
          con_Env = env_vars cluster node, con_VolumeMounts = volumeMounts cluster,
          con_Resources = pt_Resources (spec_PodTemplate spec),
          con_StartupProbe = probe cluster healthPath startupPeriodSeconds startupFailureThreshold,
          con_LivenessProbe = probe cluster healthPath livenessPeriodSeconds livenessFailureThreshold,
          con_ReadinessProbe = probe cluster readyPath readinessPeriodSeconds readinessFailureThreshold,
          con_SecurityContext = \<lparr>sc_AllowPrivilegeEscalation = False, sc_ReadOnlyRootFilesystem = True,
            sc_Drop = [capAll]\<rparr>\<rparr>)"

section \<open>The pod\<close>

definition volumes :: "FSCluster \<Rightarrow> Node \<Rightarrow> SecretVolume list" where
  "volumes cluster node =
     [\<lparr>sv_Name = configVolumeName, sv_SecretName = ConfigSecretName (node_Name node),
       sv_DefaultMode = secretFileMode\<rparr>]
     @ (let name = tls_SecretName (s3_TLS (spec_S3 (fsc_Spec cluster)))
        in if name \<noteq> []
           then [\<lparr>sv_Name = tlsVolumeName, sv_SecretName = name, sv_DefaultMode = secretFileMode\<rparr>] else [])"

definition nodeSelector :: "FSCluster \<Rightarrow> Node \<Rightarrow> (string, string) gomap" where
  "nodeSelector cluster node =
     gm_copy (pt_NodeSelector (spec_PodTemplate (fsc_Spec cluster))) (node_NodeSelector node)"

definition zoneAffinity :: "Node \<Rightarrow> NodeSelectorRequirement option" where
  "zoneAffinity node =
     (if node_Zone node = [] then None
      else Some \<lparr>nsr_Key = zoneLabel, nsr_Operator = ''In'', nsr_Values = [node_Zone node]\<rparr>)"

definition antiAffinity :: "FSCluster \<Rightarrow> PodAntiAffinity option" where
  "antiAffinity cluster =
     (let term = \<lparr>pat_MatchLabels = SelectorLabels (fsc_Name cluster), pat_TopologyKey = hostnameTopologyKey\<rparr>;
          mode = topo_PodAntiAffinity (spec_Topology (fsc_Spec cluster))
      in if mode = AntiAffinityPreferred
         then Some (PreferredDuringScheduling [(preferredAntiAffinityWeight, term)])
         else if mode = AntiAffinityNone then None
         else Some (RequiredDuringScheduling [term]))"

definition affinity :: "FSCluster \<Rightarrow> Node \<Rightarrow> Affinity option" where
  "affinity cluster node =
     (let n = zoneAffinity node; p = antiAffinity cluster
      in if n = None \<and> p = None then None
         else Some \<lparr>aff_NodeAffinity = n, aff_PodAntiAffinity = p\<rparr>)"

definition podSecurityContext :: PodSecurityContext where
  "podSecurityContext = \<lparr>psc_RunAsNonRoot = True, psc_RunAsUser = runAsUser, psc_RunAsGroup = runAsGroup,
     psc_FSGroup = runAsGroup, psc_SeccompProfile = ''RuntimeDefault''\<rparr>"

definition podTemplate :: "FSCluster \<Rightarrow> Node \<Rightarrow> string \<Rightarrow> PodTemplateSpec" where
  "podTemplate cluster node restartRevision =
     (let spec = fsc_Spec cluster;
          labels = gm_copy (gm_copy (NodeObjectLabels (fsc_Name cluster) node)
                              (pt_Labels (spec_PodTemplate spec)))
                     (NodeSelectorLabels (fsc_Name cluster) (node_Name node));
          annotations = gm_put AnnotationRestartRevision restartRevision
                          (pt_Annotations (spec_PodTemplate spec))
      in \<lparr>pts_Labels = labels, pts_Annotations = annotations,
          pts_Containers = [fsContainer cluster node], pts_Volumes = volumes cluster node,
          pts_ImagePullSecrets = img_PullSecrets (spec_Image spec),
          pts_NodeSelector = nodeSelector cluster node, pts_Affinity = affinity cluster node,
          pts_Tolerations = pt_Tolerations (spec_PodTemplate spec),
          pts_PriorityClassName = pt_PriorityClassName (spec_PodTemplate spec),
          pts_SecurityContext = podSecurityContext,
          pts_TerminationGracePeriodSeconds = terminationGracePeriodSeconds,
          pts_AutomountServiceAccountToken = False\<rparr>)"

section \<open>The StatefulSet\<close>

definition ResourceStorage :: string where "ResourceStorage = ''storage''"

definition volumeClaimTemplates :: "FSCluster \<Rightarrow> Node \<Rightarrow> PersistentVolumeClaim list" where
  "volumeClaimTemplates cluster node =
     [\<lparr>pvc_Name = DataVolumeName, pvc_Namespace = [], pvc_Labels = NodeObjectLabels (fsc_Name cluster) node,
       pvc_AccessModes = [''ReadWriteOnce''],
       pvc_Requests = Some [(ResourceStorage, sto_Size (spec_Storage (fsc_Spec cluster)))],
       pvc_StorageClassName =
         (let class = sto_StorageClass (spec_Storage (fsc_Spec cluster))
          in if class \<noteq> [] then Some class else None)\<rparr>]"

definition RetainClaims :: string where "RetainClaims = ''Retain''"
definition DeleteClaims :: string where "DeleteClaims = ''Delete''"

text \<open>\<open>claimRetentionPolicy\<close>: what happens to the claims when the set is deleted and when it is scaled.\<close>

definition claimRetentionPolicy :: "FSCluster \<Rightarrow> string \<times> string" where
  "claimRetentionPolicy cluster =
     ((if sto_ReclaimPolicy (spec_Storage (fsc_Spec cluster)) = ReclaimDelete then DeleteClaims
       else RetainClaims), RetainClaims)"

definition NewStatefulSet :: "FSCluster \<Rightarrow> Node \<Rightarrow> string \<Rightarrow> StatefulSet" where
  "NewStatefulSet cluster node restartRevision =
     \<lparr>set_APIVersion = ''apps/v1'', set_Kind = ''StatefulSet'', set_Name = node_Name node,
      set_Namespace = fsc_Namespace cluster, set_Labels = NodeObjectLabels (fsc_Name cluster) node,
      set_Annotations = [], set_ResourceVersion = [], set_CreationTimestamp = None, set_Generation = 0,
      set_ManagedFields = [],
      set_Spec =
        \<lparr>sts_Replicas = 1, sts_ServiceName = PeersServiceName (fsc_Name cluster),
         sts_MatchLabels = NodeSelectorLabels (fsc_Name cluster) (node_Name node),
         sts_Template = podTemplate cluster node restartRevision,
         sts_VolumeClaimTemplates = volumeClaimTemplates cluster node,
         sts_WhenDeleted = fst (claimRetentionPolicy cluster),
         sts_WhenScaled = snd (claimRetentionPolicy cluster)\<rparr>,
      set_Status = zero_set_status\<rparr>"

definition fmt_marshal_template :: string where "fmt_marshal_template = ''marshal pod template of node %q''"

definition TemplateRevision :: "(PodTemplateSpec \<Rightarrow> string result) \<Rightarrow> StatefulSet \<Rightarrow> string result" where
  "TemplateRevision json ss = (case json (sts_Template (set_Spec ss)) of
      Inl e \<Rightarrow> Inl (Wrap e fmt_marshal_template [set_Name ss])
    | Inr template \<Rightarrow> Inr (format_revision templatePrefix (sha256_Sum256 template)))"

fun template_preimage ::
    "(PodTemplateSpec \<Rightarrow> string result) \<Rightarrow> StatefulSet list \<Rightarrow> string result" where
  "template_preimage json [] = Inr []"
| "template_preimage json (ss # sets) =
     (case json (sts_Template (set_Spec ss)) of
        Inl e \<Rightarrow> Inl (Wrap e fmt_marshal_template [set_Name ss])
      | Inr template \<Rightarrow>
          (case template_preimage json sets of
             Inl e \<Rightarrow> Inl e
           | Inr rest \<Rightarrow> Inr (hash_entry (set_Name ss) template @ rest)))"

definition PodTemplateRevision ::
    "(PodTemplateSpec \<Rightarrow> string result) \<Rightarrow> StatefulSet list \<Rightarrow> string result" where
  "PodTemplateRevision json sets = (case template_preimage json sets of
      Inl e \<Rightarrow> Inl e
    | Inr preimage \<Rightarrow> Inr (format_revision templatePrefix (sha256_Sum256 preimage)))"

text \<open>\<open>stampTemplateRevision\<close> of \<open>rollout.go\<close> and \<open>keptStatefulSet\<close> of \<open>decommission.go\<close>.\<close>

definition stampTemplateRevision ::
    "(PodTemplateSpec \<Rightarrow> string result) \<Rightarrow> StatefulSet \<Rightarrow> StatefulSet result" where
  "stampTemplateRevision json ss = (case TemplateRevision json ss of
      Inl e \<Rightarrow> Inl e
    | Inr revision \<Rightarrow>
        Inr (ss\<lparr>set_Annotations := gm_put AnnotationTemplateRevision revision (set_Annotations ss)\<rparr>))"

definition keptStatefulSet ::
    "(PodTemplateSpec \<Rightarrow> string result) \<Rightarrow> StatefulSet \<Rightarrow> StatefulSet result" where
  "keptStatefulSet json live = stampTemplateRevision json
     (live\<lparr>set_APIVersion := ''apps/v1'', set_Kind := ''StatefulSet'', set_ResourceVersion := [],
           set_ManagedFields := [], set_Status := zero_set_status\<rparr>)"

section \<open>NetworkPolicy and PodMonitor\<close>

definition namespaceNameLabel :: string where "namespaceNameLabel = ''kubernetes.io/metadata.name''"

definition policyPort :: "int32 \<Rightarrow> NetworkPolicyPort" where
  "policyPort port = \<lparr>npp_Protocol = ''TCP'', npp_Port = port\<rparr>"

definition NewNetworkPolicy :: "FSCluster \<Rightarrow> string \<Rightarrow> NetworkPolicy" where
  "NewNetworkPolicy cluster operatorNamespace =
     (let clusterPods = SelectorLabels (fsc_Name cluster);
          internalFrom = [PodSelectorPeer clusterPods]
            @ (if operatorNamespace \<noteq> []
               then [NamespaceSelectorPeer [(namespaceNameLabel, operatorNamespace)]] else []);
          opn = [policyPort (svc_Port (s3_Service (spec_S3 (fsc_Spec cluster))))]
            @ (if MetricsScraped cluster then [policyPort MetricsPort] else [])
            @ (if pprofEnabled cluster then [policyPort PprofPort] else [])
      in \<lparr>np_Name = fsc_Name cluster, np_Namespace = fsc_Namespace cluster,
          np_Labels = ObjectLabels (fsc_Name cluster), np_PodSelector = clusterPods,
          np_PolicyTypes = [''Ingress''],
          np_Ingress = [\<lparr>npi_From = [], npi_Ports = opn\<rparr>,
                        \<lparr>npi_From = internalFrom, npi_Ports = [policyPort PeerPort, policyPort AdminPort]\<rparr>]\<rparr>)"

definition NewPodMonitor :: "FSCluster \<Rightarrow> PodMonitor" where
  "NewPodMonitor cluster =
     \<lparr>pm_Name = fsc_Name cluster, pm_Namespace = fsc_Namespace cluster,
      pm_Labels = ObjectLabels (fsc_Name cluster), pm_MatchLabels = SelectorLabels (fsc_Name cluster),
      pm_Port = PortNameMetrics, pm_Path = ''/metrics''\<rparr>"

section \<open>Facts\<close>

lemma gm_ok_SelectorLabels [simp]: "gm_ok (SelectorLabels c)"
  by (simp add: SelectorLabels_def gm_ok_def label_defs)

lemma gm_ok_NodeSelectorLabels [simp]: "gm_ok (NodeSelectorLabels c n)"
  by (simp add: NodeSelectorLabels_def)

lemma NodeSelectorLabels_get:
  "gm_get (NodeSelectorLabels c n) LabelName = Some AppName"
  "gm_get (NodeSelectorLabels c n) LabelCluster = Some c"
  "gm_get (NodeSelectorLabels c n) LabelNode = Some n"
  by (simp_all add: NodeSelectorLabels_def SelectorLabels_def label_defs)

lemma stamp_frame:
  assumes "stampTemplateRevision json s = Inr t"
  shows "set_Name t = set_Name s \<and> set_Spec t = set_Spec s \<and> set_Namespace t = set_Namespace s
    \<and> TemplateRevision json s = Inr (gm_str (set_Annotations t) AnnotationTemplateRevision)"
  using assms by (auto simp: stampTemplateRevision_def gm_str_def split: sum.splits)

lemma kept_frame:
  assumes "keptStatefulSet json live = Inr s"
  shows "set_Name s = set_Name live \<and> set_Spec s = set_Spec live \<and> set_Namespace s = set_Namespace live
    \<and> set_ResourceVersion s = [] \<and> set_ManagedFields s = [] \<and> set_Labels s = set_Labels live"
  using assms by (auto simp: keptStatefulSet_def stampTemplateRevision_def split: sum.splits)

text \<open>A selector matches a label set when every one of its pairs is there.\<close>

definition selector_matches :: "(string, string) gomap \<Rightarrow> (string, string) gomap \<Rightarrow> bool" where
  "selector_matches sel labels \<longleftrightarrow> list_all (\<lambda>(k, v). gm_get labels k = Some v) sel"

lemma podTemplate_selected:
  "gm_get (pts_Labels (podTemplate c n r)) LabelName = Some AppName"
  "gm_get (pts_Labels (podTemplate c n r)) LabelCluster = Some (fsc_Name c)"
  "gm_get (pts_Labels (podTemplate c n r)) LabelNode = Some (node_Name n)"
  by (simp_all add: podTemplate_def Let_def gm_get_copy NodeSelectorLabels_get)

lemma selector_SelectorLabels:
  "selector_matches (SelectorLabels c) l \<longleftrightarrow> gm_get l LabelName = Some AppName \<and> gm_get l LabelCluster = Some c"
  by (simp add: selector_matches_def SelectorLabels_def)

lemma NodeSelectorLabels_alt:
  "NodeSelectorLabels c n = [(LabelName, AppName), (LabelCluster, c), (LabelNode, n)]"
  by (simp add: NodeSelectorLabels_def SelectorLabels_def gm_put_def label_defs)

lemma selector_NodeSelectorLabels:
  "selector_matches (NodeSelectorLabels c n) l \<longleftrightarrow>
     gm_get l LabelName = Some AppName \<and> gm_get l LabelCluster = Some c \<and> gm_get l LabelNode = Some n"
  by (simp add: selector_matches_def NodeSelectorLabels_alt)

text \<open>What the ingress rules of a policy admit: a port from any source, or from a peer.\<close>

definition open_ports :: "NetworkPolicy \<Rightarrow> int32 set" where
  "open_ports np = set (map npp_Port (concat (map npi_Ports
     (filter (\<lambda>rule. npi_From rule = []) (np_Ingress np)))))"

definition peer_ports :: "NetworkPolicy \<Rightarrow> NetworkPolicyPeer \<Rightarrow> int32 set" where
  "peer_ports np peer = set (map npp_Port (concat (map npi_Ports
     (filter (\<lambda>rule. peer \<in> set (npi_From rule)) (np_Ingress np)))))"

section \<open>Properties\<close>

text \<open>
  C29. Whatever labels the user puts on the pod template, a node's pod keeps the labels its own
  StatefulSet, the two Services, the disruption budget, the NetworkPolicy and the PodMonitor
  select on, and it is never selected by the StatefulSet of another node of the cluster.
\<close>

theorem pod_selected_by_its_own_set:
  "(selector_matches (sts_MatchLabels (set_Spec (NewStatefulSet c n' r')))
       (pts_Labels (sts_Template (set_Spec (NewStatefulSet c n r)))) \<longleftrightarrow> node_Name n' = node_Name n)
   \<and> (\<forall>sel \<in> {ser_Selector (NewPeersService c), ser_Selector (NewClientService c),
              pdb_MatchLabels (NewPodDisruptionBudget c), np_PodSelector (NewNetworkPolicy c ns),
              pm_MatchLabels (NewPodMonitor c)}.
        selector_matches sel (pts_Labels (sts_Template (set_Spec (NewStatefulSet c n r)))))"
proof -
  let ?l = "pts_Labels (podTemplate c n r)"
  have "sts_MatchLabels (set_Spec (NewStatefulSet c n' r')) = NodeSelectorLabels (fsc_Name c) (node_Name n')"
    and t: "sts_Template (set_Spec (NewStatefulSet c n r)) = podTemplate c n r"
    by (simp_all add: NewStatefulSet_def)
  moreover have "selector_matches (SelectorLabels (fsc_Name c)) ?l"
    by (simp add: selector_SelectorLabels podTemplate_selected)
  moreover have "selector_matches (NodeSelectorLabels (fsc_Name c) m) ?l \<longleftrightarrow> m = node_Name n" for m
    by (auto simp: selector_NodeSelectorLabels podTemplate_selected)
  ultimately show ?thesis
    by (simp add: NewPeersService_def NewClientService_def NewPodDisruptionBudget_def NewNetworkPolicy_def
        NewPodMonitor_def Let_def)
qed

theorem pod_selected_by_its_own_set_witness:
  "selector_matches (SelectorLabels ''fs'')
     (pts_Labels (sts_Template (set_Spec (NewStatefulSet (config_cluster [] two_racks) (flat_node ''fs'' 0) []))))"
  using pod_selected_by_its_own_set [of "config_cluster [] two_racks" "flat_node ''fs'' 0" "[]" "flat_node ''fs'' 0" "[]" "[]"]
  by (simp add: NewPeersService_def config_cluster_def)

text \<open>
  C38. The NetworkPolicy fits the pods of the cluster, when the S3 Service is on the port the nodes
  listen on. It selects every node's pod, whatever labels the user adds. Open to everyone are
  exactly the ports the pod's containers serve, the peer and the admin port apart: S3, and metrics
  and pprof when they are served. The peer and the admin port are admitted from the cluster's own
  pods and, when the operator knows its namespace, from there; from nobody else.
\<close>

theorem NetworkPolicy_fits_pods:
  assumes "svc_Port (s3_Service (spec_S3 (fsc_Spec c))) = S3Port"
  shows "let np = NewNetworkPolicy c ns; pod = sts_Template (set_Spec (NewStatefulSet c n r));
      served = cp_ContainerPort ` (\<Union>con \<in> set (pts_Containers pod). set (con_Ports con))
    in selector_matches (np_PodSelector np) (pts_Labels pod)
      \<and> {PeerPort, AdminPort} \<subseteq> served \<and> open_ports np = served - {PeerPort, AdminPort}
      \<and> (\<forall>peer. peer_ports np peer
           = (if peer = PodSelectorPeer (SelectorLabels (fsc_Name c)) \<or> ns \<noteq> [] \<and> peer = NamespaceSelectorPeer [(namespaceNameLabel, ns)]
              then {PeerPort, AdminPort} else {}))"
proof -
  let ?np = "NewNetworkPolicy c ns" and ?pod = "sts_Template (set_Spec (NewStatefulSet c n r))"
  have t: "?pod = podTemplate c n r" by (simp add: NewStatefulSet_def)
  have served: "cp_ContainerPort ` (\<Union>con \<in> set (pts_Containers ?pod). set (con_Ports con)) = {S3Port, PeerPort, AdminPort}
      \<union> (if MetricsScraped c then {MetricsPort} else {}) \<union> (if pprofEnabled c then {PprofPort} else {})"
    unfolding t by (auto simp: podTemplate_def fsContainer_def containerPorts_def containerPort_def Let_def)
  have opn: "open_ports ?np = {S3Port} \<union> (if MetricsScraped c then {MetricsPort} else {}) \<union> (if pprofEnabled c then {PprofPort} else {})"
    using assms by (auto simp: open_ports_def NewNetworkPolicy_def Let_def policyPort_def)
  have peers: "peer_ports ?np peer
      = (if peer = PodSelectorPeer (SelectorLabels (fsc_Name c)) \<or> ns \<noteq> [] \<and> peer = NamespaceSelectorPeer [(namespaceNameLabel, ns)]
         then {PeerPort, AdminPort} else {})" for peer
    by (auto simp: peer_ports_def NewNetworkPolicy_def Let_def policyPort_def)
  have "selector_matches (np_PodSelector ?np) (pts_Labels ?pod)"
    unfolding t by (simp add: NewNetworkPolicy_def Let_def selector_SelectorLabels podTemplate_selected)
  moreover have "open_ports ?np = ({S3Port, PeerPort, AdminPort}
      \<union> (if MetricsScraped c then {MetricsPort} else {}) \<union> (if pprofEnabled c then {PprofPort} else {})) - {PeerPort, AdminPort}"
    unfolding opn by (auto simp: S3Port_def PeerPort_def AdminPort_def MetricsPort_def PprofPort_def)
  ultimately show ?thesis unfolding Let_def served using peers by simp
qed

text \<open>With the defaults, the Service is on the port the nodes listen on.\<close>

definition defaulted_cluster :: FSCluster where
  "defaulted_cluster = (config_cluster [] two_racks)\<lparr>fsc_Spec := WithDefaults (fsc_Spec (config_cluster [] two_racks))\<rparr>"

theorem NetworkPolicy_fits_pods_witness:
  "AdminPort \<notin> open_ports (NewNetworkPolicy defaulted_cluster ''fs-system'')
   \<and> peer_ports (NewNetworkPolicy defaulted_cluster ''fs-system'')
       (NamespaceSelectorPeer [(namespaceNameLabel, ''fs-system'')]) = {PeerPort, AdminPort}"
proof -
  have "svc_Port (s3_Service (spec_S3 (fsc_Spec defaulted_cluster))) = S3Port"
    by code_simp
  from NetworkPolicy_fits_pods [OF this, of "''fs-system''" "flat_node ''fs'' 0" "[]"] show ?thesis
    by (simp add: Let_def)
qed

end
