(* ===== verification/Fs_Client.thy ===== *)
theory Fs_Client
  imports Api_Types
begin

text \<open>
  \<open>internal/fsclient\<close>: the operator's view of the admin API. The generated client
  (\<open>github.com/go-faster/fs/adminapi\<close>) is not part of the repository; its answers are arguments
  here, of the records \<open>adm_...\<close> that keep the fields the wrapper reads, with \<open>option\<close> for
  the generated \<open>Opt\<close> types. A failing call carries an \<open>error\<close>; an
  \<open>*adminapi.ErrorStatusCode\<close> is \<open>AdminStatus code message\<close>.
\<close>

section \<open>The operator's types\<close>

record Info =
  info_Version :: string
  info_Commit :: string
  info_ConfigRevision :: string

record ReloadResult =
  rel_Reloaded :: "string list"
  rel_ConfigRevision :: string

record Role =
  role_ID :: string
  role_Zone :: string
  role_Rack :: string
  role_Capacity :: uint64

record Layout =
  l_Version :: uint64
  l_Widths :: "int list"
  l_Members :: "Role list"
  l_Retained :: "uint64 list"

definition Transitioning :: "Layout \<Rightarrow> bool" where
  "Transitioning l \<longleftrightarrow> 0 < length (l_Retained l)"

text \<open>\<open>Layout.Member\<close>: the first role with the ID.\<close>

definition Member :: "Layout \<Rightarrow> string \<Rightarrow> Role option" where
  "Member l ident = find (\<lambda>m. role_ID m = ident) (l_Members l)"

record GossipNode =
  gn_ID :: string
  gn_Addr :: string
  gn_Self :: bool
  gn_Up :: bool
  gn_LayoutVersion :: uint64
  gn_SyncedVersion :: uint64
  gn_Error :: string

section \<open>The generated API\<close>

record adm_Info =
  ai_Version :: string
  ai_Commit :: string
  ai_ConfigRevision :: "string option"

record adm_ReloadResult =
  ar_Reloaded :: "string list"
  ar_ConfigRevision :: "string option"

record adm_LayoutRole =
  alr_ID :: string
  alr_Zone :: "string option"
  alr_Rack :: "string option"
  alr_Capacity :: uint64

record adm_Layout =
  al_Version :: uint64
  al_Widths :: "int list"
  al_Members :: "adm_LayoutRole list"
  al_RetainedVersions :: "uint64 list"

record adm_Node =
  an_ID :: "string option"
  an_Addr :: string
  an_Self :: bool
  an_Up :: bool
  an_LayoutVersion :: "uint64 option"
  an_SyncedVersion :: "uint64 option"
  an_Error :: "string option"

record adm_ApplyLayoutRequest =
  alq_Widths :: "int list"
  alq_Members :: "adm_LayoutRole list"

text \<open>The \<open>Or\<close> method of an optional value.\<close>

definition Or :: "'a option \<Rightarrow> 'a \<Rightarrow> 'a" where
  "Or x d = (case x of None \<Rightarrow> d | Some v \<Rightarrow> v)"

text \<open>\<open>errors.As(err, &status)\<close> with \<open>status *adminapi.ErrorStatusCode\<close>.\<close>

primrec as_status :: "error \<Rightarrow> (int \<times> string) option" where
  "as_status (ApiError a) = None"
| "as_status (Sentinel s) = None"
| "as_status (AdminStatus c m) = Some (c, m)"
| "as_status (S3Error c) = None"
| "as_status (NewError f as) = None"
| "as_status (Wrap e f as) = as_status e"

definition StatusBadRequest :: int where "StatusBadRequest = 400"
definition StatusNotFound :: int where "StatusNotFound = 404"

definition fmt_get_info :: string where "fmt_get_info = ''get info''"
definition fmt_reload_config :: string where "fmt_reload_config = ''reload config''"
definition fmt_get_layout :: string where "fmt_get_layout = ''get layout''"
definition fmt_apply_layout :: string where "fmt_apply_layout = ''apply layout''"
definition fmt_list_cluster_nodes :: string where "fmt_list_cluster_nodes = ''list cluster nodes''"
definition fmt_list_access_keys :: string where "fmt_list_access_keys = ''list access keys''"
definition fmt_get_bucket_scheme :: string where "fmt_get_bucket_scheme = ''get bucket scheme''"
definition fmt_set_bucket_scheme :: string where "fmt_set_bucket_scheme = ''set bucket scheme''"

section \<open>The calls, given what the generated client answered\<close>

definition optString :: "string \<Rightarrow> string option" where
  "optString s = (if s = [] then None else Some s)"

definition roleFromAPI :: "adm_LayoutRole \<Rightarrow> Role" where
  "roleFromAPI m = \<lparr>role_ID = alr_ID m, role_Zone = Or (alr_Zone m) [], role_Rack = Or (alr_Rack m) [],
     role_Capacity = alr_Capacity m\<rparr>"

definition layoutFromAPI :: "adm_Layout \<Rightarrow> Layout" where
  "layoutFromAPI l = \<lparr>l_Version = al_Version l, l_Widths = al_Widths l,
     l_Members = map roleFromAPI (al_Members l), l_Retained = al_RetainedVersions l\<rparr>"

definition client_Info :: "adm_Info result \<Rightarrow> Info result" where
  "client_Info answer = (case answer of
      Inl e \<Rightarrow> Inl (Wrap e fmt_get_info [])
    | Inr i \<Rightarrow> Inr \<lparr>info_Version = ai_Version i, info_Commit = ai_Commit i,
        info_ConfigRevision = Or (ai_ConfigRevision i) []\<rparr>)"

definition client_Reload :: "adm_ReloadResult result \<Rightarrow> ReloadResult result" where
  "client_Reload answer = (case answer of
      Inl e \<Rightarrow> Inl (Wrap e fmt_reload_config [])
    | Inr r \<Rightarrow> Inr \<lparr>rel_Reloaded = ar_Reloaded r, rel_ConfigRevision = Or (ar_ConfigRevision r) []\<rparr>)"

definition client_Layout :: "adm_Layout result \<Rightarrow> Layout result" where
  "client_Layout answer = (case answer of
      Inl e \<Rightarrow>
        (case as_status e of
           Some (code, m) \<Rightarrow>
             if code = StatusNotFound then Inl (Sentinel ErrNoLayout) else Inl (Wrap e fmt_get_layout [])
         | None \<Rightarrow> Inl (Wrap e fmt_get_layout []))
    | Inr l \<Rightarrow> Inr (layoutFromAPI l))"

text \<open>The request \<open>ApplyLayout\<close> sends, and what it makes of the answer.\<close>

definition applyLayoutRequest :: "Role list \<Rightarrow> int list \<Rightarrow> adm_ApplyLayoutRequest" where
  "applyLayoutRequest roles widths =
     \<lparr>alq_Widths = widths,
      alq_Members = map (\<lambda>r. \<lparr>alr_ID = role_ID r, alr_Zone = optString (role_Zone r),
        alr_Rack = optString (role_Rack r), alr_Capacity = role_Capacity r\<rparr>) roles\<rparr>"

definition client_ApplyLayout :: "adm_Layout result \<Rightarrow> Layout result" where
  "client_ApplyLayout answer = (case answer of
      Inl e \<Rightarrow>
        (case as_status e of
           Some (code, m) \<Rightarrow>
             if code = StatusBadRequest then Inl (Wrap (Sentinel ErrLayoutRejected) m [])
             else Inl (Wrap e fmt_apply_layout [])
         | None \<Rightarrow> Inl (Wrap e fmt_apply_layout []))
    | Inr l \<Rightarrow> Inr (layoutFromAPI l))"

definition nodeFromAPI :: "adm_Node \<Rightarrow> GossipNode" where
  "nodeFromAPI n = \<lparr>gn_ID = Or (an_ID n) [], gn_Addr = an_Addr n, gn_Self = an_Self n, gn_Up = an_Up n,
     gn_LayoutVersion = Or (an_LayoutVersion n) 0, gn_SyncedVersion = Or (an_SyncedVersion n) 0,
     gn_Error = Or (an_Error n) []\<rparr>"

definition client_Nodes :: "adm_Node list result \<Rightarrow> GossipNode list result" where
  "client_Nodes answer = (case answer of
      Inl e \<Rightarrow> Inl (Wrap e fmt_list_cluster_nodes [])
    | Inr ns \<Rightarrow> Inr (map nodeFromAPI ns))"

definition client_AccessKeys :: "string list result \<Rightarrow> string list result" where
  "client_AccessKeys answer = (case answer of
      Inl e \<Rightarrow> Inl (Wrap e fmt_list_access_keys []) | Inr ids \<Rightarrow> Inr ids)"

definition mapSchemeError :: "error \<Rightarrow> string \<Rightarrow> error" where
  "mapSchemeError e op = (case as_status e of
      Some (code, m) \<Rightarrow>
        if code = StatusBadRequest then Wrap (Sentinel ErrSchemeRejected) m []
        else if code = StatusNotFound then Wrap (Sentinel ErrBucketNotFound) m []
        else Wrap e op []
    | None \<Rightarrow> Wrap e op [])"

definition client_GetBucketScheme :: "string result \<Rightarrow> string result" where
  "client_GetBucketScheme answer = (case answer of
      Inl e \<Rightarrow> Inl (mapSchemeError e fmt_get_bucket_scheme) | Inr s \<Rightarrow> Inr s)"

definition client_SetBucketScheme :: "string result \<Rightarrow> string result" where
  "client_SetBucketScheme answer = (case answer of
      Inl e \<Rightarrow> Inl (mapSchemeError e fmt_set_bucket_scheme) | Inr s \<Rightarrow> Inr s)"

section \<open>The pool\<close>

text \<open>
  A client is its endpoint and token, and the request timeout; the transport is shared.
  \<open>build\<close> is what \<open>adminapi.NewClient\<close> answers for a base URL (an error when it does not
  parse).
\<close>

record Client =
  cl_baseURL :: string
  cl_token :: string
  cl_timeout :: Duration

definition DefaultTimeout :: Duration where "DefaultTimeout = 15 * 1000000000"

record Pool =
  pool_timeout :: Duration
  pool_clients :: "(string \<times> string, Client) gomap"

definition fmt_build_admin_client :: string where "fmt_build_admin_client = ''build admin client''"

definition NewPool :: Pool where
  "NewPool = \<lparr>pool_timeout = DefaultTimeout, pool_clients = []\<rparr>"

definition fsclient_New :: "(string \<Rightarrow> error option) \<Rightarrow> string \<Rightarrow> string \<Rightarrow> Duration \<Rightarrow> Client result" where
  "fsclient_New build baseURL token timeout = (case build baseURL of
      Some e \<Rightarrow> Inl (Wrap e fmt_build_admin_client [])
    | None \<Rightarrow> Inr \<lparr>cl_baseURL = baseURL, cl_token = token, cl_timeout = timeout\<rparr>)"

definition Pool_Client ::
    "(string \<Rightarrow> error option) \<Rightarrow> Pool \<Rightarrow> string \<Rightarrow> string \<Rightarrow> Client result \<times> Pool" where
  "Pool_Client build p baseURL token =
     (case gm_get (pool_clients p) (baseURL, token) of
        Some c \<Rightarrow> (Inr c, p)
      | None \<Rightarrow>
          (case fsclient_New build baseURL token (pool_timeout p) of
             Inl e \<Rightarrow> (Inl e, p)
           | Inr c \<Rightarrow> (Inr c, p\<lparr>pool_clients := gm_put (baseURL, token) c (pool_clients p)\<rparr>)))"

text \<open>The pool's invariant: a cached client talks to the endpoint and with the token it is filed under.\<close>

definition pool_ok :: "Pool \<Rightarrow> bool" where
  "pool_ok p \<longleftrightarrow> (\<forall>k c. gm_get (pool_clients p) k = Some c \<longrightarrow>
     (cl_baseURL c, cl_token c) = k \<and> cl_timeout c = pool_timeout p)"

text \<open>\<open>bearerTransport.RoundTrip\<close>: the header of the clone that is sent on.\<close>

definition RoundTrip :: "string \<Rightarrow> (string, string) gomap \<Rightarrow> (string, string) gomap" where
  "RoundTrip token header = gm_put ''Authorization'' (''Bearer '' @ token) header"

section \<open>Facts\<close>

lemma Transitioning_iff [simp]: "Transitioning l \<longleftrightarrow> l_Retained l \<noteq> []"
  by (simp add: Transitioning_def)

lemma Member_None [simp]: "Member l i = None \<longleftrightarrow> i \<notin> role_ID ` set (l_Members l)"
  by (auto simp: Member_def find_None_iff)

lemma Or_Some [simp]: "Or (Some v) d = v" and Or_None [simp]: "Or None d = d"
  by (simp_all add: Or_def)

lemma Or_optString [simp]: "Or (optString s) [] = s"
  by (simp add: optString_def)

lemma pool_ok_NewPool [simp]: "pool_ok NewPool"
  by (simp add: pool_ok_def NewPool_def)

lemma pool_ok_Client: "pool_ok p \<Longrightarrow> Pool_Client build p u t = (r, p') \<Longrightarrow> pool_ok p'"
  by (auto simp: Pool_Client_def pool_ok_def fsclient_New_def split: option.splits if_splits)

lemma Pool_Client_timeout: "pool_timeout (snd (Pool_Client build p u t)) = pool_timeout p"
  by (simp add: Pool_Client_def split: option.splits sum.splits)

text \<open>A pool after a sequence of requests.\<close>

definition pool_run :: "(string \<Rightarrow> error option) \<Rightarrow> (string \<times> string) list \<Rightarrow> Pool" where
  "pool_run build reqs = fold (\<lambda>(u, t) p. snd (Pool_Client build p u t)) reqs NewPool"

lemma pool_run_ok: "pool_ok (pool_run build reqs) \<and> pool_timeout (pool_run build reqs) = DefaultTimeout"
proof (induction reqs rule: rev_induct)
  case Nil
  then show ?case by (simp add: pool_run_def) (simp add: NewPool_def)
next
  case (snoc r reqs)
  obtain u t where r: "r = (u, t)" by (cases r)
  obtain res p where p: "Pool_Client build (pool_run build reqs) u t = (res, p)"
    by (cases "Pool_Client build (pool_run build reqs) u t")
  then have "pool_run build (reqs @ [r]) = p" by (simp add: pool_run_def r)
  moreover have "pool_ok p" using snoc pool_ok_Client [OF _ p] by simp
  moreover have "pool_timeout p = DefaultTimeout"
    using snoc Pool_Client_timeout [of build "pool_run build reqs" u t] p by simp
  ultimately show ?case by simp
qed

text \<open>
  A pool over one constructor is transparent: whatever it served before, it hands out what
  building a client afresh would give. The \<open>adminClient\<close> of the controllers is modelled by this.
\<close>

lemma pool_holds_built:
  "gm_get (pool_clients (pool_run build reqs)) (u, t) = Some c \<Longrightarrow> fsclient_New build u t DefaultTimeout = Inr c"
proof (induction reqs arbitrary: c rule: rev_induct)
  case Nil
  then show ?case by (simp add: pool_run_def) (simp add: NewPool_def)
next
  case (snoc r reqs)
  obtain v s where r: "r = (v, s)" by (cases r)
  have "pool_run build (reqs @ [r]) = snd (Pool_Client build (pool_run build reqs) v s)"
    by (simp add: pool_run_def r)
  with snoc pool_run_ok [of build reqs] show ?case
    by (auto simp: Pool_Client_def split: option.splits sum.splits if_splits)
qed

lemma pool_transparent:
  "fst (Pool_Client build (pool_run build reqs) u t) = fsclient_New build u t DefaultTimeout"
  using pool_run_ok [of build reqs] pool_holds_built [of build reqs u t]
  by (auto simp: Pool_Client_def split: option.splits sum.splits)

section \<open>Properties\<close>

text \<open>
  Whatever sequence of requests a pool served, the client it hands out talks to the
  endpoint that was asked for, with the token that was asked for and the pool's timeout; in
  particular a rotated token is never served by a client of the old one. A second request for
  the same endpoint and token is answered from the cache, whatever building would say.
\<close>

theorem Pool_Client_identity:
  assumes "Pool_Client build (pool_run build reqs) u t = (Inr c, p')"
  shows "cl_baseURL c = u \<and> cl_token c = t \<and> cl_timeout c = DefaultTimeout
    \<and> Pool_Client build' p' u t = (Inr c, p')"
  using assms pool_run_ok [of build reqs]
  by (auto simp: Pool_Client_def pool_ok_def fsclient_New_def split: option.splits)

theorem Pool_Client_identity_witness:
  "\<exists>c p'. Pool_Client (\<lambda>u. None) (pool_run (\<lambda>u. None) [(''http://a'', ''old'')]) ''http://a'' ''new'' = (Inr c, p')
     \<and> cl_token c = ''new''"
proof -
  obtain c p' where e: "Pool_Client (\<lambda>u. None) (pool_run (\<lambda>u. None) [(''http://a'', ''old'')]) ''http://a'' ''new''
      = (Inr c, p')"
    by (simp add: Pool_Client_def pool_run_def NewPool_def fsclient_New_def)
  from Pool_Client_identity [OF this] e show ?thesis by blast
qed

text \<open>
  C39. The layout a role set is sent as reads back as that role set: an empty zone or rack
  travels as absent and returns as empty, any other one is sent as it is, and the identities,
  capacities and widths come back untouched, beside the version and the retained versions the node
  reports. Errors keep their meaning: an error of the call, which is none of the client's own, is
  reported as \<open>no layout\<close> exactly on HTTP 404 when a layout is read, and as \<open>rejected\<close> exactly on HTTP
  400 when one is applied, so no transient failure is taken for either.
\<close>

theorem layout_roundtrip:
  assumes "\<not> errors_Is e ErrNoLayout" "\<not> errors_Is e ErrLayoutRejected"
  shows "let req = applyLayoutRequest roles widths
    in list_all2 (\<lambda>r m. alr_Zone m = (if role_Zone r = [] then None else Some (role_Zone r))
          \<and> alr_Rack m = (if role_Rack r = [] then None else Some (role_Rack r))) roles (alq_Members req)
      \<and> client_Layout (Inr \<lparr>al_Version = v, al_Widths = alq_Widths req, al_Members = alq_Members req, al_RetainedVersions = rs\<rparr>)
        = Inr \<lparr>l_Version = v, l_Widths = widths, l_Members = roles, l_Retained = rs\<rparr>
      \<and> (\<exists>e'. client_Layout (Inl e) = Inl e' \<and> (errors_Is e' ErrNoLayout \<longleftrightarrow> (\<exists>m. as_status e = Some (404, m))))
      \<and> (\<exists>e'. client_ApplyLayout (Inl e) = Inl e' \<and> (errors_Is e' ErrLayoutRejected \<longleftrightarrow> (\<exists>m. as_status e = Some (400, m))))"
proof -
  have "map roleFromAPI (alq_Members (applyLayoutRequest roles widths)) = roles"
    by (induction roles) (simp_all add: applyLayoutRequest_def roleFromAPI_def)
  then have "client_Layout (Inr \<lparr>al_Version = v, al_Widths = alq_Widths (applyLayoutRequest roles widths),
      al_Members = alq_Members (applyLayoutRequest roles widths), al_RetainedVersions = rs\<rparr>)
    = Inr \<lparr>l_Version = v, l_Widths = widths, l_Members = roles, l_Retained = rs\<rparr>"
    by (simp add: client_Layout_def layoutFromAPI_def) (simp add: applyLayoutRequest_def)
  moreover have "list_all2 (\<lambda>r m. alr_Zone m = (if role_Zone r = [] then None else Some (role_Zone r))
      \<and> alr_Rack m = (if role_Rack r = [] then None else Some (role_Rack r))) roles (alq_Members (applyLayoutRequest roles widths))"
    by (simp add: applyLayoutRequest_def list_all2_map2 optString_def list.rel_refl)
  moreover have "\<exists>e'. client_Layout (Inl e) = Inl e' \<and> (errors_Is e' ErrNoLayout \<longleftrightarrow> (\<exists>m. as_status e = Some (404, m)))"
    using assms(1) by (auto simp: client_Layout_def StatusNotFound_def split: option.splits prod.splits)
  moreover have "\<exists>e'. client_ApplyLayout (Inl e) = Inl e' \<and> (errors_Is e' ErrLayoutRejected \<longleftrightarrow> (\<exists>m. as_status e = Some (400, m)))"
    using assms(2) by (auto simp: client_ApplyLayout_def StatusBadRequest_def split: option.splits prod.splits)
  ultimately show ?thesis by (simp add: Let_def)
qed

theorem layout_roundtrip_witness:
  "client_Layout (Inr \<lparr>al_Version = 2, al_Widths = [4], al_Members = alq_Members (applyLayoutRequest
       [\<lparr>role_ID = ''fs-0'', role_Zone = [], role_Rack = ''a'', role_Capacity = 7\<rparr>] [4]), al_RetainedVersions = []\<rparr>)
     = Inr \<lparr>l_Version = 2, l_Widths = [4], l_Members = [\<lparr>role_ID = ''fs-0'', role_Zone = [], role_Rack = ''a'', role_Capacity = 7\<rparr>], l_Retained = []\<rparr>
   \<and> (\<exists>e'. client_Layout (Inl (AdminStatus 404 ''no layout'')) = Inl e' \<and> errors_Is e' ErrNoLayout)"
  using layout_roundtrip [where e = "AdminStatus 404 ''no layout''" and v = 2 and rs = "[]" and widths = "[4]"
      and roles = "[\<lparr>role_ID = ''fs-0'', role_Zone = [], role_Rack = ''a'', role_Capacity = 7\<rparr>]"]
  by (auto simp: Let_def applyLayoutRequest_def)

end
