(* ===== verification/Pipeline.thy ===== *)
theory Pipeline
  imports Api_Types
begin

text \<open>
  \<open>internal/controller/pipeline/pipeline.go\<close>: a reconcile pass as a sequence of steps over a
  shared state \<open>'s\<close> (what Go's \<open>T\<close> points to, together with the world the steps act on). A
  step returns its outcome or an error, and the state after it either way. Logging is not
  modelled.

  The locale \<open>step_relation\<close> is the interface between a pipeline and its steps: whoever
  supplies steps that keep a reflexive and transitive relation between the state before and
  the state after gets it for the whole run, whatever blocks or fails on the way.
\<close>

section \<open>Outcomes and steps\<close>

record Outcome =
  out_Blocked :: bool
  out_Reason :: message
  out_RequeueAfter :: Duration

definition zero_outcome :: Outcome where
  "zero_outcome = \<lparr>out_Blocked = False, out_Reason = no_message, out_RequeueAfter = 0\<rparr>"

definition Continue :: "Outcome result" where
  "Continue = Inr zero_outcome"

definition RequeueAfter :: "Duration \<Rightarrow> message \<Rightarrow> Outcome result" where
  "RequeueAfter after reason = Inr (zero_outcome\<lparr>out_RequeueAfter := after, out_Reason := reason\<rparr>)"

definition Block :: "message \<Rightarrow> Outcome result" where
  "Block reason = Inr (zero_outcome\<lparr>out_Blocked := True, out_Reason := reason\<rparr>)"

record 's Step =
  step_Name :: string
  step_AlwaysRun :: bool
  step_Run :: "'s \<Rightarrow> Outcome result \<times> 's"

record Result =
  res_RequeueAfter :: Duration

section \<open>Running a pipeline\<close>

definition soonest :: "Duration \<Rightarrow> Duration \<Rightarrow> Duration" where
  "soonest current nxt =
     (if nxt \<le> 0 then current
      else if current \<le> 0 \<or> nxt < current then nxt
      else current)"

text \<open>The local variables of \<open>Run\<close>.\<close>

record run_vars =
  rv_after :: Duration
  rv_stopped :: bool
  rv_failure :: "error option"

definition run_init :: run_vars where
  "run_init = \<lparr>rv_after = 0, rv_stopped = False, rv_failure = None\<rparr>"

text \<open>
  One iteration of the loop. \<open>rec\<close> is the state's \<open>RecordFailure\<close>, if it has one
  (the type assertion to \<open>FailureRecorder\<close>). A failing step returns the zero outcome.
\<close>

definition run_step ::
    "(error \<Rightarrow> 's \<Rightarrow> 's) option \<Rightarrow> 's Step \<Rightarrow> run_vars \<times> 's \<Rightarrow> run_vars \<times> 's" where
  "run_step rec step = (\<lambda>(v, s).
     if rv_stopped v \<and> \<not> step_AlwaysRun step then (v, s)
     else case step_Run step s of
        (Inl err, s') \<Rightarrow>
          (if rv_failure v = None
           then (v\<lparr>rv_failure := Some err, rv_stopped := True\<rparr>,
                 (case rec of None \<Rightarrow> s' | Some f \<Rightarrow> f err s'))
           else (v\<lparr>rv_stopped := True\<rparr>, s'))
      | (Inr outcome, s') \<Rightarrow>
          (v\<lparr>rv_stopped := rv_stopped v \<or> out_Blocked outcome,
             rv_after := soonest (rv_after v) (out_RequeueAfter outcome)\<rparr>, s'))"

definition run_steps ::
    "(error \<Rightarrow> 's \<Rightarrow> 's) option \<Rightarrow> 's Step list \<Rightarrow> run_vars \<times> 's \<Rightarrow> run_vars \<times> 's" where
  "run_steps rec p vs = fold (run_step rec) p vs"

definition pipeline_Run ::
    "(error \<Rightarrow> 's \<Rightarrow> 's) option \<Rightarrow> 's Step list \<Rightarrow> 's \<Rightarrow> (Result \<times> error option) \<times> 's" where
  "pipeline_Run rec p s =
     (case run_steps rec p (run_init, s) of
        (v, s') \<Rightarrow>
          ((case rv_failure v of
              Some e \<Rightarrow> (\<lparr>res_RequeueAfter = 0\<rparr>, Some e)
            | None \<Rightarrow> (\<lparr>res_RequeueAfter = rv_after v\<rparr>, None)), s'))"

section \<open>Facts about soonest\<close>

lemma soonest_zero [simp]: "soonest c 0 = c"
  by (simp add: soonest_def)

lemma soonest_pos: "0 < n \<Longrightarrow> soonest c n = (if c \<le> 0 then n else min c n)"
  by (simp add: soonest_def min_def)

lemma soonest_nonneg: "0 \<le> c \<Longrightarrow> 0 \<le> soonest c n"
  by (simp add: soonest_def)

text \<open>The earliest positive request, or zero when nothing was requested.\<close>

definition earliest :: "Duration list \<Rightarrow> Duration" where
  "earliest ds = (let ps = filter (\<lambda>d. 0 < d) ds in if ps = [] then 0 else Min (set ps))"

lemma Min_insert_snoc:
  "xs \<noteq> [] \<Longrightarrow> Min (set (xs @ [d])) = min (Min (set xs)) (d :: int)"
  by (simp add: min.commute)

lemma earliest_snoc: "earliest (ds @ [d]) = soonest (earliest ds) d"
proof (cases "0 < d")
  case True
  define ps where "ps = filter (\<lambda>d. 0 < d) ds"
  have f: "filter (\<lambda>d. 0 < d) (ds @ [d]) = ps @ [d]"
    using True by (simp add: ps_def)
  have pos: "\<forall>x \<in> set ps. 0 < x" by (simp add: ps_def)
  have m: "ps \<noteq> [] \<Longrightarrow> 0 < Min (set ps)"
    using pos Min_in [of "set ps"] by simp
  have "earliest (ds @ [d]) = Min (set (ps @ [d]))"
    by (simp only: earliest_def f Let_def) simp
  moreover have "earliest ds = (if ps = [] then 0 else Min (set ps))"
    by (simp only: earliest_def ps_def [symmetric] Let_def)
  ultimately show ?thesis
    using Min_insert_snoc [of ps d] m True
    by (cases "ps = []") (simp_all add: soonest_pos not_le del: set_append)
next
  case False
  then show ?thesis by (simp add: earliest_def soonest_def)
qed

section \<open>Facts about the loop\<close>

lemma run_steps_Nil [simp]: "run_steps rec [] vs = vs"
  by (simp add: run_steps_def)

lemma run_steps_Cons [simp]: "run_steps rec (x # xs) vs = run_steps rec xs (run_step rec x vs)"
  by (simp add: run_steps_def)

lemma run_steps_append [simp]:
  "run_steps rec (xs @ ys) vs = run_steps rec ys (run_steps rec xs vs)"
  by (simp add: run_steps_def)

lemma run_step_skip [simp]:
  "rv_stopped v \<Longrightarrow> \<not> step_AlwaysRun x \<Longrightarrow> run_step rec x (v, s) = (v, s)"
  by (simp add: run_step_def)

lemma run_step_stopped: "rv_stopped v \<Longrightarrow> rv_stopped (fst (run_step rec x (v, s)))"
  by (auto simp: run_step_def split: prod.splits sum.splits)

lemma run_step_failure:
  "rv_failure v = Some e \<Longrightarrow> rv_failure (fst (run_step rec x (v, s))) = Some e"
  by (auto simp: run_step_def split: prod.splits sum.splits)

lemma run_steps_failure:
  "rv_failure (fst vs) = Some e \<Longrightarrow> rv_failure (fst (run_steps rec p vs)) = Some e"
proof (induction p arbitrary: vs)
  case (Cons x p)
  then show ?case
    using run_step_failure [of "fst vs" e rec x "snd vs"] by simp
qed simp

lemma run_steps_after_nonneg: "0 \<le> rv_after (fst vs) \<Longrightarrow> 0 \<le> rv_after (fst (run_steps rec p vs))"
proof (induction p arbitrary: vs)
  case (Cons x p)
  obtain v s where vs: "vs = (v, s)" by (cases vs)
  have "0 \<le> rv_after (fst (run_step rec x (v, s)))"
    using Cons.prems vs by (auto simp: run_step_def soonest_nonneg split: prod.splits sum.splits)
  with Cons.IH show ?case by (simp add: vs)
qed simp

lemma pipeline_requeue_nonneg: "0 \<le> res_RequeueAfter (fst (fst (pipeline_Run rec p s)))"
  using run_steps_after_nonneg [of "(run_init, s)" rec p]
  by (auto simp: pipeline_Run_def run_init_def split: prod.split option.split)

text \<open>After a stop the loop is the loop over the always-run steps alone.\<close>

lemma run_steps_stopped:
  "rv_stopped (fst vs) \<Longrightarrow> run_steps rec p vs = run_steps rec (filter step_AlwaysRun p) vs"
proof (induction p arbitrary: vs)
  case (Cons x p)
  obtain v s where vs: "vs = (v, s)" by (cases vs)
  with Cons.prems have "rv_stopped (fst (run_step rec x vs))" by (simp add: run_step_stopped)
  with Cons show ?case by (cases "step_AlwaysRun x") (simp_all add: vs)
qed simp

text \<open>The states the always-run steps go through depend on the loop's variables only through
  whether a failure was already recorded.\<close>

lemma run_step_state:
  assumes "rv_failure v = rv_failure w" and "step_AlwaysRun y"
  shows "snd (run_step rec y (v, t)) = snd (run_step rec y (w, t))
     \<and> rv_failure (fst (run_step rec y (v, t))) = rv_failure (fst (run_step rec y (w, t)))"
proof -
  obtain r t' where r: "step_Run y t = (r, t')" by (cases "step_Run y t")
  show ?thesis
  proof (cases r)
    case (Inl e)
    with assms r show ?thesis by (simp add: run_step_def)
  next
    case (Inr out)
    with assms r show ?thesis by (simp add: run_step_def)
  qed
qed

lemma run_steps_state:
  "rv_failure v = rv_failure w \<Longrightarrow> \<forall>y \<in> set q. step_AlwaysRun y \<Longrightarrow>
   snd (run_steps rec q (v, t)) = snd (run_steps rec q (w, t))"
proof (induction q arbitrary: v w t)
  case (Cons y q)
  obtain v' t1 where 1: "run_step rec y (v, t) = (v', t1)" by (cases "run_step rec y (v, t)")
  obtain w' t2 where 2: "run_step rec y (w, t) = (w', t2)" by (cases "run_step rec y (w, t)")
  have "t1 = t2" "rv_failure v' = rv_failure w'"
    using run_step_state [of v w y rec t] Cons.prems 1 2 by simp_all
  moreover have "\<forall>y \<in> set q. step_AlwaysRun y" using Cons.prems by simp
  ultimately show ?case using Cons.IH [of v' w' t1] by (simp only: run_steps_Cons 1 2)
qed simp

lemma pipeline_state: "snd (pipeline_Run rec p s) = snd (run_steps rec p (run_init, s))"
  by (simp add: pipeline_Run_def split: prod.split)

lemma pipeline_stop:
  assumes "step_Run x s = (Inr out, s')" and "out_Blocked out"
  shows "snd (pipeline_Run rec (x # p) s) = snd (pipeline_Run rec (filter step_AlwaysRun p) s')"
proof -
  let ?v = "run_init\<lparr>rv_stopped := True, rv_after := soonest 0 (out_RequeueAfter out)\<rparr>"
  have st: "run_step rec x (run_init, s) = (?v, s')"
    using assms by (simp add: run_step_def run_init_def)
  have "snd (pipeline_Run rec (x # p) s) = snd (run_steps rec p (?v, s'))"
    by (simp add: pipeline_state st)
  also have "\<dots> = snd (run_steps rec (filter step_AlwaysRun p) (?v, s'))"
    using run_steps_stopped [of "(?v, s')" rec p] by simp
  also have "\<dots> = snd (run_steps rec (filter step_AlwaysRun p) (run_init, s'))"
    by (rule run_steps_state) simp_all
  also have "\<dots> = snd (pipeline_Run rec (filter step_AlwaysRun p) s')"
    by (simp add: pipeline_state)
  finally show ?thesis .
qed

section \<open>What ran, and what it returned\<close>

text \<open>The steps that ran, in order, each with what it returned.\<close>

fun outcomes ::
    "(error \<Rightarrow> 's \<Rightarrow> 's) option \<Rightarrow> 's Step list \<Rightarrow> run_vars \<times> 's \<Rightarrow> ('s Step \<times> Outcome result) list" where
  "outcomes rec [] vs = []"
| "outcomes rec (x # p) (v, s) =
     (if rv_stopped v \<and> \<not> step_AlwaysRun x then outcomes rec p (v, s)
      else (x, fst (step_Run x s)) # outcomes rec p (run_step rec x (v, s)))"

fun stops :: "Outcome result \<Rightarrow> bool" where
  "stops (Inl e) = True"
| "stops (Inr out) = out_Blocked out"

fun requeue_of :: "Outcome result \<Rightarrow> Duration" where
  "requeue_of (Inl e) = 0"
| "requeue_of (Inr out) = out_RequeueAfter out"

fun first_failure :: "Outcome result list \<Rightarrow> error option" where
  "first_failure [] = None"
| "first_failure (Inl e # rs) = Some e"
| "first_failure (Inr out # rs) = first_failure rs"

lemma run_step_ran:
  assumes "\<not> (rv_stopped v \<and> \<not> step_AlwaysRun x)"
  shows "rv_stopped (fst (run_step rec x (v, s))) \<longleftrightarrow> rv_stopped v \<or> stops (fst (step_Run x s))"
    and "rv_after (fst (run_step rec x (v, s))) = soonest (rv_after v) (requeue_of (fst (step_Run x s)))"
    and "rv_failure (fst (run_step rec x (v, s))) = (case rv_failure v of
            Some e \<Rightarrow> Some e | None \<Rightarrow> first_failure [fst (step_Run x s)])"
proof -
  obtain r s' where r: "step_Run x s = (r, s')" by (cases "step_Run x s")
  show "rv_stopped (fst (run_step rec x (v, s))) \<longleftrightarrow> rv_stopped v \<or> stops (fst (step_Run x s))"
    using assms by (cases r) (simp_all add: run_step_def r)
  show "rv_after (fst (run_step rec x (v, s))) = soonest (rv_after v) (requeue_of (fst (step_Run x s)))"
    using assms by (cases r) (auto simp add: run_step_def r)
  show "rv_failure (fst (run_step rec x (v, s))) = (case rv_failure v of
            Some e \<Rightarrow> Some e | None \<Rightarrow> first_failure [fst (step_Run x s)])"
    using assms by (cases r) (auto simp: run_step_def r split: option.splits)
qed

lemma first_failure_Cons:
  "first_failure (r # rs) = (case first_failure [r] of Some e \<Rightarrow> Some e | None \<Rightarrow> first_failure rs)"
  by (cases r) simp_all

lemma run_steps_outcomes:
  "rv_after (fst (run_steps rec p (v, s)))
     = fold (\<lambda>r a. soonest a (requeue_of r)) (map snd (outcomes rec p (v, s))) (rv_after v)
   \<and> rv_failure (fst (run_steps rec p (v, s)))
     = (case rv_failure v of Some e \<Rightarrow> Some e
        | None \<Rightarrow> first_failure (map snd (outcomes rec p (v, s))))"
proof (induction p arbitrary: v s)
  case Nil
  then show ?case by (simp split: option.split)
next
  case (Cons x p)
  show ?case
  proof (cases "rv_stopped v \<and> \<not> step_AlwaysRun x")
    case True
    then have "outcomes rec (x # p) (v, s) = outcomes rec p (v, s)" by simp
    moreover have "run_steps rec (x # p) (v, s) = run_steps rec p (v, s)" using True by simp
    ultimately show ?thesis using Cons.IH [of v s] by (simp only:)
  next
    case False
    obtain v' s' where e: "run_step rec x (v, s) = (v', s')" by (cases "run_step rec x (v, s)")
    have "outcomes rec (x # p) (v, s) = (x, fst (step_Run x s)) # outcomes rec p (v', s')"
      using False e by auto
    then show ?thesis
      using Cons.IH [of v' s'] run_step_ran [OF False, of rec s] e
        first_failure_Cons [of "fst (step_Run x s)" "map snd (outcomes rec p (v', s'))"]
      by (cases "rv_failure v") (simp_all only: run_steps_Cons fst_conv snd_conv list.map fold_simps
          option.case)
  qed
qed

lemma fold_soonest: "fold (\<lambda>r a. soonest a (f r)) rs 0 = earliest (map f rs)"
proof (induction rs rule: rev_induct)
  case Nil
  then show ?case by (simp add: earliest_def)
next
  case (snoc r rs)
  then show ?case by (simp add: earliest_snoc)
qed

lemma outcomes_always: "map fst (filter (step_AlwaysRun \<circ> fst) (outcomes rec p vs)) = filter step_AlwaysRun p"
proof (induction p arbitrary: vs)
  case (Cons x p)
  then show ?case by (cases vs) simp
qed simp

lemma outcomes_stopped: "rv_stopped (fst vs) \<Longrightarrow> \<forall>o' \<in> set (outcomes rec p vs). step_AlwaysRun (fst o')"
proof (induction p arbitrary: vs)
  case (Cons x p)
  obtain v s where vs: "vs = (v, s)" by (cases vs)
  with Cons.prems have "rv_stopped (fst (run_step rec x vs))" by (simp add: run_step_stopped)
  with Cons show ?case by (simp add: vs)
qed simp

lemma outcomes_after_stop:
  "outcomes rec p vs = a @ (y, r) # b \<Longrightarrow> stops r \<Longrightarrow> \<forall>o' \<in> set b. step_AlwaysRun (fst o')"
proof (induction p arbitrary: vs a)
  case (Cons x p)
  obtain v s where vs: "vs = (v, s)" by (cases vs)
  show ?case
  proof (cases "rv_stopped v \<and> \<not> step_AlwaysRun x")
    case True
    with Cons vs show ?thesis by auto
  next
    case False
    let ?vs = "run_step rec x (v, s)"
    have o: "(x, fst (step_Run x s)) # outcomes rec p ?vs = a @ (y, r) # b"
      using Cons.prems(1) False vs by auto
    show ?thesis
    proof (cases a)
      case Nil
      with o have "stops (fst (step_Run x s))" and b: "b = outcomes rec p ?vs"
        using Cons.prems(2) by auto
      then have "rv_stopped (fst ?vs)" using run_step_ran(1) [OF False] by blast
      then show ?thesis unfolding b by (rule outcomes_stopped)
    next
      case (Cons c cs)
      with o have "outcomes rec p ?vs = cs @ (y, r) # b" by simp
      then show ?thesis using Cons.IH Cons.prems(2) by blast
    qed
  qed
qed simp

text \<open>
  C32. A pipeline runs its steps in order; after the first step that blocks or fails only
  always-run steps run, and every always-run step runs in every pass. The error of the pass
  is the first failure among the steps that ran, and without one the pass asks for the
  earliest of the positive delays the steps asked for.
\<close>

theorem pipeline_outcome:
  "snd (fst (pipeline_Run rec p s)) = first_failure (map snd (outcomes rec p (run_init, s)))
   \<and> res_RequeueAfter (fst (fst (pipeline_Run rec p s)))
       = (if first_failure (map snd (outcomes rec p (run_init, s))) = None
          then earliest (map requeue_of (map snd (outcomes rec p (run_init, s)))) else 0)
   \<and> map fst (filter (step_AlwaysRun \<circ> fst) (outcomes rec p (run_init, s))) = filter step_AlwaysRun p
   \<and> (\<forall>a y r b. outcomes rec p (run_init, s) = a @ (y, r) # b \<and> stops r
        \<longrightarrow> (\<forall>o' \<in> set b. step_AlwaysRun (fst o')))"
proof -
  let ?os = "outcomes rec p (run_init, s)"
  have f: "rv_failure (fst (run_steps rec p (run_init, s))) = first_failure (map snd ?os)"
    and a: "rv_after (fst (run_steps rec p (run_init, s))) = earliest (map requeue_of (map snd ?os))"
    using run_steps_outcomes [of rec p run_init s] fold_soonest [of requeue_of]
    by (simp_all add: run_init_def)
  have "snd (fst (pipeline_Run rec p s)) = first_failure (map snd ?os)"
    by (simp add: pipeline_Run_def f [symmetric] split: prod.splits option.splits)
  moreover have "res_RequeueAfter (fst (fst (pipeline_Run rec p s)))
        = (if first_failure (map snd ?os) = None then earliest (map requeue_of (map snd ?os)) else 0)"
    unfolding f [symmetric] a [symmetric]
    by (simp add: pipeline_Run_def split: prod.splits option.splits)
  ultimately show ?thesis
    using outcomes_always [of rec p "(run_init, s)"] outcomes_after_stop [of rec p "(run_init, s)"]
    by blast
qed

text \<open>The property at a concrete pipeline: a step asks to come back, the next one blocks, the
  third is skipped, and the always-run one still runs.\<close>

definition demo_pipeline :: "nat list Step list" where
  "demo_pipeline =
     [\<lparr>step_Name = ''a'', step_AlwaysRun = False, step_Run = (\<lambda>s. (RequeueAfter 7 no_message, 1 # s))\<rparr>,
      \<lparr>step_Name = ''b'', step_AlwaysRun = False, step_Run = (\<lambda>s. (Block no_message, 2 # s))\<rparr>,
      \<lparr>step_Name = ''c'', step_AlwaysRun = False, step_Run = (\<lambda>s. (Continue, 3 # s))\<rparr>,
      \<lparr>step_Name = ''d'', step_AlwaysRun = True, step_Run = (\<lambda>s. (RequeueAfter 5 no_message, 4 # s))\<rparr>]"

theorem pipeline_outcome_witness:
  "map snd (outcomes None demo_pipeline (run_init, []))
      = [RequeueAfter 7 no_message, Block no_message, RequeueAfter 5 no_message]
   \<and> step_AlwaysRun (fst (outcomes None demo_pipeline (run_init, []) ! 2))
   \<and> res_RequeueAfter (fst (fst (pipeline_Run None demo_pipeline []))) = 5"
proof -
  have o: "map snd (outcomes None demo_pipeline (run_init, []))
      = [RequeueAfter 7 no_message, Block no_message, RequeueAfter 5 no_message]"
    by (simp add: demo_pipeline_def run_init_def run_step_def RequeueAfter_def Block_def
        Continue_def zero_outcome_def)
  then obtain x y z where os: "outcomes None demo_pipeline (run_init, [])
      = [(x, RequeueAfter 7 no_message)] @ (y, Block no_message) # [(z, RequeueAfter 5 no_message)]"
    by (auto simp: map_eq_Cons_conv)
  have "earliest (map requeue_of [RequeueAfter 7 no_message, Block no_message, RequeueAfter 5 no_message]) = 5"
    and "first_failure [RequeueAfter 7 no_message, Block no_message, RequeueAfter 5 no_message] = None"
    and st: "stops (Block no_message)"
    by (simp_all add: RequeueAfter_def Block_def zero_outcome_def earliest_def)
  then have "res_RequeueAfter (fst (fst (pipeline_Run None demo_pipeline []))) = 5"
    using pipeline_outcome [of None demo_pipeline "[]"] unfolding o by (metis (no_types))
  moreover have "\<forall>o' \<in> set [(z, RequeueAfter 5 no_message)]. step_AlwaysRun (fst o')"
    using pipeline_outcome [of None demo_pipeline "[]", THEN conjunct2, THEN conjunct2, THEN conjunct2,
        rule_format, OF conjI, OF os st] by (rule ballI)
  ultimately show ?thesis using os by simp
qed

section \<open>The interface between a pipeline and its steps\<close>

locale step_relation =
  fixes R :: "'s \<Rightarrow> 's \<Rightarrow> bool"
    and rec :: "(error \<Rightarrow> 's \<Rightarrow> 's) option"
    and steps :: "'s Step list"
  assumes R_refl: "R s s"
    and R_trans: "R s t \<Longrightarrow> R t u \<Longrightarrow> R s u"
    and R_rec: "rec = Some f \<Longrightarrow> R s (f e s)"
    and R_step: "x \<in> set steps \<Longrightarrow> R s (snd (step_Run x s))"
begin

lemma run_step_rel:
  assumes "x \<in> set steps"
  shows "R s (snd (run_step rec x (v, s)))"
proof -
  obtain r s' where r: "step_Run x s = (r, s')" by (cases "step_Run x s")
  with R_step [OF assms, of s] have s': "R s s'" by simp
  then have "rec = Some f \<Longrightarrow> R s (f e s')" for f e
    by (rule R_trans) (rule R_rec)
  with s' show ?thesis
    by (auto simp: run_step_def r R_refl split: sum.splits option.splits)
qed

lemma run_steps_rel: "set p \<subseteq> set steps \<Longrightarrow> R s (snd (run_steps rec p (v, s)))"
proof (induction p arbitrary: v s)
  case Nil
  then show ?case by (simp add: R_refl)
next
  case (Cons x p)
  obtain v' s' where e: "run_step rec x (v, s) = (v', s')" by (cases "run_step rec x (v, s)")
  have "R s s'" using run_step_rel [of x s v] Cons.prems e by simp
  moreover have "R s' (snd (run_steps rec p (v', s')))" using Cons by simp
  ultimately show ?case using R_trans by (simp add: e)
qed

lemma pipeline_rel: "R s (snd (pipeline_Run rec steps s))"
  using run_steps_rel [of steps s run_init] by (simp add: pipeline_state)

end

section \<open>Pipelines in stages\<close>

text \<open>
  For what depends on the order of the steps: a predicate per stage, which holds of the state
  before the step while nothing has stopped the pass, and one for when it has been stopped.
\<close>

definition recorded :: "(error \<Rightarrow> 's \<Rightarrow> 's) option \<Rightarrow> error \<Rightarrow> 's \<Rightarrow> 's" where
  "recorded rec e s = (case rec of None \<Rightarrow> s | Some f \<Rightarrow> f e s)"

definition stage_ok ::
    "(error \<Rightarrow> 's \<Rightarrow> 's) option \<Rightarrow> ('s \<Rightarrow> bool) \<Rightarrow> ('s \<Rightarrow> bool) \<Rightarrow> 's Step \<Rightarrow> ('s \<Rightarrow> bool) \<Rightarrow> bool" where
  "stage_ok rec over P x Q \<longleftrightarrow> (\<forall>s r s'. P s \<longrightarrow> step_Run x s = (r, s') \<longrightarrow> (case r of
      Inl e \<Rightarrow> over (recorded rec e s')
    | Inr out \<Rightarrow> if out_Blocked out then over s' else Q s'))"

fun stages_ok ::
    "(error \<Rightarrow> 's \<Rightarrow> 's) option \<Rightarrow> ('s \<Rightarrow> bool) \<Rightarrow> ('s \<Rightarrow> bool) list \<Rightarrow> 's Step list \<Rightarrow> bool" where
  "stages_ok rec over [P] [] = True"
| "stages_ok rec over (P # Q # Ps) (x # xs) = (stage_ok rec over P x Q \<and> stages_ok rec over (Q # Ps) xs)"
| "stages_ok rec over Ps xs = False"

locale staged_pipeline =
  fixes rec :: "(error \<Rightarrow> 's \<Rightarrow> 's) option"
    and steps :: "'s Step list"
    and stages :: "('s \<Rightarrow> bool) list"
    and over :: "'s \<Rightarrow> bool"
  assumes stages: "stages_ok rec over stages steps"
    and over_on: "x \<in> set steps \<Longrightarrow> step_AlwaysRun x \<Longrightarrow> over s \<Longrightarrow> step_Run x s = (r, s') \<Longrightarrow>
      over s' \<and> (\<forall>e. over (recorded rec e s'))"
begin

lemma over_run: "set p \<subseteq> set steps \<Longrightarrow> rv_stopped v \<Longrightarrow> over s \<Longrightarrow> over (snd (run_steps rec p (v, s)))"
proof (induction p arbitrary: v s)
  case (Cons x p)
  show ?case
  proof (cases "step_AlwaysRun x")
    case False
    with Cons show ?thesis by simp
  next
    case True
    obtain r s' where r: "step_Run x s = (r, s')" by (cases "step_Run x s")
    with over_on [OF _ True Cons.prems(3) r] Cons.prems have o: "over s'" "\<And>e. over (recorded rec e s')" by auto
    obtain v' s'' where n: "run_step rec x (v, s) = (v', s'')" by (cases "run_step rec x (v, s)")
    have "rv_stopped v'" using run_step_stopped [OF Cons.prems(2), of rec x s] by (simp add: n)
    moreover have "over s''"
      using n o True by (auto simp: run_step_def r recorded_def split: sum.splits if_splits option.splits)
    ultimately show ?thesis using Cons n by simp
  qed
qed simp

lemma staged_run:
  assumes "stages_ok rec over Ps p" and "set p \<subseteq> set steps" and "\<not> rv_stopped v" and "rv_failure v = None"
    and "hd Ps s"
  shows "over (snd (run_steps rec p (v, s))) \<or> last Ps (snd (run_steps rec p (v, s)))"
  using assms
proof (induction p arbitrary: Ps v s)
  case Nil
  then obtain P where "Ps = [P]" by (cases Ps; cases "tl Ps") auto
  with Nil show ?case by simp
next
  case (Cons x p)
  then obtain P Q Qs where Ps: "Ps = P # Q # Qs" and ok: "stage_ok rec over P x Q" "stages_ok rec over (Q # Qs) p"
    by (cases Ps; cases "tl Ps") auto
  obtain r s' where r: "step_Run x s = (r, s')" by (cases "step_Run x s")
  with ok(1) Cons.prems(5) Ps have post: "case r of Inl e \<Rightarrow> over (recorded rec e s')
      | Inr out \<Rightarrow> if out_Blocked out then over s' else Q s'"
    by (auto simp: stage_ok_def)
  obtain v' s'' where n: "run_step rec x (v, s) = (v', s'')" by (cases "run_step rec x (v, s)")
  show ?case
  proof (cases "stops r")
    case True
    then have "rv_stopped v'" "over s''"
      using n post Cons.prems(3,4)
      by (auto simp: run_step_def r recorded_def split: sum.splits option.splits if_splits)
    then have "over (snd (run_steps rec p (v', s'')))" using Cons.prems(2) by (intro over_run) auto
    then show ?thesis by (simp add: n)
  next
    case False
    then have "\<not> rv_stopped v'" "rv_failure v' = None" "hd (Q # Qs) s''"
      using n post Cons.prems(3,4) by (auto simp: run_step_def r split: sum.splits)
    from Cons.IH [OF ok(2) _ this] Cons.prems(2) show ?thesis by (simp add: n Ps)
  qed
qed

lemma staged_outcome:
  assumes "hd stages s"
  shows "over (snd (pipeline_Run rec steps s)) \<or> last stages (snd (pipeline_Run rec steps s))"
  using staged_run [OF stages subset_refl, of run_init s] assms by (simp add: pipeline_state run_init_def)

end

end
