(* ===== verification/Validation.thy ===== *)
theory Validation
  imports Api_Defaults
begin

text \<open>
  \<open>internal/validation/cluster.go\<close>, the cross-field checks on a spec, and
  \<open>internal/webhook/v1alpha1/fscluster_webhook.go\<close>, which runs them at admission.

  The observability checks range over Go maps, whose order is unspecified: the model takes
  the orders \<open>ord1\<close> and \<open>ord2\<close> of the two loops as arguments. \<open>signal_order\<close> says what a
  range over the three-entry map guarantees, and the lemmas show that neither the verdict
  nor its reason depends on the orders.
\<close>

section \<open>Failures\<close>

record Failure =
  fail_Reason :: ConditionReason
  fail_Message :: message

definition MaxNodes :: int where "MaxNodes = 16"
definition MinClusterNodes :: int where "MinClusterNodes = 3"

definition em_dash :: string where
  "em_dash = [CHR 0xE2, CHR 0x80, CHR 0x94]"

definition SingleNodeWarning :: string where
  "SingleNodeWarning =
     ''cluster has a single node (development only): no replication, no repair, no failure tolerance ''
     @ em_dash @ '' losing the node loses the data. It cannot be grown into a ''
     @ ''cluster in place: declare 3 or more nodes from the start for anything you keep''"

definition fmt_too_many :: string where
  "fmt_too_many = ''the topology declares %d nodes; fs supports at most %d''"
definition fmt_too_few :: string where
  "fmt_too_few = ''the topology declares %d nodes; a cluster keeps three copies of its data on ''
     @ ''distinct nodes, so it has one node or at least %d''"
definition fmt_size :: string where "fmt_size = ''storage.size must be positive, got %s''"
definition fmt_width :: string where
  "fmt_width = ''layout width %d spreads each partition over %d nodes, the topology declares %d''"
definition fmt_nowhere :: string where
  "fmt_nowhere = ''observability.%s.exporter is %q with nowhere to send it: set ''
     @ ''observability.%s.endpoint or observability.otlp.endpoint''"
definition fmt_protocol :: string where
  "fmt_protocol = ''observability.%s.protocol cannot be combined with observability.otlp.protocol: ''
     @ ''fs reads the shared variable first, so the per-signal one would be ignored. ''
     @ ''Leave otlp.protocol unset (the SDK defaults to %s) to give each signal its own''"
definition fmt_podmonitor :: string where
  "fmt_podmonitor = ''observability.podMonitor scrapes the metrics port, which only the %q exporter ''
     @ ''serves; metrics.exporter is %q''"
definition fmt_wide_warning :: string where
  "fmt_wide_warning = ''layout width %d is wider than the %d failure domains the topology provides: ''
     @ ''some partitions keep two slots in one domain, so losing that domain costs both''"
definition fmt_single_boundary :: string where
  "fmt_single_boundary = ''a single-node cluster cannot become a clustered one in place, nor the ''
     @ ''reverse. Create a new FSCluster and copy the objects over''"
definition fmt_shrink :: string where
  "fmt_shrink = ''storage.size would shrink (%s -> %s); it may only grow''"

section \<open>The observability checks\<close>

datatype signal = Traces | Logs | Metrics

primrec signal_name :: "signal \<Rightarrow> string" where
  "signal_name Traces = ''traces''"
| "signal_name Logs = ''logs''"
| "signal_name Metrics = ''metrics''"

primrec signal_exporter :: "ObservabilitySpec \<Rightarrow> signal \<Rightarrow> string" where
  "signal_exporter s Traces = sig_Exporter (obs_Traces s)"
| "signal_exporter s Logs = sig_Exporter (obs_Logs s)"
| "signal_exporter s Metrics = met_Exporter (obs_Metrics s)"

primrec signal_endpoint :: "ObservabilitySpec \<Rightarrow> signal \<Rightarrow> string" where
  "signal_endpoint s Traces = sig_Endpoint (obs_Traces s)"
| "signal_endpoint s Logs = sig_Endpoint (obs_Logs s)"
| "signal_endpoint s Metrics = met_Endpoint (obs_Metrics s)"

primrec signal_protocol :: "ObservabilitySpec \<Rightarrow> signal \<Rightarrow> string" where
  "signal_protocol s Traces = sig_Protocol (obs_Traces s)"
| "signal_protocol s Logs = sig_Protocol (obs_Logs s)"
| "signal_protocol s Metrics = met_Protocol (obs_Metrics s)"

fun destination_loop :: "ObservabilitySpec \<Rightarrow> signal list \<Rightarrow> Failure option" where
  "destination_loop s [] = None"
| "destination_loop s (g # gs) =
     (if signal_exporter s g = ExporterOTLP \<and> signal_endpoint s g = [] \<and> otlp_Endpoint (obs_OTLP s) = []
      then Some \<lparr>fail_Reason = ReasonSpecInvalid,
                 fail_Message = Sprintf fmt_nowhere [AS (signal_name g), AS ExporterOTLP, AS (signal_name g)]\<rparr>
      else destination_loop s gs)"

fun protocol_loop :: "ObservabilitySpec \<Rightarrow> signal list \<Rightarrow> Failure option" where
  "protocol_loop s [] = None"
| "protocol_loop s (g # gs) =
     (if signal_protocol s g \<noteq> []
      then Some \<lparr>fail_Reason = ReasonSpecInvalid,
                 fail_Message = Sprintf fmt_protocol [AS (signal_name g), AS SDKDefaultOTLPProtocol]\<rparr>
      else protocol_loop s gs)"

definition validation_observability ::
    "signal list \<Rightarrow> signal list \<Rightarrow> ObservabilitySpec \<Rightarrow> Failure option" where
  "validation_observability ord1 ord2 s =
     (case destination_loop s ord1 of
        Some f \<Rightarrow> Some f
      | None \<Rightarrow>
          (case (if otlp_Protocol (obs_OTLP s) \<noteq> [] then protocol_loop s ord2 else None) of
             Some f \<Rightarrow> Some f
           | None \<Rightarrow>
               if obs_PodMonitor s \<and> met_Exporter (obs_Metrics s) \<noteq> []
                  \<and> met_Exporter (obs_Metrics s) \<noteq> ExporterPrometheus
               then Some \<lparr>fail_Reason = ReasonSpecInvalid,
                          fail_Message = Sprintf fmt_podmonitor
                            [AS ExporterPrometheus, AS (met_Exporter (obs_Metrics s))]\<rparr>
               else None))"

section \<open>The checks on a spec and on a change\<close>

definition validation_Cluster ::
    "signal list \<Rightarrow> signal list \<Rightarrow> FSClusterSpec \<Rightarrow> Failure option" where
  "validation_Cluster ord1 ord2 s =
     (let total = TotalNodes s in
      if MaxNodes < total
      then Some \<lparr>fail_Reason = ReasonUnsupportedTopology,
                 fail_Message = Sprintf fmt_too_many [AD total, AD MaxNodes]\<rparr>
      else if 1 < total \<and> total < MinClusterNodes
      then Some \<lparr>fail_Reason = ReasonUnsupportedTopology,
                 fail_Message = Sprintf fmt_too_few [AD total, AD MinClusterNodes]\<rparr>
      else if qSign (sto_Size (spec_Storage s)) \<le> 0
      then Some \<lparr>fail_Reason = ReasonSpecInvalid,
                 fail_Message = Sprintf fmt_size [AD (sto_Size (spec_Storage s))]\<rparr>
      else if 1 < total \<and> total < MaxWidth s
      then Some \<lparr>fail_Reason = ReasonLayoutTopologyMismatch,
                 fail_Message = Sprintf fmt_width [AD (MaxWidth s), AD (MaxWidth s), AD total]\<rparr>
      else validation_observability ord1 ord2 (spec_Observability s))"

definition ClusterWarnings :: "FSClusterSpec \<Rightarrow> message list" where
  "ClusterWarnings s =
     (if SingleNode s then [msg SingleNodeWarning]
      else if FailureDomains s < MaxWidth s
      then [Sprintf fmt_wide_warning [AD (MaxWidth s), AD (FailureDomains s)]]
      else [])"

definition ClusterUpdate ::
    "signal list \<Rightarrow> signal list \<Rightarrow> FSClusterSpec \<Rightarrow> FSClusterSpec \<Rightarrow> Failure option" where
  "ClusterUpdate ord1 ord2 old updated =
     (if SingleNode old \<noteq> SingleNode updated
      then Some \<lparr>fail_Reason = ReasonUnsupportedTopology, fail_Message = msg fmt_single_boundary\<rparr>
      else case validation_Cluster ord1 ord2 updated of
             Some f \<Rightarrow> Some f
           | None \<Rightarrow>
               (let before = sto_Size (spec_Storage old); after = sto_Size (spec_Storage updated)
                in if qCmp after before < 0
                   then Some \<lparr>fail_Reason = ReasonStorageShrinkForbidden,
                              fail_Message = Sprintf fmt_shrink [AD before, AD after]\<rparr>
                   else None))"

section \<open>The admission webhook\<close>

text \<open>\<open>apierrors.NewInvalid\<close> on \<open>spec\<close>, with the reason kept in the message.\<close>

datatype admission_error = NewInvalid string message

definition fmt_reject :: string where "fmt_reject = ''%s: %s''"

definition defaulted :: "FSCluster \<Rightarrow> FSClusterSpec" where
  "defaulted cluster = WithDefaults (fsc_Spec cluster)"

definition reject :: "string \<Rightarrow> Failure option \<Rightarrow> admission_error option" where
  "reject name failure = (case failure of
      None \<Rightarrow> None
    | Some f \<Rightarrow> Some (NewInvalid name (Sprintf fmt_reject [AS (fail_Reason f), AM (fail_Message f)])))"

definition ValidateCreate ::
    "signal list \<Rightarrow> signal list \<Rightarrow> FSCluster \<Rightarrow> message list \<times> admission_error option" where
  "ValidateCreate ord1 ord2 cluster =
     (let spec = defaulted cluster
      in (ClusterWarnings spec, reject (fsc_Name cluster) (validation_Cluster ord1 ord2 spec)))"

definition ValidateUpdate ::
    "signal list \<Rightarrow> signal list \<Rightarrow> FSCluster \<Rightarrow> FSCluster \<Rightarrow> message list \<times> admission_error option" where
  "ValidateUpdate ord1 ord2 before updated =
     (let spec = defaulted updated
      in (ClusterWarnings spec,
          reject (fsc_Name updated) (ClusterUpdate ord1 ord2 (defaulted before) spec)))"

definition ValidateDelete :: "FSCluster \<Rightarrow> message list \<times> admission_error option" where
  "ValidateDelete cluster = ([], None)"

section \<open>What the loops decide\<close>

text \<open>A range over the three-entry map visits each signal once, in some order.\<close>

definition signal_order :: "signal list \<Rightarrow> bool" where
  "signal_order ord \<longleftrightarrow> distinct ord \<and> set ord = {Traces, Logs, Metrics}"

text \<open>The declarative reading of the checks.\<close>

definition nowhere_to_send :: "ObservabilitySpec \<Rightarrow> signal \<Rightarrow> bool" where
  "nowhere_to_send s g \<longleftrightarrow>
     signal_exporter s g = ExporterOTLP \<and> signal_endpoint s g = [] \<and> otlp_Endpoint (obs_OTLP s) = []"

definition observability_ok :: "ObservabilitySpec \<Rightarrow> bool" where
  "observability_ok s \<longleftrightarrow>
     (\<forall>g \<in> {Traces, Logs, Metrics}. \<not> nowhere_to_send s g)
     \<and> (otlp_Protocol (obs_OTLP s) \<noteq> [] \<longrightarrow> (\<forall>g \<in> {Traces, Logs, Metrics}. signal_protocol s g = []))
     \<and> (obs_PodMonitor s \<longrightarrow> met_Exporter (obs_Metrics s) \<in> {[], ExporterPrometheus})"

definition spec_ok :: "FSClusterSpec \<Rightarrow> bool" where
  "spec_ok s \<longleftrightarrow>
     TotalNodes s \<le> 16 \<and> TotalNodes s \<noteq> 2 \<and> 0 < sto_Size (spec_Storage s)
     \<and> (1 < TotalNodes s \<longrightarrow> MaxWidth s \<le> TotalNodes s) \<and> observability_ok (spec_Observability s)"

lemma destination_loop_None:
  "destination_loop s gs = None \<longleftrightarrow> (\<forall>g \<in> set gs. \<not> nowhere_to_send s g)"
  by (induction gs) (auto simp: nowhere_to_send_def)

lemma destination_loop_reason:
  "destination_loop s gs = Some f \<Longrightarrow> fail_Reason f = ReasonSpecInvalid"
  by (induction gs) (auto split: if_splits)

lemma protocol_loop_None: "protocol_loop s gs = None \<longleftrightarrow> (\<forall>g \<in> set gs. signal_protocol s g = [])"
  by (induction gs) auto

lemma protocol_loop_reason:
  "protocol_loop s gs = Some f \<Longrightarrow> fail_Reason f = ReasonSpecInvalid"
  by (induction gs) (auto split: if_splits)

lemma validation_observability_None:
  assumes "signal_order ord1" and "signal_order ord2"
  shows "validation_observability ord1 ord2 s = None \<longleftrightarrow> observability_ok s"
proof -
  from assms have o1: "set ord1 = {Traces, Logs, Metrics}" and o2: "set ord2 = {Traces, Logs, Metrics}"
    by (simp_all add: signal_order_def)
  have d: "destination_loop s ord1 = None \<longleftrightarrow> (\<forall>g \<in> {Traces, Logs, Metrics}. \<not> nowhere_to_send s g)"
    by (simp add: destination_loop_None o1)
  have p: "protocol_loop s ord2 = None \<longleftrightarrow> (\<forall>g \<in> {Traces, Logs, Metrics}. signal_protocol s g = [])"
    by (simp only: protocol_loop_None o2)
  show ?thesis
    unfolding validation_observability_def observability_ok_def d [symmetric] p [symmetric]
    by (auto split: option.splits)
qed

lemma validation_observability_reason:
  "validation_observability ord1 ord2 s = Some f \<Longrightarrow> fail_Reason f = ReasonSpecInvalid"
  by (auto simp: validation_observability_def split: option.splits if_splits
      dest: destination_loop_reason protocol_loop_reason)

lemma validation_Cluster_None:
  assumes "signal_order ord1" and "signal_order ord2"
  shows "validation_Cluster ord1 ord2 s = None \<longleftrightarrow> spec_ok s"
  using validation_observability_None [OF assms]
  by (auto simp: validation_Cluster_def spec_ok_def Let_def MaxNodes_def MinClusterNodes_def)

lemma validation_Cluster_order:
  assumes "signal_order ord1" "signal_order ord2" "signal_order ord1'" "signal_order ord2'"
  shows "map_option fail_Reason (validation_Cluster ord1 ord2 s)
       = map_option fail_Reason (validation_Cluster ord1' ord2' s)"
proof (cases "validation_observability ord1 ord2 (spec_Observability s)")
  case None
  then have "validation_observability ord1' ord2' (spec_Observability s) = None"
    using assms by (simp add: validation_observability_None)
  with None show ?thesis by (simp add: validation_Cluster_def Let_def)
next
  case (Some f)
  then have "validation_observability ord1' ord2' (spec_Observability s) \<noteq> None"
    using assms by (metis validation_observability_None option.distinct(1))
  then obtain f' where "validation_observability ord1' ord2' (spec_Observability s) = Some f'"
    by blast
  with Some show ?thesis
    by (simp add: validation_Cluster_def Let_def validation_observability_reason)
qed

lemma ClusterUpdate_None:
  assumes "signal_order ord1" and "signal_order ord2"
  shows "ClusterUpdate ord1 ord2 old s = None \<longleftrightarrow>
    SingleNode old = SingleNode s \<and> spec_ok s \<and> sto_Size (spec_Storage old) \<le> sto_Size (spec_Storage s)"
  using validation_Cluster_None [OF assms, of s]
  by (auto simp: ClusterUpdate_def Let_def split: option.splits)

text \<open>A history of a spec in which every change passed the update check.\<close>

fun accepted_history :: "signal list \<Rightarrow> signal list \<Rightarrow> FSClusterSpec \<Rightarrow> FSClusterSpec list \<Rightarrow> bool" where
  "accepted_history ord1 ord2 s [] = True"
| "accepted_history ord1 ord2 s (t # ts) =
     (ClusterUpdate ord1 ord2 s t = None \<and> accepted_history ord1 ord2 t ts)"

lemma accepted_history_mono:
  assumes "signal_order ord1" "signal_order ord2" "accepted_history ord1 ord2 s ts" "t \<in> set ts"
  shows "SingleNode t = SingleNode s \<and> spec_ok t \<and> sto_Size (spec_Storage s) \<le> sto_Size (spec_Storage t)"
  using assms(3,4)
proof (induction ts arbitrary: s)
  case (Cons u us)
  then have u: "SingleNode s = SingleNode u" "spec_ok u" "sto_Size (spec_Storage s) \<le> sto_Size (spec_Storage u)"
    by (simp_all add: ClusterUpdate_None [OF assms(1,2)])
  show ?case
  proof (cases "t = u")
    case False
    with Cons have "SingleNode t = SingleNode u \<and> spec_ok t \<and> sto_Size (spec_Storage u) \<le> sto_Size (spec_Storage t)"
      using Cons.IH [of u] by auto
    with u show ?thesis by simp
  qed (use u in simp)
qed simp

section \<open>Defaulting and the checks\<close>

lemma withSignalDefaults_nowhere:
  "nowhere_to_send (withSignalDefaults s) g \<longleftrightarrow> nowhere_to_send s g"
  by (cases g) (auto simp: nowhere_to_send_def withSignalDefaults_def Let_def exporter_defs)

lemma observability_ok_defaults [simp]:
  "observability_ok (withSignalDefaults s) \<longleftrightarrow> observability_ok s"
proof -
  have m: "met_Exporter (obs_Metrics (withSignalDefaults s)) \<in> {[], ExporterPrometheus}
      \<longleftrightarrow> met_Exporter (obs_Metrics s) \<in> {[], ExporterPrometheus}"
    by (auto simp: withSignalDefaults_def Let_def exporter_defs)
  show ?thesis
    unfolding observability_ok_def m by (simp add: withSignalDefaults_nowhere)
qed

lemma observability_ok_loglevel [simp]:
  "observability_ok (s\<lparr>obs_LogLevel := l, obs_Pprof := b\<rparr>) = observability_ok s"
  by (simp add: observability_ok_def nowhere_to_send_def)

lemma spec_ok_WithDefaults: "spec_ok (WithDefaults s) = spec_ok s"
proof -
  have "observability_ok (spec_Observability (WithDefaults s)) = observability_ok (spec_Observability s)"
    by (simp add: WithDefaults_def Let_def)
  then show ?thesis by (simp add: spec_ok_def)
qed

lemma reject_None [simp]: "reject n f = None \<longleftrightarrow> f = None"
  by (simp add: reject_def split: option.splits)

section \<open>Properties\<close>

text \<open>
  C34. The webhook admits a new cluster exactly when the written spec, before defaulting, is
  sound: at most 16 nodes and not two, a positive volume, no layout width wider than a
  clustered topology, every exporter with somewhere to send, no protocol set twice, and a
  PodMonitor only with the Prometheus exporter. The order in which Go visits its maps does
  not matter, neither for the verdict nor for the reason given.
\<close>

theorem ValidateCreate_verdict:
  assumes "signal_order ord1" and "signal_order ord2"
  shows "(snd (ValidateCreate ord1 ord2 cluster) = None \<longleftrightarrow> spec_ok (fsc_Spec cluster))
    \<and> (signal_order ord1' \<and> signal_order ord2' \<longrightarrow>
        map_option fail_Reason (validation_Cluster ord1 ord2 s)
      = map_option fail_Reason (validation_Cluster ord1' ord2' s))"
  using validation_Cluster_None [OF assms] validation_Cluster_order [OF assms]
  by (simp add: ValidateCreate_def Let_def defaulted_def spec_ok_WithDefaults)

definition three_nodes :: TopologySpec where
  "three_nodes = \<lparr>topo_Nodes = Some 3, topo_Racks = [], topo_PodAntiAffinity = []\<rparr>"

definition sample_cluster :: "FSClusterSpec \<Rightarrow> FSCluster" where
  "sample_cluster s =
     \<lparr>fsc_Name = ''fs'', fsc_Namespace = ''storage'', fsc_Generation = 1, fsc_DeletionTimestamp = None,
      fsc_Spec = s,
      fsc_Status =
        \<lparr>st_ObservedGeneration = 0, st_Nodes = 0, st_ReadyNodes = 0, st_UpNodes = 0,
         st_ConfigurationRevision = [], st_StatefulSetRevision = [], st_CurrentRevision = [],
         st_UpdateRevision = [], st_Layout = None, st_Update = None, st_Endpoints = None,
         st_Conditions = []\<rparr>\<rparr>"

lemma sample_orders: "signal_order [Traces, Logs, Metrics]" "signal_order [Metrics, Traces, Logs]"
  by (auto simp: signal_order_def)

lemma sample_three_ok: "spec_ok (sample_spec three_nodes 1000)"
  by (simp add: spec_ok_def sample_spec_def three_nodes_def TotalNodes_def MaxWidth_def
      DefaultLayoutWidth_def observability_ok_def nowhere_to_send_def ExporterOTLP_def)

theorem ValidateCreate_verdict_witness:
  "snd (ValidateCreate [Traces, Logs, Metrics] [Metrics, Traces, Logs]
      (sample_cluster (sample_spec three_nodes 1000))) = None
   \<and> map_option fail_Reason (validation_Cluster [Traces, Logs, Metrics] [Metrics, Traces, Logs]
        (sample_spec three_nodes 0))
    = map_option fail_Reason (validation_Cluster [Metrics, Traces, Logs] [Traces, Logs, Metrics]
        (sample_spec three_nodes 0))"
  using ValidateCreate_verdict [OF sample_orders, of "sample_cluster (sample_spec three_nodes 1000)"
      "[Metrics, Traces, Logs]" "[Traces, Logs, Metrics]" "sample_spec three_nodes 0"]
    sample_three_ok sample_orders
  by (simp add: sample_cluster_def)

text \<open>
  C35. Through any sequence of admitted changes a cluster stays on its side of the boundary
  between a single node and a cluster, its spec stays sound, and its volumes never shrink,
  also across several changes.
\<close>

theorem admitted_updates:
  assumes "signal_order ord1" and "signal_order ord2"
    and "accepted_history ord1 ord2 s ts" and "t \<in> set ts"
  shows "SingleNode t = SingleNode s \<and> spec_ok t
    \<and> sto_Size (spec_Storage s) \<le> sto_Size (spec_Storage t)"
  using assms by (rule accepted_history_mono)

theorem admitted_updates_witness:
  "accepted_history [Traces, Logs, Metrics] [Metrics, Traces, Logs] (sample_spec three_nodes 1000)
     [sample_spec two_racks 1000, sample_spec three_nodes 2000]
   \<and> SingleNode (sample_spec three_nodes 2000) = SingleNode (sample_spec three_nodes 1000)"
proof -
  have h: "accepted_history [Traces, Logs, Metrics] [Metrics, Traces, Logs] (sample_spec three_nodes 1000)
     [sample_spec two_racks 1000, sample_spec three_nodes 2000]"
    by code_simp
  moreover have "SingleNode (sample_spec three_nodes 2000) = SingleNode (sample_spec three_nodes 1000)"
    using admitted_updates [OF sample_orders h, of "sample_spec three_nodes 2000"] by simp
  ultimately show ?thesis by blast
qed

end
