(* ===== verification/Operator_Env.thy ===== *)
theory Operator_Env
  imports Builders Fs_Client Pipeline Validation
begin

text \<open>
  The world the FSCluster controller acts on. \<open>Reconciler\<close> is the struct of
  \<open>controller.go\<close>: its two settings, and, for the clients it embeds, what they answer. Everything
  that is not part of the repository is such an answer: the Kubernetes API server, the admin API
  of the nodes (\<open>adminapi\<close>), the clock, the random source, and the libraries for owner
  references, YAML, JSON and condition lists.

  Go's \<open>slices.SortFunc\<close> is not stable, so the order it gives to access keys with equal names is
  an answer too (\<open>e_SortKeys\<close>).

  An answer may depend on everything that happened before: it is a function of the history, the
  list of calls made so far, and each operation below appends its call. A theorem about a
  history therefore speaks about every API server and every cluster, in any state, that may also
  change between two calls.
\<close>

section \<open>Calls\<close>

datatype event_type = Normal | Warning

datatype call =
    CListSets string "(string, string) gomap"
  | CListKeys string
  | CGetSecret string string
  | CGetPVC string string
  | CGetCluster string string
  | CApply string object
  | CCreate string object
  | CDelete kind string string bool
  | CUpdatePVC PersistentVolumeClaim
  | CPatchStatus FSCluster
  | CEvent event_type string message
  | CGetLayout string
  | CApplyLayout string adm_ApplyLayoutRequest
  | CListNodes string
  | CGetInfo string
  | CReload string
  | CRandom nat
  | CNow
  | CRESTMapping
  | CForget string string
  | CRecordCluster FSCluster
  | CUpdateFinished FSCluster Time
  | CReconcileError string
  | CPanic

type_synonym history = "call list"

text \<open>
  The last argument of \<open>CDelete\<close> says whether the dependents are orphaned. \<open>CPanic\<close> marks a
  run-time panic of a step.
\<close>

section \<open>The reconciler\<close>

record Reconciler =
  r_OperatorNamespace :: string
  r_FSImageRegistry :: string
  e_ListSets :: "history \<Rightarrow> string \<Rightarrow> (string, string) gomap \<Rightarrow> StatefulSet list result"
  e_ListKeys :: "history \<Rightarrow> string \<Rightarrow> FSAccessKey list result"
  e_GetSecret :: "history \<Rightarrow> string \<Rightarrow> string \<Rightarrow> Secret result"
  e_GetPVC :: "history \<Rightarrow> string \<Rightarrow> string \<Rightarrow> PersistentVolumeClaim result"
  e_GetCluster :: "history \<Rightarrow> string \<Rightarrow> string \<Rightarrow> FSCluster result"
  e_SetOwner :: "FSCluster \<Rightarrow> object \<Rightarrow> error option"
  e_Convert :: "object \<Rightarrow> error option"
  e_Apply :: "history \<Rightarrow> object \<Rightarrow> error option"
  e_Create :: "history \<Rightarrow> object \<Rightarrow> error option"
  e_Delete :: "history \<Rightarrow> kind \<Rightarrow> string \<Rightarrow> string \<Rightarrow> bool \<Rightarrow> error option"
  e_UpdatePVC :: "history \<Rightarrow> PersistentVolumeClaim \<Rightarrow> error option"
  e_PatchStatus :: "history \<Rightarrow> FSCluster \<Rightarrow> FSCluster result"
  e_NewClient :: "string \<Rightarrow> error option"
  e_GetLayout :: "history \<Rightarrow> string \<Rightarrow> string \<Rightarrow> adm_Layout result"
  e_ApplyLayout :: "history \<Rightarrow> string \<Rightarrow> string \<Rightarrow> adm_ApplyLayoutRequest \<Rightarrow> adm_Layout result"
  e_ListNodes :: "history \<Rightarrow> string \<Rightarrow> string \<Rightarrow> adm_Node list result"
  e_GetInfo :: "history \<Rightarrow> string \<Rightarrow> string \<Rightarrow> adm_Info result"
  e_Reload :: "history \<Rightarrow> string \<Rightarrow> string \<Rightarrow> adm_ReloadResult result"
  e_Random :: "history \<Rightarrow> nat \<Rightarrow> string result"
  e_Now :: "history \<Rightarrow> Time"
  e_RESTMapping :: "history \<Rightarrow> bool"
  e_Json :: "PodTemplateSpec \<Rightarrow> string result"
  e_Yaml :: yaml_codec
  e_SetStatusCondition :: "Condition \<Rightarrow> Condition list \<Rightarrow> Condition list"
  e_MapOrder :: "signal list \<times> signal list"
  e_SortKeys :: "Key list \<Rightarrow> Key list"

section \<open>Operations\<close>

definition get_secret :: "Reconciler \<Rightarrow> string \<Rightarrow> string \<Rightarrow> history \<Rightarrow> Secret result \<times> history" where
  "get_secret R ns name h = (e_GetSecret R h ns name, h @ [CGetSecret ns name])"

definition get_pvc :: "Reconciler \<Rightarrow> string \<Rightarrow> string \<Rightarrow> history \<Rightarrow> PersistentVolumeClaim result \<times> history" where
  "get_pvc R ns name h = (e_GetPVC R h ns name, h @ [CGetPVC ns name])"

definition delete :: "Reconciler \<Rightarrow> kind \<Rightarrow> string \<Rightarrow> string \<Rightarrow> bool \<Rightarrow> history \<Rightarrow> error option \<times> history" where
  "delete R k ns name orphan h = (e_Delete R h k ns name orphan, h @ [CDelete k ns name orphan])"

definition event :: "event_type \<Rightarrow> string \<Rightarrow> message \<Rightarrow> history \<Rightarrow> history" where
  "event t reason m h = h @ [CEvent t reason m]"

definition now :: "Reconciler \<Rightarrow> history \<Rightarrow> Time \<times> history" where
  "now R h = (e_Now R h, h @ [CNow])"

definition random_bytes :: "Reconciler \<Rightarrow> history \<Rightarrow> nat \<Rightarrow> string result" where
  "random_bytes R h n = e_Random R h n"

text \<open>
  \<open>adminClient\<close>: the client of the pool for a URL and a token, which is the one that would be
  built afresh (\<open>pool_transparent\<close>); the calls on it. Creating a client sends nothing.
\<close>

definition adminClient :: "Reconciler \<Rightarrow> string \<Rightarrow> string \<Rightarrow> Client result" where
  "adminClient R baseURL token = fsclient_New (e_NewClient R) baseURL token DefaultTimeout"

definition admin_Layout :: "Reconciler \<Rightarrow> Client \<Rightarrow> history \<Rightarrow> Layout result \<times> history" where
  "admin_Layout R c h =
     (client_Layout (e_GetLayout R h (cl_baseURL c) (cl_token c)), h @ [CGetLayout (cl_baseURL c)])"

definition admin_Nodes :: "Reconciler \<Rightarrow> Client \<Rightarrow> history \<Rightarrow> GossipNode list result \<times> history" where
  "admin_Nodes R c h =
     (client_Nodes (e_ListNodes R h (cl_baseURL c) (cl_token c)), h @ [CListNodes (cl_baseURL c)])"

definition admin_ApplyLayout ::
    "Reconciler \<Rightarrow> Client \<Rightarrow> Role list \<Rightarrow> int list \<Rightarrow> history \<Rightarrow> Layout result \<times> history" where
  "admin_ApplyLayout R c roles widths h =
     (let req = applyLayoutRequest roles widths
      in (client_ApplyLayout (e_ApplyLayout R h (cl_baseURL c) (cl_token c) req),
          h @ [CApplyLayout (cl_baseURL c) req]))"

definition admin_Info :: "Reconciler \<Rightarrow> Client \<Rightarrow> history \<Rightarrow> Info result \<times> history" where
  "admin_Info R c h =
     (client_Info (e_GetInfo R h (cl_baseURL c) (cl_token c)), h @ [CGetInfo (cl_baseURL c)])"

definition admin_Reload :: "Reconciler \<Rightarrow> Client \<Rightarrow> history \<Rightarrow> ReloadResult result \<times> history" where
  "admin_Reload R c h =
     (client_Reload (e_Reload R h (cl_baseURL c) (cl_token c)), h @ [CReload (cl_baseURL c)])"

text \<open>\<open>for _, x := range xs { if err := f(x); err != nil { return err } }\<close>\<close>

fun each :: "('a \<Rightarrow> history \<Rightarrow> error option \<times> history) \<Rightarrow> 'a list \<Rightarrow> history \<Rightarrow> error option \<times> history" where
  "each f [] h = (None, h)"
| "each f (x # xs) h = (case f x h of
      (Some e, h') \<Rightarrow> (Some e, h')
    | (None, h') \<Rightarrow> each f xs h')"

section \<open>Writing objects (\<open>controller.go\<close>, \<open>networkpolicy.go\<close>)\<close>

definition fmt_set_owner :: string where "fmt_set_owner = ''set owner''"
definition fmt_apply :: string where "fmt_apply = ''apply %s %q''"
definition fmt_convert :: string where "fmt_convert = ''convert %q''"
definition fmt_create :: string where "fmt_create = ''create %q''"
definition fmt_delete :: string where "fmt_delete = ''delete %s %q''"

text \<open>
  What is sent carries no creation timestamp and no status. Only a StatefulSet here has
  either.
\<close>

definition applyConfiguration :: "Reconciler \<Rightarrow> object \<Rightarrow> object result" where
  "applyConfiguration R obj = (case e_Convert R obj of
      Some e \<Rightarrow> Inl (Wrap e fmt_convert [name_of obj])
    | None \<Rightarrow> Inr (case obj of
          KStatefulSet s \<Rightarrow> KStatefulSet (s\<lparr>set_CreationTimestamp := None, set_Status := zero_set_status\<rparr>)
        | other \<Rightarrow> other))"

definition apply_object :: "Reconciler \<Rightarrow> FSCluster \<Rightarrow> object \<Rightarrow> history \<Rightarrow> error option \<times> history" where
  "apply_object R cluster obj h = (case e_SetOwner R cluster obj of
      Some e \<Rightarrow> (Some (Wrap e fmt_set_owner []), h)
    | None \<Rightarrow> (case applyConfiguration R obj of
        Inl e \<Rightarrow> (Some e, h)
      | Inr config \<Rightarrow>
          (case e_Apply R h config of
             Some e \<Rightarrow> (Some (Wrap e fmt_apply [name_of obj]), h @ [CApply (fsc_Name cluster) config])
           | None \<Rightarrow> (None, h @ [CApply (fsc_Name cluster) config]))))"

definition createOnce :: "Reconciler \<Rightarrow> FSCluster \<Rightarrow> object \<Rightarrow> history \<Rightarrow> error option \<times> history" where
  "createOnce R cluster obj h = (case e_SetOwner R cluster obj of
      Some e \<Rightarrow> (Some (Wrap e fmt_set_owner []), h)
    | None \<Rightarrow> (case e_Create R h obj of
        Some e \<Rightarrow> (if isAlreadyExists e then None else Some (Wrap e fmt_create [name_of obj]),
                  h @ [CCreate (fsc_Name cluster) obj])
      | None \<Rightarrow> (None, h @ [CCreate (fsc_Name cluster) obj])))"

text \<open>\<open>r.Delete\<close> where an absent object is success; the error is wrapped with the given format.\<close>

definition delete_ok ::
    "Reconciler \<Rightarrow> kind \<Rightarrow> string \<Rightarrow> string \<Rightarrow> bool \<Rightarrow> string \<Rightarrow> history \<Rightarrow> error option \<times> history" where
  "delete_ok R k ns name orphan fmt h = (case delete R k ns name orphan h of
      (Some e, h') \<Rightarrow> (if isNotFound e then None else Some (Wrap e fmt [name]), h')
    | (None, h') \<Rightarrow> (None, h'))"

definition deleteIfExists :: "Reconciler \<Rightarrow> object \<Rightarrow> history \<Rightarrow> error option \<times> history" where
  "deleteIfExists R obj h = delete_ok R (kind_of obj) (namespace_of obj) (name_of obj) False fmt_delete h"

definition fmt_list_sets :: string where "fmt_list_sets = ''list node statefulsets''"

definition nodeSets :: "Reconciler \<Rightarrow> FSCluster \<Rightarrow> history \<Rightarrow> StatefulSet list result \<times> history" where
  "nodeSets R cluster h =
     (case e_ListSets R h (fsc_Namespace cluster) (SelectorLabels (fsc_Name cluster)) of
        Inl e \<Rightarrow> Inl (Wrap e fmt_list_sets [])
      | Inr sets \<Rightarrow> Inr sets,
      h @ [CListSets (fsc_Namespace cluster) (SelectorLabels (fsc_Name cluster))])"

section \<open>What a run adds to the history\<close>

lemma emits_event [simp]: "emits P h (event t r m h) \<longleftrightarrow> P (CEvent t r m)"
  by (simp add: event_def)

lemma emits_event_after: "emits P h h' \<Longrightarrow> P (CEvent t r m) \<Longrightarrow> emits P h (event t r m h')"
  by (simp add: event_def emits_snoc)

lemma emits_each:
  assumes "\<And>x h. x \<in> set xs \<Longrightarrow> emits P h (snd (f x h))"
  shows "emits P h (snd (each f xs h))"
  using assms
proof (induction xs arbitrary: h)
  case (Cons x xs)
  obtain e h' where e: "f x h = (e, h')" by (cases "f x h")
  have h': "emits P h h'" using Cons.prems [of x h] e by simp
  show ?case
  proof (cases e)
    case None
    have "emits P h' (snd (each f xs h'))" using Cons by simp
    with h' None e show ?thesis by (simp add: emits_trans)
  qed (use h' e in simp)
qed simp

lemma emits_apply:
  assumes "\<And>o'. kind_of o' = kind_of obj \<Longrightarrow> name_of o' = name_of obj \<Longrightarrow>
    namespace_of o' = namespace_of obj \<Longrightarrow> P (CApply (fsc_Name cluster) o')"
  shows "emits P h (snd (apply_object R cluster obj h))"
proof -
  have "applyConfiguration R obj = Inr config \<Longrightarrow> P (CApply (fsc_Name cluster) config)" for config
    by (rule assms) (auto simp: applyConfiguration_def split: option.splits object.splits)
  then show ?thesis
    by (auto simp: apply_object_def split: option.splits sum.splits)
qed

lemma emits_createOnce: "P (CCreate (fsc_Name cluster) obj) \<Longrightarrow> emits P h (snd (createOnce R cluster obj h))"
  by (auto simp: createOnce_def split: option.splits)

lemma emits_delete_ok: "P (CDelete k ns n b) \<Longrightarrow> emits P h (snd (delete_ok R k ns n b fmt h))"
  by (auto simp: delete_ok_def delete_def split: option.splits)

section \<open>A benign world\<close>

text \<open>
  An instance for the concrete checks: every write succeeds, every secret exists with every key,
  nothing is listed, and the nodes run layout \<open>l\<close> with gossip view \<open>ns\<close>.
\<close>

definition quiet_secret :: "string \<Rightarrow> string \<Rightarrow> Secret" where
  "quiet_secret ns name =
     \<lparr>sec_Name = name, sec_Namespace = ns, sec_Labels = [], sec_Annotations = [],
      sec_Data = [(ClusterSecretKey, ''0123456789abcdef''), (AdminTokenKey, ''t''), (AccessKeyKey, ''AK''),
                  (SecretKeyKey, ''0123456789abcdef'')],
      sec_StringData = []\<rparr>"

definition quiet :: "StatefulSet list \<Rightarrow> adm_Layout \<Rightarrow> adm_Node list \<Rightarrow> Reconciler" where
  "quiet sets l ns =
     \<lparr>r_OperatorNamespace = ''fs-system'', r_FSImageRegistry = [],
      e_ListSets = (\<lambda>h n sel. Inr sets), e_ListKeys = (\<lambda>h n. Inr []),
      e_GetSecret = (\<lambda>h n name. Inr (quiet_secret n name)),
      e_GetPVC = (\<lambda>h n name. Inl (ApiError NotFound)), e_GetCluster = (\<lambda>h n name. Inl (ApiError NotFound)),
      e_SetOwner = (\<lambda>c obj. None), e_Convert = (\<lambda>obj. None), e_Apply = (\<lambda>h obj. None),
      e_Create = (\<lambda>h obj. Some (ApiError AlreadyExists)), e_Delete = (\<lambda>h k n name b. None),
      e_UpdatePVC = (\<lambda>h pvc. None), e_PatchStatus = (\<lambda>h c. Inr c), e_NewClient = (\<lambda>u. None),
      e_GetLayout = (\<lambda>h u t. Inr l), e_ApplyLayout = (\<lambda>h u t q. Inr l), e_ListNodes = (\<lambda>h u t. Inr ns),
      e_GetInfo = (\<lambda>h u t. Inl (AdminStatus 503 [])), e_Reload = (\<lambda>h u t. Inl (AdminStatus 503 [])),
      e_Random = (\<lambda>h n. Inr (replicate n (CHR ''r''))), e_Now = (\<lambda>h. int (length h)),
      e_RESTMapping = (\<lambda>h. False), e_Json = (\<lambda>t. Inr (pts_PriorityClassName t)),
      e_Yaml = \<lparr>yaml_Encode = (\<lambda>c. Inr (clu_NodeID (cfg_Cluster c))), yaml_Close = (\<lambda>c. None),
               yaml_Decode = (\<lambda>s. Inl (NewError s []))\<rparr>,
      e_SetStatusCondition = (\<lambda>c cs. c # filter (\<lambda>c'. cond_Type c' \<noteq> cond_Type c) cs),
      e_MapOrder = ([Traces, Logs, Metrics], [Traces, Logs, Metrics]),
      e_SortKeys = slices_SortFunc key_AccessKey\<rparr>"

definition quiet_layout :: "string list \<Rightarrow> adm_Layout" where
  "quiet_layout members = \<lparr>al_Version = 4, al_Widths = [3],
     al_Members = map (\<lambda>m. \<lparr>alr_ID = m, alr_Zone = None, alr_Rack = None, alr_Capacity = 1\<rparr>) members,
     al_RetainedVersions = []\<rparr>"

definition quiet_node :: "string \<Rightarrow> adm_Node" where
  "quiet_node name = \<lparr>an_ID = Some name, an_Addr = name, an_Self = False, an_Up = True,
     an_LayoutVersion = Some 4, an_SyncedVersion = Some 4, an_Error = None\<rparr>"

text \<open>A node's StatefulSet as it runs, serving, with a given template revision.\<close>

definition serving_set :: "FSCluster \<Rightarrow> Node \<Rightarrow> string \<Rightarrow> StatefulSet" where
  "serving_set c n revision = (NewStatefulSet c n [])
     \<lparr>set_Annotations := [(AnnotationTemplateRevision, revision)], set_Generation := 1,
      set_Status := \<lparr>ss_ObservedGeneration = 1, ss_ReadyReplicas = 1, ss_UpdatedReplicas = 1\<rparr>\<rparr>"

lemma quiet_simps [simp]:
  "r_OperatorNamespace (quiet sets l ns) = ''fs-system''"
  "r_FSImageRegistry (quiet sets l ns) = []"
  "e_ListSets (quiet sets l ns) = (\<lambda>h n sel. Inr sets)"
  "e_ListKeys (quiet sets l ns) = (\<lambda>h n. Inr [])"
  "e_GetSecret (quiet sets l ns) = (\<lambda>h n name. Inr (quiet_secret n name))"
  "e_GetPVC (quiet sets l ns) = (\<lambda>h n name. Inl (ApiError NotFound))"
  "e_GetCluster (quiet sets l ns) = (\<lambda>h n name. Inl (ApiError NotFound))"
  "e_SetOwner (quiet sets l ns) = (\<lambda>c obj. None)"
  "e_Convert (quiet sets l ns) = (\<lambda>obj. None)"
  "e_Apply (quiet sets l ns) = (\<lambda>h obj. None)"
  "e_Create (quiet sets l ns) = (\<lambda>h obj. Some (ApiError AlreadyExists))"
  "e_Delete (quiet sets l ns) = (\<lambda>h k n name b. None)"
  "e_UpdatePVC (quiet sets l ns) = (\<lambda>h pvc. None)"
  "e_PatchStatus (quiet sets l ns) = (\<lambda>h c. Inr c)"
  "e_NewClient (quiet sets l ns) = (\<lambda>u. None)"
  "e_GetLayout (quiet sets l ns) = (\<lambda>h u t. Inr l)"
  "e_ApplyLayout (quiet sets l ns) = (\<lambda>h u t q. Inr l)"
  "e_ListNodes (quiet sets l ns) = (\<lambda>h u t. Inr ns)"
  "e_GetInfo (quiet sets l ns) = (\<lambda>h u t. Inl (AdminStatus 503 []))"
  "e_Reload (quiet sets l ns) = (\<lambda>h u t. Inl (AdminStatus 503 []))"
  "e_Random (quiet sets l ns) = (\<lambda>h n. Inr (replicate n (CHR ''r'')))"
  "e_Now (quiet sets l ns) = (\<lambda>h. int (length h))"
  "e_RESTMapping (quiet sets l ns) = (\<lambda>h. False)"
  "e_Json (quiet sets l ns) = (\<lambda>t. Inr (pts_PriorityClassName t))"
  "e_Yaml (quiet sets l ns) = \<lparr>yaml_Encode = (\<lambda>c. Inr (clu_NodeID (cfg_Cluster c))), yaml_Close = (\<lambda>c. None), yaml_Decode = (\<lambda>s. Inl (NewError s []))\<rparr>"
  "e_SetStatusCondition (quiet sets l ns) = (\<lambda>c cs. c # filter (\<lambda>c'. cond_Type c' \<noteq> cond_Type c) cs)"
  "e_MapOrder (quiet sets l ns) = ([Traces, Logs, Metrics], [Traces, Logs, Metrics])"
  "e_SortKeys (quiet sets l ns) = slices_SortFunc key_AccessKey"
  by (simp_all add: quiet_def)

end
