(* ===== verification/Pass.thy ===== *)
theory Pass
  imports Operator_Env
begin

text \<open>
  The state one reconcile pass carries between its steps (\<open>pass\<close>, \<open>health\<close>, \<open>convergence\<close>,
  \<open>decommission\<close> of \<open>internal/controller/fscluster\<close>), the helpers on it, and the \<open>observe\<close> step of
  \<open>status.go\<close>. A step takes the pass and the history and returns its outcome, the pass and the
  history after it. The fields Go leaves nil until a step fills them are options where the code
  asks whether they are nil.
\<close>

section \<open>The state\<close>

record health =
  hl_ready :: int32
  hl_domains :: int
  hl_downDomains :: int
  hl_current :: int32
  hl_configCurrent :: int32
  hl_notReady :: "string list"

definition zero_health :: health where
  "zero_health = \<lparr>hl_ready = 0, hl_domains = 0, hl_downDomains = 0, hl_current = 0,
     hl_configCurrent = 0, hl_notReady = []\<rparr>"

record convergence =
  cv_known :: bool
  cv_layout :: "Layout option"
  cv_nodes :: "(string, GossipNode) gomap"
  cv_converged :: bool
  cv_waiting :: message

definition zero_convergence :: convergence where
  "zero_convergence = \<lparr>cv_known = False, cv_layout = None, cv_nodes = [], cv_converged = False,
     cv_waiting = no_message\<rparr>"

type_synonym decommission = "(string, StatefulSet) gomap"

record pass =
  p_object :: FSCluster
  p_cluster :: FSCluster
  p_nodes :: "Node list"
  p_configs :: "(string, RenderedConfig) gomap option"
  p_restarts :: "(string, string) gomap"
  p_desired :: "StatefulSet list option"
  p_templateRevision :: string
  p_live :: "(string, StatefulSet) gomap"
  p_health :: health
  p_convergence :: convergence
  p_decommission :: decommission
  p_layoutApplied :: bool
  p_update :: "UpdateStatus option"
  p_conditions :: "Condition list"
  p_failure :: "error option"

type_synonym step_result = "Outcome result \<times> pass \<times> history"

text \<open>\<open>newPass\<close>: \<open>None\<close> is the panic of \<open>Nodes\<close>.\<close>

definition newPass :: "FSCluster \<Rightarrow> string \<Rightarrow> pass option" where
  "newPass object imageRegistry =
     (let spec = WithDefaults (fsc_Spec object);
          img = spec_Image spec;
          spec' = spec\<lparr>spec_Image := img\<lparr>img_Repository := ApplyRegistry (img_Repository img) imageRegistry\<rparr>\<rparr>;
          cluster = object\<lparr>fsc_Spec := spec'\<rparr>
      in case Nodes cluster of
           None \<Rightarrow> None
         | Some nodes \<Rightarrow> Some
             \<lparr>p_object = object, p_cluster = cluster, p_nodes = nodes, p_configs = None, p_restarts = [],
              p_desired = None, p_templateRevision = [], p_live = [], p_health = zero_health,
              p_convergence = zero_convergence, p_decommission = [], p_layoutApplied = False,
              p_update = None, p_conditions = [], p_failure = None\<rparr>)"

definition RecordFailure :: "error \<Rightarrow> pass \<Rightarrow> pass" where
  "RecordFailure err p = (if p_failure p = None then p\<lparr>p_failure := Some err\<rparr> else p)"

definition setCondition ::
    "ConditionType \<Rightarrow> ConditionStatus \<Rightarrow> ConditionReason \<Rightarrow> message \<Rightarrow> pass \<Rightarrow> pass" where
  "setCondition ct status reason m p = p\<lparr>p_conditions := p_conditions p @
     [\<lparr>cond_Type = ct, cond_Status = status, cond_Reason = reason, cond_Message = m,
       cond_ObservedGeneration = fsc_Generation (p_object p)\<rparr>]\<rparr>"

definition hasCondition :: "ConditionType \<Rightarrow> pass \<Rightarrow> bool" where
  "hasCondition ct p \<longleftrightarrow> list_ex (\<lambda>c. cond_Type c = ct) (p_conditions p)"

text \<open>Ranging over \<open>p.desired\<close> treats nil as empty.\<close>

definition p_sets :: "pass \<Rightarrow> StatefulSet list" where
  "p_sets p = (case p_desired p of None \<Rightarrow> [] | Some sets \<Rightarrow> sets)"

definition config_of :: "pass \<Rightarrow> string \<Rightarrow> RenderedConfig" where
  "config_of p name = (case p_configs p of
      None \<Rightarrow> \<lparr>rc_Data = [], rc_Revision = []\<rparr>
    | Some m \<Rightarrow> (case gm_get m name of None \<Rightarrow> \<lparr>rc_Data = [], rc_Revision = []\<rparr> | Some c \<Rightarrow> c))"

definition convergence_up :: "convergence \<Rightarrow> string \<Rightarrow> bool" where
  "convergence_up c name = (case gm_get (cv_nodes c) name of None \<Rightarrow> False | Some n \<Rightarrow> gn_Up n)"

definition decommission_active :: "decommission \<Rightarrow> bool" where
  "decommission_active d \<longleftrightarrow> 0 < length d"

definition decommission_names :: "decommission \<Rightarrow> string list" where
  "decommission_names d = slices_Sort (map fst d)"

definition template_revision :: "StatefulSet \<Rightarrow> string" where
  "template_revision s = gm_str (set_Annotations s) AnnotationTemplateRevision"

section \<open>Refusing\<close>

definition refuse :: "ConditionReason \<Rightarrow> message \<Rightarrow> pass \<Rightarrow> history \<Rightarrow> step_result" where
  "refuse reason m p h =
     (Block (msg reason), setCondition ConditionSpecValid ConditionFalse reason m p, event Warning reason m h)"

section \<open>Observing the StatefulSets (\<open>status.go\<close>)\<close>

definition nodeServing :: "StatefulSet \<Rightarrow> bool" where
  "nodeServing s \<longleftrightarrow>
     set_Generation s \<le> ss_ObservedGeneration (set_Status s)
     \<and> ss_ReadyReplicas (set_Status s) = 1 \<and> ss_UpdatedReplicas (set_Status s) = 1"

definition live_serving :: "pass \<Rightarrow> Node \<Rightarrow> bool" where
  "live_serving p node = (case gm_get (p_live p) (node_Name node) of None \<Rightarrow> False | Some s \<Rightarrow> nodeServing s)"

text \<open>One node of the loop of \<open>observe\<close>: the health, the domains seen and the domains down so far.\<close>

definition observe_node ::
    "FSClusterSpec \<Rightarrow> (string, StatefulSet) gomap \<Rightarrow> (string, string) gomap \<Rightarrow> Node
     \<Rightarrow> health \<times> string list \<times> string list \<Rightarrow> health \<times> string list \<times> string list" where
  "observe_node spec live desired node = (\<lambda>(hl, domains, down).
     let domain = domainOf spec node;
         domains' = List.insert domain domains
     in case gm_get live (node_Name node) of
          None \<Rightarrow> (hl\<lparr>hl_notReady := hl_notReady hl @ [node_Name node]\<rparr>, domains', List.insert domain down)
        | Some s \<Rightarrow>
            if \<not> nodeServing s
            then (hl\<lparr>hl_notReady := hl_notReady hl @ [node_Name node]\<rparr>, domains', List.insert domain down)
            else
              (let hl' = hl\<lparr>hl_ready := i32 (hl_ready hl + 1)\<rparr>
               in (case gm_get desired (node_Name node) of
                     Some revision \<Rightarrow>
                       if template_revision s = revision then hl'\<lparr>hl_current := i32 (hl_current hl' + 1)\<rparr>
                       else hl'
                   | None \<Rightarrow> hl', domains', down)))"

definition sets_by_name :: "StatefulSet list \<Rightarrow> (string, StatefulSet) gomap" where
  "sets_by_name sets = fold (\<lambda>s m. gm_put (set_Name s) s m) sets []"

definition revisions_by_name :: "StatefulSet list \<Rightarrow> (string, string) gomap" where
  "revisions_by_name sets = fold (\<lambda>s m. gm_put (set_Name s) (template_revision s) m) sets []"

definition observe :: "Reconciler \<Rightarrow> pass \<Rightarrow> history \<Rightarrow> step_result" where
  "observe R p h = (case nodeSets R (p_cluster p) h of
      (Inl e, h') \<Rightarrow> (Inl e, p, h')
    | (Inr sets, h') \<Rightarrow>
        (let live = sets_by_name sets; desired = revisions_by_name (p_sets p)
         in case fold (observe_node (fsc_Spec (p_cluster p)) live desired) (p_nodes p)
                   (p_health p, [], []) of
              (hl, domains, down) \<Rightarrow>
                (Continue,
                 p\<lparr>p_live := live,
                   p_health := hl\<lparr>hl_domains := int (length domains), hl_downDomains := int (length down)\<rparr>\<rparr>,
                 h')))"

section \<open>Facts\<close>

lemma setCondition_frame [simp]:
  "p_object (setCondition ct st r m p) = p_object p"
  "p_cluster (setCondition ct st r m p) = p_cluster p"
  "p_nodes (setCondition ct st r m p) = p_nodes p"
  "p_configs (setCondition ct st r m p) = p_configs p"
  "p_desired (setCondition ct st r m p) = p_desired p"
  "p_templateRevision (setCondition ct st r m p) = p_templateRevision p"
  "p_live (setCondition ct st r m p) = p_live p"
  "p_health (setCondition ct st r m p) = p_health p"
  "p_convergence (setCondition ct st r m p) = p_convergence p"
  "p_decommission (setCondition ct st r m p) = p_decommission p"
  "p_layoutApplied (setCondition ct st r m p) = p_layoutApplied p"
  "p_update (setCondition ct st r m p) = p_update p"
  "p_failure (setCondition ct st r m p) = p_failure p"
  by (simp_all add: setCondition_def)

lemma hasCondition_setCondition [simp]:
  "hasCondition ct (setCondition ct' st r m p) \<longleftrightarrow> ct' = ct \<or> hasCondition ct p"
  by (auto simp: hasCondition_def setCondition_def)

lemma p_sets_setCondition [simp]: "p_sets (setCondition ct st r m p) = p_sets p"
  by (simp add: p_sets_def)

lemma RecordFailure_frame [simp]:
  "p_object (RecordFailure e p) = p_object p"
  "p_cluster (RecordFailure e p) = p_cluster p"
  "p_conditions (RecordFailure e p) = p_conditions p"
  "p_failure (RecordFailure e p) \<noteq> None"
  by (simp_all add: RecordFailure_def)

text \<open>What the loop of \<open>observe\<close> leaves in the health: the nodes that are not serving, in
  declaration order, and how many domains there are and are affected.\<close>

definition not_serving :: "(string, StatefulSet) gomap \<Rightarrow> Node \<Rightarrow> bool" where
  "not_serving live node \<longleftrightarrow> (case gm_get live (node_Name node) of None \<Rightarrow> True | Some s \<Rightarrow> \<not> nodeServing s)"

lemma observe_node_sets:
  "hl_notReady (fst (observe_node spec live desired n (hl, ds, dn)))
     = hl_notReady hl @ (if not_serving live n then [node_Name n] else [])"
  "fst (snd (observe_node spec live desired n (hl, ds, dn))) = List.insert (domainOf spec n) ds"
  "snd (snd (observe_node spec live desired n (hl, ds, dn)))
     = (if not_serving live n then List.insert (domainOf spec n) dn else dn)"
  by (simp_all add: observe_node_def not_serving_def Let_def split: option.splits)

lemma observe_loop:
  "hl_notReady (fst (fold (observe_node spec live desired) ns (hl, ds, dn)))
     = hl_notReady hl @ map node_Name (filter (not_serving live) ns)
   \<and> fst (snd (fold (observe_node spec live desired) ns (hl, ds, dn)))
     = fold List.insert (map (domainOf spec) ns) ds
   \<and> snd (snd (fold (observe_node spec live desired) ns (hl, ds, dn)))
     = fold List.insert (map (domainOf spec) (filter (not_serving live) ns)) dn"
proof (induction ns arbitrary: hl ds dn)
  case (Cons n ns)
  obtain hl' ds' dn' where e: "observe_node spec live desired n (hl, ds, dn) = (hl', ds', dn')"
    by (cases "observe_node spec live desired n (hl, ds, dn)") auto
  show ?case
    using Cons.IH [of hl' ds' dn'] observe_node_sets [of spec live desired n hl ds dn] by (simp add: e)
qed simp

lemma sets_by_name_get: "gm_get (sets_by_name sets) name = find (\<lambda>s. set_Name s = name) (rev sets)"
proof (induction sets rule: rev_induct)
  case Nil
  then show ?case by (simp add: sets_by_name_def)
next
  case (snoc s sets)
  have "sets_by_name (sets @ [s]) = gm_put (set_Name s) s (sets_by_name sets)"
    by (simp add: sets_by_name_def)
  with snoc show ?case by auto
qed

lemma sets_by_name_name: "gm_get (sets_by_name sets) name = Some s \<Longrightarrow> set_Name s = name \<and> s \<in> set sets"
proof -
  assume "gm_get (sets_by_name sets) name = Some s"
  then have "find (\<lambda>s. set_Name s = name) (rev sets) = Some s" by (simp add: sets_by_name_get)
  then obtain i where i: "i < length (rev sets)" "set_Name (rev sets ! i) = name" "s = rev sets ! i"
    by (auto simp: find_Some_iff)
  then have "s \<in> set (rev sets)" by (metis nth_mem)
  with i show ?thesis by simp
qed

end
