(* ===== verification/Access_Keys.thy ===== *)
theory Access_Keys
  imports Pass
begin

text \<open>
  \<open>internal/controller/fscluster/accesskeys.go\<close> and the \<open>render\<close> step of \<open>controller.go\<close>: which
  credentials a cluster's configuration carries, and the desired configuration and StatefulSet of
  every node.
\<close>

section \<open>Where a credential is kept\<close>

definition MinSecretKeyLength :: nat where "MinSecretKeyLength = 16"
definition EndpointKey :: string where "EndpointKey = ''endpoint''"

definition AccessKeySecretName :: "FSAccessKey \<Rightarrow> string" where
  "AccessKeySecretName key =
     (if aks_SecretName (ak_Spec key) \<noteq> [] then aks_SecretName (ak_Spec key)
      else ak_Name key @ ''-credentials'')"

definition AccessKeySecretSource :: "FSAccessKey \<Rightarrow> string" where
  "AccessKeySecretSource key = (case aks_ExistingSecretRef (ak_Spec key) of
      Some ref \<Rightarrow> if ref \<noteq> [] then ref else AccessKeySecretName key
    | None \<Rightarrow> AccessKeySecretName key)"

definition GrantsToConfig :: "GrantSpec list \<Rightarrow> Grant list" where
  "GrantsToConfig grants = map (\<lambda>g. \<lparr>grant_Bucket = gr_Bucket g, grant_Permission = gr_Permission g\<rparr>) grants"

section \<open>Collecting\<close>

definition fmt_list_keys :: string where "fmt_list_keys = ''list access keys''"
definition fmt_key_secret :: string where "fmt_key_secret = ''get secret of access key %q''"

text \<open>What a key contributes, given its Secret: nothing when the Secret is incomplete or weak.\<close>

definition key_of :: "FSAccessKey \<Rightarrow> Secret \<Rightarrow> Key option" where
  "key_of ak secret =
     (let access = gm_str (sec_Data secret) AccessKeyKey;
          secretKey = gm_str (sec_Data secret) SecretKeyKey
      in if access = [] \<or> length secretKey < MinSecretKeyLength then None
         else Some \<lparr>key_AccessKey = access, key_SecretKey = secretKey,
                    key_Grants = GrantsToConfig (aks_Grants (ak_Spec ak))\<rparr>)"

fun collect_loop ::
    "Reconciler \<Rightarrow> FSCluster \<Rightarrow> FSAccessKey list \<Rightarrow> Key list \<Rightarrow> history \<Rightarrow> Key list result \<times> history" where
  "collect_loop R cluster [] keys h = (Inr keys, h)"
| "collect_loop R cluster (ak # aks) keys h =
     (if aks_ClusterRef (ak_Spec ak) \<noteq> fsc_Name cluster then collect_loop R cluster aks keys h
      else if ak_DeletionTimestamp ak \<noteq> None then collect_loop R cluster aks keys h
      else (case get_secret R (fsc_Namespace cluster) (AccessKeySecretSource ak) h of
              (Inl e, h') \<Rightarrow>
                if isNotFound e then collect_loop R cluster aks keys h'
                else (Inl (Wrap e fmt_key_secret [ak_Name ak]), h')
            | (Inr secret, h') \<Rightarrow>
                (case key_of ak secret of
                   None \<Rightarrow> collect_loop R cluster aks keys h'
                 | Some key \<Rightarrow> collect_loop R cluster aks (keys @ [key]) h')))"

definition collectAccessKeys :: "Reconciler \<Rightarrow> FSCluster \<Rightarrow> history \<Rightarrow> Key list result \<times> history" where
  "collectAccessKeys R cluster h =
     (let h1 = h @ [CListKeys (fsc_Namespace cluster)]
      in case e_ListKeys R h (fsc_Namespace cluster) of
           Inl e \<Rightarrow> (Inl (Wrap e fmt_list_keys []), h1)
         | Inr items \<Rightarrow> (case collect_loop R cluster items [] h1 of
             (Inl e, h2) \<Rightarrow> (Inl e, h2)
           | (Inr keys, h2) \<Rightarrow> (Inr (e_SortKeys R keys), h2)))"

section \<open>Rendering\<close>

text \<open>The desired StatefulSet of one node: the running one, kept, while the node is being removed.\<close>

definition desired_set :: "Reconciler \<Rightarrow> pass \<Rightarrow> Node \<Rightarrow> string \<Rightarrow> StatefulSet result" where
  "desired_set R p node revision = (case gm_get (p_decommission p) (node_Name node) of
      Some s \<Rightarrow> keptStatefulSet (e_Json R) s
    | None \<Rightarrow> stampTemplateRevision (e_Json R) (NewStatefulSet (p_cluster p) node revision))"

fun render_nodes ::
    "Reconciler \<Rightarrow> pass \<Rightarrow> RenderOptions \<Rightarrow> Node list \<Rightarrow> (string, string) gomap \<Rightarrow> StatefulSet list
     \<Rightarrow> ((string, string) gomap \<times> StatefulSet list) result" where
  "render_nodes R p opts [] restarts desired = Inr (restarts, desired)"
| "render_nodes R p opts (node # nodes) restarts desired =
     (case RestartRevision (e_Yaml R) (p_cluster p) node opts of
        Inl e \<Rightarrow> Inl e
      | Inr revision \<Rightarrow> (case desired_set R p node revision of
          Inl e \<Rightarrow> Inl e
        | Inr s \<Rightarrow> render_nodes R p opts nodes (gm_put (node_Name node) revision restarts) (desired @ [s])))"

definition render :: "Reconciler \<Rightarrow> pass \<Rightarrow> history \<Rightarrow> step_result" where
  "render R p h = (case collectAccessKeys R (p_cluster p) h of
      (Inl e, h') \<Rightarrow> (Inl e, p, h')
    | (Inr keys, h') \<Rightarrow>
        (let opts = \<lparr>ro_Keys = keys\<rparr>
         in case RenderNodeConfigs (e_Yaml R) (p_cluster p) (p_nodes p) opts of
              Inl e \<Rightarrow> (Inl e, p, h')
            | Inr configs \<Rightarrow> (case render_nodes R p opts (p_nodes p) [] [] of
                Inl e \<Rightarrow> (Inl e, p, h')
              | Inr (restarts, desired) \<Rightarrow> (case PodTemplateRevision (e_Json R) desired of
                  Inl e \<Rightarrow> (Inl e, p, h')
                | Inr templateRevision \<Rightarrow>
                    (Continue,
                     p\<lparr>p_configs := Some configs, p_restarts := restarts, p_desired := Some desired,
                       p_templateRevision := templateRevision\<rparr>, h')))))"

section \<open>Facts\<close>

text \<open>The keys of the cluster that are not being deleted, and what each contributes.\<close>

definition own_keys :: "FSCluster \<Rightarrow> FSAccessKey list \<Rightarrow> FSAccessKey list" where
  "own_keys cluster items =
     filter (\<lambda>ak. aks_ClusterRef (ak_Spec ak) = fsc_Name cluster \<and> ak_DeletionTimestamp ak = None) items"

definition contribution :: "FSAccessKey \<Rightarrow> Secret result \<Rightarrow> Key list" where
  "contribution ak answer = (case answer of
      Inl e \<Rightarrow> []
    | Inr secret \<Rightarrow> (case key_of ak secret of None \<Rightarrow> [] | Some key \<Rightarrow> [key]))"

text \<open>An answer to the read of a key's Secret: the Secret, or that there is none.\<close>

definition secret_answer :: "Reconciler \<Rightarrow> FSCluster \<Rightarrow> FSAccessKey \<Rightarrow> Secret result \<Rightarrow> bool" where
  "secret_answer R cluster ak a \<longleftrightarrow>
     (\<exists>h. a = e_GetSecret R h (fsc_Namespace cluster) (AccessKeySecretSource ak))
     \<and> (\<forall>e. a = Inl e \<longrightarrow> isNotFound e)"

lemma collect_loop_spec:
  "collect_loop R cluster items acc h = (Inr keys, h') \<Longrightarrow>
   \<exists>answers. list_all2 (secret_answer R cluster) (own_keys cluster items) answers
     \<and> keys = acc @ concat (map2 contribution (own_keys cluster items) answers)"
proof (induction items arbitrary: acc h)
  case Nil
  then show ?case by (simp add: own_keys_def)
next
  case (Cons ak items)
  show ?case
  proof (cases "aks_ClusterRef (ak_Spec ak) = fsc_Name cluster \<and> ak_DeletionTimestamp ak = None")
    case False
    with Cons.prems have "collect_loop R cluster items acc h = (Inr keys, h')"
      by (auto split: if_splits)
    from Cons.IH [OF this] False show ?thesis by (auto simp: own_keys_def)
  next
    case True
    then have own: "own_keys cluster (ak # items) = ak # own_keys cluster items" by (simp add: own_keys_def)
    let ?h = "h @ [CGetSecret (fsc_Namespace cluster) (AccessKeySecretSource ak)]"
    define a where "a = e_GetSecret R h (fsc_Namespace cluster) (AccessKeySecretSource ak)"
    have "collect_loop R cluster items (acc @ contribution ak a) ?h = (Inr keys, h') \<and> secret_answer R cluster ak a"
      using Cons.prems True
      by (auto simp: get_secret_def contribution_def secret_answer_def a_def intro!: exI [of _ h]
          split: sum.splits if_splits option.splits)
    then obtain answers where "list_all2 (secret_answer R cluster) (own_keys cluster items) answers"
      "keys = (acc @ contribution ak a) @ concat (map2 contribution (own_keys cluster items) answers)"
      "secret_answer R cluster ak a"
      using Cons.IH by blast
    then show ?thesis unfolding own by (intro exI [of _ "a # answers"]) simp
  qed
qed

lemma emits_collect_loop: "emits (\<lambda>c. \<exists>ns n. c = CGetSecret ns n) h (snd (collect_loop R cluster items acc h))"
proof (induction items arbitrary: acc h)
  case (Cons ak items)
  let ?h = "h @ [CGetSecret (fsc_Namespace cluster) (AccessKeySecretSource ak)]"
  have one: "emits (\<lambda>c. \<exists>ns n. c = CGetSecret ns n) h ?h" by simp
  then have "emits (\<lambda>c. \<exists>ns n. c = CGetSecret ns n) h (snd (collect_loop R cluster items acc' ?h))" for acc'
    using Cons.IH emits_trans by blast
  with Cons.IH one show ?case by (simp add: get_secret_def split: sum.split option.split)
qed simp

fun render_call :: "call \<Rightarrow> bool" where
  "render_call (CListKeys ns) = True"
| "render_call (CGetSecret ns n) = True"
| "render_call c = False"

lemma emits_collectAccessKeys: "emits render_call h (snd (collectAccessKeys R cluster h))"
proof -
  have one: "emits render_call h (h @ [CListKeys (fsc_Namespace cluster)])" by simp
  have "emits render_call (h @ [CListKeys (fsc_Namespace cluster)])
      (snd (collect_loop R cluster items [] (h @ [CListKeys (fsc_Namespace cluster)])))" for items
    by (rule emits_mono [OF emits_collect_loop]) auto
  with one have "emits render_call h (snd (collect_loop R cluster items [] (h @ [CListKeys (fsc_Namespace cluster)])))" for items
    by (rule emits_trans)
  with one show ?thesis
    by (simp add: collectAccessKeys_def Let_def split: sum.split prod.split)
      (metis snd_conv)
qed

lemma emits_render: "emits render_call h (snd (snd (render R p h)))"
proof -
  obtain r h' where c: "collectAccessKeys R (p_cluster p) h = (r, h')" by (cases "collectAccessKeys R (p_cluster p) h")
  with emits_collectAccessKeys [of h R "p_cluster p"] have "emits render_call h h'" by simp
  with c show ?thesis by (simp add: render_def Let_def split: sum.split prod.split)
qed

lemma render_nodes_spec:
  "render_nodes R p opts ns restarts desired = Inr (restarts', desired') \<Longrightarrow>
   \<exists>sets. desired' = desired @ sets
     \<and> list_all2 (\<lambda>n s. \<exists>revision. RestartRevision (e_Yaml R) (p_cluster p) n opts = Inr revision
         \<and> desired_set R p n revision = Inr s) ns sets"
proof (induction ns arbitrary: restarts desired)
  case (Cons n ns)
  then obtain revision s where r: "RestartRevision (e_Yaml R) (p_cluster p) n opts = Inr revision"
    "desired_set R p n revision = Inr s"
    "render_nodes R p opts ns (gm_put (node_Name n) revision restarts) (desired @ [s]) = Inr (restarts', desired')"
    by (auto split: sum.splits)
  from Cons.IH [OF r(3)] obtain sets where "desired' = (desired @ [s]) @ sets"
    "list_all2 (\<lambda>n s. \<exists>revision. RestartRevision (e_Yaml R) (p_cluster p) n opts = Inr revision
         \<and> desired_set R p n revision = Inr s) ns sets" by blast
  with r show ?case by (intro exI [of _ "s # sets"]) simp
qed simp

text \<open>
  Rendering succeeds for any named nodes once the keys are collected and the encoders accept what
  they are given; in the benign world they do.
\<close>

definition encodes :: "Reconciler \<Rightarrow> bool" where
  "encodes R \<longleftrightarrow> (\<forall>cfg. \<exists>d. Marshal (e_Yaml R) cfg = Inr d) \<and> (\<forall>t. \<exists>d. e_Json R t = Inr d)"

lemma nodeConfig_total:
  "fsc_Name c \<noteq> [] \<Longrightarrow> fsc_Namespace c \<noteq> [] \<Longrightarrow> node_Name n \<noteq> [] \<Longrightarrow> \<exists>cfg. nodeConfig c n opts = Inr cfg"
  by (simp add: nodeConfig_def Let_def)

lemma encodes_config:
  assumes "encodes R" "fsc_Name c \<noteq> []" "fsc_Namespace c \<noteq> []" "node_Name n \<noteq> []"
  shows "\<exists>r. RenderNodeConfig (e_Yaml R) c n opts = Inr r" and "\<exists>r. RestartRevision (e_Yaml R) c n opts = Inr r"
proof -
  obtain cfg where cfg: "nodeConfig c n opts = Inr cfg" using nodeConfig_total [OF assms(2-4)] by blast
  from assms(1) obtain m where "Marshal (e_Yaml R) x = Inr (m x)" for x unfolding encodes_def by metis
  with cfg show "\<exists>r. RenderNodeConfig (e_Yaml R) c n opts = Inr r" "\<exists>r. RestartRevision (e_Yaml R) c n opts = Inr r"
    by (simp_all add: RenderNodeConfig_def RestartRevision_def Let_def)
qed

lemma encodes_configs:
  assumes "encodes R" "fsc_Name c \<noteq> []" "fsc_Namespace c \<noteq> []" "\<forall>n \<in> set nodes. node_Name n \<noteq> []"
  shows "\<exists>m. render_loop (e_Yaml R) c opts nodes acc = Inr m"
  using assms(4)
proof (induction nodes arbitrary: acc)
  case (Cons n nodes)
  then obtain r where "RenderNodeConfig (e_Yaml R) c n opts = Inr r"
    using encodes_config(1) [OF assms(1-3), of n opts] by auto
  with Cons show ?case by simp
qed simp

lemma encodes_template: "encodes R \<Longrightarrow> \<exists>t. template_preimage (e_Json R) sets = Inr t"
proof (induction sets)
  case (Cons s sets)
  then obtain j t where "e_Json R (sts_Template (set_Spec s)) = Inr j" "template_preimage (e_Json R) sets = Inr t"
    unfolding encodes_def by blast
  then show ?case by simp
qed simp

lemma encodes_nodes:
  assumes "encodes R" "fsc_Name (p_cluster p) \<noteq> []" "fsc_Namespace (p_cluster p) \<noteq> []" "\<forall>n \<in> set nodes. node_Name n \<noteq> []"
  shows "\<exists>r. render_nodes R p opts nodes restarts desired = Inr r"
  using assms(4)
proof (induction nodes arbitrary: restarts desired)
  case (Cons n nodes)
  then obtain r where r: "RestartRevision (e_Yaml R) (p_cluster p) n opts = Inr r"
    using encodes_config(2) [OF assms(1-3), of n opts] by auto
  from assms(1) obtain j where "e_Json R x = Inr (j x)" for x unfolding encodes_def by metis
  then obtain s where "desired_set R p n r = Inr s"
    by (cases "gm_get (p_decommission p) (node_Name n)")
      (simp_all add: desired_set_def keptStatefulSet_def stampTemplateRevision_def TemplateRevision_def)
  with r Cons show ?case by simp
qed simp

lemma render_succeeds:
  assumes "encodes R" "fsc_Name (p_cluster p) \<noteq> []" "fsc_Namespace (p_cluster p) \<noteq> []" "\<forall>n \<in> set (p_nodes p). node_Name n \<noteq> []"
    and c: "collectAccessKeys R (p_cluster p) h = (Inr keys, h')"
  shows "\<exists>p'. render R p h = (Inr zero_outcome, p', h')"
proof -
  let ?o = "\<lparr>ro_Keys = keys\<rparr>"
  obtain m where m: "RenderNodeConfigs (e_Yaml R) (p_cluster p) (p_nodes p) ?o = Inr m"
    using encodes_configs [OF assms(1-4), of ?o "[]"] by (auto simp: RenderNodeConfigs_def)
  obtain restarts desired where n: "render_nodes R p ?o (p_nodes p) [] [] = Inr (restarts, desired)"
    using encodes_nodes [OF assms(1-4), of ?o "[]" "[]"] by auto
  obtain t where "PodTemplateRevision (e_Json R) desired = Inr t"
    using encodes_template [OF assms(1), of desired] by (auto simp: PodTemplateRevision_def)
  with c m n show ?thesis unfolding render_def by (simp add: Continue_def)
qed

lemma quiet_render:
  assumes "fsc_Name (p_cluster p) \<noteq> []" and "fsc_Namespace (p_cluster p) \<noteq> []" and "\<forall>n \<in> set (p_nodes p). node_Name n \<noteq> []"
  shows "\<exists>p' h'. render (quiet ss l ns) p h = (Inr zero_outcome, p', h')"
proof -
  have "encodes (quiet ss l ns)" by (simp add: encodes_def Marshal_def)
  from render_succeeds [OF this assms, of h] show ?thesis by (simp add: collectAccessKeys_def) blast
qed

text \<open>Where the collected keys come from.\<close>

lemma collected_answers:
  assumes "collectAccessKeys R cluster h = (Inr keys, h')" "e_ListKeys R h (fsc_Namespace cluster) = Inr items"
  shows "\<exists>answers. list_all2 (secret_answer R cluster) (own_keys cluster items) answers
    \<and> keys = e_SortKeys R (concat (map2 contribution (own_keys cluster items) answers))"
proof -
  from assms obtain ks where ks: "collect_loop R cluster items [] (h @ [CListKeys (fsc_Namespace cluster)]) = (Inr ks, h')"
    "keys = e_SortKeys R ks"
    by (auto simp: collectAccessKeys_def Let_def split: prod.splits sum.splits)
  from collect_loop_spec [OF ks(1)] ks(2) show ?thesis by auto
qed

section \<open>Properties\<close>

text \<open>The law of \<open>slices.SortFunc\<close> on the access key: a permutation, in order.\<close>

locale key_sort =
  fixes sort_keys :: "Key list \<Rightarrow> Key list"
  assumes sort_mset: "mset (sort_keys ks) = mset ks"
    and sort_sorted: "sorted (map key_AccessKey (sort_keys ks))"
begin

lemma sort_unique:
  assumes "distinct (map key_AccessKey ks)"
  shows "sort_keys ks = slices_SortFunc key_AccessKey ks"
proof -
  have "slices_SortFunc key_AccessKey (sort_keys ks) = slices_SortFunc key_AccessKey ks"
    using sort_mset [of ks] assms by (metis sort_key_unique)
  moreover have "slices_SortFunc key_AccessKey (sort_keys ks) = sort_keys ks"
    using sort_sorted by (rule sort_key_id_if_sorted)
  ultimately show ?thesis by simp
qed

end

interpretation stable_sort: key_sort "slices_SortFunc key_AccessKey"
  by unfold_locales simp_all

text \<open>
  C19. The credentials rendered into every node are exactly those of the cluster's own access
  keys that are not being deleted, each as its Secret says: a key whose Secret is missing,
  has no access key or a secret half shorter than sixteen bytes is left out and stops nothing.
  Every rendered credential therefore has an access key and a secret half of at least sixteen
  bytes. They are in order of their access keys, and when those are distinct the list depends
  on nothing else, so the order in which the API server lists the keys never changes a
  configuration revision.
\<close>

theorem collected_keys:
  assumes "key_sort (e_SortKeys R)" and "e_ListKeys R h (fsc_Namespace cluster) = Inr items"
    and "collectAccessKeys R cluster h = (Inr keys, h')"
  shows "\<exists>answers. list_all2 (secret_answer R cluster) (own_keys cluster items) answers
      \<and> mset keys = mset (concat (map2 contribution (own_keys cluster items) answers))
      \<and> sorted (map key_AccessKey keys)
      \<and> (\<forall>k \<in> set keys. key_AccessKey k \<noteq> [] \<and> MinSecretKeyLength \<le> length (key_SecretKey k))
      \<and> (\<forall>ks. mset ks = mset keys \<and> distinct (map key_AccessKey ks) \<longrightarrow> e_SortKeys R ks = keys)"
proof -
  from assms(1) have m: "mset (e_SortKeys R ks) = mset ks" and o: "sorted (map key_AccessKey (e_SortKeys R ks))" for ks
    by (auto simp: key_sort_def)
  from collected_answers [OF assms(3,2)] obtain answers ks where
    a: "list_all2 (secret_answer R cluster) (own_keys cluster items) answers"
      "ks = concat (map2 contribution (own_keys cluster items) answers)" and ks: "keys = e_SortKeys R ks" by auto
  have mk: "mset keys = mset ks" using ks m by simp
  have "key_AccessKey k \<noteq> [] \<and> MinSecretKeyLength \<le> length (key_SecretKey k)" if "k \<in> set keys" for k
  proof -
    from that mk have "k \<in> set ks" by (metis set_mset_mset)
    then obtain ak s where "key_of ak s = Some k"
      by (auto simp: a(2) contribution_def split: sum.splits option.splits)
    then show ?thesis by (auto simp: key_of_def Let_def split: if_splits)
  qed
  moreover have "e_SortKeys R ks' = keys" if "mset ks' = mset keys" "distinct (map key_AccessKey ks')" for ks'
  proof -
    have "distinct (map key_AccessKey ks)" using that mk by (metis mset_eq_imp_distinct_iff mset_map)
    then have "keys = slices_SortFunc key_AccessKey ks" unfolding ks by (rule key_sort.sort_unique [OF assms(1)])
    moreover have "e_SortKeys R ks' = slices_SortFunc key_AccessKey ks'"
      using that(2) by (rule key_sort.sort_unique [OF assms(1)])
    ultimately show ?thesis using that mk by (metis sort_key_unique)
  qed
  ultimately show ?thesis using a mk o [of ks] ks by (intro exI [of _ answers]) auto
qed

definition sample_key :: "string \<Rightarrow> FSAccessKey" where
  "sample_key cluster = \<lparr>ak_Name = ''app'', ak_Namespace = ''default'', ak_Generation = 1, ak_DeletionTimestamp = None,
     ak_Finalizers = [], ak_Annotations = [],
     ak_Spec = \<lparr>aks_ClusterRef = cluster, aks_SecretName = [], aks_ExistingSecretRef = None, aks_Grants = []\<rparr>,
     ak_Status = \<lparr>akst_ObservedGeneration = 0, akst_AccessKey = [], akst_Conditions = []\<rparr>\<rparr>"

theorem collected_keys_witness:
  "\<exists>keys h'. collectAccessKeys ((quiet [] (quiet_layout []) [])\<lparr>e_ListKeys := \<lambda>h n. Inr [sample_key ''fs'', sample_key ''other'']\<rparr>)
       (config_cluster [] two_racks) [] = (Inr keys, h') \<and> length keys = 1 \<and> sorted (map key_AccessKey keys)"
proof -
  let ?R = "(quiet [] (quiet_layout []) [])\<lparr>e_ListKeys := \<lambda>h n. Inr [sample_key ''fs'', sample_key ''other'']\<rparr>"
  let ?c = "config_cluster [] two_racks"
  have n: "fsc_Name ?c = ''fs''" by (simp add: config_cluster_def)
  obtain keys h' where c: "collectAccessKeys ?R ?c [] = (Inr keys, h')" and l: "length keys = 1"
    by (simp add: collectAccessKeys_def Let_def n sample_key_def get_secret_def key_of_def gm_str_def quiet_secret_def
        AccessKeyKey_def SecretKeyKey_def ClusterSecretKey_def AdminTokenKey_def MinSecretKeyLength_def)
  have "sorted (map key_AccessKey keys)"
    using collected_keys [OF _ _ c] by (auto simp: stable_sort.key_sort_axioms)
  with c l show ?thesis by blast
qed

text \<open>
  A rendered pass has one desired StatefulSet per node, under the node's name, in node
  order. A node the spec declares gets the one built from the spec; a node being removed keeps
  the specification it is running with, so nothing about where it runs or what it mounts
  changes while its data moves. Rendering only reads.
\<close>

theorem render_desired:
  assumes "render R p h = (Inr out, p', h')" and "\<forall>n s. gm_get (p_decommission p) n = Some s \<longrightarrow> set_Name s = n"
  shows "list_all2 (\<lambda>n s. set_Name s = node_Name n
      \<and> (case gm_get (p_decommission p) (node_Name n) of
           Some live \<Rightarrow> set_Spec s = set_Spec live \<and> set_Labels s = set_Labels live
         | None \<Rightarrow> \<exists>revision. set_Spec s = set_Spec (NewStatefulSet (p_cluster p) n revision)))
      (p_nodes p) (p_sets p')
    \<and> length (p_sets p') = length (p_nodes p) \<and> emits render_call h h'"
proof -
  from assms(1) obtain keys restarts desired where
    n: "render_nodes R p \<lparr>ro_Keys = keys\<rparr> (p_nodes p) [] [] = Inr (restarts, desired)" and d: "p_sets p' = desired"
    by (auto simp: render_def Let_def p_sets_def split: prod.splits sum.splits)
  let ?opts = "\<lparr>ro_Keys = keys\<rparr>"
  from render_nodes_spec [OF n] have
    sets: "list_all2 (\<lambda>n s. \<exists>revision. RestartRevision (e_Yaml R) (p_cluster p) n ?opts = Inr revision
         \<and> desired_set R p n revision = Inr s) (p_nodes p) desired" by simp
  have "set_Name s = node_Name n \<and> (case gm_get (p_decommission p) (node_Name n) of
           Some live \<Rightarrow> set_Spec s = set_Spec live \<and> set_Labels s = set_Labels live
         | None \<Rightarrow> \<exists>revision. set_Spec s = set_Spec (NewStatefulSet (p_cluster p) n revision))"
    if "desired_set R p n revision = Inr s" for n s revision
  proof (cases "gm_get (p_decommission p) (node_Name n)")
    case None
    with that have "stampTemplateRevision (e_Json R) (NewStatefulSet (p_cluster p) n revision) = Inr s"
      by (simp add: desired_set_def)
    from stamp_frame [OF this] None show ?thesis by (auto simp: NewStatefulSet_def)
  next
    case (Some live)
    with that have "keptStatefulSet (e_Json R) live = Inr s" by (simp add: desired_set_def)
    from kept_frame [OF this] Some assms(2) show ?thesis by auto
  qed
  then have "list_all2 (\<lambda>n s. set_Name s = node_Name n
      \<and> (case gm_get (p_decommission p) (node_Name n) of
           Some live \<Rightarrow> set_Spec s = set_Spec live \<and> set_Labels s = set_Labels live
         | None \<Rightarrow> \<exists>revision. set_Spec s = set_Spec (NewStatefulSet (p_cluster p) n revision))) (p_nodes p) desired"
    using sets by (auto elim: list_all2_mono)
  with d emits_render [of h R p] assms(1) show ?thesis by (simp add: list_all2_lengthD)
qed

definition leaving_pass :: pass where
  "leaving_pass = \<lparr>p_object = config_cluster [] two_racks, p_cluster = config_cluster [] two_racks,
     p_nodes = [\<lparr>node_Name = ''fs-0'', node_Rack = [], node_Index = 0, node_Zone = [], node_NodeSelector = []\<rparr>,
                \<lparr>node_Name = ''fs-9'', node_Rack = [], node_Index = 0, node_Zone = [], node_NodeSelector = []\<rparr>],
     p_configs = None, p_restarts = [], p_desired = None, p_templateRevision = [], p_live = [], p_health = zero_health,
     p_convergence = zero_convergence,
     p_decommission = [(''fs-9'', (serving_set (config_cluster [] two_racks) (flat_node ''fs'' 1) ''old'')\<lparr>set_Name := ''fs-9''\<rparr>)],
     p_layoutApplied = False, p_update = None, p_conditions = [], p_failure = None\<rparr>"

theorem render_desired_witness:
  "\<exists>p' h'. render (quiet [] (quiet_layout []) []) leaving_pass [] = (Inr zero_outcome, p', h')
     \<and> length (p_sets p') = 2
     \<and> set_Spec (p_sets p' ! 1) = set_Spec (serving_set (config_cluster [] two_racks) (flat_node ''fs'' 1) ''old'')"
proof -
  let ?R = "quiet [] (quiet_layout []) []"
  have n: "length (p_nodes leaving_pass) = 2" "node_Name (p_nodes leaving_pass ! 1) = ''fs-9''"
    "gm_get (p_decommission leaving_pass) ''fs-9''
       = Some ((serving_set (config_cluster [] two_racks) (flat_node ''fs'' 1) ''old'')\<lparr>set_Name := ''fs-9''\<rparr>)"
    by (simp_all add: leaving_pass_def)
  obtain p' h' where r: "render ?R leaving_pass [] = (Inr zero_outcome, p', h')"
    using quiet_render [of leaving_pass "[]" "quiet_layout []" "[]" "[]"]
    by (auto simp: leaving_pass_def config_cluster_def)
  have "\<forall>n s. gm_get (p_decommission leaving_pass) n = Some s \<longrightarrow> set_Name s = n" by (simp add: leaving_pass_def)
  from render_desired [OF r this] n show ?thesis
    using r by (intro exI [of _ p'] exI [of _ h']) (auto simp: list_all2_conv_all_nth dest!: spec [of _ 1])
qed

end
