(* ===== verification/Resource_Steps.thy ===== *)
theory Resource_Steps
  imports Access_Keys
begin

text \<open>
  The steps of \<open>controller.go\<close>, \<open>networkpolicy.go\<close> and \<open>podmonitor.go\<close> that check the spec and write
  the objects around the nodes: validation, secrets, services, node configurations, the
  disruption budget, the network policy and the pod monitor.
\<close>

section \<open>Validation\<close>

definition fmt_spec_valid :: string where "fmt_spec_valid = ''Spec passes cross-field validation''"

definition validate :: "Reconciler \<Rightarrow> pass \<Rightarrow> history \<Rightarrow> step_result" where
  "validate R p h =
     (let spec = fsc_Spec (p_cluster p)
      in case validation_Cluster (fst (e_MapOrder R)) (snd (e_MapOrder R)) spec of
           Some failure \<Rightarrow> refuse (fail_Reason failure) (fail_Message failure) p h
         | None \<Rightarrow>
             (Continue,
              setCondition ConditionSpecValid ConditionTrue ReasonSpecValid (msg fmt_spec_valid) p,
              fold (\<lambda>warning h. event Warning ReasonUnsupportedTopology warning h) (ClusterWarnings spec) h))"

section \<open>Secrets\<close>

definition fmt_get_ref_secret :: string where "fmt_get_ref_secret = ''get secret %q''"
definition fmt_no_secret :: string where "fmt_no_secret = ''Secret %q does not exist''"
definition fmt_no_key :: string where "fmt_no_key = ''Secret %q has no %q''"

text \<open>The builders of generated secrets, reading the random source as they go.\<close>

type_synonym secret_builder = "Reconciler \<Rightarrow> FSCluster \<Rightarrow> history \<Rightarrow> Secret result \<times> history"

definition build_cluster_secret :: secret_builder where
  "build_cluster_secret R c h = (NewClusterSecret (random_bytes R h) c, h @ [CRandom tokenBytes])"

definition build_admin_secret :: secret_builder where
  "build_admin_secret R c h = (NewAdminTokenSecret (random_bytes R h) c, h @ [CRandom tokenBytes])"

definition build_root_secret :: secret_builder where
  "build_root_secret R c h =
     (let h1 = h @ [CRandom accessKeyBytes]
      in (NewRootCredentialsSecret (random_bytes R h) (random_bytes R h1) c,
          case keygen_AccessKey (random_bytes R h) of Inl e \<Rightarrow> h1 | Inr k \<Rightarrow> h1 @ [CRandom tokenBytes]))"

definition generate_secret ::
    "Reconciler \<Rightarrow> FSCluster \<Rightarrow> bool \<times> secret_builder \<Rightarrow> history \<Rightarrow> error option \<times> history" where
  "generate_secret R cluster = (\<lambda>(skip, build) h.
     if skip then (None, h)
     else (case build R cluster h of
             (Inl e, h1) \<Rightarrow> (Some e, h1)
           | (Inr secret, h1) \<Rightarrow> createOnce R cluster (KSecret secret) h1))"

definition generated :: "FSCluster \<Rightarrow> (bool \<times> secret_builder) list" where
  "generated cluster =
     [(spec_ClusterSecretRef (fsc_Spec cluster) \<noteq> None, build_cluster_secret),
      (auth_RootCredentialsSecretRef (spec_Auth (fsc_Spec cluster)) \<noteq> None, build_root_secret),
      (False, build_admin_secret)]"

definition requireSecret :: "Reconciler \<Rightarrow> string \<Rightarrow> string list \<Rightarrow> pass \<Rightarrow> history \<Rightarrow> step_result" where
  "requireSecret R name keys p h = (case get_secret R (fsc_Namespace (p_cluster p)) name h of
      (Inl e, h') \<Rightarrow>
        if isNotFound e then refuse ReasonSecretNotFound (Sprintf fmt_no_secret [AS name]) p h'
        else (Inl (Wrap e fmt_get_ref_secret [name]), p, h')
    | (Inr secret, h') \<Rightarrow>
        (case find (\<lambda>key. length (gm_str (sec_Data secret) key) = 0) keys of
           Some key \<Rightarrow> refuse ReasonSecretInvalid (Sprintf fmt_no_key [AS name, AS key]) p h'
         | None \<Rightarrow> (Continue, p, h')))"

definition required :: "FSCluster \<Rightarrow> (string \<times> string list) list" where
  "required cluster =
     [(ClusterSecretSource cluster, [ClusterSecretKey]),
      (RootCredentialsSource cluster, [AccessKeyKey, SecretKeyKey])]"

fun require_loop :: "Reconciler \<Rightarrow> (string \<times> string list) list \<Rightarrow> pass \<Rightarrow> history \<Rightarrow> step_result" where
  "require_loop R [] p h = (Continue, p, h)"
| "require_loop R ((name, keys) # refs) p h = (case requireSecret R name keys p h of
      (Inl e, p', h') \<Rightarrow> (Inl e, p', h')
    | (Inr out, p', h') \<Rightarrow> if out_Blocked out then (Inr out, p', h') else require_loop R refs p' h')"

definition reconcileSecrets :: "Reconciler \<Rightarrow> pass \<Rightarrow> history \<Rightarrow> step_result" where
  "reconcileSecrets R p h = (case each (generate_secret R (p_cluster p)) (generated (p_cluster p)) h of
      (Some e, h') \<Rightarrow> (Inl e, p, h')
    | (None, h') \<Rightarrow> require_loop R (required (p_cluster p)) p h')"

section \<open>Objects\<close>

text \<open>A step that applies objects one after the other.\<close>

definition apply_all :: "Reconciler \<Rightarrow> object list \<Rightarrow> pass \<Rightarrow> history \<Rightarrow> step_result" where
  "apply_all R objs p h = (case each (apply_object R (p_cluster p)) objs h of
      (Some e, h') \<Rightarrow> (Inl e, p, h')
    | (None, h') \<Rightarrow> (Continue, p, h'))"

definition reconcileServices :: "Reconciler \<Rightarrow> pass \<Rightarrow> history \<Rightarrow> step_result" where
  "reconcileServices R p h =
     apply_all R [KService (NewPeersService (p_cluster p)), KService (NewClientService (p_cluster p))] p h"

definition reconcileNodeConfigs :: "Reconciler \<Rightarrow> pass \<Rightarrow> history \<Rightarrow> step_result" where
  "reconcileNodeConfigs R p h =
     apply_all R (map (\<lambda>node. KSecret (NewNodeConfigSecret (p_cluster p) node (config_of p (node_Name node)))) (p_nodes p)) p h"

definition reconcileBudget :: "Reconciler \<Rightarrow> pass \<Rightarrow> history \<Rightarrow> step_result" where
  "reconcileBudget R p h = apply_all R [KPodDisruptionBudget (NewPodDisruptionBudget (p_cluster p))] p h"

definition delete_object :: "Reconciler \<Rightarrow> object \<Rightarrow> pass \<Rightarrow> history \<Rightarrow> step_result" where
  "delete_object R obj p h = (case deleteIfExists R obj h of
      (Some e, h') \<Rightarrow> (Inl e, p, h')
    | (None, h') \<Rightarrow> (Continue, p, h'))"

definition reconcileNetworkPolicy :: "Reconciler \<Rightarrow> pass \<Rightarrow> history \<Rightarrow> step_result" where
  "reconcileNetworkPolicy R p h =
     (let policy = KNetworkPolicy (NewNetworkPolicy (p_cluster p) (r_OperatorNamespace R))
      in if \<not> spec_NetworkPolicy (fsc_Spec (p_cluster p)) then delete_object R policy p h
         else apply_all R [policy] p h)"

definition eventPodMonitorUnavailable :: string where "eventPodMonitorUnavailable = ''PodMonitorUnavailable''"
definition fmt_no_crds :: string where
  "fmt_no_crds = ''observability.podMonitor is set but the monitoring.coreos.com CRDs are not installed''"

definition podMonitorAvailable :: "Reconciler \<Rightarrow> history \<Rightarrow> bool \<times> history" where
  "podMonitorAvailable R h = (e_RESTMapping R h, h @ [CRESTMapping])"

definition reconcilePodMonitor :: "Reconciler \<Rightarrow> pass \<Rightarrow> history \<Rightarrow> step_result" where
  "reconcilePodMonitor R p h =
     (let wanted = obs_PodMonitor (spec_Observability (fsc_Spec (p_cluster p)))
      in case podMonitorAvailable R h of
           (False, h1) \<Rightarrow>
             (Continue, p,
              if wanted then event Warning eventPodMonitorUnavailable (msg fmt_no_crds) h1 else h1)
         | (True, h1) \<Rightarrow>
             (let monitor = KPodMonitor (NewPodMonitor (p_cluster p))
              in if \<not> wanted then delete_object R monitor p h1 else apply_all R [monitor] p h1))"

end
