(* ===== verification/Convergence.thy ===== *)
theory Convergence
  imports Pass
begin

text \<open>
  \<open>internal/controller/fscluster/convergence.go\<close>: reading the layout and the gossip view from
  the admin API, and deciding whether the cluster has settled. \<open>adminToken\<close> of \<open>reload.go\<close> is here
  because this is the first step that needs it.
\<close>

section \<open>The admin token\<close>

definition fmt_get_token :: string where "fmt_get_token = ''get admin token secret %q''"
definition fmt_no_token :: string where "fmt_no_token = ''admin token secret %q has no %q''"

definition adminToken :: "Reconciler \<Rightarrow> pass \<Rightarrow> history \<Rightarrow> string result \<times> history" where
  "adminToken R p h =
     (let name = AdminTokenSecretName (fsc_Name (p_cluster p))
      in case get_secret R (fsc_Namespace (p_cluster p)) name h of
           (Inl e, h') \<Rightarrow> (Inl (Wrap e fmt_get_token [name]), h')
         | (Inr secret, h') \<Rightarrow>
             (let token = gm_str (sec_Data secret) AdminTokenKey
              in if token = [] then (Inl (NewError fmt_no_token [name, AdminTokenKey]), h')
                 else (Inr token, h')))"

section \<open>Who to ask\<close>

definition servingNodes :: "pass \<Rightarrow> Node list" where
  "servingNodes p = filter (\<lambda>node. case gm_get (p_live p) (node_Name node) of
      None \<Rightarrow> False | Some s \<Rightarrow> nodeServing s) (p_nodes p)"

definition notServingNodes :: "pass \<Rightarrow> Node list" where
  "notServingNodes p = filter (\<lambda>node. case gm_get (p_live p) (node_Name node) of
      None \<Rightarrow> False | Some s \<Rightarrow> \<not> nodeServing s) (p_nodes p)"

definition node_client :: "Reconciler \<Rightarrow> pass \<Rightarrow> Node \<Rightarrow> string \<Rightarrow> Client result" where
  "node_client R p node token =
     adminClient R (AdminURL (fsc_Name (p_cluster p)) (fsc_Namespace (p_cluster p)) (node_Name node)) token"

section \<open>The view of one node\<close>

definition fmt_no_layout_yet :: string where "fmt_no_layout_yet = ''no layout has been applied yet''"
definition fmt_moving :: string where
  "fmt_moving = ''layout version %d is moving data; versions %v are still retained''"
definition fmt_not_up :: string where "fmt_not_up = ''node %q is not up in the cluster's view''"
definition fmt_behind :: string where "fmt_behind = ''node %q is on layout version %d, not %d''"

definition view_nodes :: "GossipNode list \<Rightarrow> (string, GossipNode) gomap" where
  "view_nodes ns = fold (\<lambda>n m. if gn_ID n \<noteq> [] then gm_put (gn_ID n) n m else m) ns []"

definition clusterView :: "Reconciler \<Rightarrow> pass \<Rightarrow> Node \<Rightarrow> string \<Rightarrow> history \<Rightarrow> convergence result \<times> history" where
  "clusterView R p node token h = (case node_client R p node token of
      Inl e \<Rightarrow> (Inl e, h)
    | Inr client \<Rightarrow>
        (case admin_Layout R client h of
           (lres, h1) \<Rightarrow>
             if (case lres of Inl e \<Rightarrow> \<not> errors_Is e ErrNoLayout | Inr l \<Rightarrow> False)
             then (case lres of Inl e \<Rightarrow> (Inl e, h1) | Inr l \<Rightarrow> (Inr zero_convergence, h1))
             else
               (let layout = (case lres of Inl e \<Rightarrow> None | Inr l \<Rightarrow> Some l)
                in case admin_Nodes R client h1 of
                     (Inl e, h2) \<Rightarrow> (Inl e, h2)
                   | (Inr ns, h2) \<Rightarrow>
                       (Inr (zero_convergence\<lparr>cv_known := True, cv_layout := layout, cv_nodes := view_nodes ns\<rparr>), h2))))"

text \<open>The loop of \<open>converged\<close> over the pass's nodes.\<close>

fun converged_nodes :: "convergence \<Rightarrow> Layout \<Rightarrow> Node list \<Rightarrow> bool \<times> message" where
  "converged_nodes view l [] = (True, no_message)"
| "converged_nodes view l (node # nodes) =
     (case gm_get (cv_nodes view) (node_Name node) of
        None \<Rightarrow> (False, Sprintf fmt_not_up [AS (node_Name node)])
      | Some n \<Rightarrow>
          if \<not> gn_Up n then (False, Sprintf fmt_not_up [AS (node_Name node)])
          else if gn_LayoutVersion n < l_Version l
          then (False, Sprintf fmt_behind [AS (node_Name node), AD (uint (gn_LayoutVersion n)), AD (uint (l_Version l))])
          else converged_nodes view l nodes)"

definition converged :: "pass \<Rightarrow> convergence \<Rightarrow> bool \<times> message" where
  "converged p view = (case cv_layout view of
      None \<Rightarrow> (False, msg fmt_no_layout_yet)
    | Some l \<Rightarrow>
        if Transitioning l
        then (False, Sprintf fmt_moving [AD (uint (l_Version l)), AVD (map uint (l_Retained l))])
        else converged_nodes view l (p_nodes p))"

section \<open>The step\<close>

text \<open>The loop of \<open>gatherConvergence\<close>: the first node that answers decides.\<close>

fun gather_loop :: "Reconciler \<Rightarrow> pass \<Rightarrow> string \<Rightarrow> Node list \<Rightarrow> history \<Rightarrow> pass \<times> history" where
  "gather_loop R p token [] h = (p, h)"
| "gather_loop R p token (node # nodes) h = (case clusterView R p node token h of
      (Inl e, h') \<Rightarrow> gather_loop R p token nodes h'
    | (Inr view, h') \<Rightarrow>
        (case converged p view of
           (c, w) \<Rightarrow> (p\<lparr>p_convergence := view\<lparr>cv_converged := c, cv_waiting := w\<rparr>\<rparr>, h')))"

definition gatherConvergence :: "Reconciler \<Rightarrow> pass \<Rightarrow> history \<Rightarrow> step_result" where
  "gatherConvergence R p h =
     (if SingleNode (fsc_Spec (p_cluster p))
      then (Continue, p\<lparr>p_convergence := zero_convergence\<lparr>cv_known := True, cv_converged := True\<rparr>\<rparr>, h)
      else case adminToken R p h of
             (Inl e, h') \<Rightarrow> (Continue, p, h')
           | (Inr token, h') \<Rightarrow>
               (case gather_loop R p token (servingNodes p @ notServingNodes p) h' of
                  (p', h'') \<Rightarrow> (Continue, p', h'')))"

section \<open>Facts\<close>

lemma converged_nodes_iff:
  "fst (converged_nodes view l ns) \<longleftrightarrow>
     (\<forall>node \<in> set ns. \<exists>n. gm_get (cv_nodes view) (node_Name node) = Some n \<and> gn_Up n
        \<and> l_Version l \<le> gn_LayoutVersion n)"
  by (induction ns) (auto simp: not_less split: option.splits)

lemma converged_iff:
  "fst (converged p view) \<longleftrightarrow>
     (\<exists>l. cv_layout view = Some l \<and> l_Retained l = []
        \<and> (\<forall>node \<in> set (p_nodes p). \<exists>n. gm_get (cv_nodes view) (node_Name node) = Some n \<and> gn_Up n
             \<and> l_Version l \<le> gn_LayoutVersion n))"
  by (auto simp: converged_def converged_nodes_iff split: option.splits)

lemma converged_waiting: "converged p view = (False, m) \<Longrightarrow> m \<noteq> no_message"
proof -
  have n: "converged_nodes view l ns = (False, m) \<Longrightarrow> m \<noteq> no_message" for l ns m
    by (induction ns) (auto simp: no_message_def fmt_not_up_def fmt_behind_def split: option.splits if_splits)
  assume "converged p view = (False, m)"
  then show ?thesis
    by (auto simp: converged_def no_message_def fmt_no_layout_yet_def fmt_moving_def
        split: option.splits if_splits dest: n)
qed

text \<open>What the step reads: secrets, layouts and nodes, nothing else.\<close>

fun convergence_call :: "call \<Rightarrow> bool" where
  "convergence_call (CGetSecret ns n) = True"
| "convergence_call (CGetLayout u) = True"
| "convergence_call (CListNodes u) = True"
| "convergence_call c = False"

lemma adminToken_history: "snd (adminToken R p h)
    = h @ [CGetSecret (fsc_Namespace (p_cluster p)) (AdminTokenSecretName (fsc_Name (p_cluster p)))]"
  by (simp add: adminToken_def get_secret_def Let_def split: sum.splits)

lemma emits_adminToken: "P (CGetSecret (fsc_Namespace (p_cluster p)) (AdminTokenSecretName (fsc_Name (p_cluster p))))
    \<Longrightarrow> emits P h (snd (adminToken R p h))"
  by (auto simp: adminToken_def get_secret_def Let_def split: sum.splits)

lemma quiet_token: "adminToken (quiet ss l ns) p h = (Inr ''t'',
    h @ [CGetSecret (fsc_Namespace (p_cluster p)) (AdminTokenSecretName (fsc_Name (p_cluster p)))])"
  by (simp add: adminToken_def get_secret_def quiet_secret_def gm_str_def Let_def AdminTokenKey_def ClusterSecretKey_def)

lemma emits_clusterView: "emits convergence_call h (snd (clusterView R p node token h))"
proof (cases "node_client R p node token")
  case (Inl e)
  then show ?thesis by (simp add: clusterView_def)
next
  case (Inr c)
  have "emits convergence_call h (h @ [CGetLayout (cl_baseURL c)])" by simp
  moreover have "emits convergence_call h (h @ [CGetLayout (cl_baseURL c)] @ [CListNodes (cl_baseURL c)])"
    by (simp add: emits_def)
  ultimately show ?thesis
    by (auto simp: clusterView_def Inr admin_Layout_def admin_Nodes_def Let_def split: sum.splits)
qed

lemma emits_gather_loop: "emits convergence_call h (snd (gather_loop R p token ns h))"
proof (induction ns arbitrary: h)
  case (Cons n ns)
  obtain r h' where e: "clusterView R p n token h = (r, h')" by (cases "clusterView R p n token h")
  have "emits convergence_call h h'" using emits_clusterView [of h R p n token] by (simp add: e)
  then show ?case using Cons by (cases r) (auto simp: e intro: emits_trans split: prod.splits)
qed simp

lemma emits_gatherConvergence: "emits convergence_call h (snd (snd (gatherConvergence R p h)))"
proof -
  obtain r h' where t: "adminToken R p h = (r, h')" by (cases "adminToken R p h")
  have h': "emits convergence_call h h'" using emits_adminToken [of convergence_call p h R] by (simp add: t)
  show ?thesis
  proof (cases r)
    case (Inr token)
    have "emits convergence_call h' (snd (gather_loop R p token (servingNodes p @ notServingNodes p) h'))"
      by (rule emits_gather_loop)
    with h' have "emits convergence_call h (snd (gather_loop R p token (servingNodes p @ notServingNodes p) h'))"
      by (rule emits_trans)
    then show ?thesis by (simp add: gatherConvergence_def t Inr split: prod.splits)
  qed (use h' in \<open>simp add: gatherConvergence_def t\<close>)
qed

text \<open>The pass after the step differs in its convergence only.\<close>

lemma gather_loop_frame: "\<exists>c. fst (gather_loop R p token ns h) = p\<lparr>p_convergence := c\<rparr>"
proof (induction ns arbitrary: h)
  case Nil
  then show ?case by (auto intro: exI [of _ "p_convergence p"])
next
  case (Cons n ns)
  then show ?case by (auto split: prod.splits sum.splits)
qed

lemma gatherConvergence_frame: "\<exists>c. fst (snd (gatherConvergence R p h)) = p\<lparr>p_convergence := c\<rparr>"
proof -
  have "\<exists>c. p = p\<lparr>p_convergence := c\<rparr>" by (auto intro: exI [of _ "p_convergence p"])
  then show ?thesis
    using gather_loop_frame by (fastforce simp: gatherConvergence_def split: prod.splits sum.splits)
qed

text \<open>Where a layout in the view comes from: a node answered with it, and that answer is in the history.\<close>

definition layout_answered :: "Reconciler \<Rightarrow> pass \<Rightarrow> history \<Rightarrow> history \<Rightarrow> Layout \<Rightarrow> bool" where
  "layout_answered R p h0 h l \<longleftrightarrow> (\<exists>since rest node token c. node \<in> set (p_nodes p)
     \<and> node_client R p node token = Inr c
     \<and> client_Layout (e_GetLayout R (h0 @ since) (cl_baseURL c) (cl_token c)) = Inr l
     \<and> h = h0 @ since @ CGetLayout (cl_baseURL c) # rest)"

lemma layout_answered_earlier:
  "layout_answered R p h1 h l \<Longrightarrow> emits P h0 h1 \<Longrightarrow> layout_answered R p h0 h l"
  unfolding layout_answered_def emits_def by (metis append.assoc)

lemma clusterView_layout:
  assumes "clusterView R p node token h = (Inr view, h')" and "cv_layout view = Some l"
    and "node \<in> set (p_nodes p)"
  shows "layout_answered R p h h' l"
proof -
  from assms(1) obtain c where c: "node_client R p node token = Inr c"
    by (auto simp: clusterView_def split: sum.splits)
  with assms(1,2) have "client_Layout (e_GetLayout R (h @ []) (cl_baseURL c) (cl_token c)) = Inr l
      \<and> h' = h @ [] @ CGetLayout (cl_baseURL c) # [CListNodes (cl_baseURL c)]"
    by (auto simp: clusterView_def admin_Layout_def admin_Nodes_def zero_convergence_def Let_def
        split: sum.splits if_splits)
  with c assms(3) show ?thesis unfolding layout_answered_def by blast
qed

lemma gather_loop_layout:
  assumes "gather_loop R p token ns h = (p', h')" and "cv_layout (p_convergence p') = Some l"
    and "cv_layout (p_convergence p) = None" and "set ns \<subseteq> set (p_nodes p)"
  shows "layout_answered R p h h' l"
  using assms
proof (induction ns arbitrary: h)
  case (Cons n ns)
  obtain r h1 where e: "clusterView R p n token h = (r, h1)" by (cases "clusterView R p n token h")
  have h1: "emits convergence_call h h1" using emits_clusterView [of h R p n token] by (simp add: e)
  show ?case
  proof (cases r)
    case (Inl err)
    with Cons e have "layout_answered R p h1 h' l" by simp
    then show ?thesis using h1 by (rule layout_answered_earlier)
  next
    case (Inr view)
    with Cons.prems e have "h1 = h'" "cv_layout view = Some l" by (auto split: prod.splits)
    with e Inr Cons.prems(4) show ?thesis by (auto intro: clusterView_layout)
  qed
qed simp

lemma gatherConvergence_layout:
  assumes "gatherConvergence R p h = (out, p', h')" and "cv_layout (p_convergence p') = Some l"
    and "cv_layout (p_convergence p) = None"
  shows "layout_answered R p h h' l"
proof -
  obtain t h1 where t: "adminToken R p h = (t, h1)" by (cases "adminToken R p h")
  have h1: "emits convergence_call h h1" using emits_adminToken [of convergence_call p h R] by (simp add: t)
  have "set (servingNodes p @ notServingNodes p) \<subseteq> set (p_nodes p)"
    by (auto simp: servingNodes_def notServingNodes_def)
  then have "layout_answered R p h1 h' l"
    if "gather_loop R p token (servingNodes p @ notServingNodes p) h1 = (p', h')" for token
    using that assms(2,3) gather_loop_layout by blast
  then show ?thesis
    using assms t h1 layout_answered_earlier [of R p h1 h' l convergence_call h]
    by (auto simp: gatherConvergence_def zero_convergence_def split: if_splits prod.splits sum.splits)
qed

section \<open>Properties\<close>

text \<open>
  The cluster counts as converged exactly when a layout has been adopted, no older version
  of it is still moving data, and every node of the pass, those being removed included, is
  known to the queried node, up, and on that version or a later one. When it does not, the
  reason given is never empty.
\<close>

theorem converged_characterised:
  "(fst (converged p view) \<longleftrightarrow>
     (\<exists>l. cv_layout view = Some l \<and> l_Retained l = []
        \<and> (\<forall>node \<in> set (p_nodes p). \<exists>n. gm_get (cv_nodes view) (node_Name node) = Some n \<and> gn_Up n
             \<and> l_Version l \<le> gn_LayoutVersion n)))
   \<and> (converged p view = (False, m) \<longrightarrow> m \<noteq> no_message)"
  using converged_iff converged_waiting by blast

definition two_nodes_pass :: "FSCluster \<Rightarrow> pass" where
  "two_nodes_pass c =
     \<lparr>p_object = c, p_cluster = c, p_nodes = [flat_node ''fs'' 0, flat_node ''fs'' 1], p_configs = None,
      p_restarts = [], p_desired = None, p_templateRevision = [], p_live = [], p_health = zero_health,
      p_convergence = zero_convergence, p_decommission = [], p_layoutApplied = False, p_update = None,
      p_conditions = [], p_failure = None\<rparr>"

theorem converged_characterised_witness:
  "\<not> fst (converged (two_nodes_pass (config_cluster [] two_racks)) (zero_convergence\<lparr>cv_known := True, cv_layout :=
       Some \<lparr>l_Version = 2, l_Widths = [3], l_Members = [], l_Retained = [1]\<rparr>\<rparr>))"
  using converged_characterised [of "two_nodes_pass (config_cluster [] two_racks)" "zero_convergence\<lparr>cv_known := True, cv_layout :=
       Some \<lparr>l_Version = 2, l_Widths = [3], l_Members = [], l_Retained = [1]\<rparr>\<rparr>" no_message]
  by simp

end
