(* ===== verification/Rollout.thy ===== *)
theory Rollout
  imports Convergence
begin

text \<open>
  \<open>internal/controller/fscluster/rollout.go\<close>: creating the nodes that do not exist, replacing the
  ones whose pod template changed, one at a time, and holding while the rest of the cluster is
  not ready for it.
\<close>

section \<open>Constants\<close>

definition pollInterval :: Duration where "pollInterval = 15 * 1000000000"

definition eventNodeRolling :: string where "eventNodeRolling = ''NodeRolling''"
definition eventRolloutWait :: string where "eventRolloutWait = ''RolloutWaiting''"
definition eventRolloutStuck :: string where "eventRolloutStuck = ''RolloutStuck''"
definition eventRolloutDone :: string where "eventRolloutDone = ''RolloutComplete''"
definition eventNodesCreating :: string where "eventNodesCreating = ''NodesCreating''"

definition fmt_creating :: string where
  "fmt_creating = ''Creating %d node(s); they join the layout once they are up''"
definition fmt_done :: string where "fmt_done = ''Every node runs the desired configuration''"
definition fmt_replacing_down :: string where "fmt_replacing_down = ''Replacing node %q, which is not serving''"
definition fmt_replacing_downs :: string where "fmt_replacing_downs = ''replacing nodes that are not serving''"
definition fmt_wait_ready :: string where
  "fmt_wait_ready = ''waiting for node(s) %v to become ready before replacing another''"
definition fmt_no_answer :: string where "fmt_no_answer = ''no node answered''"
definition fmt_wait_reconverge :: string where
  "fmt_wait_reconverge = ''waiting for the cluster to reconverge before replacing another node: ''"
definition fmt_replacing :: string where "fmt_replacing = ''Replacing node %q; %d node(s) still to roll after it''"
definition fmt_in_flight :: string where "fmt_in_flight = ''node replacement in flight''"
definition fmt_stuck_condition :: string where "fmt_stuck_condition = ''Rollout has been %s for over %s: %s''"
definition fmt_stuck_event :: string where "fmt_stuck_event = ''Rollout halted for over %s: %s''"
definition fmt_wait_event :: string where "fmt_wait_event = ''Rollout %s: %s''"

section \<open>The order of a rollout\<close>

definition queue_of :: "(string, StatefulSet list) gomap \<Rightarrow> string \<Rightarrow> StatefulSet list" where
  "queue_of queues rack = (case gm_get queues rack of None \<Rightarrow> [] | Some q \<Rightarrow> q)"

text \<open>The first loop: racks in order of appearance, and one queue per rack.\<close>

definition enqueue ::
    "(string, string) gomap \<Rightarrow> StatefulSet \<Rightarrow> string list \<times> (string, StatefulSet list) gomap
     \<Rightarrow> string list \<times> (string, StatefulSet list) gomap" where
  "enqueue rackOf s = (\<lambda>(racks, queues).
     let rack = gm_str rackOf (set_Name s)
     in (if gm_get queues rack = None then racks @ [rack] else racks,
         gm_put rack (queue_of queues rack @ [s]) queues))"

text \<open>One pass over the racks: the head of every queue that is not empty.\<close>

fun roll_round ::
    "string list \<Rightarrow> (string, StatefulSet list) gomap \<times> StatefulSet list
     \<Rightarrow> (string, StatefulSet list) gomap \<times> StatefulSet list" where
  "roll_round [] st = st"
| "roll_round (rack # racks) (queues, ordered) =
     (case queue_of queues rack of
        [] \<Rightarrow> roll_round racks (queues, ordered)
      | s # rest \<Rightarrow> roll_round racks (gm_put rack rest queues, ordered @ [s]))"

text \<open>
  The outer loop, which Go runs until everything is ordered. Every round orders at least one
  more set, so as many rounds as there are sets are enough (\<open>rollOrder_transpose\<close>).
\<close>

fun roll_loop ::
    "nat \<Rightarrow> nat \<Rightarrow> string list \<Rightarrow> (string, StatefulSet list) gomap \<times> StatefulSet list \<Rightarrow> StatefulSet list" where
  "roll_loop 0 n racks st = snd st"
| "roll_loop (Suc fuel) n racks st =
     (if length (snd st) < n then roll_loop fuel n racks (roll_round racks st) else snd st)"

definition rack_map :: "FSClusterSpec \<Rightarrow> Node list \<Rightarrow> (string, string) gomap" where
  "rack_map spec nodes = fold (\<lambda>node m. gm_put (node_Name node) (domainOf spec node) m) nodes []"

definition rollOrder :: "FSClusterSpec \<Rightarrow> StatefulSet list \<Rightarrow> Node list \<Rightarrow> StatefulSet list" where
  "rollOrder spec stale nodes =
     (if length stale < 2 then stale
      else case fold (enqueue (rack_map spec nodes)) stale ([], []) of
             (racks, queues) \<Rightarrow> roll_loop (length stale) (length stale) racks (queues, []))"

section \<open>Holding\<close>

definition matches :: "string \<Rightarrow> UpdateStatus \<Rightarrow> bool" where
  "matches subject update \<longleftrightarrow> us_Node update = subject"

text \<open>
  \<open>started\<close> is read from the clock first and replaced by the published start when the wait goes
  on; \<open>time.Since\<close> reads the clock again.
\<close>

definition hold :: "Reconciler \<Rightarrow> string \<Rightarrow> string \<Rightarrow> message \<Rightarrow> pass \<Rightarrow> history \<Rightarrow> step_result" where
  "hold R phase subject reason p h =
     (case now R h of (t0, h1) \<Rightarrow>
        let started = (case st_Update (fsc_Status (p_object p)) of
              None \<Rightarrow> t0
            | Some u \<Rightarrow> if us_Phase u = phase \<and> matches subject u
                        then (case us_StartedAt u of None \<Rightarrow> t0 | Some t \<Rightarrow> t) else t0);
            p1 = p\<lparr>p_update := Some \<lparr>us_Phase = phase, us_Node = subject, us_StartedAt = Some started\<rparr>\<rparr>
        in case upd_ConvergenceTimeout (spec_UpdatePolicy (fsc_Spec (p_cluster p))) of
             None \<Rightarrow> (RequeueAfter pollInterval reason, p1,
                     event Normal eventRolloutWait (Sprintf fmt_wait_event [AS phase, AM reason]) h1)
           | Some timeout \<Rightarrow>
               (case now R h1 of (t1, h2) \<Rightarrow>
                  if timeout < t1 - started
                  then (RequeueAfter pollInterval reason,
                        setCondition ConditionConverged ConditionFalse ReasonConvergenceTimeout
                          (Sprintf fmt_stuck_condition [AS phase, AD timeout, AM reason]) p1,
                        event Warning eventRolloutStuck (Sprintf fmt_stuck_event [AD timeout, AM reason]) h2)
                  else (RequeueAfter pollInterval reason, p1,
                        event Normal eventRolloutWait (Sprintf fmt_wait_event [AS phase, AM reason]) h2)))"

section \<open>Rolling\<close>

definition downSets :: "StatefulSet list \<Rightarrow> string list \<Rightarrow> StatefulSet list" where
  "downSets stale notReady = filter (\<lambda>s. slices_Contains notReady (set_Name s)) stale"

text \<open>The loop of \<open>classify\<close>: apply what does not exist, keep what is stale.\<close>

fun classify_loop ::
    "Reconciler \<Rightarrow> pass \<Rightarrow> StatefulSet list \<Rightarrow> history \<Rightarrow> int \<Rightarrow> StatefulSet list
     \<Rightarrow> (int \<times> StatefulSet list) result \<times> history" where
  "classify_loop R p [] h created stale = (Inr (created, stale), h)"
| "classify_loop R p (s # ss) h created stale =
     (case gm_get (p_live p) (set_Name s) of
        None \<Rightarrow>
          (case apply_object R (p_cluster p) (KStatefulSet s) h of
             (Some e, h') \<Rightarrow> (Inl e, h')
           | (None, h') \<Rightarrow> classify_loop R p ss h' (created + 1) stale)
      | Some live \<Rightarrow>
          if template_revision live \<noteq> template_revision s
          then classify_loop R p ss h created (stale @ [s])
          else classify_loop R p ss h created stale)"

definition classify :: "Reconciler \<Rightarrow> pass \<Rightarrow> history \<Rightarrow> (int \<times> StatefulSet list) result \<times> history" where
  "classify R p h = (case classify_loop R p (p_sets p) h 0 [] of
      (Inl e, h') \<Rightarrow> (Inl e, h')
    | (Inr (created, stale), h') \<Rightarrow> (Inr (created, rollOrder (fsc_Spec (p_cluster p)) stale (p_nodes p)), h'))"

definition replace_down :: "Reconciler \<Rightarrow> pass \<Rightarrow> StatefulSet \<Rightarrow> history \<Rightarrow> error option \<times> history" where
  "replace_down R p s h = (case apply_object R (p_cluster p) (KStatefulSet s) h of
      (Some e, h') \<Rightarrow> (Some e, h')
    | (None, h') \<Rightarrow> (None, event Normal eventNodeRolling (Sprintf fmt_replacing_down [AS (set_Name s)]) h'))"

definition rolling :: "string \<Rightarrow> Time \<Rightarrow> UpdateStatus" where
  "rolling node t = \<lparr>us_Phase = UpdatePhaseRollingNodes, us_Node = node, us_StartedAt = Some t\<rparr>"

text \<open>The phase and node a hold of the rollout reports.\<close>

definition hold_phase :: "pass \<Rightarrow> string \<times> string" where
  "hold_phase p = (case st_Update (fsc_Status (p_object p)) of
      Some u \<Rightarrow> if us_Phase u = UpdatePhaseRollingNodes then (us_Phase u, us_Node u) else (UpdatePhasePreflight, [])
    | None \<Rightarrow> (UpdatePhasePreflight, []))"

definition roll :: "Reconciler \<Rightarrow> StatefulSet list \<Rightarrow> pass \<Rightarrow> history \<Rightarrow> step_result" where
  "roll R stale p h =
     (case stale of
        [] \<Rightarrow>
          (Continue, p,
           if st_Update (fsc_Status (p_object p)) \<noteq> None then event Normal eventRolloutDone (msg fmt_done) h else h)
      | nxt # rest \<Rightarrow>
          (case hold_phase p of (phase, holdNode) \<Rightarrow>
             let notReady = hl_notReady (p_health p) in
             case downSets stale notReady of
               d # ds \<Rightarrow>
                 (case each (replace_down R p) (d # ds) h of
                    (Some e, h') \<Rightarrow> (Inl e, p, h')
                  | (None, h') \<Rightarrow>
                      (case now R h' of (t, h'') \<Rightarrow>
                         (RequeueAfter pollInterval (msg fmt_replacing_downs),
                          p\<lparr>p_update := Some (rolling (set_Name d) t)\<rparr>, h'')))
             | [] \<Rightarrow>
                 if 0 < length notReady
                 then hold R phase holdNode (Sprintf fmt_wait_ready [AV notReady]) p h
                 else if \<not> cv_known (p_convergence p) \<or> \<not> cv_converged (p_convergence p)
                 then hold R phase holdNode
                        (Sprintf fmt_wait_reconverge
                          [AM (if cv_waiting (p_convergence p) = no_message then msg fmt_no_answer
                               else cv_waiting (p_convergence p))]) p h
                 else
                   (case apply_object R (p_cluster p) (KStatefulSet nxt) h of
                      (Some e, h') \<Rightarrow> (Inl e, p, h')
                    | (None, h') \<Rightarrow>
                        (case now R (event Normal eventNodeRolling
                               (Sprintf fmt_replacing [AS (set_Name nxt), AD (int (length stale) - 1)]) h') of
                           (t, h'') \<Rightarrow>
                             (RequeueAfter pollInterval (msg fmt_in_flight),
                              p\<lparr>p_update := Some (rolling (set_Name nxt) t)\<rparr>, h'')))))"

definition reconcileNodes :: "Reconciler \<Rightarrow> pass \<Rightarrow> history \<Rightarrow> step_result" where
  "reconcileNodes R p h = (case classify R p h of
      (Inl e, h') \<Rightarrow> (Inl e, p, h')
    | (Inr (created, stale), h') \<Rightarrow>
        roll R stale p
          (if 0 < created then event Normal eventNodesCreating (Sprintf fmt_creating [AD created]) h' else h'))"

section \<open>Round robin\<close>

text \<open>
  The reference for the order: one queue per domain, in order of first appearance, read column
  by column.
\<close>

lemma transpose_nonempty: "transpose (filter (\<lambda>xs. xs \<noteq> []) Q) = transpose Q"
  by (induction Q rule: transpose.induct) (simp_all add: transpose_aux_filter_head transpose_aux_filter_tail)

lemma filter_nonempty_tl:
  "filter (\<lambda>xs. xs \<noteq> []) (map tl (filter (\<lambda>xs. xs \<noteq> []) Q)) = filter (\<lambda>xs. xs \<noteq> []) (map tl Q)"
  by (induction Q) auto

lemma heads_take: "map hd (filter (\<lambda>xs. xs \<noteq> []) Q) = concat (map (take 1) Q)"
  by (induction Q) (auto simp: take_Suc)

lemma transpose_step:
  "concat (transpose Q) = concat (map (take 1) Q) @ concat (transpose (map tl Q))"
proof (induction Q)
  case (Cons q Q)
  show ?case
  proof (cases q)
    case Nil
    with Cons show ?thesis by simp
  next
    case (Cons x xs)
    have "transpose (xs # map tl (filter (\<lambda>xs. xs \<noteq> []) Q)) = transpose (xs # map tl Q)"
      by (subst (1 2) transpose_nonempty [symmetric]) (simp only: filter.simps filter_nonempty_tl)
    moreover have "transpose ((x # xs) # Q) = (x # map hd (filter (\<lambda>xs. xs \<noteq> []) Q))
        # transpose (xs # map tl (filter (\<lambda>xs. xs \<noteq> []) Q))"
      by (simp add: transpose_aux_filter_head transpose_aux_filter_tail)
    ultimately have "concat (transpose (q # Q))
        = x # concat (map (take 1) Q) @ concat (transpose (xs # map tl Q))"
      by (simp only: Cons heads_take concat.simps append_Cons)
    then show ?thesis by (simp add: Cons)
  qed
qed simp

definition total :: "'a list list \<Rightarrow> nat" where
  "total Q = sum_list (map length Q)"

lemma total_step: "total Q = length (concat (map (take 1) Q)) + total (map tl Q)"
proof (induction Q)
  case (Cons q Q)
  then show ?case by (cases q) (simp_all add: total_def)
qed (simp add: total_def)

lemma total_zero: "total Q = 0 \<longleftrightarrow> (\<forall>q \<in> set Q. q = [])"
  by (auto simp: total_def)

lemma total_pos_heads: "0 < total Q \<Longrightarrow> concat (map (take 1) Q) \<noteq> []"
proof -
  assume "0 < total Q"
  then obtain q where q: "q \<in> set Q" "q \<noteq> []" using total_zero by (metis less_numeral_extra(3))
  then have "take 1 q \<noteq> []" by simp
  with q show ?thesis by auto
qed

lemma transpose_empty: "total Q = 0 \<Longrightarrow> concat (transpose Q) = []"
  using transpose_nonempty [of Q] by (simp add: total_zero filter_False)

lemma column_mset: "mset (concat (map (take 1) Q)) + mset (concat (map tl Q)) = mset (concat Q)"
proof (induction Q)
  case (Cons q Q)
  then show ?case by (cases q) (simp_all add: ac_simps)
qed simp

lemma transpose_mset: "mset (concat (transpose Q)) = mset (concat Q)"
proof (induction "total Q" arbitrary: Q rule: less_induct)
  case less
  show ?case
  proof (cases "total Q = 0")
    case True
    then have "concat Q = []" by (simp add: total_zero)
    with True show ?thesis by (simp add: transpose_empty)
  next
    case False
    then have "0 < length (concat (map (take 1) Q))"
      using total_pos_heads [of Q] by blast
    then have "total (map tl Q) < total Q" using total_step [of Q] by linarith
    then have "mset (concat (transpose (map tl Q))) = mset (concat (map tl Q))" by (rule less)
    then show ?thesis using transpose_step [of Q] column_mset [of Q] by simp
  qed
qed

text \<open>Reading the columns keeps the order within one queue.\<close>

lemma transpose_filter:
  assumes "\<forall>x \<in> set q. P x" and "\<forall>x \<in> set (concat (A @ B)). \<not> P x"
  shows "filter P (concat (transpose (A @ q # B))) = q"
  using assms
proof (induction "total (A @ q # B)" arbitrary: A q B rule: less_induct)
  case less
  show ?case
  proof (cases "total (A @ q # B) = 0")
    case True
    then have "q = []" by (simp add: total_zero)
    moreover have "filter P (concat (transpose (A @ q # B))) = []" using transpose_empty [OF True] by (simp only: filter.simps)
    ultimately show ?thesis by simp
  next
    case False
    let ?Q = "A @ q # B"
    have "0 < length (concat (map (take 1) ?Q))" using total_pos_heads [of ?Q] False by blast
    then have lt: "total (map tl A @ tl q # map tl B) < total ?Q" using total_step [of ?Q] by simp
    have q': "\<forall>x \<in> set (tl q). P x" using less.prems(1) by (cases q) auto
    have ab: "\<forall>x \<in> set (concat (map tl A @ map tl B)). \<not> P x"
    proof
      fix x assume "x \<in> set (concat (map tl A @ map tl B))"
      then obtain c where "c \<in> set (A @ B)" "x \<in> set (tl c)" by auto
      then have "x \<in> set (concat (A @ B))"
        by (cases "c = []") (auto dest: list.set_sel(2))
      then show "\<not> P x" using less.prems(2) by blast
    qed
    have none: "filter P (concat (map (take 1) C)) = []" if "\<forall>x \<in> set (concat C). \<not> P x" for C
      using that by (auto simp: filter_empty_conv dest: in_set_takeD)
    have "filter P (concat (map (take 1) ?Q)) = take 1 q"
      using none [of A] none [of B] less.prems
      by (auto simp: filter_id_conv dest: in_set_takeD)
    moreover have "filter P (concat (transpose (map tl A @ tl q # map tl B))) = tl q"
      using less.hyps [OF lt q' ab] by simp
    moreover have "filter P (concat (transpose ?Q)) = filter P (concat (map (take 1) ?Q))
        @ filter P (concat (transpose (map tl A @ tl q # map tl B)))"
      using transpose_step [of ?Q] by (simp only: filter_append map_append list.map)
    ultimately show ?thesis by (cases q) simp_all
  qed
qed

section \<open>The order, in terms of the queues\<close>

definition domain_in :: "FSClusterSpec \<Rightarrow> Node list \<Rightarrow> StatefulSet \<Rightarrow> string" where
  "domain_in spec nodes s = gm_str (rack_map spec nodes) (set_Name s)"

text \<open>The domains in order of first appearance.\<close>

definition first_seen :: "('a \<Rightarrow> 'b) \<Rightarrow> 'a list \<Rightarrow> 'b list" where
  "first_seen f xs = fold (\<lambda>x ds. if f x \<in> set ds then ds else ds @ [f x]) xs []"

definition queues_of :: "('a \<Rightarrow> 'b) \<Rightarrow> 'a list \<Rightarrow> 'a list list" where
  "queues_of f xs = map (\<lambda>d. filter (\<lambda>x. f x = d) xs) (first_seen f xs)"

lemma first_seen_snoc:
  "first_seen f (xs @ [x]) = (if f x \<in> set (first_seen f xs) then first_seen f xs else first_seen f xs @ [f x])"
  by (simp add: first_seen_def)

lemma first_seen_props: "distinct (first_seen f xs) \<and> set (first_seen f xs) = f ` set xs"
proof (induction xs rule: rev_induct)
  case Nil
  then show ?case by (simp add: first_seen_def)
next
  case (snoc x xs)
  then show ?case by (auto simp: first_seen_snoc)
qed

lemma enqueue_fold:
  "fst (fold (enqueue rm) ss ([], [])) = first_seen (\<lambda>s. gm_str rm (set_Name s)) ss
   \<and> (\<forall>r. queue_of (snd (fold (enqueue rm) ss ([], []))) r = filter (\<lambda>s. gm_str rm (set_Name s) = r) ss)
   \<and> (\<forall>r. gm_get (snd (fold (enqueue rm) ss ([], []))) r = None \<longleftrightarrow> r \<notin> (\<lambda>s. gm_str rm (set_Name s)) ` set ss)"
proof (induction ss rule: rev_induct)
  case Nil
  then show ?case by (simp add: first_seen_def queue_of_def)
next
  case (snoc s ss)
  let ?f = "\<lambda>s. gm_str rm (set_Name s)"
  obtain racks queues where e: "fold (enqueue rm) ss ([], []) = (racks, queues)"
    by (cases "fold (enqueue rm) ss ([], [])")
  have seen: "gm_get queues r = None \<longleftrightarrow> r \<notin> set (first_seen ?f ss)" for r
    using snoc e first_seen_props [of ?f ss] by simp
  have "fold (enqueue rm) (ss @ [s]) ([], []) = enqueue rm s (racks, queues)" by (simp add: e)
  moreover have "racks = first_seen ?f ss" "\<And>r. queue_of queues r = filter (\<lambda>s. ?f s = r) ss"
    using snoc e by simp_all
  moreover have "enqueue rm s (racks, queues) = (if ?f s \<notin> set (first_seen ?f ss) then racks @ [?f s] else racks,
      gm_put (?f s) (queue_of queues (?f s) @ [s]) queues)"
    by (simp add: enqueue_def Let_def seen)
  ultimately have *: "fold (enqueue rm) (ss @ [s]) ([], [])
      = (first_seen ?f (ss @ [s]), gm_put (?f s) (filter (\<lambda>x. ?f x = ?f s) ss @ [s]) queues)"
    by (simp add: first_seen_snoc)
  have q: "queue_of (gm_put r qs queues) r' = (if r' = r then qs else filter (\<lambda>s. ?f s = r') ss)" for r qs r'
    using snoc e by (simp add: queue_of_def)
  show ?case
    unfolding * using seen first_seen_props [of ?f ss] by (auto simp: q)
qed

lemma roll_round_spec:
  assumes "distinct racks"
  shows "snd (roll_round racks (q, ord)) = ord @ concat (map (take 1) (map (queue_of q) racks))
    \<and> (\<forall>r. queue_of (fst (roll_round racks (q, ord))) r
          = (if r \<in> set racks then tl (queue_of q r) else queue_of q r))"
  using assms
proof (induction racks arbitrary: q ord)
  case (Cons r racks)
  show ?case
  proof (cases "queue_of q r")
    case Nil
    with Cons show ?thesis by auto
  next
    case q: (Cons s rest)
    let ?q = "gm_put r rest q"
    have others: "queue_of ?q r' = (if r' = r then rest else queue_of q r')" for r'
      by (simp add: queue_of_def)
    have same: "map (queue_of ?q) racks = map (queue_of q) racks"
      using Cons.prems by (auto simp: others)
    have IH: "snd (roll_round racks (?q, ord @ [s])) = (ord @ [s]) @ concat (map (take 1) (map (queue_of q) racks))"
      "\<forall>r'. queue_of (fst (roll_round racks (?q, ord @ [s]))) r'
          = (if r' \<in> set racks then tl (queue_of ?q r') else queue_of ?q r')"
      using Cons.IH [of ?q "ord @ [s]"] Cons.prems by (simp_all only: same distinct.simps simp_thms)
    have "snd (roll_round (r # racks) (q, ord)) = ord @ concat (map (take 1) (map (queue_of q) (r # racks)))"
      using IH(1) q by simp
    moreover have "queue_of (fst (roll_round (r # racks) (q, ord))) r'
        = (if r' \<in> set (r # racks) then tl (queue_of q r') else queue_of q r')" for r'
      using IH(2) q Cons.prems by (simp add: others)
    ultimately show ?thesis by blast
  qed
qed simp

lemma roll_loop_spec:
  assumes "distinct racks" and "n = length ord + total (map (queue_of q) racks)"
    and "total (map (queue_of q) racks) \<le> fuel"
  shows "roll_loop fuel n racks (q, ord) = ord @ concat (transpose (map (queue_of q) racks))"
  using assms
proof (induction fuel arbitrary: q ord)
  case 0
  then show ?case by (simp add: transpose_empty del: concat_eq_Nil_conv)
next
  case (Suc fuel)
  let ?Q = "map (queue_of q) racks"
  show ?case
  proof (cases "total ?Q = 0")
    case True
    with Suc.prems(2) show ?thesis using transpose_empty [OF True] by simp
  next
    case False
    obtain q' ord' where r: "roll_round racks (q, ord) = (q', ord')" by (cases "roll_round racks (q, ord)")
    have ord': "ord' = ord @ concat (map (take 1) ?Q)" and Q': "map (queue_of q') racks = map tl ?Q"
      using roll_round_spec [OF Suc.prems(1), of q ord] r by simp_all
    have "0 < length (concat (map (take 1) ?Q))" using total_pos_heads [of ?Q] False by blast
    then have "total (map (queue_of q') racks) \<le> fuel"
      and "n = length ord' + total (map (queue_of q') racks)"
      using total_step [of ?Q] Suc.prems(2,3) unfolding Q' ord' by (linarith, simp del: map_map)
    then have "roll_loop fuel n racks (q', ord') = ord' @ concat (transpose (map tl ?Q))"
      using Suc.IH [OF Suc.prems(1), of ord' q'] Q' by (simp del: map_map)
    moreover have "length ord < n" using False Suc.prems(2) by simp
    ultimately show ?thesis using transpose_step [of ?Q] by (simp add: r ord' del: map_map)
  qed
qed

lemma queues_mset: "mset (concat (map (\<lambda>d. filter (\<lambda>x. f x = d) xs) ds)) = filter_mset (\<lambda>x. f x \<in> set ds) (mset xs)"
  if "distinct ds"
  using that
proof (induction ds)
  case (Cons d ds)
  have "filter_mset (\<lambda>x. f x = d) M + filter_mset (\<lambda>x. f x \<in> set ds) M
      = filter_mset (\<lambda>x. f x = d \<or> f x \<in> set ds) M" for M
    using Cons.prems by (intro multiset_eqI) auto
  with Cons show ?case by simp
qed simp

lemma queues_of_mset: "mset (concat (queues_of f xs)) = mset xs"
proof -
  have "filter_mset (\<lambda>x. f x \<in> set (first_seen f xs)) (mset xs) = mset xs"
    using first_seen_props [of f xs] by (intro filter_mset_cong [of _ _ _ "\<lambda>x. True", simplified]) auto
  then show ?thesis
    using queues_mset [of "first_seen f xs" f xs] first_seen_props [of f xs] by (simp add: queues_of_def)
qed

lemma total_queues: "total (queues_of f xs) = length xs"
  using arg_cong [OF queues_of_mset [of f xs], of size] by (simp add: total_def length_concat)

lemma rollOrder_queues:
  assumes "2 \<le> length stale"
  shows "rollOrder spec stale nodes = concat (transpose (queues_of (domain_in spec nodes) stale))"
proof -
  let ?f = "domain_in spec nodes"
  obtain racks queues where e: "fold (enqueue (rack_map spec nodes)) stale ([], []) = (racks, queues)"
    by (cases "fold (enqueue (rack_map spec nodes)) stale ([], [])")
  have f: "(\<lambda>s. gm_str (rack_map spec nodes) (set_Name s)) = ?f" by (simp add: domain_in_def fun_eq_iff)
  have racks: "racks = first_seen ?f stale" and q: "map (queue_of queues) racks = queues_of ?f stale"
    using enqueue_fold [of "rack_map spec nodes" stale] by (simp_all add: e f queues_of_def domain_in_def)
  then have "roll_loop (length stale) (length stale) racks (queues, [])
      = concat (transpose (map (queue_of queues) racks))"
    using first_seen_props [of ?f stale] total_queues [of ?f stale]
    by (subst roll_loop_spec) simp_all
  with assms e q show ?thesis by (simp add: rollOrder_def)
qed

lemma rollOrder_transpose:
  "rollOrder spec stale nodes = concat (transpose (queues_of (domain_in spec nodes) stale))"
proof (cases "2 \<le> length stale")
  case True
  then show ?thesis by (rule rollOrder_queues)
next
  case False
  then consider "stale = []" | s where "stale = [s]" by (cases stale; cases "tl stale") auto
  then show ?thesis
    by cases (simp_all add: rollOrder_def queues_of_def first_seen_def)
qed

lemma rollOrder_mset: "mset (rollOrder spec stale nodes) = mset stale"
  by (simp add: rollOrder_transpose transpose_mset queues_of_mset)

lemma rollOrder_set: "set (rollOrder spec stale nodes) = set stale"
  using rollOrder_mset mset_eq_setD by blast

lemma columns_keep_order:
  "filter (\<lambda>x. f x = d) (concat (transpose (queues_of f xs))) = filter (\<lambda>x. f x = d) xs"
proof (cases "d \<in> f ` set xs")
  case True
  then obtain as bs where ab: "first_seen f xs = as @ d # bs"
    using first_seen_props [of f xs] by (metis split_list)
  then have "d \<notin> set as \<union> set bs" using first_seen_props [of f xs] by auto
  then show ?thesis
    unfolding queues_of_def ab map_append list.map
    by (intro transpose_filter) auto
next
  case False
  have "set (concat (transpose (queues_of f xs))) = set xs"
    using transpose_mset queues_of_mset mset_eq_setD by metis
  with False have "\<forall>x \<in> set (concat (transpose (queues_of f xs))). f x \<noteq> d" by auto
  moreover have "filter (\<lambda>x. f x = d) xs = []" using False by (auto simp: filter_empty_conv)
  ultimately show ?thesis by (simp add: filter_empty_conv)
qed

section \<open>What a rollout applies\<close>

fun applied_set :: "call \<Rightarrow> string list" where
  "applied_set (CApply own (KStatefulSet s)) = [set_Name s]"
| "applied_set c = []"

definition applied :: "history \<Rightarrow> string list" where
  "applied cs = concat (map applied_set cs)"

lemma applied_simps [simp]:
  "applied [] = []" "applied (c # cs) = applied_set c @ applied cs" "applied (cs @ ds) = applied cs @ applied ds"
  by (simp_all add: applied_def)

text \<open>The calls that replace no pod: everything but applying a StatefulSet.\<close>

definition applies_only :: "(string \<Rightarrow> bool) \<Rightarrow> call \<Rightarrow> bool" where
  "applies_only P c \<longleftrightarrow> (\<forall>n \<in> set (applied_set c). P n)"

lemma applied_emits: "emits (applies_only P) h h' \<Longrightarrow> h' = h @ cs \<Longrightarrow> n \<in> set (applied cs) \<Longrightarrow> P n"
  by (auto simp: emits_def applies_only_def applied_def list_all_iff)

lemma kind_StatefulSet: "kind_of obj = KindStatefulSet \<Longrightarrow> \<exists>s. obj = KStatefulSet s"
  by (cases obj) simp_all

lemma emits_apply_set:
  "emits (applies_only P) h (snd (apply_object R cluster (KStatefulSet s) h))" if "P (set_Name s)"
  using that by (intro emits_apply) (auto simp: applies_only_def dest!: kind_StatefulSet)

lemma emits_hold: "emits P h (snd (snd (hold R phase subject reason p h)))"
  if "P CNow" "\<And>t r m. P (CEvent t r m)"
  using that
  by (auto simp: hold_def now_def event_def Let_def emits_def split: option.splits)

lemma classify_loop_spec:
  assumes "classify_loop R p ss h created stale = (res, h')"
  shows "emits (applies_only (\<lambda>n. gm_get (p_live p) n = None)) h h'
    \<and> (\<forall>c st. res = Inr (c, st) \<longrightarrow> (\<exists>new. st = stale @ new \<and> set new \<subseteq> set ss
         \<and> (\<forall>s \<in> set new. \<exists>l. gm_get (p_live p) (set_Name s) = Some l
              \<and> template_revision l \<noteq> template_revision s)))"
  using assms
proof (induction ss arbitrary: h created stale)
  case (Cons s ss)
  show ?case
  proof (cases "gm_get (p_live p) (set_Name s)")
    case None
    obtain e h1 where a: "apply_object R (p_cluster p) (KStatefulSet s) h = (e, h1)"
      by (cases "apply_object R (p_cluster p) (KStatefulSet s) h")
    have 1: "emits (applies_only (\<lambda>n. gm_get (p_live p) n = None)) h h1"
      using emits_apply_set [of "\<lambda>n. gm_get (p_live p) n = None" s h R "p_cluster p"] None by (simp add: a)
    show ?thesis
    proof (cases e)
      case (Some err)
      with Cons.prems None a 1 show ?thesis by auto
    next
      case e: None
      with Cons.prems None a have rec: "classify_loop R p ss h1 (created + 1) stale = (res, h')" by simp
      from Cons.IH [OF this] 1 show ?thesis by (fastforce intro: emits_trans)
    qed
  next
    case (Some l)
    show ?thesis
    proof (cases "template_revision l \<noteq> template_revision s")
      case True
      with Some Cons.prems have "classify_loop R p ss h created (stale @ [s]) = (res, h')" by simp
      from Cons.IH [OF this] Some True show ?thesis by fastforce
    next
      case False
      with Some Cons.prems have "classify_loop R p ss h created stale = (res, h')" by simp
      from Cons.IH [OF this] show ?thesis by fastforce
    qed
  qed
qed auto

lemma classify_spec:
  assumes "classify R p h = (res, h')"
  shows "emits (applies_only (\<lambda>n. gm_get (p_live p) n = None)) h h'
    \<and> (\<forall>c st. res = Inr (c, st) \<longrightarrow> set st \<subseteq> set (p_sets p)
         \<and> (\<forall>s \<in> set st. \<exists>l. gm_get (p_live p) (set_Name s) = Some l \<and> template_revision l \<noteq> template_revision s))"
proof -
  obtain r h1 where c: "classify_loop R p (p_sets p) h 0 [] = (r, h1)"
    by (cases "classify_loop R p (p_sets p) h 0 []")
  have h1: "h1 = h'" using assms c by (auto simp: classify_def split: sum.splits prod.splits)
  show ?thesis
  proof (cases r)
    case (Inl e)
    with assms c classify_loop_spec [OF c] h1 show ?thesis by (auto simp: classify_def)
  next
    case (Inr cs)
    obtain k st where cs: "cs = (k, st)" by (cases cs)
    with Inr assms c have "res = Inr (k, rollOrder (fsc_Spec (p_cluster p)) st (p_nodes p))"
      by (simp add: classify_def)
    with classify_loop_spec [OF c] h1 Inr cs show ?thesis by (auto simp: rollOrder_set)
  qed
qed

lemma emits_replace_down: "emits (applies_only P) h (snd (replace_down R p s h))" if "P (set_Name s)"
proof -
  obtain e h1 where a: "apply_object R (p_cluster p) (KStatefulSet s) h = (e, h1)"
    by (cases "apply_object R (p_cluster p) (KStatefulSet s) h")
  have "emits (applies_only P) h h1" using emits_apply_set [of P s h R "p_cluster p"] that by (simp add: a)
  then show ?thesis
    by (cases e) (simp_all add: replace_down_def a emits_event_after applies_only_def)
qed

text \<open>The gate of the rollout: nothing that is not serving, a known and converged cluster.\<close>

definition roll_gate :: "pass \<Rightarrow> bool" where
  "roll_gate p \<longleftrightarrow> hl_notReady (p_health p) = [] \<and> cv_known (p_convergence p) \<and> cv_converged (p_convergence p)"

lemma roll_one:
  assumes "apply_object R c (KStatefulSet s) h = (e, h1)"
  shows "\<exists>cs. h1 = h @ cs \<and> length (applied cs) \<le> 1"
proof -
  have "applyConfiguration R (KStatefulSet s) = Inr o' \<Longrightarrow> length (applied_set (CApply (fsc_Name c) o')) \<le> 1" for o'
    by (cases "CApply (fsc_Name c) o'" rule: applied_set.cases) simp_all
  with assms show ?thesis
    by (auto simp: apply_object_def split: option.splits sum.splits)
qed

lemma roll_spec:
  assumes "roll R stale p h = (out, p', h')"
  shows "emits (applies_only (\<lambda>n. n \<in> set (hl_notReady (p_health p)))) h h'
    \<or> (roll_gate p \<and> (\<exists>cs. h' = h @ cs \<and> length (applied cs) \<le> 1))"
proof (cases stale)
  case Nil
  with assms show ?thesis by (auto simp: roll_def applies_only_def split: if_splits)
next
  case (Cons nxt rest)
  let ?nr = "hl_notReady (p_health p)"
  let ?P = "applies_only (\<lambda>n. n \<in> set ?nr)"
  obtain phase hn where ph: "hold_phase p = (phase, hn)" by (cases "hold_phase p")
  have held: "emits ?P h (snd (snd (hold R phase hn m p h)))" for m
    by (rule emits_hold) (simp_all add: applies_only_def)
  show ?thesis
  proof (cases "downSets stale ?nr")
    case d: (Cons d ds)
    obtain e h1 where e: "each (replace_down R p) (d # ds) h = (e, h1)"
      by (cases "each (replace_down R p) (d # ds) h")
    have "set (d # ds) \<subseteq> {s. set_Name s \<in> set ?nr}" by (auto simp: d [symmetric] downSets_def)
    then have "emits ?P h (snd (each (replace_down R p) (d # ds) h))"
      by (intro emits_each emits_replace_down) auto
    then have "emits ?P h h1" by (simp only: e snd_conv)
    then show ?thesis
      using assms Cons ph d e
      by (auto simp: roll_def Let_def now_def applies_only_def simp del: each.simps
          intro!: emits_snoc split: option.splits)
  next
    case Nil
    show ?thesis
    proof (cases "roll_gate p")
      case True
      obtain e h1 where a: "apply_object R (p_cluster p) (KStatefulSet nxt) h = (e, h1)"
        by (cases "apply_object R (p_cluster p) (KStatefulSet nxt) h")
      with roll_one [OF a] True assms Cons ph Nil show ?thesis
        by (auto simp: roll_def Let_def roll_gate_def now_def event_def split: option.splits)
    next
      case False
      then have "\<exists>m. roll R stale p h = hold R phase hn m p h"
        using Cons ph Nil by (cases "hl_notReady (p_health p) = []") (auto simp: roll_def Let_def roll_gate_def)
      then obtain m where "roll R stale p h = hold R phase hn m p h" by blast
      with assms held [of m] show ?thesis by simp
    qed
  qed
qed

text \<open>The serving nodes whose StatefulSet a stretch of history replaces.\<close>

definition serving_replaced :: "pass \<Rightarrow> history \<Rightarrow> string list" where
  "serving_replaced p cs = filter (\<lambda>n. gm_get (p_live p) n \<noteq> None \<and> n \<notin> set (hl_notReady (p_health p))) (applied cs)"

lemma serving_replaced_append [simp]:
  "serving_replaced p (as @ bs) = serving_replaced p as @ serving_replaced p bs"
  by (simp add: serving_replaced_def)

lemma serving_replaced_down:
  "emits (applies_only (\<lambda>n. n \<in> set (hl_notReady (p_health p)))) h (h @ cs) \<Longrightarrow> serving_replaced p cs = []"
  by (auto simp: serving_replaced_def filter_empty_conv dest: applied_emits)

lemma serving_replaced_new:
  "emits (applies_only (\<lambda>n. gm_get (p_live p) n = None)) h (h @ cs) \<Longrightarrow> serving_replaced p cs = []"
  by (auto simp: serving_replaced_def filter_empty_conv dest: applied_emits)

lemma reconcileNodes_calls:
  assumes "reconcileNodes R p h = (out, p', h')"
  shows "\<exists>cs. h' = h @ cs \<and> length (serving_replaced p cs) \<le> 1 \<and> (serving_replaced p cs = [] \<or> roll_gate p)"
proof -
  obtain res h1 where c: "classify R p h = (res, h1)" by (cases "classify R p h")
  from classify_spec [OF c] obtain cs1 where h1: "h1 = h @ cs1"
    and e1: "emits (applies_only (\<lambda>n. gm_get (p_live p) n = None)) h (h @ cs1)"
    by (auto simp: emits_def)
  have s1: "serving_replaced p cs1 = []" using e1 by (rule serving_replaced_new)
  show ?thesis
  proof (cases res)
    case (Inl e)
    with assms c h1 s1 show ?thesis by (auto simp: reconcileNodes_def)
  next
    case (Inr cst)
    obtain created stale where cst: "cst = (created, stale)" by (cases cst)
    define ev where "ev = (if 0 < created then [CEvent Normal eventNodesCreating (Sprintf fmt_creating [AD created])] else [])"
    have r: "roll R stale p (h @ cs1 @ ev) = (out, p', h')"
      using assms c Inr cst h1 by (simp add: reconcileNodes_def ev_def event_def split: if_splits)
    have "serving_replaced p ev = []" by (simp add: ev_def serving_replaced_def)
    from roll_spec [OF r] show ?thesis
    proof
      assume "emits (applies_only (\<lambda>n. n \<in> set (hl_notReady (p_health p)))) (h @ cs1 @ ev) h'"
      then obtain cs2 where h2: "h' = (h @ cs1 @ ev) @ cs2"
        and e2: "emits (applies_only (\<lambda>n. n \<in> set (hl_notReady (p_health p)))) (h @ cs1 @ ev) ((h @ cs1 @ ev) @ cs2)"
        by (auto simp: emits_def)
      from e2 have "serving_replaced p cs2 = []" by (rule serving_replaced_down)
      with h2 s1 \<open>serving_replaced p ev = []\<close> show ?thesis
        by (intro exI [of _ "cs1 @ ev @ cs2"]) simp
    next
      assume "roll_gate p \<and> (\<exists>cs. h' = (h @ cs1 @ ev) @ cs \<and> length (applied cs) \<le> 1)"
      then obtain cs2 where g: "roll_gate p" and h2: "h' = (h @ cs1 @ ev) @ cs2" and l: "length (applied cs2) \<le> 1"
        by blast
      have "length (serving_replaced p cs2) \<le> 1"
        using l length_filter_le [of _ "applied cs2"] by (metis (no_types, lifting) serving_replaced_def le_trans)
      with h2 g s1 \<open>serving_replaced p ev = []\<close> show ?thesis
        by (intro exI [of _ "cs1 @ ev @ cs2"]) simp
    qed
  qed
qed

section \<open>Neighbours in the order\<close>













section \<open>Properties\<close>

text \<open>
  C2. In one pass the rollout replaces the pod of at most one serving node, and of none unless
  every declared node is serving and the cluster is known to have converged on its layout: all
  other StatefulSets it writes belong to nodes that do not exist yet or do not serve anyway.
  This holds whatever the API server and the nodes answer, failures included.
\<close>

theorem rollout_one_serving_node:
  assumes "reconcileNodes R p h = (out, p', h')"
  shows "\<exists>cs. h' = h @ cs \<and> length (serving_replaced p cs) \<le> 1
    \<and> (serving_replaced p cs = [] \<or> hl_notReady (p_health p) = [] \<and> cv_known (p_convergence p)
         \<and> cv_converged (p_convergence p))"
  using reconcileNodes_calls [OF assms] by (auto simp: roll_gate_def)

text \<open>The property at work: node 0 is stale, both nodes serve and the cluster has converged.\<close>

definition stale_pass :: pass where
  "stale_pass =
     (let c = config_cluster [] two_racks; n0 = flat_node ''fs'' 0; n1 = flat_node ''fs'' 1
      in (two_nodes_pass c)\<lparr>p_desired := Some [serving_set c n0 ''sts-2'', serving_set c n1 ''sts-1''],
           p_live := sets_by_name [serving_set c n0 ''sts-1'', serving_set c n1 ''sts-1''],
           p_convergence := zero_convergence\<lparr>cv_known := True, cv_converged := True\<rparr>\<rparr>)"

lemma serving_set_simps [simp]:
  "set_Name (serving_set c n r) = node_Name n" "template_revision (serving_set c n r) = r"
  "nodeServing (serving_set c n r)"
  by (simp_all add: serving_set_def NewStatefulSet_def template_revision_def gm_str_def nodeServing_def)

lemma flat_names [simp]: "node_Name (flat_node ''fs'' 0) = ''fs-0''" "node_Name (flat_node ''fs'' 1) = ''fs-1''"
  by code_simp+

lemma sets_by_name_simps [simp]:
  "sets_by_name [] = []" "sets_by_name [s, t] = gm_put (set_Name t) t [(set_Name s, s)]"
  by (simp_all add: sets_by_name_def gm_put_def)

theorem rollout_one_serving_node_witness:
  "serving_replaced stale_pass (snd (snd (reconcileNodes (quiet [] (quiet_layout []) []) stale_pass []))) = [''fs-0'']
   \<and> cv_converged (p_convergence stale_pass)"
proof -
  let ?r = "reconcileNodes (quiet [] (quiet_layout []) []) stale_pass []"
  have s: "serving_replaced stale_pass (snd (snd ?r)) = [''fs-0'']"
    by (simp add: stale_pass_def Let_def two_nodes_pass_def reconcileNodes_def classify_def p_sets_def
        rollOrder_def roll_def hold_phase_def config_cluster_def downSets_def zero_health_def
        apply_object_def applyConfiguration_def quiet_def now_def event_def serving_replaced_def)
  have "?r = (fst ?r, fst (snd ?r), snd (snd ?r))" by simp
  from rollout_one_serving_node [OF this] s show ?thesis by auto
qed

text \<open>The order in general: the domains take turns, and the rest of the longest queue comes last.\<close>

lemma rollOrder_round_robin:
  "mset (rollOrder spec stale nodes) = mset stale
   \<and> (\<forall>d. filter (\<lambda>s. domain_in spec nodes s = d) (rollOrder spec stale nodes)
          = filter (\<lambda>s. domain_in spec nodes s = d) stale)
   \<and> rollOrder spec stale nodes = concat (transpose (queues_of (domain_in spec nodes) stale))"
  using rollOrder_mset columns_keep_order [of "domain_in spec nodes"] by (simp add: rollOrder_transpose)





end
