(* ===== verification/Layout_Step.thy ===== *)
theory Layout_Step
  imports Rollout
begin

text \<open>
  \<open>internal/controller/fscluster/layout.go\<close>: keeping the cluster layout describing the declared
  nodes. The roles are sorted by node name, which is unique, so Go's sort, which is not stable,
  has one result.
\<close>

section \<open>What the spec asks for\<close>

definition desiredRoles :: "pass \<Rightarrow> Role list" where
  "desiredRoles p =
     (let capacity = word_of_int (qValue (sto_Size (spec_Storage (fsc_Spec (p_cluster p)))))
      in slices_SortFunc role_ID
           (map (\<lambda>node. \<lparr>role_ID = node_Name node, role_Zone = node_Zone node, role_Rack = node_Rack node,
                         role_Capacity = capacity\<rparr>)
             (filter (\<lambda>node. gm_get (p_decommission p) (node_Name node) = None) (p_nodes p))))"

definition desiredWidths :: "FSClusterSpec \<Rightarrow> int list" where
  "desiredWidths spec = slices_Compact (slices_Sort (lay_Widths (spec_Layout spec)))"

definition sameLayout :: "Layout \<Rightarrow> Role list \<Rightarrow> int list \<Rightarrow> bool" where
  "sameLayout current roles widths \<longleftrightarrow>
     slices_SortFunc role_ID (l_Members current) = roles \<and> slices_Sort (l_Widths current) = widths"

section \<open>The step\<close>

definition eventLayoutApplied :: string where "eventLayoutApplied = ''LayoutApplied''"
definition fmt_no_admin :: string where
  "fmt_no_admin = ''no node's admin API answered, so the layout cannot be read''"
definition fmt_still_moving :: string where
  "fmt_still_moving = ''layout version %d is still moving data; the next change waits for it''"
definition fmt_wait_created :: string where "fmt_wait_created = ''waiting for every node to be created''"
definition fmt_role_not_up :: string where
  "fmt_role_not_up = ''node %q is not up in the cluster's view; it gets a share of the data once it is''"
definition fmt_refused :: string where "fmt_refused = ''fs refused the layout: %v''"
definition fmt_layout_rejected :: string where "fmt_layout_rejected = ''layout rejected''"
definition fmt_applied :: string where "fmt_applied = ''Applied layout version %d: %d node(s), widths %v''"
definition fmt_just_applied :: string where "fmt_just_applied = ''layout version %d was just applied''"
definition fmt_layout_wait :: string where
  "fmt_layout_wait = ''layout applied; waiting for the cluster to move data''"
definition fmt_no_node :: string where "fmt_no_node = ''no node to apply the layout through''"

definition holdLayout :: "message \<Rightarrow> pass \<Rightarrow> history \<Rightarrow> step_result" where
  "holdLayout reason p h =
     (RequeueAfter pollInterval reason,
      setCondition ConditionClusterSizeAligned ConditionFalse ReasonLayoutPending reason p, h)"

text \<open>The loop of \<open>applyLayout\<close>: the first node that takes the layout, or a refusal, ends it.\<close>

fun apply_loop ::
    "Reconciler \<Rightarrow> pass \<Rightarrow> Role list \<Rightarrow> int list \<Rightarrow> string \<Rightarrow> Node list \<Rightarrow> error option \<Rightarrow> history
     \<Rightarrow> Layout result \<times> history" where
  "apply_loop R p roles widths token [] final h =
     (Inl (Wrap (case final of None \<Rightarrow> NewError fmt_no_node [] | Some e \<Rightarrow> e) fmt_apply_layout []), h)"
| "apply_loop R p roles widths token (node # nodes) final h =
     (case node_client R p node token of
        Inl e \<Rightarrow> (Inl e, h)
      | Inr client \<Rightarrow>
          (case admin_ApplyLayout R client roles widths h of
             (Inl e, h') \<Rightarrow>
               if errors_Is e ErrLayoutRejected then (Inl e, h')
               else apply_loop R p roles widths token nodes (Some e) h'
           | (Inr l, h') \<Rightarrow> (Inr l, h')))"

definition applyLayout ::
    "Reconciler \<Rightarrow> pass \<Rightarrow> Role list \<Rightarrow> int list \<Rightarrow> string \<Rightarrow> history \<Rightarrow> Layout result \<times> history" where
  "applyLayout R p roles widths token h =
     apply_loop R p roles widths token (servingNodes p @ notServingNodes p) None h"

definition reconcileLayout :: "Reconciler \<Rightarrow> pass \<Rightarrow> history \<Rightarrow> step_result" where
  "reconcileLayout R p h =
     (if SingleNode (fsc_Spec (p_cluster p)) then (Continue, p, h)
      else
        let roles = desiredRoles p;
            widths = desiredWidths (fsc_Spec (p_cluster p));
            current = cv_layout (p_convergence p)
        in
        if \<not> cv_known (p_convergence p) then holdLayout (msg fmt_no_admin) p h
        else if (case current of None \<Rightarrow> False | Some l \<Rightarrow> sameLayout l roles widths) then (Continue, p, h)
        else if (case current of None \<Rightarrow> False | Some l \<Rightarrow> Transitioning l)
        then holdLayout (Sprintf fmt_still_moving
               [AD (case current of None \<Rightarrow> 0 | Some l \<Rightarrow> uint (l_Version l))]) p h
        else if length (p_live p) < length (p_nodes p)
        then (RequeueAfter pollInterval (msg fmt_wait_created), p, h)
        else case find (\<lambda>role. \<not> convergence_up (p_convergence p) (role_ID role)) roles of
            Some role \<Rightarrow> holdLayout (Sprintf fmt_role_not_up [AS (role_ID role)]) p h
          | None \<Rightarrow>
              (case adminToken R p h of
                 (Inl e, h1) \<Rightarrow> (Inl e, p, h1)
               | (Inr token, h1) \<Rightarrow>
                   (case applyLayout R p roles widths token h1 of
                      (Inl e, h2) \<Rightarrow>
                        if errors_Is e ErrLayoutRejected
                        then (RequeueAfter pollInterval (msg fmt_layout_rejected),
                              setCondition ConditionClusterSizeAligned ConditionFalse ReasonLayoutRejected
                                (Sprintf fmt_refused [AE e]) p,
                              event Warning ReasonLayoutRejected (Sprintf fmt_refused [AE e]) h2)
                        else (Inl e, p, h2)
                    | (Inr l, h2) \<Rightarrow>
                        (RequeueAfter pollInterval (msg fmt_layout_wait),
                         p\<lparr>p_layoutApplied := True,
                           p_convergence := (p_convergence p)\<lparr>cv_layout := Some l, cv_converged := False,
                             cv_waiting := Sprintf fmt_just_applied [AD (uint (l_Version l))]\<rparr>\<rparr>,
                         event Normal eventLayoutApplied
                           (Sprintf fmt_applied [AD (uint (l_Version l)), AD (int (length roles)), AVD widths])
                           h2))))"

section \<open>Facts\<close>

fun layout_write :: "call \<Rightarrow> (string \<times> adm_ApplyLayoutRequest) list" where
  "layout_write (CApplyLayout u q) = [(u, q)]"
| "layout_write c = []"

definition layout_writes :: "history \<Rightarrow> (string \<times> adm_ApplyLayoutRequest) list" where
  "layout_writes cs = concat (map layout_write cs)"

lemma layout_writes_simps [simp]:
  "layout_writes [] = []" "layout_writes (c # cs) = layout_write c @ layout_writes cs"
  "layout_writes (cs @ ds) = layout_writes cs @ layout_writes ds"
  by (simp_all add: layout_writes_def)

text \<open>The gate of the layout step.\<close>

definition layout_gate :: "pass \<Rightarrow> bool" where
  "layout_gate p \<longleftrightarrow>
     \<not> SingleNode (fsc_Spec (p_cluster p)) \<and> cv_known (p_convergence p)
     \<and> (\<forall>l. cv_layout (p_convergence p) = Some l \<longrightarrow> l_Retained l = []
          \<and> \<not> sameLayout l (desiredRoles p) (desiredWidths (fsc_Spec (p_cluster p))))
     \<and> length (p_nodes p) \<le> length (p_live p)
     \<and> (\<forall>role \<in> set (desiredRoles p). convergence_up (p_convergence p) (role_ID role))"

lemma apply_loop_writes:
  "apply_loop R p roles widths token ns final h = (r, h') \<Longrightarrow>
   \<exists>cs. h' = h @ cs \<and> (\<forall>(u, q) \<in> set (layout_writes cs). q = applyLayoutRequest roles widths)
     \<and> applied cs = []"
proof (induction ns arbitrary: final h)
  case (Cons n ns)
  show ?case
  proof (cases "node_client R p n token")
    case (Inl e)
    with Cons.prems show ?thesis by auto
  next
    case c: (Inr c)
    define h1 where "h1 = h @ [CApplyLayout (cl_baseURL c) (applyLayoutRequest roles widths)]"
    obtain r1 where a: "admin_ApplyLayout R c roles widths h = (r1, h1)"
      by (simp add: admin_ApplyLayout_def Let_def h1_def)
    have one: "\<exists>cs. h1 = h @ cs \<and> (\<forall>(u, q) \<in> set (layout_writes cs). q = applyLayoutRequest roles widths)
        \<and> applied cs = []"
      by (simp add: h1_def)
    show ?thesis
    proof (cases "h1 = h'")
      case True
      with one show ?thesis by simp
    next
      case False
      with Cons.prems c a obtain e where "apply_loop R p roles widths token ns (Some e) h1 = (r, h')"
        by (auto split: sum.splits if_splits)
      from Cons.IH [OF this] obtain cs where "h' = h1 @ cs"
        "\<forall>(u, q) \<in> set (layout_writes cs). q = applyLayoutRequest roles widths" "applied cs = []" by blast
      then show ?thesis
        by (intro exI [of _ "[CApplyLayout (cl_baseURL c) (applyLayoutRequest roles widths)] @ cs"])
          (auto simp: h1_def)
    qed
  qed
qed simp

lemma reconcileLayout_writes:
  assumes "reconcileLayout R p h = (out, p', h')"
  shows "\<exists>cs. h' = h @ cs \<and> applied cs = []
    \<and> (\<forall>(u, q) \<in> set (layout_writes cs). layout_gate p
         \<and> q = applyLayoutRequest (desiredRoles p) (desiredWidths (fsc_Spec (p_cluster p))))"
proof (cases "layout_gate p")
  case False
  have "find (\<lambda>role. \<not> convergence_up (p_convergence p) (role_ID role)) (desiredRoles p) = None \<longleftrightarrow>
      (\<forall>role \<in> set (desiredRoles p). convergence_up (p_convergence p) (role_ID role))"
    by (auto simp: find_None_iff)
  with False assms have "h' = h"
    by (auto simp: reconcileLayout_def layout_gate_def holdLayout_def Let_def not_less
        split: if_splits option.splits)
  then show ?thesis by simp
next
  case True
  let ?roles = "desiredRoles p" and ?widths = "desiredWidths (fsc_Spec (p_cluster p))"
  have f: "find (\<lambda>role. \<not> convergence_up (p_convergence p) (role_ID role)) ?roles = None"
    using True by (auto simp: find_None_iff layout_gate_def)
  obtain t h1 where t: "adminToken R p h = (t, h1)" by (cases "adminToken R p h")
  then obtain cs1 where h1: "h1 = h @ cs1" "applied cs1 = []" "layout_writes cs1 = []"
    using adminToken_history [of R p h] by simp
  show ?thesis
  proof (cases t)
    case (Inl e)
    with True assms f t have "h' = h1"
      by (auto simp: reconcileLayout_def layout_gate_def Let_def split: option.splits)
    with h1 show ?thesis by auto
  next
    case (Inr token)
    obtain r h2 where a: "applyLayout R p ?roles ?widths token h1 = (r, h2)"
      by (cases "applyLayout R p ?roles ?widths token h1")
    from apply_loop_writes [OF a [unfolded applyLayout_def]] obtain cs2 where
      h2: "h2 = h1 @ cs2" "applied cs2 = []" "\<forall>(u, q) \<in> set (layout_writes cs2). q = applyLayoutRequest ?roles ?widths"
      by blast
    have "\<exists>ev. h' = h2 @ ev \<and> applied ev = [] \<and> layout_writes ev = []"
      using True assms f t Inr a
      by (auto simp: reconcileLayout_def layout_gate_def Let_def event_def split: option.splits sum.splits if_splits)
    then obtain ev where "h' = h2 @ ev" "applied ev = []" "layout_writes ev = []" by blast
    with h1 h2 True show ?thesis by (intro exI [of _ "cs1 @ cs2 @ ev"]) auto
  qed
qed

text \<open>The frame of the step: what it leaves of the pass.\<close>

lemma reconcileLayout_applied:
  assumes "reconcileLayout R p h = (out, p', h')" and "\<not> p_layoutApplied p'"
  shows "p_convergence p' = p_convergence p"
  using assms
  by (auto simp: reconcileLayout_def holdLayout_def Let_def setCondition_def
      split: if_splits option.splits prod.splits sum.splits)

lemma reconcileLayout_keeps:
  assumes "reconcileLayout R p h = (out, p', h')" and "p_layoutApplied p"
  shows "p_layoutApplied p'"
  using assms
  by (auto simp: reconcileLayout_def holdLayout_def Let_def setCondition_def
      split: if_splits option.splits prod.splits sum.splits)

lemma reconcileLayout_frame:
  assumes "reconcileLayout R p h = (out, p', h')"
  shows "p_decommission p' = p_decommission p \<and> p_nodes p' = p_nodes p \<and> p_cluster p' = p_cluster p
    \<and> p_object p' = p_object p \<and> p_live p' = p_live p \<and> p_health p' = p_health p \<and> p_desired p' = p_desired p"
  using assms
  by (auto simp: reconcileLayout_def holdLayout_def Let_def setCondition_def
      split: if_splits option.splits prod.splits sum.splits)

section \<open>What the layout asks for\<close>

lemma desiredRoles_ids:
  "set (map role_ID (desiredRoles p))
     = {n \<in> node_Name ` set (p_nodes p). gm_get (p_decommission p) n = None}"
  by (auto simp: desiredRoles_def Let_def image_image)

lemma desiredRoles_sorted:
  "distinct (map node_Name (p_nodes p)) \<Longrightarrow>
   sorted (map role_ID (desiredRoles p)) \<and> distinct (map role_ID (desiredRoles p))"
proof -
  assume "distinct (map node_Name (p_nodes p))"
  then have "distinct (map node_Name (filter Q (p_nodes p)))" for Q by (rule distinct_map_filter)
  moreover have "mset (map role_ID (desiredRoles p))
      = mset (map node_Name (filter (\<lambda>node. gm_get (p_decommission p) (node_Name node) = None) (p_nodes p)))"
    by (simp add: desiredRoles_def Let_def image_mset.compositionality comp_def)
  ultimately have "distinct (map role_ID (desiredRoles p))" using mset_eq_imp_distinct_iff by blast
  then show ?thesis by (simp add: desiredRoles_def Let_def)
qed

lemma desiredWidths_set:
  "sorted (desiredWidths spec) \<and> distinct (desiredWidths spec)
   \<and> set (desiredWidths spec) = set (lay_Widths (spec_Layout spec))"
  using sorted_compact_strict [of "slices_Sort (lay_Widths (spec_Layout spec))"]
  by (simp add: desiredWidths_def)

text \<open>Two role sets that agree on everything but the order sort to the same list.\<close>

lemma sameLayout_iff:
  assumes "distinct (map role_ID (l_Members l))" and "distinct (map role_ID roles)"
    and "sorted (map role_ID roles)" and "sorted widths"
  shows "sameLayout l roles widths \<longleftrightarrow> set (l_Members l) = set roles \<and> mset (l_Widths l) = mset widths"
proof -
  have "slices_SortFunc role_ID (l_Members l) = roles \<longleftrightarrow> set (l_Members l) = set roles"
  proof
    assume "set (l_Members l) = set roles"
    then have "mset (l_Members l) = mset roles"
      using assms(1,2) by (metis distinct_map set_eq_iff_mset_eq_distinct)
    then have "slices_SortFunc role_ID (l_Members l) = slices_SortFunc role_ID roles"
      using assms(1) by (rule sort_key_unique)
    also have "\<dots> = roles" using assms(3) by (rule sort_key_id_if_sorted)
    finally show "slices_SortFunc role_ID (l_Members l) = roles" .
  qed auto
  moreover have "slices_Sort (l_Widths l) = widths \<longleftrightarrow> mset (l_Widths l) = mset widths"
    using assms(4) by (metis mset_sort properties_for_sort sort_key_id_if_sorted)
  ultimately show ?thesis by (simp add: sameLayout_def)
qed

lemma desiredRoles_frame [simp]: "desiredRoles (p\<lparr>p_convergence := c\<rparr>) = desiredRoles p"
  by (simp add: desiredRoles_def)

section \<open>Properties\<close>

text \<open>
  C3. A layout is only ever sent when the current one is known and differs from the one the
  spec asks for, no older version of it is still moving data, every node has been created, and
  every node that gets a share is up in the cluster's own view. What is sent names exactly the
  nodes of the pass that are not being removed, and the widths of the spec, ascending and
  without repetition.
\<close>

theorem layout_gated:
  assumes "reconcileLayout R p h = (out, p', h')"
  shows "\<exists>cs. h' = h @ cs \<and> (\<forall>(u, q) \<in> set (layout_writes cs). layout_gate p
      \<and> q = applyLayoutRequest (desiredRoles p) (desiredWidths (fsc_Spec (p_cluster p))))
    \<and> set (map role_ID (desiredRoles p))
        = {n \<in> node_Name ` set (p_nodes p). gm_get (p_decommission p) n = None}
    \<and> sorted (desiredWidths (fsc_Spec (p_cluster p))) \<and> distinct (desiredWidths (fsc_Spec (p_cluster p)))
    \<and> set (desiredWidths (fsc_Spec (p_cluster p))) = set (lay_Widths (spec_Layout (fsc_Spec (p_cluster p))))"
  using reconcileLayout_writes [OF assms] desiredRoles_ids desiredWidths_set by blast

definition joining_pass :: pass where
  "joining_pass =
     (let c = config_cluster [] two_racks; n0 = flat_node ''fs'' 0; n1 = flat_node ''fs'' 1
      in (two_nodes_pass c)\<lparr>p_live := sets_by_name [serving_set c n0 ''sts-1'', serving_set c n1 ''sts-1''],
           p_convergence := zero_convergence\<lparr>cv_known := True, cv_layout := None,
             cv_nodes := [(''fs-0'', nodeFromAPI (quiet_node ''fs-0'')), (''fs-1'', nodeFromAPI (quiet_node ''fs-1''))]\<rparr>\<rparr>)"

theorem layout_gated_witness:
  "length (layout_writes (snd (snd (reconcileLayout (quiet [] (quiet_layout []) []) joining_pass [])))) = 1
   \<and> layout_gate joining_pass"
proof -
  let ?r = "reconcileLayout (quiet [] (quiet_layout []) []) joining_pass []"
  have single: "\<not> SingleNode (fsc_Spec (config_cluster [] two_racks))" 
    by (simp add: config_cluster_def sample_spec_def two_racks_def SingleNode_def TotalNodes_def)
  have "role_ID role \<in> {''fs-0'', ''fs-1''}" if "role \<in> set (desiredRoles joining_pass)" for role
  proof -
    have "role_ID role \<in> set (map role_ID (desiredRoles joining_pass))" using that by simp
    then show ?thesis unfolding desiredRoles_ids
      by (simp add: joining_pass_def Let_def two_nodes_pass_def)
  qed
  then have up: "find (\<lambda>role. \<not> convergence_up (p_convergence joining_pass) (role_ID role)) (desiredRoles joining_pass) = None"
    by (force simp: find_None_iff joining_pass_def Let_def convergence_up_def nodeFromAPI_def quiet_node_def)
  have serving: "servingNodes joining_pass = [flat_node ''fs'' 0, flat_node ''fs'' 1]"
    by (simp add: servingNodes_def joining_pass_def Let_def two_nodes_pass_def)
  have facts: "cv_known (p_convergence joining_pass)" "cv_layout (p_convergence joining_pass) = None"
    "\<not> length (p_live joining_pass) < length (p_nodes joining_pass)"
    "p_cluster joining_pass = config_cluster [] two_racks"
    by (simp_all add: joining_pass_def Let_def two_nodes_pass_def gm_put_def)
  have token: "adminToken (quiet [] (quiet_layout []) []) joining_pass []
      = (Inr ''t'', [CGetSecret (fsc_Namespace (p_cluster joining_pass))
          (AdminTokenSecretName (fsc_Name (p_cluster joining_pass)))])"
    by (simp only: quiet_token append_Nil)
  have "\<exists>u q l. applyLayout (quiet [] (quiet_layout []) []) joining_pass roles widths ''t'' h
      = (Inr l, h @ [CApplyLayout u q])" for roles widths h
    by (simp add: applyLayout_def serving node_client_def adminClient_def fsclient_New_def admin_ApplyLayout_def
        client_ApplyLayout_def Let_def)
  then obtain u q l' where sent: "applyLayout (quiet [] (quiet_layout []) []) joining_pass (desiredRoles joining_pass)
      (desiredWidths (fsc_Spec (p_cluster joining_pass))) ''t'' [CGetSecret (fsc_Namespace (p_cluster joining_pass))
          (AdminTokenSecretName (fsc_Name (p_cluster joining_pass)))]
      = (Inr l', [CGetSecret (fsc_Namespace (p_cluster joining_pass))
          (AdminTokenSecretName (fsc_Name (p_cluster joining_pass)))] @ [CApplyLayout u q])" by blast
  have l: "length (layout_writes (snd (snd ?r))) = 1"
    using single unfolding reconcileLayout_def Let_def facts(4) [symmetric]
    by (simp add: facts(1-3) up token sent event_def)
  obtain cs where cs: "snd (snd ?r) = [] @ cs" "\<forall>(u, q) \<in> set (layout_writes cs). layout_gate joining_pass
      \<and> q = applyLayoutRequest (desiredRoles joining_pass) (desiredWidths (fsc_Spec (p_cluster joining_pass)))"
    using layout_gated [of "quiet [] (quiet_layout []) []" joining_pass "[]" "fst ?r" "fst (snd ?r)" "snd (snd ?r)"]
    unfolding prod.collapse by metis
  have "layout_writes cs \<noteq> []" using l unfolding cs(1) append_Nil by (cases "layout_writes cs") simp_all
  then obtain u' q' where "(u', q') \<in> set (layout_writes cs)" by (cases "layout_writes cs") auto
  with cs(2) have "layout_gate joining_pass" by blast
  with l show ?thesis by blast
qed

text \<open>
  The layout step is settled once the cluster has adopted what the spec asks for: whatever
  order fs lists the members and widths in, the step then does nothing at all and lets the
  pass go on.
\<close>

theorem layout_settled:
  assumes "distinct (map node_Name (p_nodes p))" and "cv_known (p_convergence p)"
    and "cv_layout (p_convergence p) = Some l" and "distinct (map role_ID (l_Members l))"
    and "set (l_Members l) = set (desiredRoles p)"
    and "mset (l_Widths l) = mset (desiredWidths (fsc_Spec (p_cluster p)))"
  shows "reconcileLayout R p h = (Continue, p, h)"
proof -
  have "sameLayout l (desiredRoles p) (desiredWidths (fsc_Spec (p_cluster p)))"
    using assms desiredRoles_sorted [OF assms(1)] desiredWidths_set [of "fsc_Spec (p_cluster p)"]
    by (subst sameLayout_iff) auto
  with assms(2,3) show ?thesis by (simp add: reconcileLayout_def Let_def)
qed

theorem layout_settled_witness:
  "reconcileLayout (quiet [] (quiet_layout []) [])
     (joining_pass\<lparr>p_convergence := zero_convergence\<lparr>cv_known := True,
        cv_layout := Some \<lparr>l_Version = 1, l_Widths = desiredWidths (fsc_Spec (p_cluster joining_pass)),
          l_Members = rev (desiredRoles joining_pass), l_Retained = [0]\<rparr>\<rparr>\<rparr>) [CNow]
   = (Continue, joining_pass\<lparr>p_convergence := zero_convergence\<lparr>cv_known := True,
        cv_layout := Some \<lparr>l_Version = 1, l_Widths = desiredWidths (fsc_Spec (p_cluster joining_pass)),
          l_Members = rev (desiredRoles joining_pass), l_Retained = [0]\<rparr>\<rparr>\<rparr>, [CNow])"
proof (rule layout_settled)
  show n: "distinct (map node_Name (p_nodes (joining_pass\<lparr>p_convergence := zero_convergence\<lparr>cv_known := True,
        cv_layout := Some \<lparr>l_Version = 1, l_Widths = desiredWidths (fsc_Spec (p_cluster joining_pass)),
          l_Members = rev (desiredRoles joining_pass), l_Retained = [0]\<rparr>\<rparr>\<rparr>)))"
    by (simp add: joining_pass_def Let_def two_nodes_pass_def)
  have "distinct (map node_Name (p_nodes joining_pass))"
    by (simp add: joining_pass_def Let_def two_nodes_pass_def)
  from desiredRoles_sorted [OF this]
  show "distinct (map role_ID (l_Members \<lparr>l_Version = 1, l_Widths = desiredWidths (fsc_Spec (p_cluster joining_pass)),
          l_Members = rev (desiredRoles joining_pass), l_Retained = [0]\<rparr>))"
    by (simp add: rev_map [symmetric])
qed simp_all

end
