(* ===== verification/Decommission.thy ===== *)
theory Decommission
  imports Layout_Step
begin

text \<open>
  \<open>internal/controller/fscluster/decommission.go\<close>: finding the nodes the spec no longer declares,
  keeping them running while their data moves, and deleting them when the cluster no longer needs
  them.
\<close>

section \<open>Planning\<close>

definition eventNodeDraining :: string where "eventNodeDraining = ''NodeDraining''"
definition eventNodeRemoved :: string where "eventNodeRemoved = ''NodeRemoved''"

definition fmt_removing :: string where
  "fmt_removing = ''Removing node(s) %s: leaving the layout, kept running until their data has moved''"
definition fmt_unknown :: string where
  "fmt_unknown = ''no node answered, so whether their data has moved is unknown''"
definition fmt_starts_moving :: string where
  "fmt_starts_moving = ''layout version %d was just applied; their data starts moving now''"
definition fmt_moving_theirs :: string where
  "fmt_moving_theirs = ''layout version %d is moving their data; versions %v are still retained''"
definition fmt_still_member :: string where
  "fmt_still_member = ''node %q is still in layout version %d; it leaves with the next layout change''"
definition fmt_removed :: string where
  "fmt_removed = ''Removed node %q: layout version %d holds its data elsewhere''"
definition fmt_delete_set :: string where "fmt_delete_set = ''delete statefulset %q''"
definition fmt_delete_config :: string where "fmt_delete_config = ''delete config secret %q''"

definition nodeFromSet :: "StatefulSet \<Rightarrow> Node" where
  "nodeFromSet s = \<lparr>node_Name = set_Name s, node_Rack = gm_str (set_Labels s) LabelRack, node_Index = 0,
     node_Zone = [], node_NodeSelector = []\<rparr>"

text \<open>One StatefulSet of the loop of \<open>planDecommission\<close>; \<open>declared\<close> are the names of the topology.\<close>

definition plan_set :: "string list \<Rightarrow> StatefulSet \<Rightarrow> pass \<Rightarrow> pass" where
  "plan_set declared s p =
     (if slices_Contains declared (set_Name s) then p
      else p\<lparr>p_decommission := gm_put (set_Name s) s (p_decommission p),
             p_nodes := p_nodes p @ [nodeFromSet s]\<rparr>)"

definition planDecommission :: "Reconciler \<Rightarrow> pass \<Rightarrow> history \<Rightarrow> step_result" where
  "planDecommission R p h = (case nodeSets R (p_cluster p) h of
      (Inl e, h') \<Rightarrow> (Inl e, p, h')
    | (Inr existing, h') \<Rightarrow>
        (let p' = fold (plan_set (map node_Name (p_nodes p))) existing p
         in (Continue, p',
             if \<not> decommission_active (p_decommission p') then h'
             else case st_Update (fsc_Status (p_object p)) of
                    Some u \<Rightarrow>
                      if us_Phase u \<noteq> UpdatePhaseDraining
                      then event Normal eventNodeDraining
                             (Sprintf fmt_removing [AS (strings_Join (decommission_names (p_decommission p')) '', '')]) h'
                      else h'
                  | None \<Rightarrow>
                      event Normal eventNodeDraining
                        (Sprintf fmt_removing [AS (strings_Join (decommission_names (p_decommission p')) '', '')]) h')))"

section \<open>Removing\<close>

definition removeNode :: "Reconciler \<Rightarrow> pass \<Rightarrow> StatefulSet \<Rightarrow> history \<Rightarrow> error option \<times> history" where
  "removeNode R p s h =
     (case delete_ok R KindStatefulSet (set_Namespace s) (set_Name s) False fmt_delete_set h of
        (Some e, h') \<Rightarrow> (Some e, h')
      | (None, h') \<Rightarrow>
          delete_ok R KindSecret (fsc_Namespace (p_cluster p)) (ConfigSecretName (set_Name s)) False
            fmt_delete_config h')"

definition holdDrain :: "Reconciler \<Rightarrow> string list \<Rightarrow> message \<Rightarrow> pass \<Rightarrow> history \<Rightarrow> step_result" where
  "holdDrain R names reason p h =
     hold R UpdatePhaseDraining (strings_Join names '', '') reason
       (setCondition ConditionClusterSizeAligned ConditionFalse ReasonDraining reason p) h"

text \<open>One node of the last loop of \<open>reconcileDecommission\<close>. Every name is a key of the map.\<close>

definition remove_one :: "Reconciler \<Rightarrow> pass \<Rightarrow> Layout \<Rightarrow> string \<Rightarrow> history \<Rightarrow> error option \<times> history" where
  "remove_one R p l name h = (case gm_get (p_decommission p) name of
      None \<Rightarrow> (None, h)
    | Some s \<Rightarrow> (case removeNode R p s h of
        (Some e, h') \<Rightarrow> (Some e, h')
      | (None, h') \<Rightarrow> (None, event Normal eventNodeRemoved
          (Sprintf fmt_removed [AS name, AD (uint (l_Version l))]) h')))"

definition reconcileDecommission :: "Reconciler \<Rightarrow> pass \<Rightarrow> history \<Rightarrow> step_result" where
  "reconcileDecommission R p h =
     (if \<not> decommission_active (p_decommission p) then (Continue, p, h)
      else
        let names = decommission_names (p_decommission p)
        in case (if cv_known (p_convergence p) then cv_layout (p_convergence p) else None) of
             None \<Rightarrow> holdDrain R names (msg fmt_unknown) p h
           | Some l \<Rightarrow>
               if p_layoutApplied p
               then holdDrain R names (Sprintf fmt_starts_moving [AD (uint (l_Version l))]) p h
               else if Transitioning l
               then holdDrain R names
                      (Sprintf fmt_moving_theirs [AD (uint (l_Version l)), AVD (map uint (l_Retained l))]) p h
               else case find (\<lambda>name. Member l name \<noteq> None) names of
                   Some name \<Rightarrow>
                     holdDrain R names (Sprintf fmt_still_member [AS name, AD (uint (l_Version l))]) p h
                 | None \<Rightarrow>
                     (case each (remove_one R p l) names h of
                        (Some e, h') \<Rightarrow> (Inl e, p, h')
                      | (None, h') \<Rightarrow> (Continue, p, h')))"

section \<open>What is deleted\<close>

fun deleted_set :: "call \<Rightarrow> string list" where
  "deleted_set (CDelete KindStatefulSet ns n False) = [n]"
| "deleted_set c = []"

definition deleted :: "history \<Rightarrow> string list" where
  "deleted cs = concat (map deleted_set cs)"

lemma deleted_simps [simp]:
  "deleted [] = []" "deleted (c # cs) = deleted_set c @ deleted cs" "deleted (cs @ ds) = deleted cs @ deleted ds"
  by (simp_all add: deleted_def)

definition deletes_only :: "(string \<Rightarrow> bool) \<Rightarrow> call \<Rightarrow> bool" where
  "deletes_only P c \<longleftrightarrow> (\<forall>n \<in> set (deleted_set c). P n)"

lemma deleted_emits: "emits (deletes_only P) h (h @ cs) \<Longrightarrow> n \<in> set (deleted cs) \<Longrightarrow> P n"
  by (auto simp: emits_def deletes_only_def deleted_def list_all_iff)

text \<open>The gate: a known layout, read in this pass and settled, that gives the node no share.\<close>

definition drain_gate :: "pass \<Rightarrow> string \<Rightarrow> bool" where
  "drain_gate p name \<longleftrightarrow> gm_get (p_decommission p) name \<noteq> None \<and> cv_known (p_convergence p) \<and> \<not> p_layoutApplied p
     \<and> (\<exists>l. cv_layout (p_convergence p) = Some l \<and> l_Retained l = []
          \<and> (\<forall>n \<in> set (map fst (p_decommission p)). n \<notin> role_ID ` set (l_Members l)))"

lemma emits_remove_one:
  assumes "\<And>s. gm_get (p_decommission p) name = Some s \<Longrightarrow> P (set_Name s)"
  shows "emits (deletes_only P) h (snd (remove_one R p l name h))"
proof (cases "gm_get (p_decommission p) name")
  case None
  then show ?thesis by (simp add: remove_one_def)
next
  case (Some s)
  obtain e1 h1 where 1: "delete_ok R KindStatefulSet (set_Namespace s) (set_Name s) False fmt_delete_set h = (e1, h1)"
    by (cases "delete_ok R KindStatefulSet (set_Namespace s) (set_Name s) False fmt_delete_set h")
  have p1: "emits (deletes_only P) h h1"
    using emits_delete_ok [of "deletes_only P" KindStatefulSet "set_Namespace s" "set_Name s" False h R fmt_delete_set]
      assms [OF Some] by (simp add: 1 deletes_only_def)
  obtain e2 h2 where 2: "delete_ok R KindSecret (fsc_Namespace (p_cluster p)) (ConfigSecretName (set_Name s)) False
      fmt_delete_config h1 = (e2, h2)"
    by (cases "delete_ok R KindSecret (fsc_Namespace (p_cluster p)) (ConfigSecretName (set_Name s)) False fmt_delete_config h1")
  have "emits (deletes_only P) h1 h2"
    using emits_delete_ok [of "deletes_only P" KindSecret "fsc_Namespace (p_cluster p)" "ConfigSecretName (set_Name s)"
        False h1 R fmt_delete_config] by (simp add: 2 deletes_only_def)
  with p1 have p2: "emits (deletes_only P) h h2" by (rule emits_trans)
  show ?thesis
    using p1 p2 by (auto simp: remove_one_def Some removeNode_def 1 2 deletes_only_def intro!: emits_event_after
        split: option.splits)
qed

lemma emits_holdDrain: "emits (deletes_only P) h (snd (snd (holdDrain R names reason p h)))"
  unfolding holdDrain_def by (rule emits_hold) (simp_all add: deletes_only_def)

lemma decommission_names_set [simp]: "set (decommission_names d) = set (map fst d)"
  by (simp add: decommission_names_def)

text \<open>Every set filed under a name has that name; \<open>planDecommission\<close> keeps this.\<close>

definition decommission_ok :: "decommission \<Rightarrow> bool" where
  "decommission_ok d \<longleftrightarrow> (\<forall>n s. gm_get d n = Some s \<longrightarrow> set_Name s = n)"

lemma reconcileDecommission_held:
  assumes "decommission_active (p_decommission p)"
    and "\<nexists>l. cv_known (p_convergence p) \<and> cv_layout (p_convergence p) = Some l \<and> \<not> p_layoutApplied p
      \<and> l_Retained l = [] \<and> find (\<lambda>name. Member l name \<noteq> None) (decommission_names (p_decommission p)) = None"
  shows "\<exists>m. reconcileDecommission R p h = holdDrain R (decommission_names (p_decommission p)) m p h"
proof (cases "if cv_known (p_convergence p) then cv_layout (p_convergence p) else None")
  case None
  with assms(1) show ?thesis by (intro exI [of _ "msg fmt_unknown"]) (simp add: reconcileDecommission_def)
next
  case (Some l)
  let ?names = "decommission_names (p_decommission p)"
  show ?thesis
  proof (cases "p_layoutApplied p \<or> Transitioning l")
    case True
    with assms(1) Some show ?thesis
      by (intro exI [of _ "if p_layoutApplied p then Sprintf fmt_starts_moving [AD (uint (l_Version l))]
          else Sprintf fmt_moving_theirs [AD (uint (l_Version l)), AVD (map uint (l_Retained l))]"])
        (auto simp: reconcileDecommission_def Let_def)
  next
    case False
    with assms(2) Some obtain n where n: "find (\<lambda>name. Member l name \<noteq> None) ?names = Some n"
      by (cases "find (\<lambda>name. Member l name \<noteq> None) ?names") (auto split: if_splits)
    with assms(1) Some False show ?thesis
      by (intro exI [of _ "Sprintf fmt_still_member [AS n, AD (uint (l_Version l))]"])
        (simp add: reconcileDecommission_def del: Member_None)
  qed
qed

lemma reconcileDecommission_deletes:
  assumes "reconcileDecommission R p h = (out, p', h')" and "decommission_ok (p_decommission p)"
  shows "emits (deletes_only (drain_gate p)) h h'"
proof -
  let ?names = "decommission_names (p_decommission p)"
  have held: "emits (deletes_only (drain_gate p)) h (snd (snd (holdDrain R ?names m p h)))" for m
    by (rule emits_holdDrain)
  consider (idle) "\<not> decommission_active (p_decommission p)"
    | (wait) m where "reconcileDecommission R p h = holdDrain R ?names m p h"
    | (go) l where "decommission_active (p_decommission p)" "cv_known (p_convergence p)"
      "cv_layout (p_convergence p) = Some l" "\<not> p_layoutApplied p" "l_Retained l = []"
      "find (\<lambda>name. Member l name \<noteq> None) ?names = None"
    using reconcileDecommission_held [of p R h] by blast
  then show ?thesis
  proof cases
    case idle
    with assms(1) show ?thesis by (simp add: reconcileDecommission_def)
  next
    case wait
    with held [of m] assms(1) show ?thesis by simp
  next
    case (go l)
    then have gone: "\<forall>n \<in> set (map fst (p_decommission p)). n \<notin> role_ID ` set (l_Members l)"
      by (auto simp: find_None_iff)
    have "emits (deletes_only (drain_gate p)) h (snd (each (remove_one R p l) ?names h))"
    proof (rule emits_each, rule emits_remove_one)
      fix n s assume "gm_get (p_decommission p) n = Some s"
      with assms(2) go gone show "drain_gate p (set_Name s)"
        by (auto simp: drain_gate_def decommission_ok_def)
    qed
    with assms(1) go show ?thesis
      by (auto simp: reconcileDecommission_def Let_def split: prod.splits option.splits)
  qed
qed


text \<open>What the plan files: the sets under names the topology does not have.\<close>

definition plan_inv :: "string list \<Rightarrow> decommission \<Rightarrow> bool" where
  "plan_inv declared d \<longleftrightarrow> decommission_ok d \<and> (\<forall>n \<in> set declared. gm_get d n = None)"

lemma plan_inv_fold:
  "plan_inv declared (p_decommission p) \<Longrightarrow> plan_inv declared (p_decommission (fold (plan_set declared) ss p))"
proof (induction ss arbitrary: p)
  case (Cons s ss)
  have "plan_inv declared (p_decommission (plan_set declared s p))"
    using Cons.prems by (auto simp: plan_set_def plan_inv_def decommission_ok_def)
  then show ?case using Cons.IH by simp
qed simp

lemma planDecommission_inv:
  assumes "planDecommission R p h = (out, p', h')" and "p_decommission p = []"
  shows "plan_inv (map node_Name (p_nodes p)) (p_decommission p')"
proof -
  have "plan_inv (map node_Name (p_nodes p)) (p_decommission p)"
    by (simp add: assms(2) plan_inv_def decommission_ok_def)
  then show ?thesis
    using assms(1) plan_inv_fold [of "map node_Name (p_nodes p)" p]
    by (auto simp: planDecommission_def Let_def split: sum.splits prod.splits)
qed

text \<open>The nodes of the plan: those of the topology, then those being removed, under their own names.\<close>

lemma plan_fold_nodes:
  "\<exists>more. p_nodes (fold (plan_set declared) ss p) = p_nodes p @ more
     \<and> p_cluster (fold (plan_set declared) ss p) = p_cluster p
     \<and> p_object (fold (plan_set declared) ss p) = p_object p
     \<and> (\<forall>n \<in> set more. node_Name n \<in> set_Name ` set ss - set declared)"
proof (induction ss arbitrary: p)
  case (Cons s ss)
  from Cons.IH [of "plan_set declared s p"] obtain more where more:
    "p_nodes (fold (plan_set declared) ss (plan_set declared s p)) = p_nodes (plan_set declared s p) @ more"
    "p_cluster (fold (plan_set declared) ss (plan_set declared s p)) = p_cluster (plan_set declared s p)"
    "p_object (fold (plan_set declared) ss (plan_set declared s p)) = p_object (plan_set declared s p)"
    "\<forall>n \<in> set more. node_Name n \<in> set_Name ` set ss - set declared" by blast
  obtain add where add: "p_nodes (plan_set declared s p) = p_nodes p @ add" "p_cluster (plan_set declared s p) = p_cluster p"
    "p_object (plan_set declared s p) = p_object p" "\<forall>n \<in> set add. node_Name n = set_Name s \<and> set_Name s \<notin> set declared"
    by (cases "set_Name s \<in> set declared") (simp_all add: plan_set_def nodeFromSet_def)
  from more add show ?case by (intro exI [of _ "add @ more"]) auto
qed simp

section \<open>Removal once drained\<close>

lemma remove_one_ok:
  assumes "\<And>h k ns n b. e_Delete R h k ns n b = None" and "gm_get (p_decommission p) name = Some s"
    and "decommission_ok (p_decommission p)"
  shows "\<exists>cs. remove_one R p l name h = (None, h @ cs) \<and> deleted cs = [name]"
proof -
  have "set_Name s = name" using assms(2,3) by (auto simp: decommission_ok_def)
  with assms(1,2) show ?thesis
    by (simp add: remove_one_def removeNode_def delete_ok_def delete_def event_def)
qed

lemma each_remove_ok:
  assumes "\<And>h k ns n b. e_Delete R h k ns n b = None" and "decommission_ok (p_decommission p)"
    and "\<And>n. n \<in> set names \<Longrightarrow> gm_get (p_decommission p) n \<noteq> None"
  shows "\<exists>cs. each (remove_one R p l) names h = (None, h @ cs) \<and> deleted cs = names"
  using assms(3)
proof (induction names arbitrary: h)
  case (Cons n names)
  from Cons.prems [of n] obtain s where "gm_get (p_decommission p) n = Some s" by auto
  from remove_one_ok [OF assms(1) this assms(2), of l h] obtain cs where
    1: "remove_one R p l n h = (None, h @ cs)" "deleted cs = [n]" by blast
  have "gm_get (p_decommission p) m \<noteq> None" if "m \<in> set names" for m using Cons.prems that by simp
  from Cons.IH [OF this, of "h @ cs"] obtain ds where
    "each (remove_one R p l) names (h @ cs) = (None, (h @ cs) @ ds)" "deleted ds = names" by blast
  with 1 show ?case by (intro exI [of _ "cs @ ds"]) simp
qed simp

text \<open>A settled layout without the nodes lets them all go.\<close>

lemma drain_completes:
  assumes "decommission_ok (p_decommission p)" "cv_known (p_convergence p)" "\<not> p_layoutApplied p"
    and "cv_layout (p_convergence p) = Some l" "l_Retained l = []"
    and "\<forall>n \<in> set (map fst (p_decommission p)). n \<notin> role_ID ` set (l_Members l)"
    and "\<And>h k ns n b. e_Delete R h k ns n b = None"
  shows "\<exists>cs. reconcileDecommission R p h = (Continue, p, h @ cs)
    \<and> deleted cs = decommission_names (p_decommission p)"
proof (cases "decommission_active (p_decommission p)")
  case False
  then show ?thesis
    by (intro exI [of _ "[]"]) (simp add: reconcileDecommission_def decommission_active_def decommission_names_def)
next
  case True
  have "gm_get (p_decommission p) n \<noteq> None" if "n \<in> set (decommission_names (p_decommission p))" for n
    using that by (simp add: gm_get_None_iff)
  from each_remove_ok [where l = l and h = h, OF assms(7,1) this] obtain cs where
    cs: "each (remove_one R p l) (decommission_names (p_decommission p)) h = (None, h @ cs)"
      "deleted cs = decommission_names (p_decommission p)" by blast
  have "find (\<lambda>name. Member l name \<noteq> None) (decommission_names (p_decommission p)) = None"
    using assms(6) by (auto simp: find_None_iff)
  with True assms cs show ?thesis by (simp add: reconcileDecommission_def Let_def del: Member_None)
qed

section \<open>Properties\<close>

definition removal_world :: Reconciler where
  "removal_world = (let c = config_cluster [] two_racks in
     quiet [serving_set c (flat_node ''fs'' 0) ''sts-1'', serving_set c (flat_node ''fs'' 2) ''sts-1'']
       (quiet_layout [''fs-0'', ''fs-1'']) [])"

definition drained_pass :: pass where
  "drained_pass = (fst (snd (planDecommission removal_world (two_nodes_pass (config_cluster [] two_racks)) [])))
     \<lparr>p_convergence := zero_convergence\<lparr>cv_known := True,
        cv_layout := Some (layoutFromAPI (quiet_layout [''fs-0'', ''fs-1'']))\<rparr>\<rparr>"

lemma flat_name_2 [simp]: "node_Name (flat_node ''fs'' 2) = ''fs-2''"
  by code_simp

lemma drained_pass_removes: "map fst (p_decommission drained_pass) = [''fs-2'']"
  by (simp add: drained_pass_def removal_world_def Let_def planDecommission_def nodeSets_def plan_set_def
      two_nodes_pass_def gm_put_def)

lemma drained_pass_layout:
  "cv_known (p_convergence drained_pass)" "\<not> p_layoutApplied drained_pass"
  "cv_layout (p_convergence drained_pass) = Some (layoutFromAPI (quiet_layout [''fs-0'', ''fs-1'']))"
  by (simp_all add: drained_pass_def removal_world_def Let_def planDecommission_def nodeSets_def plan_set_def
      two_nodes_pass_def)

lemma removal_world_deletes: "e_Delete removal_world h k ns n b = None"
  by (simp add: removal_world_def Let_def)

text \<open>
  C1. A node is deleted only once the cluster no longer needs it. Whatever the answers of the
  API server and of fs, a pass that plans the removals and then reaches the removal step
  deletes the StatefulSet of a node (its pod and, unless retained, its volume) only when the
  spec no longer declares the node, the layout is known, no layout was applied in this very
  pass, no older version of the layout is still retained, and neither that node nor any other
  node being removed has a share in the current one.
\<close>

theorem drain_gate_safe:
  assumes "planDecommission R p0 h0 = (out0, p1, h1)" and "p_decommission p0 = []"
    and "p_decommission p = p_decommission p1" and "reconcileDecommission R p h = (out, p', h')"
  shows "\<exists>cs. h' = h @ cs \<and> (\<forall>n \<in> set (deleted cs). n \<notin> node_Name ` set (p_nodes p0)
    \<and> cv_known (p_convergence p) \<and> \<not> p_layoutApplied p
    \<and> (\<exists>l. cv_layout (p_convergence p) = Some l \<and> l_Retained l = []
         \<and> (\<forall>m \<in> insert n (set (map fst (p_decommission p))). m \<notin> role_ID ` set (l_Members l))))"
proof -
  have inv: "plan_inv (map node_Name (p_nodes p0)) (p_decommission p)"
    using planDecommission_inv [OF assms(1,2)] assms(3) by simp
  then have "emits (deletes_only (drain_gate p)) h h'"
    using assms(4) by (auto simp: plan_inv_def intro: reconcileDecommission_deletes)
  then obtain cs where cs: "h' = h @ cs" "\<forall>n \<in> set (deleted cs). drain_gate p n"
    by (metis deleted_emits emits_def)
  have key: "n \<in> set (map fst (p_decommission p))" if "drain_gate p n" for n
    using that by (simp add: drain_gate_def gm_get_None_iff)
  have undeclared: "n \<notin> node_Name ` set (p_nodes p0)" if "drain_gate p n" for n
    using that inv by (auto simp: drain_gate_def plan_inv_def)
  have "n \<notin> node_Name ` set (p_nodes p0) \<and> cv_known (p_convergence p) \<and> \<not> p_layoutApplied p
    \<and> (\<exists>l. cv_layout (p_convergence p) = Some l \<and> l_Retained l = []
         \<and> (\<forall>m \<in> insert n (set (map fst (p_decommission p))). m \<notin> role_ID ` set (l_Members l)))"
    if "drain_gate p n" for n
    using undeclared [OF that] that unfolding insert_absorb [OF key [OF that]] by (simp add: drain_gate_def)
  with cs show ?thesis by blast
qed

theorem drain_gate_safe_witness:
  "\<exists>cs. snd (snd (reconcileDecommission removal_world (drained_pass\<lparr>p_layoutApplied := True\<rparr>) [])) = cs \<and> deleted cs = []"
proof -
  let ?p = "two_nodes_pass (config_cluster [] two_racks)" and ?q = "drained_pass\<lparr>p_layoutApplied := True\<rparr>"
  have "\<exists>cs. snd (snd (reconcileDecommission removal_world ?q [])) = [] @ cs
    \<and> (\<forall>n \<in> set (deleted cs). n \<notin> node_Name ` set (p_nodes ?p) \<and> cv_known (p_convergence ?q) \<and> \<not> p_layoutApplied ?q
      \<and> (\<exists>l. cv_layout (p_convergence ?q) = Some l \<and> l_Retained l = []
         \<and> (\<forall>m \<in> insert n (set (map fst (p_decommission ?q))). m \<notin> role_ID ` set (l_Members l))))"
    by (rule drain_gate_safe [OF triple_parts _ _ triple_parts, where ?p0.0 = ?p and ?h0.0 = "[]"])
      (simp_all add: drained_pass_def, simp add: two_nodes_pass_def)
  then obtain cs where "snd (snd (reconcileDecommission removal_world ?q [])) = cs" "set (deleted cs) = {}" by auto
  then show ?thesis by simp
qed

text \<open>
  And it is deleted then: when the layout is known, settled and gives none of the removed
  nodes a share, and the API server accepts the deletions, the step deletes exactly the nodes
  being removed, in the order of their names, and lets the pass go on.
\<close>

theorem drained_nodes_removed:
  assumes "planDecommission R p0 h0 = (out0, p1, h1)" and "p_decommission p0 = []"
    and "p_decommission p = p_decommission p1"
    and "cv_known (p_convergence p)" and "\<not> p_layoutApplied p" and "cv_layout (p_convergence p) = Some l"
    and "l_Retained l = []" and "\<forall>n \<in> set (map fst (p_decommission p)). n \<notin> role_ID ` set (l_Members l)"
    and "\<And>h k ns n b. e_Delete R h k ns n b = None"
  shows "\<exists>cs. reconcileDecommission R p h = (Continue, p, h @ cs)
    \<and> deleted cs = decommission_names (p_decommission p)"
  by (rule drain_completes [OF _ assms(4-9)])
    (use planDecommission_inv [OF assms(1,2)] assms(3) in \<open>simp add: plan_inv_def\<close>)

theorem drained_nodes_removed_witness:
  "\<exists>cs. reconcileDecommission removal_world drained_pass [] = (Continue, drained_pass, cs) \<and> deleted cs = [''fs-2'']"
proof -
  have "\<exists>cs. reconcileDecommission removal_world drained_pass [] = (Continue, drained_pass, [] @ cs)
      \<and> deleted cs = decommission_names (p_decommission drained_pass)"
  proof (rule drained_nodes_removed [OF triple_parts, where ?p0.0 = "two_nodes_pass (config_cluster [] two_racks)"
        and ?h0.0 = "[]" and R = removal_world and l = "layoutFromAPI (quiet_layout [''fs-0'', ''fs-1''])"])
    show "p_decommission drained_pass = p_decommission (fst (snd (planDecommission removal_world
        (two_nodes_pass (config_cluster [] two_racks)) [])))"
      by (simp add: drained_pass_def)
  qed (simp_all add: drained_pass_layout removal_world_deletes drained_pass_removes two_nodes_pass_def
      layoutFromAPI_def quiet_layout_def roleFromAPI_def del: set_map)
  then show ?thesis by (simp add: decommission_names_def drained_pass_removes)
qed

end
