(* ===== verification/Storage.thy ===== *)
theory Storage
  imports Decommission
begin

text \<open>
  \<open>internal/controller/fscluster/storage.go\<close>: growing the volumes of the nodes. A claim template
  cannot be changed in place, so the step grows the live claim, deletes the StatefulSet while
  keeping its pod, and lets the next pass recreate it; a claim that would shrink is refused.
\<close>

section \<open>Comparing claims\<close>

definition eventStorageExpanding :: string where "eventStorageExpanding = ''StorageExpanding''"

definition fmt_would_shrink :: string where "fmt_would_shrink = ''node %q volume(s) %v would shrink; storage may only grow''"
definition fmt_storage_wait :: string where "fmt_storage_wait = ''waiting for node(s) %v before storage changes''"
definition fmt_storage_reconverge :: string where
  "fmt_storage_reconverge = ''waiting for the cluster to reconverge before storage changes''"
definition fmt_wait_pod :: string where
  "fmt_wait_pod = ''waiting for node(s) %v before replacing node %q's pod''"
definition fmt_replace_pod :: string where "fmt_replace_pod = ''replace pod of node %q''"
definition fmt_replacing_pod :: string where
  "fmt_replacing_pod = ''Replacing node %q's pod so it picks up its new storage''"
definition fmt_pod_in_flight :: string where
  "fmt_pod_in_flight = ''replacing node %q's pod after recreating its StatefulSet''"
definition fmt_get_pvc :: string where "fmt_get_pvc = ''get pvc %q''"
definition fmt_expand_pvc :: string where "fmt_expand_pvc = ''expand pvc %q''"
definition fmt_orphan_delete :: string where "fmt_orphan_delete = ''orphan-delete statefulset %q''"
definition fmt_storage_event :: string where
  "fmt_storage_event = ''Applying storage changes to node %q (recreating its StatefulSet, then its pod)''"
definition fmt_storage_condition :: string where "fmt_storage_condition = ''Applying storage changes to node %q''"
definition fmt_recreating :: string where "fmt_recreating = ''recreating node with new storage''"

text \<open>Reading a quantity of a resource list; an absent one, and any of a nil list, is the zero quantity.\<close>

definition requested :: "PersistentVolumeClaim \<Rightarrow> Quantity" where
  "requested c = (case pvc_Requests c of None \<Rightarrow> 0
     | Some m \<Rightarrow> (case gm_get m ResourceStorage of None \<Rightarrow> 0 | Some q \<Rightarrow> q))"

definition claim_sizes :: "PersistentVolumeClaim list \<Rightarrow> (string, Quantity) gomap" where
  "claim_sizes live = fold (\<lambda>claim m. gm_put (pvc_Name claim) (requested claim) m) live []"

text \<open>One desired claim of the second loop of \<open>diskDiff\<close>.\<close>

definition diff_claim ::
    "(string, Quantity) gomap \<Rightarrow> PersistentVolumeClaim \<Rightarrow> string list \<times> bool \<Rightarrow> string list \<times> bool" where
  "diff_claim sizes claim = (\<lambda>(shrunk, changed).
     case gm_get sizes (pvc_Name claim) of
       None \<Rightarrow> (shrunk, True)
     | Some have \<Rightarrow>
         if qCmp have (requested claim) = 1 then (shrunk @ [pvc_Name claim], changed)
         else if qCmp have (requested claim) = - 1 then (shrunk, True)
         else (shrunk, changed))"

definition diskDiff ::
    "PersistentVolumeClaim list \<Rightarrow> PersistentVolumeClaim list \<Rightarrow> string list \<times> bool" where
  "diskDiff live desired = fold (diff_claim (claim_sizes live)) desired ([], False)"

section \<open>Growing one node\<close>

definition update_pvc :: "Reconciler \<Rightarrow> PersistentVolumeClaim \<Rightarrow> history \<Rightarrow> error option \<times> history" where
  "update_pvc R pvc h = (e_UpdatePVC R h pvc, h @ [CUpdatePVC pvc])"

text \<open>
  One template of the loop of \<open>growClaims\<close>, and the loop. \<open>None\<close> is the panic of writing to the nil
  request list of a claim that was read without one.
\<close>

definition grow_claim ::
    "Reconciler \<Rightarrow> pass \<Rightarrow> Node \<Rightarrow> PersistentVolumeClaim \<Rightarrow> history \<Rightarrow> (error option \<times> history) option" where
  "grow_claim R p node tmpl h =
     (let name = PVCName (pvc_Name tmpl) (node_Name node)
      in case get_pvc R (fsc_Namespace (p_cluster p)) name h of
           (Inl e, h') \<Rightarrow> Some (if isNotFound e then None else Some (Wrap e fmt_get_pvc [name]), h')
         | (Inr pvc, h') \<Rightarrow>
             if 0 \<le> qCmp (requested pvc) (requested tmpl) then Some (None, h')
             else (case pvc_Requests pvc of
                 None \<Rightarrow> None
               | Some m \<Rightarrow>
                   (case update_pvc R (pvc\<lparr>pvc_Requests := Some (gm_put ResourceStorage (requested tmpl) m)\<rparr>) h' of
                      (Some e, h'') \<Rightarrow> Some (Some (Wrap e fmt_expand_pvc [name]), h'')
                    | (None, h'') \<Rightarrow> Some (None, h''))))"

fun grow_loop ::
    "Reconciler \<Rightarrow> pass \<Rightarrow> Node \<Rightarrow> PersistentVolumeClaim list \<Rightarrow> history \<Rightarrow> (error option \<times> history) option" where
  "grow_loop R p node [] h = Some (None, h)"
| "grow_loop R p node (tmpl # tmpls) h = (case grow_claim R p node tmpl h of
      None \<Rightarrow> None
    | Some (Some e, h') \<Rightarrow> Some (Some e, h')
    | Some (None, h') \<Rightarrow> grow_loop R p node tmpls h')"

definition growClaims :: "Reconciler \<Rightarrow> pass \<Rightarrow> Node \<Rightarrow> StatefulSet \<Rightarrow> history \<Rightarrow> (error option \<times> history) option" where
  "growClaims R p node desired h = grow_loop R p node (sts_VolumeClaimTemplates (set_Spec desired)) h"

definition expandNode :: "Reconciler \<Rightarrow> Node \<Rightarrow> StatefulSet \<Rightarrow> pass \<Rightarrow> history \<Rightarrow> step_result option" where
  "expandNode R node desired p h =
     (case growClaims R p node desired h of
        None \<Rightarrow> None
      | Some (Some e, h1) \<Rightarrow> Some (Inl e, p, h1)
      | Some (None, h1) \<Rightarrow>
          (case delete_ok R KindStatefulSet (fsc_Namespace (p_cluster p)) (node_Name node) True
                  fmt_orphan_delete h1 of
             (Some e, h2) \<Rightarrow> Some (Inl e, p, h2)
           | (None, h2) \<Rightarrow>
               Some (RequeueAfter pollInterval (msg fmt_recreating),
                setCondition ConditionClusterSizeAligned ConditionFalse ReasonStorageExpanding
                  (Sprintf fmt_storage_condition [AS (node_Name node)]) p,
                event Normal eventStorageExpanding (Sprintf fmt_storage_event [AS (node_Name node)]) h2)))"

section \<open>Finishing an adoption\<close>

definition adoptedStalePod :: "StatefulSet \<Rightarrow> bool" where
  "adoptedStalePod s \<longleftrightarrow>
     set_Generation s \<le> ss_ObservedGeneration (set_Status s)
     \<and> ss_ReadyReplicas (set_Status s) = 1 \<and> ss_UpdatedReplicas (set_Status s) = 0"

definition otherNodesNotReady :: "pass \<Rightarrow> string \<Rightarrow> string list" where
  "otherNodesNotReady p except = filter (\<lambda>name. name \<noteq> except) (hl_notReady (p_health p))"

text \<open>
  \<open>finishAdoption\<close>: \<open>None\<close> when it did not act. The loop returns at the first node it acts on.
\<close>

definition stale_pod :: "pass \<Rightarrow> Node \<Rightarrow> bool" where
  "stale_pod p node = (case gm_get (p_live p) (node_Name node) of None \<Rightarrow> False | Some live \<Rightarrow> adoptedStalePod live)"

definition finishAdoption :: "Reconciler \<Rightarrow> pass \<Rightarrow> history \<Rightarrow> (Outcome result \<times> history) option" where
  "finishAdoption R p h = (case find (stale_pod p) (p_nodes p) of
      None \<Rightarrow> None
    | Some node \<Rightarrow>
        (let waiting = otherNodesNotReady p (node_Name node)
         in if 0 < length waiting
            then Some (RequeueAfter pollInterval (Sprintf fmt_wait_pod [AV waiting, AS (node_Name node)]), h)
            else (case delete_ok R KindPod (fsc_Namespace (p_cluster p)) (PodName (node_Name node)) False
                         fmt_replace_pod h of
                    (Some e, h') \<Rightarrow> Some (Inl e, h')
                  | (None, h') \<Rightarrow>
                      Some (RequeueAfter pollInterval (Sprintf fmt_pod_in_flight [AS (node_Name node)]),
                            event Normal eventStorageExpanding
                              (Sprintf fmt_replacing_pod [AS (node_Name node)]) h'))))"

section \<open>The step\<close>

text \<open>
  The loop over the nodes: the nodes whose claims changed, each with its desired set, or the
  first node with claims that would shrink. \<open>p.desired[i]\<close> past the end of the slice panics.
\<close>

datatype storage_scan =
    Panics
  | Shrinks Node "string list"
  | Drifted "(Node \<times> StatefulSet) list"

fun storage_loop ::
    "(string, StatefulSet) gomap \<Rightarrow> StatefulSet list \<Rightarrow> Node list \<Rightarrow> nat \<Rightarrow> (Node \<times> StatefulSet) list \<Rightarrow> storage_scan" where
  "storage_loop live desired [] i drifted = Drifted drifted"
| "storage_loop live desired (node # nodes) i drifted = (case gm_get live (node_Name node) of
      None \<Rightarrow> storage_loop live desired nodes (i + 1) drifted
    | Some l \<Rightarrow>
        if length desired \<le> i then Panics
        else (case diskDiff (sts_VolumeClaimTemplates (set_Spec l))
                     (sts_VolumeClaimTemplates (set_Spec (desired ! i))) of
                (shrunk, changed) \<Rightarrow>
                  if 0 < length shrunk then Shrinks node shrunk
                  else storage_loop live desired nodes (i + 1)
                         (if changed then drifted @ [(node, desired ! i)] else drifted)))"

text \<open>\<open>reconcileStorage\<close>: \<open>None\<close> is a panic.\<close>

definition reconcileStorage :: "Reconciler \<Rightarrow> pass \<Rightarrow> history \<Rightarrow> step_result option" where
  "reconcileStorage R p h = (case finishAdoption R p h of
      Some (out, h') \<Rightarrow> Some (out, p, h')
    | None \<Rightarrow>
        (case storage_loop (p_live p) (p_sets p) (p_nodes p) 0 [] of
           Panics \<Rightarrow> None
         | Shrinks node shrunk \<Rightarrow>
             Some (refuse ReasonStorageShrinkForbidden (Sprintf fmt_would_shrink [AS (node_Name node), AV shrunk]) p h)
         | Drifted [] \<Rightarrow> Some (Continue, p, h)
         | Drifted ((node, desired) # rest) \<Rightarrow>
             if 0 < length (hl_notReady (p_health p))
             then Some (RequeueAfter pollInterval (Sprintf fmt_storage_wait [AV (hl_notReady (p_health p))]), p, h)
             else if \<not> cv_known (p_convergence p) \<or> \<not> cv_converged (p_convergence p)
             then Some (RequeueAfter pollInterval (msg fmt_storage_reconverge), p, h)
             else expandNode R node desired p h))"

section \<open>What the comparison says\<close>

text \<open>How a desired claim relates to the live one of its name, if there is one.\<close>

definition claim_shrinks :: "PersistentVolumeClaim list \<Rightarrow> PersistentVolumeClaim \<Rightarrow> bool" where
  "claim_shrinks live c \<longleftrightarrow> (\<exists>old. gm_get (claim_sizes live) (pvc_Name c) = Some old \<and> requested c < old)"

definition claim_grows :: "PersistentVolumeClaim list \<Rightarrow> PersistentVolumeClaim \<Rightarrow> bool" where
  "claim_grows live c \<longleftrightarrow> (\<forall>old. gm_get (claim_sizes live) (pvc_Name c) = Some old \<longrightarrow> old < requested c)"

lemma diff_claim_spec:
  "diff_claim (claim_sizes live) c (shrunk, changed)
     = (shrunk @ (if claim_shrinks live c then [pvc_Name c] else []), changed \<or> claim_grows live c)"
  by (auto simp: diff_claim_def claim_shrinks_def claim_grows_def split: option.splits)

lemma diff_fold_spec:
  "fold (diff_claim (claim_sizes live)) cs (shrunk, changed)
     = (shrunk @ map pvc_Name (filter (claim_shrinks live) cs), changed \<or> list_ex (claim_grows live) cs)"
proof (induction cs arbitrary: shrunk changed)
  case (Cons c cs)
  then show ?case by (simp add: diff_claim_spec)
qed simp

lemma diskDiff_spec:
  "diskDiff live desired = (map pvc_Name (filter (claim_shrinks live) desired), list_ex (claim_grows live) desired)"
  by (simp add: diskDiff_def diff_fold_spec)

text \<open>The claims of a node as it runs and as it should be.\<close>

definition claims_diff :: "(string, StatefulSet) gomap \<Rightarrow> Node \<times> StatefulSet \<Rightarrow> string list \<times> bool" where
  "claims_diff live = (\<lambda>(node, d). case gm_get live (node_Name node) of
      None \<Rightarrow> ([], False)
    | Some l \<Rightarrow> diskDiff (sts_VolumeClaimTemplates (set_Spec l)) (sts_VolumeClaimTemplates (set_Spec d)))"

text \<open>With one desired set per node the loop looks for a shrinking node and collects the others.\<close>

lemma storage_loop_zip:
  assumes "length ds = length nodes"
  shows "storage_loop live (pre @ ds) nodes (length pre) drifted =
    (case find (\<lambda>x. fst (claims_diff live x) \<noteq> []) (zip nodes ds) of
       Some x \<Rightarrow> Shrinks (fst x) (fst (claims_diff live x))
     | None \<Rightarrow> Drifted (drifted @ filter (\<lambda>x. snd (claims_diff live x)) (zip nodes ds)))"
  using assms
proof (induction nodes arbitrary: ds pre drifted)
  case (Cons n nodes)
  then obtain d ds' where ds: "ds = d # ds'" "length ds' = length nodes" by (cases ds) auto
  have at: "(pre @ ds) ! length pre = d" by (simp add: ds)
  have step: "storage_loop live (pre @ ds) nodes (length pre + 1) dr =
    (case find (\<lambda>x. fst (claims_diff live x) \<noteq> []) (zip nodes ds') of
       Some x \<Rightarrow> Shrinks (fst x) (fst (claims_diff live x))
     | None \<Rightarrow> Drifted (dr @ filter (\<lambda>x. snd (claims_diff live x)) (zip nodes ds')))" for dr
    using Cons.IH [OF ds(2), of "pre @ [d]" dr] by (simp add: ds(1))
  show ?case
  proof (cases "gm_get live (node_Name n)")
    case None
    then have "claims_diff live (n, d) = ([], False)" by (simp add: claims_diff_def)
    with step [of drifted] None show ?thesis by (simp add: ds split: option.split)
  next
    case (Some l)
    obtain sh ch where diff: "diskDiff (sts_VolumeClaimTemplates (set_Spec l)) (sts_VolumeClaimTemplates (set_Spec d)) = (sh, ch)"
      by (cases "diskDiff (sts_VolumeClaimTemplates (set_Spec l)) (sts_VolumeClaimTemplates (set_Spec d))")
    then have "claims_diff live (n, d) = (sh, ch)" by (simp add: claims_diff_def Some)
    with step [of drifted] step [of "drifted @ [(n, d)]"] diff at show ?thesis
      by (simp add: ds Some split: option.split)
  qed
qed simp

section \<open>What the step writes\<close>

fun disruption :: "call \<Rightarrow> (kind \<times> string) list" where
  "disruption (CDelete k ns n b) = [(k, n)]"
| "disruption c = []"

definition disruptions :: "history \<Rightarrow> (kind \<times> string) list" where
  "disruptions cs = concat (map disruption cs)"

lemma disruptions_simps [simp]:
  "disruptions [] = []" "disruptions (c # cs) = disruption c @ disruptions cs"
  "disruptions (cs @ ds) = disruptions cs @ disruptions ds"
  by (simp_all add: disruptions_def)

text \<open>A claim is written only as it was read, with a larger request.\<close>

definition grown :: "Reconciler \<Rightarrow> PersistentVolumeClaim \<Rightarrow> bool" where
  "grown R pvc \<longleftrightarrow> (\<exists>h ns name old. e_GetPVC R h ns name = Inr old \<and> requested old < requested pvc
     \<and> (\<exists>m. pvc_Requests old = Some m \<and> pvc = old\<lparr>pvc_Requests := Some (gm_put ResourceStorage (requested pvc) m)\<rparr>))"

fun storage_call :: "Reconciler \<Rightarrow> pass \<Rightarrow> call \<Rightarrow> bool" where
  "storage_call R p (CGetPVC ns n) = (ns = fsc_Namespace (p_cluster p))"
| "storage_call R p (CUpdatePVC pvc) = (roll_gate p \<and> grown R pvc)"
| "storage_call R p (CDelete k ns n b) =
     (k = KindStatefulSet \<and> b \<and> roll_gate p
      \<or> k = KindPod \<and> (\<exists>node \<in> set (p_nodes p). n = PodName (node_Name node) \<and> stale_pod p node
           \<and> set (hl_notReady (p_health p)) \<subseteq> {node_Name node}))"
| "storage_call R p (CEvent t r m) = True"
| "storage_call R p c = False"

lemma requested_put [simp]: "requested (pvc\<lparr>pvc_Requests := Some (gm_put ResourceStorage q m)\<rparr>) = q"
  by (simp add: requested_def)

lemma emits_grow_claim:
  assumes "grow_claim R p node tmpl h = Some (e, h')" "roll_gate p"
  shows "emits (\<lambda>c. storage_call R p c \<and> disruption c = []) h h'"
proof -
  let ?name = "PVCName (pvc_Name tmpl) (node_Name node)"
  let ?P = "\<lambda>c. storage_call R p c \<and> disruption c = []"
  have read: "emits ?P h (h @ [CGetPVC (fsc_Namespace (p_cluster p)) ?name])" by simp
  show ?thesis
  proof (cases "e_GetPVC R h (fsc_Namespace (p_cluster p)) ?name")
    case (Inl e)
    with read assms(1) show ?thesis by (auto simp: grow_claim_def get_pvc_def Let_def)
  next
    case (Inr pvc)
    have "grown R (pvc\<lparr>pvc_Requests := Some (gm_put ResourceStorage (requested tmpl) m)\<rparr>)"
      if "requested pvc < requested tmpl" "pvc_Requests pvc = Some m" for m
      using Inr that unfolding grown_def requested_put by blast
    then have "emits ?P h ((h @ [CGetPVC (fsc_Namespace (p_cluster p)) ?name]) @ [CUpdatePVC (pvc\<lparr>pvc_Requests := Some (gm_put ResourceStorage (requested tmpl) m)\<rparr>)])"
      if "requested pvc < requested tmpl" "pvc_Requests pvc = Some m" for m
      using that assms(2) by (intro emits_snoc read) simp
    with read assms(1) show ?thesis
      by (auto simp: grow_claim_def get_pvc_def update_pvc_def Inr Let_def split: if_splits option.splits)
  qed
qed

text \<open>What every claim of the loop adds, the loop adds.\<close>

lemma emits_grow_loop:
  assumes "\<And>tmpl h e h'. grow_claim R p node tmpl h = Some (e, h') \<Longrightarrow> emits P h h'"
  shows "grow_loop R p node tmpls h = Some (e, h') \<Longrightarrow> emits P h h'"
proof (induction tmpls arbitrary: h)
  case (Cons t ts)
  from Cons.prems obtain e1 h1 where 1: "grow_claim R p node t h = Some (e1, h1)" by (auto split: option.splits)
  note e = assms [OF 1]
  show ?case
  proof (cases e1)
    case None
    with Cons.prems 1 have "emits P h1 h'" by (intro Cons.IH) simp
    with e show ?thesis by (rule emits_trans)
  qed (use Cons.prems 1 e in simp)
qed simp

lemma expandNode_calls:
  assumes "expandNode R node desired p h = Some (out, p', h')" and "roll_gate p"
  shows "\<exists>cs. h' = h @ cs \<and> list_all (storage_call R p) cs \<and> length (disruptions cs) \<le> 1"
proof -
  let ?P = "\<lambda>c. storage_call R p c \<and> disruption c = []"
  from assms(1) obtain e h1 where g: "growClaims R p node desired h = Some (e, h1)" by (auto simp: expandNode_def split: option.splits)
  then have "emits ?P h h1"
    using emits_grow_loop [of R p node ?P "sts_VolumeClaimTemplates (set_Spec desired)" h e h1] emits_grow_claim [OF _ assms(2)]
    by (simp add: growClaims_def)
  then obtain cs where cs: "h1 = h @ cs" "list_all ?P cs" by (auto simp: emits_def)
  then have calls: "list_all (storage_call R p) cs" "disruptions cs = []"
    by (simp_all add: list_all_iff disruptions_def)
  show ?thesis
  proof (cases e)
    case (Some err)
    with assms(1) g cs(1) calls show ?thesis by (intro exI [of _ cs]) (simp add: expandNode_def)
  next
    case None
    define del where "del = CDelete KindStatefulSet (fsc_Namespace (p_cluster p)) (node_Name node) True"
    have "h' = h1 @ [del] \<or> (\<exists>t r m. h' = h1 @ [del, CEvent t r m])"
      using assms(1) g None
      by (auto simp: expandNode_def delete_ok_def delete_def event_def del_def split: option.splits if_splits)
    then obtain evs where "h' = h @ cs @ del # evs" "list_all (storage_call R p) evs" "disruptions evs = []"
      using cs(1) by fastforce
    moreover have "storage_call R p del" "disruption del = [(KindStatefulSet, node_Name node)]"
      using assms(2) by (simp_all add: del_def)
    ultimately show ?thesis using calls by (intro exI [of _ "cs @ del # evs"]) simp
  qed
qed

lemma finishAdoption_calls:
  assumes "finishAdoption R p h = Some (out, h')"
  shows "\<exists>cs. h' = h @ cs \<and> list_all (storage_call R p) cs \<and> length (disruptions cs) \<le> 1"
proof -
  from assms obtain node where f: "find (stale_pod p) (p_nodes p) = Some node"
    by (auto simp: finishAdoption_def split: option.splits)
  then have node: "node \<in> set (p_nodes p)" "stale_pod p node"
    by (auto simp: find_Some_iff)
  define del where "del = CDelete KindPod (fsc_Namespace (p_cluster p)) (PodName (node_Name node)) False"
  show ?thesis
  proof (cases "otherNodesNotReady p (node_Name node)")
    case (Cons w ws)
    with assms f show ?thesis by (simp add: finishAdoption_def)
  next
    case Nil
    then have "set (hl_notReady (p_health p)) \<subseteq> {node_Name node}"
      by (auto simp: otherNodesNotReady_def filter_empty_conv)
    with node have ok: "storage_call R p del" by (auto simp: del_def)
    from Nil assms f have "h' = h @ [del] \<or> (\<exists>t r m. h' = h @ [del, CEvent t r m])"
      by (auto simp: finishAdoption_def delete_ok_def delete_def event_def del_def split: option.splits if_splits)
    with ok show ?thesis by (auto simp: del_def)
  qed
qed

lemma reconcileStorage_calls:
  assumes "reconcileStorage R p h = Some (out, p', h')"
  shows "\<exists>cs. h' = h @ cs \<and> list_all (storage_call R p) cs \<and> length (disruptions cs) \<le> 1"
proof (cases "finishAdoption R p h")
  case (Some r)
  with assms have "finishAdoption R p h = Some (out, h')" by (cases r) (simp add: reconcileStorage_def)
  then show ?thesis by (rule finishAdoption_calls)
next
  case None
  consider (quiet) "h' = h" | (refused) t r m where "h' = event t r m h"
    | (expand) node d where "roll_gate p" "expandNode R node d p h = Some (out, p', h')"
    using assms None
    by (auto simp: reconcileStorage_def refuse_def roll_gate_def split: storage_scan.splits list.splits if_splits)
  then show ?thesis
  proof cases
    case quiet
    then show ?thesis by simp
  next
    case refused
    then show ?thesis by (simp add: event_def)
  next
    case expand
    from expandNode_calls [OF expand(2,1)] show ?thesis .
  qed
qed

text \<open>
  A claim that needs no more room in the calls \<open>h\<close>: it was read, and was either not there, or large
  enough, or written right away with the size of its template.
\<close>

definition claim_served :: "Reconciler \<Rightarrow> string \<Rightarrow> Node \<Rightarrow> history \<Rightarrow> PersistentVolumeClaim \<Rightarrow> bool" where
  "claim_served R ns node h tmpl \<longleftrightarrow> (\<exists>h1 h2. h = h1 @ CGetPVC ns (PVCName (pvc_Name tmpl) (node_Name node)) # h2
     \<and> (case e_GetPVC R h1 ns (PVCName (pvc_Name tmpl) (node_Name node)) of
          Inl e \<Rightarrow> isNotFound e
        | Inr pvc \<Rightarrow> requested tmpl \<le> requested pvc
            \<or> (\<exists>new h3. h2 = CUpdatePVC new # h3 \<and> requested new = requested tmpl
                 \<and> e_UpdatePVC R (h1 @ [CGetPVC ns (PVCName (pvc_Name tmpl) (node_Name node))]) new = None)))"

lemma claim_served_later: "claim_served R ns node h tmpl \<Longrightarrow> claim_served R ns node (h @ cs) tmpl"
  unfolding claim_served_def by (fastforce split: sum.splits)

lemma grow_claim_served:
  assumes "grow_claim R p node tmpl h = Some (None, h')"
  shows "claim_served R (fsc_Namespace (p_cluster p)) node h' tmpl"
proof -
  let ?read = "CGetPVC (fsc_Namespace (p_cluster p)) (PVCName (pvc_Name tmpl) (node_Name node))"
  from assms have "\<exists>h2. h' = h @ ?read # h2"
    by (auto simp: grow_claim_def get_pvc_def update_pvc_def Let_def split: sum.splits if_splits option.splits)
  then obtain h2 where h2: "h' = h @ ?read # h2" by blast
  show ?thesis unfolding claim_served_def
    by (rule exI [of _ h], rule exI [of _ h2])
      (use assms h2 in \<open>auto simp: grow_claim_def get_pvc_def update_pvc_def Let_def split: sum.splits if_splits option.splits\<close>)
qed

lemma grow_loop_served:
  "grow_loop R p node tmpls h = Some (None, h') \<Longrightarrow> t \<in> set tmpls \<Longrightarrow> claim_served R (fsc_Namespace (p_cluster p)) node h' t"
proof (induction tmpls arbitrary: h)
  case (Cons x xs)
  from Cons.prems(1) obtain h1 where 1: "grow_claim R p node x h = Some (None, h1)" "grow_loop R p node xs h1 = Some (None, h')"
    by (auto split: prod.splits option.splits)
  have any: "emits (\<lambda>c. True) g g'" if "grow_claim R p node tmpl g = Some (e, g')" for tmpl g e g'
    using that by (auto simp: grow_claim_def get_pvc_def update_pvc_def Let_def emits_def split: sum.splits if_splits option.splits)
  have "emits (\<lambda>c. True) h1 h'" by (rule emits_grow_loop [OF _ 1(2)]) (rule any)
  then obtain cs where "h' = h1 @ cs" by (auto simp: emits_def)
  with 1 Cons grow_claim_served claim_served_later show ?case by (metis set_ConsD)
qed simp

lemma storage_loop_pairs:
  "storage_loop live desired nodes i drifted = Drifted dr \<Longrightarrow> set dr \<subseteq> set drifted \<union> set (zip nodes (drop i desired))"
proof (induction nodes arbitrary: i drifted)
  case (Cons n nodes)
  show ?case
  proof (cases "i < length desired")
    case True
    then have "drop i desired = desired ! i # drop (i + 1) desired" by (simp add: Cons_nth_drop_Suc)
    with True Cons.prems Cons.IH [of "i + 1" drifted] Cons.IH [of "i + 1" "drifted @ [(n, desired ! i)]"] show ?thesis
      by (auto split: option.splits prod.splits if_splits)
  next
    case False
    with Cons.prems Cons.IH [of "i + 1" drifted] show ?thesis by (auto split: option.splits)
  qed
qed simp

text \<open>A StatefulSet is deleted only after every claim of its node was served.\<close>

lemma reconcileStorage_served:
  assumes "reconcileStorage R p h = Some (out, p', h')" "h' = h @ cs" "CDelete KindStatefulSet ns n orphan \<in> set cs"
  shows "\<exists>as bs node d. cs = as @ CDelete KindStatefulSet ns n orphan # bs \<and> (node, d) \<in> set (zip (p_nodes p) (p_sets p))
    \<and> n = node_Name node \<and> ns = fsc_Namespace (p_cluster p)
    \<and> (\<forall>t \<in> set (sts_VolumeClaimTemplates (set_Spec d)). claim_served R ns node (h @ as) t)"
proof -
  have quiet: "finishAdoption R p h = Some (out, h') \<Longrightarrow> False"
    using assms(2,3) by (auto simp: finishAdoption_def delete_ok_def delete_def event_def Let_def split: option.splits if_splits)
  obtain node d rest where nd: "storage_loop (p_live p) (p_sets p) (p_nodes p) 0 [] = Drifted ((node, d) # rest)"
    "roll_gate p" "expandNode R node d p h = Some (out, p', h')"
    using assms quiet
    by (auto simp: reconcileStorage_def refuse_def event_def roll_gate_def split: option.splits storage_scan.splits list.splits if_splits)
  from storage_loop_pairs [OF nd(1)] have pair: "(node, d) \<in> set (zip (p_nodes p) (p_sets p))" by simp
  from nd(3) obtain e h1 where g: "growClaims R p node d h = Some (e, h1)" by (auto simp: expandNode_def split: option.splits)
  then have "emits (\<lambda>c. storage_call R p c \<and> disruption c = []) h h1"
    using emits_grow_loop [of R p node "\<lambda>c. storage_call R p c \<and> disruption c = []" "sts_VolumeClaimTemplates (set_Spec d)" h e h1]
      emits_grow_claim [OF _ nd(2)] by (simp add: growClaims_def)
  then obtain as where as: "h1 = h @ as" "list_all (\<lambda>c. storage_call R p c \<and> disruption c = []) as" by (auto simp: emits_def)
  then have none: "CDelete KindStatefulSet ns n orphan \<notin> set as" by (fastforce simp: list_all_iff)
  have e: "e = None" using nd(3) g as(1) none assms(2,3) by (cases e) (auto simp: expandNode_def)
  let ?del = "CDelete KindStatefulSet (fsc_Namespace (p_cluster p)) (node_Name node) True"
  have "h' = h1 @ [?del] \<or> (\<exists>t r m. h' = h1 @ [?del, CEvent t r m])"
    using nd(3) g e by (auto simp: expandNode_def delete_ok_def delete_def event_def split: option.splits if_splits)
  then obtain bs where bs: "cs = as @ ?del # bs" "CDelete KindStatefulSet ns n orphan \<notin> set bs" using as(1) assms(2) by auto
  with none assms(3) have del: "CDelete KindStatefulSet ns n orphan = ?del" by auto
  moreover have "\<forall>t \<in> set (sts_VolumeClaimTemplates (set_Spec d)). claim_served R (fsc_Namespace (p_cluster p)) node (h @ as) t"
    using grow_loop_served [of R p node _ h h1] g e as(1) by (simp add: growClaims_def)
  ultimately show ?thesis using bs(1) pair by blast
qed

text \<open>The pass the step leaves: only a condition may have been added.\<close>

lemma reconcileStorage_frame:
  assumes "reconcileStorage R p h = Some (out, p', h')"
  shows "p' = p\<lparr>p_conditions := p_conditions p'\<rparr>"
proof -
  have e: "expandNode R node d p h = Some (out, p', h') \<Longrightarrow> ?thesis" for node d
    by (auto simp: expandNode_def setCondition_def split: prod.splits option.splits)
  show ?thesis
    by (rule ccontr) (use assms e in \<open>auto simp: reconcileStorage_def refuse_def setCondition_def
      split: option.splits storage_scan.splits list.splits if_splits\<close>)
qed

lemma storage_scan_total:
  assumes "length (p_sets p) = length (p_nodes p)"
  shows "storage_loop (p_live p) (p_sets p) (p_nodes p) 0 [] =
    (case find (\<lambda>x. fst (claims_diff (p_live p) x) \<noteq> []) (zip (p_nodes p) (p_sets p)) of
       Some x \<Rightarrow> Shrinks (fst x) (fst (claims_diff (p_live p) x))
     | None \<Rightarrow> Drifted (filter (\<lambda>x. snd (claims_diff (p_live p) x)) (zip (p_nodes p) (p_sets p))))"
  using storage_loop_zip [OF assms, of "p_live p" "[]" "[]"] by (simp only: append_Nil list.size)

text \<open>
  Every claim the API server serves has a request list (its validation requires one for
  \<open>storage\<close>): then nothing panics.
\<close>

definition claims_have_requests :: "Reconciler \<Rightarrow> bool" where
  "claims_have_requests R \<longleftrightarrow> (\<forall>h ns n pvc. e_GetPVC R h ns n = Inr pvc \<longrightarrow> pvc_Requests pvc \<noteq> None)"

lemma growClaims_total:
  assumes "claims_have_requests R"
  shows "growClaims R p node d h \<noteq> None"
proof -
  have one: "\<exists>r. grow_claim R p node t h = Some r" for t h
  proof (cases "e_GetPVC R h (fsc_Namespace (p_cluster p)) (PVCName (pvc_Name t) (node_Name node))")
    case (Inr pvc)
    with assms obtain m where "pvc_Requests pvc = Some m" unfolding claims_have_requests_def by blast
    with Inr show ?thesis by (simp add: grow_claim_def get_pvc_def update_pvc_def Let_def split: option.split)
  qed (simp add: grow_claim_def get_pvc_def Let_def)
  have "\<exists>r. grow_loop R p node ts h = Some r" for ts
  proof (induction ts arbitrary: h)
    case (Cons t ts)
    from one [of t h] obtain e h' where "grow_claim R p node t h = Some (e, h')" by auto
    with Cons.IH [of h'] show ?case by (cases e) auto
  qed simp
  then show ?thesis by (auto simp: growClaims_def)
qed

lemma expandNode_total: "claims_have_requests R \<Longrightarrow> expandNode R node d p h \<noteq> None"
  using growClaims_total [of R p node d h] by (auto simp: expandNode_def split: option.splits prod.splits)

lemma reconcileStorage_total:
  assumes "length (p_sets p) = length (p_nodes p)" "claims_have_requests R"
  shows "reconcileStorage R p h \<noteq> None"
proof (cases "find (\<lambda>x. fst (claims_diff (p_live p) x) \<noteq> []) (zip (p_nodes p) (p_sets p))")
  case None
  then show ?thesis using expandNode_total [OF assms(2)]
    by (simp add: reconcileStorage_def storage_scan_total [OF assms(1)] split: option.split list.split del: not_None_eq)
next
  case (Some x)
  then show ?thesis
    by (simp add: reconcileStorage_def storage_scan_total [OF assms(1)] split: option.split del: not_None_eq)
qed

section \<open>Properties\<close>

text \<open>
  C4. Storage changes never lose data and disturb one node at a time. Whatever the answers,
  a claim is only ever written as it was read with a strictly larger request; no StatefulSet
  is deleted together with its pod; at most one object is deleted per pass. A StatefulSet is
  recreated, and a claim grown, only while every node serves and the cluster has converged, and it is
  recreated only after each of its claims was read and found missing, large enough, or enlarged; a
  pod is replaced only when it is the ready one an earlier recreation left on the previous
  revision and every other node serves.
\<close>

theorem storage_safe:
  assumes "reconcileStorage R p h = Some (out, p', h')"
  shows "\<exists>cs. h' = h @ cs \<and> length (disruptions cs) \<le> 1 \<and> deleted cs = []
    \<and> (\<forall>c \<in> set cs. case c of
          CUpdatePVC pvc \<Rightarrow> roll_gate p \<and> grown R pvc
        | CDelete k ns n orphan \<Rightarrow>
            k = KindStatefulSet \<and> orphan \<and> roll_gate p
            \<or> k = KindPod \<and> (\<exists>node \<in> set (p_nodes p). n = PodName (node_Name node) \<and> stale_pod p node
                 \<and> set (hl_notReady (p_health p)) \<subseteq> {node_Name node})
        | CGetPVC ns n \<Rightarrow> True
        | CEvent t r m \<Rightarrow> True
        | other \<Rightarrow> False)
    \<and> (\<forall>ns n orphan. CDelete KindStatefulSet ns n orphan \<in> set cs \<longrightarrow>
         (\<exists>as bs node d. cs = as @ CDelete KindStatefulSet ns n orphan # bs \<and> (node, d) \<in> set (zip (p_nodes p) (p_sets p))
            \<and> n = node_Name node \<and> ns = fsc_Namespace (p_cluster p)
            \<and> (\<forall>t \<in> set (sts_VolumeClaimTemplates (set_Spec d)). claim_served R ns node (h @ as) t)))"
proof -
  from reconcileStorage_calls [OF assms] obtain cs where
    cs: "h' = h @ cs" "list_all (storage_call R p) cs" "length (disruptions cs) \<le> 1" by blast
  have none: "deleted_set c = []" if "storage_call R p c" for c
    using that by (cases "c" rule: deleted_set.cases) auto
  have "deleted cs = []"
    using cs(2) none by (auto simp: deleted_def list_all_iff)
  moreover have "case c of CUpdatePVC pvc \<Rightarrow> roll_gate p \<and> grown R pvc
      | CDelete k ns n orphan \<Rightarrow> k = KindStatefulSet \<and> orphan \<and> roll_gate p
          \<or> k = KindPod \<and> (\<exists>node \<in> set (p_nodes p). n = PodName (node_Name node) \<and> stale_pod p node
                 \<and> set (hl_notReady (p_health p)) \<subseteq> {node_Name node})
      | CGetPVC ns n \<Rightarrow> True | CEvent t r m \<Rightarrow> True | other \<Rightarrow> False" if "storage_call R p c" for c
    using that by (cases c) simp_all
  moreover note reconcileStorage_served [OF assms cs(1)]
  ultimately show ?thesis using cs by - (rule exI [of _ cs], intro conjI allI impI, simp_all add: list_all_iff)
qed

text \<open>A node that runs with a smaller volume than the one declared.\<close>

definition small_set :: "FSCluster \<Rightarrow> Node \<Rightarrow> Quantity \<Rightarrow> StatefulSet" where
  "small_set c n q = (serving_set c n ''sts-1'')\<lparr>set_Spec := (set_Spec (serving_set c n ''sts-1''))
     \<lparr>sts_VolumeClaimTemplates := map (\<lambda>t. t\<lparr>pvc_Requests := Some [(ResourceStorage, q)]\<rparr>)
        (volumeClaimTemplates c n)\<rparr>\<rparr>"

definition growing_pass :: "Quantity \<Rightarrow> Quantity \<Rightarrow> pass" where
  "growing_pass have want =
     (let c = config_cluster [] two_racks; n0 = flat_node ''fs'' 0; n1 = flat_node ''fs'' 1
      in (two_nodes_pass c)\<lparr>p_desired := Some [small_set c n0 want, small_set c n1 want],
           p_live := [(''fs-0'', small_set c n0 have), (''fs-1'', small_set c n1 have)],
           p_convergence := zero_convergence\<lparr>cv_known := True, cv_converged := True\<rparr>\<rparr>)"

lemma growing_facts:
  "find (stale_pod (growing_pass a b)) (p_nodes (growing_pass a b)) = None"
  "hl_notReady (p_health (growing_pass a b)) = []"
  "cv_known (p_convergence (growing_pass a b))" "cv_converged (p_convergence (growing_pass a b))"
  by (simp_all add: growing_pass_def Let_def two_nodes_pass_def stale_pod_def adoptedStalePod_def small_set_def
      serving_set_def zero_health_def)

theorem storage_safe_witness:
  "\<exists>out p' cs. reconcileStorage (quiet [] (quiet_layout []) []) (growing_pass 10 20) [] = Some (out, p', cs)
     \<and> disruptions cs = [(KindStatefulSet, ''fs-0'')] \<and> deleted cs = []"
proof -
  let ?R = "quiet [] (quiet_layout []) []" and ?p = "growing_pass 10 20"
  let ?c = "config_cluster [] two_racks"
  have loop: "storage_loop (p_live ?p) (p_sets ?p) (p_nodes ?p) 0 []
      = Drifted [(flat_node ''fs'' 0, small_set ?c (flat_node ''fs'' 0) 20), (flat_node ''fs'' 1, small_set ?c (flat_node ''fs'' 1) 20)]"
    by (simp add: growing_pass_def Let_def two_nodes_pass_def p_sets_def small_set_def diskDiff_def diff_claim_def
        volumeClaimTemplates_def claim_sizes_def requested_def qCmp_def gm_put_def)
  have "reconcileStorage ?R ?p [] = expandNode ?R (flat_node ''fs'' 0) (small_set ?c (flat_node ''fs'' 0) 20) ?p []"
    by (simp add: reconcileStorage_def finishAdoption_def growing_facts loop)
  moreover obtain out p' cs where e: "expandNode ?R (flat_node ''fs'' 0) (small_set ?c (flat_node ''fs'' 0) 20) ?p [] = Some (out, p', cs)"
    using expandNode_total [of ?R "flat_node ''fs'' 0" "small_set ?c (flat_node ''fs'' 0) 20" ?p "[]"] by (auto simp: claims_have_requests_def)
  ultimately have r: "reconcileStorage ?R ?p [] = Some (out, p', cs)" by simp
  have d: "disruptions cs = [(KindStatefulSet, ''fs-0'')]"
    using e by (auto simp: expandNode_def growClaims_def small_set_def volumeClaimTemplates_def grow_claim_def
        get_pvc_def Let_def delete_ok_def delete_def event_def)
  from storage_safe [OF r] have "deleted cs = []" by auto
  with r d show ?thesis by blast
qed

text \<open>
  The decision of the storage step, when nothing is left to adopt: the first node with a
  claim that would become smaller has the whole spec refused, with nothing written; otherwise
  the first node whose claims grew or are new is expanded, while every node serves and the
  cluster has converged, and without such a node the pass goes on. A pass with one desired
  StatefulSet per node never indexes past the end, and the only panic left is a claim that is served
  without a request list.
\<close>

theorem storage_decision:
  assumes "length (p_sets p) = length (p_nodes p)" and "\<forall>n \<in> set (p_nodes p). \<not> stale_pod p n"
  shows "reconcileStorage R p h =
    (case find (\<lambda>(n, d). \<exists>l. gm_get (p_live p) (node_Name n) = Some l
            \<and> list_ex (claim_shrinks (sts_VolumeClaimTemplates (set_Spec l))) (sts_VolumeClaimTemplates (set_Spec d)))
        (zip (p_nodes p) (p_sets p)) of
       Some (n, d) \<Rightarrow> Some (refuse ReasonStorageShrinkForbidden
         (Sprintf fmt_would_shrink [AS (node_Name n), AV (fst (claims_diff (p_live p) (n, d)))]) p h)
     | None \<Rightarrow>
         (case filter (\<lambda>(n, d). \<exists>l. gm_get (p_live p) (node_Name n) = Some l
              \<and> list_ex (claim_grows (sts_VolumeClaimTemplates (set_Spec l))) (sts_VolumeClaimTemplates (set_Spec d)))
            (zip (p_nodes p) (p_sets p)) of
            [] \<Rightarrow> Some (Continue, p, h)
          | (n, d) # rest \<Rightarrow>
              if roll_gate p then expandNode R n d p h
              else Some (RequeueAfter pollInterval
                     (if hl_notReady (p_health p) \<noteq> [] then Sprintf fmt_storage_wait [AV (hl_notReady (p_health p))]
                      else msg fmt_storage_reconverge), p, h)))"
proof -
  have shr: "(\<lambda>x. fst (claims_diff (p_live p) x) \<noteq> []) = (\<lambda>(n, d). \<exists>l. gm_get (p_live p) (node_Name n) = Some l
      \<and> list_ex (claim_shrinks (sts_VolumeClaimTemplates (set_Spec l))) (sts_VolumeClaimTemplates (set_Spec d)))"
    by (auto simp: claims_diff_def diskDiff_spec filter_empty_conv list_ex_iff fun_eq_iff split: option.split)
  have gr: "(\<lambda>x. snd (claims_diff (p_live p) x)) = (\<lambda>(n, d). \<exists>l. gm_get (p_live p) (node_Name n) = Some l
      \<and> list_ex (claim_grows (sts_VolumeClaimTemplates (set_Spec l))) (sts_VolumeClaimTemplates (set_Spec d)))"
    by (auto simp: claims_diff_def diskDiff_spec fun_eq_iff split: option.split)
  have "find (stale_pod p) (p_nodes p) = None" using assms(2) by (auto simp: find_None_iff)
  then have fa: "finishAdoption R p h = None" by (simp add: finishAdoption_def)
  show ?thesis
    unfolding reconcileStorage_def fa storage_scan_total [OF assms(1)] shr gr
    by (auto simp: roll_gate_def split: option.split list.split)
qed

theorem storage_decision_witness:
  "fst (the (reconcileStorage (quiet [] (quiet_layout []) []) (growing_pass 20 10) [])) = Block (msg ReasonStorageShrinkForbidden)"
proof -
  let ?R = "quiet [] (quiet_layout []) []" and ?p = "growing_pass 20 10"
  have "length (p_sets ?p) = length (p_nodes ?p)"
    by (simp add: growing_pass_def Let_def two_nodes_pass_def p_sets_def)
  moreover have "\<forall>n \<in> set (p_nodes ?p). \<not> stale_pod ?p n"
    using growing_facts(1) [of 20 10] by (auto simp: find_None_iff)
  ultimately show ?thesis
    by (subst storage_decision)
      (simp_all add: growing_pass_def Let_def two_nodes_pass_def p_sets_def small_set_def claim_shrinks_def
        volumeClaimTemplates_def claim_sizes_def requested_def gm_put_def refuse_def)
qed

end
