(* ===== verification/Reload.thy ===== *)
theory Reload
  imports Storage Access_Keys
begin

text \<open>
  \<open>internal/controller/fscluster/reload.go\<close>: having the nodes that keep their pod load the
  configuration just written, and counting the ones that report it.
\<close>

section \<open>The step\<close>

definition eventConfigReloaded :: string where "eventConfigReloaded = ''ConfigReloaded''"
definition eventReloadFailed :: string where "eventReloadFailed = ''ReloadFailed''"

definition fmt_token_unavailable :: string where "fmt_token_unavailable = ''admin token unavailable''"
definition fmt_reload_wait :: string where
  "fmt_reload_wait = ''waiting for nodes to apply the desired configuration''"
definition fmt_reload_failed :: string where "fmt_reload_failed = ''Reload of node %q failed: %v''"
definition fmt_reloaded :: string where "fmt_reloaded = ''Node %q reloaded to configuration %s''"

text \<open>
  \<open>reloadNode\<close>: whether the node now runs the desired revision, and whether to come back for it.
  \<open>None\<close> is the panic of an index past the end of \<open>p.desired\<close>.
\<close>

definition reloadNode ::
    "Reconciler \<Rightarrow> pass \<Rightarrow> nat \<Rightarrow> Node \<Rightarrow> string \<Rightarrow> history \<Rightarrow> ((bool \<times> bool) \<times> history) option" where
  "reloadNode R p index node token h =
     (let desired = rc_Revision (config_of p (node_Name node)) in
      case gm_get (p_live p) (node_Name node) of
        None \<Rightarrow> Some ((False, True), h)
      | Some live \<Rightarrow>
          if \<not> nodeServing live then Some ((False, True), h)
          else if length (p_sets p) \<le> index then None
          else if template_revision live \<noteq> template_revision (p_sets p ! index) then Some ((False, True), h)
          else (case node_client R p node token of
                  Inl e \<Rightarrow> Some ((False, True), h)
                | Inr client \<Rightarrow>
                    (case admin_Info R client h of
                       (Inl e, h1) \<Rightarrow> Some ((False, True), h1)
                     | (Inr info, h1) \<Rightarrow>
                         if info_ConfigRevision info = desired then Some ((True, False), h1)
                         else (case admin_Reload R client h1 of
                                 (Inl e, h2) \<Rightarrow> Some ((False, True),
                                   event Warning eventReloadFailed
                                     (Sprintf fmt_reload_failed [AS (node_Name node), AE e]) h2)
                               | (Inr res, h2) \<Rightarrow>
                                   if rel_ConfigRevision res = desired
                                   then Some ((True, False),
                                     event Normal eventConfigReloaded
                                       (Sprintf fmt_reloaded [AS (node_Name node), AS desired]) h2)
                                   else Some ((False, True), h2)))))"

fun reload_loop ::
    "Reconciler \<Rightarrow> pass \<Rightarrow> string \<Rightarrow> Node list \<Rightarrow> nat \<Rightarrow> int32 \<Rightarrow> bool \<Rightarrow> history
     \<Rightarrow> ((int32 \<times> bool) \<times> history) option" where
  "reload_loop R p token [] i configCurrent pending h = Some ((configCurrent, pending), h)"
| "reload_loop R p token (node # nodes) i configCurrent pending h =
     (case reloadNode R p i node token h of
        None \<Rightarrow> None
      | Some ((ok, wait), h') \<Rightarrow>
          reload_loop R p token nodes (i + 1)
            (if ok then i32 (configCurrent + 1) else configCurrent) (pending \<or> wait) h')"

definition reconcileReload :: "Reconciler \<Rightarrow> pass \<Rightarrow> history \<Rightarrow> step_result option" where
  "reconcileReload R p h = (case adminToken R p h of
      (Inl e, h1) \<Rightarrow> Some (RequeueAfter pollInterval (msg fmt_token_unavailable), p, h1)
    | (Inr token, h1) \<Rightarrow>
        (case reload_loop R p token (p_nodes p) 0 0 False h1 of
           None \<Rightarrow> None
         | Some ((configCurrent, pending), h2) \<Rightarrow>
             (let p' = p\<lparr>p_health := (p_health p)\<lparr>hl_configCurrent := configCurrent\<rparr>\<rparr>
              in Some (if pending then RequeueAfter pollInterval (msg fmt_reload_wait) else Continue, p', h2))))"

section \<open>Facts\<close>

fun reload_call :: "call \<Rightarrow> bool" where
  "reload_call (CGetSecret ns n) = True"
| "reload_call (CGetInfo u) = True"
| "reload_call (CReload u) = True"
| "reload_call (CEvent t r m) = True"
| "reload_call c = False"

text \<open>
  The node at an index reported the desired revision, in answer to a question or to a reload,
  while serving with the desired pod template.
\<close>

definition reports_desired :: "Reconciler \<Rightarrow> pass \<Rightarrow> nat \<Rightarrow> Node \<Rightarrow> string \<Rightarrow> bool" where
  "reports_desired R p i node token \<longleftrightarrow>
     (\<exists>live. gm_get (p_live p) (node_Name node) = Some live \<and> nodeServing live \<and> i < length (p_sets p)
        \<and> template_revision live = template_revision (p_sets p ! i))
     \<and> (\<exists>h client. node_client R p node token = Inr client
          \<and> ((\<exists>info. fst (admin_Info R client h) = Inr info
                \<and> info_ConfigRevision info = rc_Revision (config_of p (node_Name node)))
             \<or> (\<exists>res. fst (admin_Reload R client h) = Inr res
                \<and> rel_ConfigRevision res = rc_Revision (config_of p (node_Name node)))))"

lemma reloadNode_spec:
  assumes "reloadNode R p i node token h = Some ((ok, wait), h')"
  shows "wait = (\<not> ok) \<and> (ok \<longrightarrow> reports_desired R p i node token) \<and> emits reload_call h h'"
proof (cases "\<exists>live client. gm_get (p_live p) (node_Name node) = Some live \<and> nodeServing live
    \<and> i < length (p_sets p) \<and> template_revision live = template_revision (p_sets p ! i)
    \<and> node_client R p node token = Inr client")
  case False
  with assms have "(ok, wait) = (False, True) \<and> h' = h"
    by (auto simp: reloadNode_def Let_def split: option.splits if_splits sum.splits)
  then show ?thesis by simp
next
  case True
  then obtain live client where l: "gm_get (p_live p) (node_Name node) = Some live" "nodeServing live"
    "i < length (p_sets p)" "template_revision live = template_revision (p_sets p ! i)"
    and c: "node_client R p node token = Inr client" by blast
  define h1 where "h1 = h @ [CGetInfo (cl_baseURL client)]"
  define h2 where "h2 = h1 @ [CReload (cl_baseURL client)]"
  obtain ri where i: "admin_Info R client h = (ri, h1)" by (simp add: admin_Info_def h1_def)
  obtain rr where r: "admin_Reload R client h1 = (rr, h2)" by (simp add: admin_Reload_def h2_def)
  have e: "emits reload_call h h1" "emits reload_call h h2"
    by (simp_all add: h1_def h2_def emits_def)
  then have e3: "emits reload_call h (event t rs m h2)" for t rs m by (simp add: emits_event_after)
  have rep: "reports_desired R p i node token"
    if "(\<exists>info. ri = Inr info \<and> info_ConfigRevision info = rc_Revision (config_of p (node_Name node)))
      \<or> (\<exists>res. rr = Inr res \<and> rel_ConfigRevision res = rc_Revision (config_of p (node_Name node)))"
    using that l c i r unfolding reports_desired_def by (metis fst_conv)
  show ?thesis
    using assms rep e e3
    by (auto simp: reloadNode_def l c i r Let_def split: sum.splits if_splits)
qed

lemma reload_loop_spec:
  assumes "reload_loop R p token nodes i n pending h = Some ((n', pending'), h')"
    and "0 \<le> n" and "n + int (length nodes) < 2 ^ 31"
  shows "emits reload_call h h' \<and> n \<le> n' \<and> n' \<le> n + int (length nodes)
    \<and> (pending' \<longleftrightarrow> pending \<or> n' \<noteq> n + int (length nodes))
    \<and> (n' = n + int (length nodes) \<longrightarrow> (\<forall>j < length nodes. reports_desired R p (i + j) (nodes ! j) token))"
  using assms
proof (induction nodes arbitrary: i n pending h)
  case (Cons node nodes)
  then obtain c w h1 where r: "reloadNode R p i node token h = Some ((c, w), h1)"
    and l: "reload_loop R p token nodes (i + 1) (if c then i32 (n + 1) else n) (pending \<or> w) h1 = Some ((n', pending'), h')"
    by (auto split: option.splits prod.splits)
  note spec = reloadNode_spec [OF r]
  have small: "i32 (n + 1) = n + 1" using Cons.prems(2,3) by (intro i32_id) auto
  let ?m = "if c then n + 1 else n"
  have l': "reload_loop R p token nodes (i + 1) ?m (pending \<or> w) h1 = Some ((n', pending'), h')"
    using l small by (cases c) simp_all
  have "0 \<le> ?m" "?m + int (length nodes) < 2 ^ 31" using Cons.prems(2,3) by auto
  note ih = Cons.IH [OF l' this]
  have "n' = n + int (length (node # nodes)) \<Longrightarrow> c" using ih by (cases c) auto
  moreover have "\<forall>j < length (node # nodes). reports_desired R p (i + j) ((node # nodes) ! j) token"
    if c and "n' = n + int (length (node # nodes))"
  proof (intro allI impI)
    fix j assume "j < length (node # nodes)"
    with that ih spec show "reports_desired R p (i + j) ((node # nodes) ! j) token"
      by (cases j) auto
  qed
  moreover have "emits reload_call h h'" using spec ih emits_trans by blast
  ultimately show ?case using ih spec by (cases c) auto
qed simp

lemma reload_loop_total:
  "length (p_sets p) = i + length nodes \<Longrightarrow> reload_loop R p token nodes i n pending h \<noteq> None"
proof (induction nodes arbitrary: i n pending h)
  case (Cons node nodes)
  then have "reloadNode R p i node token h \<noteq> None"
    by (simp add: reloadNode_def Let_def split: option.split sum.split prod.split del: not_None_eq)
  then obtain c w h1 where "reloadNode R p i node token h = Some ((c, w), h1)" by (metis option.exhaust prod.exhaust)
  moreover have "length (p_sets p) = (i + 1) + length nodes" using Cons.prems by simp
  ultimately show ?case using Cons.IH by (simp del: not_None_eq)
qed simp

lemma reconcileReload_total:
  assumes "length (p_sets p) = length (p_nodes p)"
  shows "reconcileReload R p h \<noteq> None"
proof -
  have "reload_loop R p token (p_nodes p) 0 0 False h1 \<noteq> None" for token h1
    using assms by (intro reload_loop_total) simp
  then show ?thesis
    by (simp add: reconcileReload_def Let_def split: prod.split sum.split option.split del: not_None_eq)
qed

lemma emits_reconcileReload:
  assumes "reconcileReload R p h = Some (out, p', h')" and "length (p_nodes p) < 2 ^ 31"
  shows "emits reload_call h h'"
proof -
  obtain t h1 where t: "adminToken R p h = (t, h1)" by (cases "adminToken R p h")
  with emits_adminToken [of reload_call p h R] have e1: "emits reload_call h h1" by simp
  show ?thesis
  proof (cases t)
    case (Inl e)
    with t assms(1) e1 show ?thesis by (auto simp: reconcileReload_def)
  next
    case (Inr token)
    with t assms(1) obtain n pend where "reload_loop R p token (p_nodes p) 0 0 False h1 = Some ((n, pend), h')"
      by (auto simp: reconcileReload_def Let_def split: option.splits)
    then have "emits reload_call h1 h'" using assms(2) reload_loop_spec by fastforce
    with e1 show ?thesis by (rule emits_trans)
  qed
qed

lemma reconcileReload_frame:
  assumes "reconcileReload R p h = Some (out, p', h')"
  shows "p' = p\<lparr>p_health := (p_health p)\<lparr>hl_configCurrent := hl_configCurrent (p_health p')\<rparr>\<rparr>"
  using assms by (auto simp: reconcileReload_def Let_def split: prod.splits sum.splits option.splits)

section \<open>Properties\<close>

text \<open>
  C17. A node counts as running the desired configuration only on its own word: when it serves
  with the desired pod template and its admin API, asked or told to reload, reports exactly
  the revision that was rendered for it. The count is the number of nodes only if all of them
  do, and as long as one does not the step asks to be run again. It reads, reloads and reports
  events, and writes nothing.
\<close>

theorem reload_verified:
  assumes "adminToken R p h = (Inr token, h1)" and "reconcileReload R p h = Some (out, p', h')"
    and "length (p_nodes p) < 2 ^ 31"
  shows "0 \<le> hl_configCurrent (p_health p') \<and> hl_configCurrent (p_health p') \<le> int (length (p_nodes p))
    \<and> (hl_configCurrent (p_health p') = int (length (p_nodes p))
         \<longrightarrow> (\<forall>j < length (p_nodes p). reports_desired R p j (p_nodes p ! j) token))
    \<and> out = (if hl_configCurrent (p_health p') = int (length (p_nodes p)) then Continue
             else RequeueAfter pollInterval (msg fmt_reload_wait))
    \<and> emits reload_call h h'"
proof -
  from assms(1,2) obtain n pend where l: "reload_loop R p token (p_nodes p) 0 0 False h1 = Some ((n, pend), h')"
    and p': "hl_configCurrent (p_health p') = n"
    and out: "out = (if pend then RequeueAfter pollInterval (msg fmt_reload_wait) else Continue)"
    by (auto simp: reconcileReload_def Let_def split: option.splits)
  from reload_loop_spec [OF l] assms(3) have
    "0 \<le> n \<and> n \<le> int (length (p_nodes p)) \<and> (pend \<longleftrightarrow> n \<noteq> int (length (p_nodes p)))
     \<and> (n = int (length (p_nodes p)) \<longrightarrow> (\<forall>j < length (p_nodes p). reports_desired R p j (p_nodes p ! j) token))"
    by simp
  with p' out emits_reconcileReload [OF assms(2,3)] show ?thesis by auto
qed

text \<open>One node that already runs the revision rendered for it.\<close>

definition synced_pass :: pass where
  "synced_pass = (let c = config_cluster [] two_racks; n0 = flat_node ''fs'' 0 in
     (two_nodes_pass c)\<lparr>p_nodes := [n0], p_desired := Some [serving_set c n0 ''sts-1''],
       p_live := [(''fs-0'', serving_set c n0 ''sts-1'')],
       p_configs := Some [(''fs-0'', \<lparr>rc_Data = [], rc_Revision = ''cfg-1''\<rparr>)]\<rparr>)"

definition synced_world :: Reconciler where
  "synced_world = (quiet [] (quiet_layout []) [])\<lparr>e_GetInfo := \<lambda>h u t.
     Inr \<lparr>ai_Version = [], ai_Commit = [], ai_ConfigRevision = Some ''cfg-1''\<rparr>\<rparr>"

theorem reload_verified_witness:
  "\<exists>out p' h'. reconcileReload synced_world synced_pass [] = Some (out, p', h')
     \<and> hl_configCurrent (p_health p') = 1 \<and> out = Continue
     \<and> reports_desired synced_world synced_pass 0 (flat_node ''fs'' 0) ''t''"
proof -
  have t: "\<exists>h1. adminToken synced_world synced_pass [] = (Inr ''t'', h1)"
    by (simp add: adminToken_def synced_world_def get_secret_def quiet_secret_def gm_str_def Let_def AdminTokenKey_def
        ClusterSecretKey_def)
  then obtain h1 where h1: "adminToken synced_world synced_pass [] = (Inr ''t'', h1)" by blast
  have n: "p_nodes synced_pass = [flat_node ''fs'' 0]" by (simp add: synced_pass_def Let_def)
  have "\<exists>h'. reloadNode synced_world synced_pass 0 (flat_node ''fs'' 0) ''t'' h = Some ((True, False), h')" for h
    by (simp add: reloadNode_def synced_pass_def synced_world_def Let_def config_of_def p_sets_def node_client_def
        adminClient_def fsclient_New_def admin_Info_def client_Info_def)
  then obtain h' where "reloadNode synced_world synced_pass 0 (flat_node ''fs'' 0) ''t'' h1 = Some ((True, False), h')" by blast
  then obtain out p' where r: "reconcileReload synced_world synced_pass [] = Some (out, p', h')"
    and c: "hl_configCurrent (p_health p') = 1"
    by (simp add: reconcileReload_def h1 n Let_def)
  from reload_verified [OF h1 r] c n have "out = Continue" "reports_desired synced_world synced_pass 0 (flat_node ''fs'' 0) ''t''"
    by simp_all
  with r c show ?thesis by blast
qed

end
