(* ===== verification/Conditions.thy ===== *)
theory Conditions
  imports Api_Types
begin

text \<open>
  Conditions and finalizers: \<open>internal/controller/conditions.go\<close>, and the two libraries all three
  controllers use to write an object's metadata and status. \<open>meta.SetStatusCondition\<close> and the
  finalizer functions of \<open>controllerutil\<close> are not part of the repository; what the operator relies
  on is stated as the locales \<open>condition_setter\<close> and \<open>finalizer_ops\<close>.
\<close>

section \<open>The Ready condition of a bucket or a key\<close>

record readyCondition =
  rc_status :: ConditionStatus
  rc_reason :: ConditionReason
  rc_message :: message

definition trueCondition :: "ConditionReason \<Rightarrow> message \<Rightarrow> readyCondition" where
  "trueCondition reason m = \<lparr>rc_status = ConditionTrue, rc_reason = reason, rc_message = m\<rparr>"

definition falseCondition :: "ConditionReason \<Rightarrow> message \<Rightarrow> readyCondition" where
  "falseCondition reason m = \<lparr>rc_status = ConditionFalse, rc_reason = reason, rc_message = m\<rparr>"

text \<open>The condition \<open>report\<close> writes, stamped with the generation it describes.\<close>

definition ready_condition :: "int64 \<Rightarrow> readyCondition \<Rightarrow> Condition" where
  "ready_condition generation c = \<lparr>cond_Type = ConditionReady, cond_Status = rc_status c, cond_Reason = rc_reason c,
     cond_Message = rc_message c, cond_ObservedGeneration = generation\<rparr>"

lemma ready_condition_sel [simp]:
  "cond_Type (ready_condition g c) = ConditionReady" "cond_Status (ready_condition g c) = rc_status c"
  "cond_Reason (ready_condition g c) = rc_reason c" "cond_ObservedGeneration (ready_condition g c) = g"
  by (simp_all add: ready_condition_def)

lemma trueCondition_sel [simp]: "rc_status (trueCondition r m) = ConditionTrue" "rc_reason (trueCondition r m) = r"
  by (simp_all add: trueCondition_def)

lemma falseCondition_sel [simp]: "rc_status (falseCondition r m) = ConditionFalse" "rc_reason (falseCondition r m) = r"
  by (simp_all add: falseCondition_def)

section \<open>Condition lists\<close>

text \<open>
  What \<open>meta.SetStatusCondition\<close> documents: afterwards the list has the new condition under its
  type, and every other type as before.
\<close>

locale condition_setter =
  fixes setc :: "Condition \<Rightarrow> Condition list \<Rightarrow> Condition list"
  assumes set_find: "find (\<lambda>x. cond_Type x = ct) (setc c cs)
    = (if cond_Type c = ct then Some c else find (\<lambda>x. cond_Type x = ct) cs)"
begin

lemma fold_find:
  "find (\<lambda>x. cond_Type x = ct) (fold setc qs cs)
     = (case find (\<lambda>x. cond_Type x = ct) (rev qs) of Some c \<Rightarrow> Some c | None \<Rightarrow> find (\<lambda>x. cond_Type x = ct) cs)"
proof (induction qs rule: rev_induct)
  case (snoc q qs)
  then show ?case by (simp add: set_find)
qed simp

end

text \<open>An instance: replace the first condition of the type, or add one at the end.\<close>

fun replace_condition :: "Condition \<Rightarrow> Condition list \<Rightarrow> Condition list" where
  "replace_condition c [] = [c]"
| "replace_condition c (x # xs) = (if cond_Type x = cond_Type c then c # xs else x # replace_condition c xs)"

lemma find_replace: "find (\<lambda>x. cond_Type x = ct) (replace_condition c cs)
    = (if cond_Type c = ct then Some c else find (\<lambda>x. cond_Type x = ct) cs)"
  by (induction cs) auto

interpretation replacing: condition_setter replace_condition
  by unfold_locales (rule find_replace)

interpretation consing: condition_setter "\<lambda>c cs. c # filter (\<lambda>c'. cond_Type c' \<noteq> cond_Type c) cs"
proof
  fix ct and c :: Condition and cs :: "Condition list"
  have "find (\<lambda>x. cond_Type x = ct) (filter (\<lambda>c'. cond_Type c' \<noteq> cond_Type c) cs) = find (\<lambda>x. cond_Type x = ct) cs"
    if "cond_Type c \<noteq> ct"
    using that by (induction cs) auto
  then show "find (\<lambda>x. cond_Type x = ct) (c # filter (\<lambda>c'. cond_Type c' \<noteq> cond_Type c) cs)
      = (if cond_Type c = ct then Some c else find (\<lambda>x. cond_Type x = ct) cs)" by simp
qed

section \<open>Finalizers\<close>

text \<open>\<open>ContainsFinalizer\<close>, \<open>AddFinalizer\<close> and \<open>RemoveFinalizer\<close> of \<open>controllerutil\<close>, on the list of finalizers.\<close>

record finalizer_lib =
  fl_Contains :: "string list \<Rightarrow> string \<Rightarrow> bool"
  fl_Add :: "string \<Rightarrow> string list \<Rightarrow> string list"
  fl_Remove :: "string \<Rightarrow> string list \<Rightarrow> string list"

locale finalizer_ops =
  fixes lib :: finalizer_lib
  assumes contains: "fl_Contains lib fs f \<longleftrightarrow> f \<in> set fs"
    and add: "set (fl_Add lib f fs) = insert f (set fs)"
    and remove: "set (fl_Remove lib f fs) = set fs - {f}"
begin

lemma add_contains: "fl_Contains lib (fl_Add lib f fs) f"
  by (simp add: contains add)

lemma remove_contains: "fl_Contains lib (fl_Remove lib f fs) g \<longleftrightarrow> fl_Contains lib fs g \<and> g \<noteq> f"
  by (auto simp: contains remove)

end

text \<open>As lists: added at the end when absent, every occurrence removed.\<close>

definition list_finalizers :: finalizer_lib where
  "list_finalizers = \<lparr>fl_Contains = (\<lambda>fs f. f \<in> set fs), fl_Add = (\<lambda>f fs. if f \<in> set fs then fs else fs @ [f]),
     fl_Remove = removeAll\<rparr>"

interpretation listed_finalizers: finalizer_ops list_finalizers
  by unfold_locales (auto simp: list_finalizers_def)

end
