(* ===== verification/Status.thy ===== *)
theory Status
  imports Rollout Conditions
begin

text \<open>
  The status step of \<open>internal/controller/fscluster/status.go\<close>: what a pass observed and decided,
  written to the object, published as metrics and summarised as conditions. It runs in every
  pass, also one that was refused or failed.

  \<open>meta.SetStatusCondition\<close> is library code (\<open>e_SetStatusCondition\<close>); the locale
  \<open>condition_setter\<close> states what it documents and the step's lemmas rest on it.
\<close>

section \<open>Conditions\<close>

definition fmt_error :: string where "fmt_error = ''%v''"
definition fmt_completed :: string where "fmt_completed = ''Reconcile pass completed''"
definition fmt_all_ready :: string where "fmt_all_ready = ''All %d nodes are ready''"
definition fmt_some_ready :: string where "fmt_some_ready = ''%d of %d nodes are ready; waiting for %v''"
definition fmt_single_converged :: string where "fmt_single_converged = ''A single node has no layout to converge''"
definition fmt_converged :: string where
  "fmt_converged = ''Every node is up on the current layout and no data is moving''"
definition fmt_single_ready :: string where "fmt_single_ready = ''the cluster's only node is serving''"
definition fmt_single_not_ready :: string where "fmt_single_not_ready = ''the cluster's only node is not serving''"
definition fmt_no_layout_s3 :: string where
  "fmt_no_layout_s3 = ''no layout has been applied yet, so no node serves S3''"
definition fmt_quorum :: string where
  "fmt_quorum = ''%d of %d failure domains have a node down; writes need all but %d serving''"
definition fmt_exist :: string where "fmt_exist = ''%d of %d declared nodes exist''"
definition fmt_running :: string where "fmt_running = ''All %d declared nodes are running''"
definition fmt_template :: string where "fmt_template = ''%d of %d nodes run the desired pod template''"
definition fmt_config_sync :: string where "fmt_config_sync = ''Every node runs the desired configuration''"
definition fmt_config_pending :: string where
  "fmt_config_pending = ''%d of %d nodes have applied the desired configuration''"
definition fmt_update_status :: string where "fmt_update_status = ''update status''"

definition summarizeConvergence :: "pass \<Rightarrow> pass" where
  "summarizeConvergence p =
     (if hasCondition ConditionConverged p \<or> \<not> cv_known (p_convergence p) then p
      else if SingleNode (fsc_Spec (p_cluster p))
      then setCondition ConditionConverged ConditionTrue ReasonConverged (msg fmt_single_converged) p
      else if cv_converged (p_convergence p)
      then setCondition ConditionConverged ConditionTrue ReasonConverged (msg fmt_converged) p
      else if (case cv_layout (p_convergence p) of None \<Rightarrow> False | Some l \<Rightarrow> Transitioning l)
      then setCondition ConditionConverged ConditionFalse ReasonLayoutTransition (cv_waiting (p_convergence p)) p
      else setCondition ConditionConverged ConditionFalse ReasonLayoutPending (cv_waiting (p_convergence p)) p)"

definition tolerated :: "health \<Rightarrow> int" where
  "tolerated hl = (if DefaultLayoutWidth \<le> hl_domains hl then 1 else 0)"

definition summarizeReadiness :: "pass \<Rightarrow> pass" where
  "summarizeReadiness p =
     (if SingleNode (fsc_Spec (p_cluster p))
      then if hl_ready (p_health p) = 1
           then setCondition ConditionReady ConditionTrue ReasonQuorumAvailable (msg fmt_single_ready) p
           else setCondition ConditionReady ConditionFalse ReasonQuorumUnavailable (msg fmt_single_not_ready) p
      else if cv_layout (p_convergence p) = None
      then setCondition ConditionReady ConditionFalse ReasonLayoutPending (msg fmt_no_layout_s3) p
      else
        let t = tolerated (p_health p);
            m = Sprintf fmt_quorum [AD (hl_downDomains (p_health p)), AD (hl_domains (p_health p)), AD t]
        in if hl_downDomains (p_health p) \<le> t
           then setCondition ConditionReady ConditionTrue ReasonQuorumAvailable m p
           else setCondition ConditionReady ConditionFalse ReasonQuorumUnavailable m p)"

definition summarizeAlignment :: "pass \<Rightarrow> pass" where
  "summarizeAlignment p =
     (if p_desired p = None then p
      else
        let desired = st_Nodes (fsc_Status (p_object p));
            p1 = (if hasCondition ConditionClusterSizeAligned p then p
                  else if i32 (int (length (p_live p))) < desired
                  then setCondition ConditionClusterSizeAligned ConditionFalse ReasonScalingUp
                         (Sprintf fmt_exist [AD (int (length (p_live p))), AD desired]) p
                  else if hl_current (p_health p) = desired
                  then setCondition ConditionClusterSizeAligned ConditionTrue ReasonUpToDate
                         (Sprintf fmt_running [AD desired]) p
                  else setCondition ConditionClusterSizeAligned ConditionFalse ReasonRollingNodes
                         (Sprintf fmt_template [AD (hl_current (p_health p)), AD desired]) p)
        in if hl_configCurrent (p_health p) = desired
           then setCondition ConditionConfigurationInSync ConditionTrue ReasonUpToDate (msg fmt_config_sync) p1
           else setCondition ConditionConfigurationInSync ConditionFalse ReasonConfigReloadPending
                  (Sprintf fmt_config_pending [AD (hl_configCurrent (p_health p)), AD desired]) p1)"

definition summarize_health :: "pass \<Rightarrow> pass" where
  "summarize_health p =
     (let p1 = (case p_failure p of
            Some e \<Rightarrow> setCondition ConditionReconcileSucceeded ConditionFalse ReasonReconcileError
                       (Sprintf fmt_error [AE e]) p
          | None \<Rightarrow> setCondition ConditionReconcileSucceeded ConditionTrue ReasonReconcileFinished
                       (msg fmt_completed) p);
          desired = st_Nodes (fsc_Status (p_object p))
      in if length (hl_notReady (p_health p)) = 0
         then setCondition ConditionNodesHealthy ConditionTrue ReasonAllNodesReady
                (Sprintf fmt_all_ready [AD desired]) p1
         else setCondition ConditionNodesHealthy ConditionFalse ReasonNodesNotReady
                (Sprintf fmt_some_ready [AD (hl_ready (p_health p)), AD desired, AV (hl_notReady (p_health p))]) p1)"

definition summarize :: "pass \<Rightarrow> pass" where
  "summarize p = summarizeConvergence (summarizeAlignment (summarizeReadiness (summarize_health p)))"

section \<open>Writing the status\<close>

text \<open>The counter of up nodes, and the layout as the status has it (every conversion at its width).\<close>

definition up_nodes :: "pass \<Rightarrow> int32" where
  "up_nodes p = (if SingleNode (fsc_Spec (p_cluster p)) then hl_ready (p_health p)
     else fold (\<lambda>node n. if convergence_up (p_convergence p) (node_Name node) then i32 (n + 1) else n) (p_nodes p) 0)"

definition layout_status :: "Layout \<Rightarrow> LayoutStatus" where
  "layout_status l = \<lparr>ls_Version = i64 (uint (l_Version l)), ls_Members = i32 (int (length (l_Members l))),
     ls_Widths = map i32 (l_Widths l), ls_RetainedVersions = map (\<lambda>v. i64 (uint v)) (l_Retained l)\<rparr>"

definition new_status :: "pass \<Rightarrow> FSClusterStatus \<Rightarrow> FSClusterStatus" where
  "new_status p status =
     (let nodes = i32 (int (length (p_nodes p)));
          status1 = status\<lparr>st_ObservedGeneration := fsc_Generation (p_object p), st_Nodes := nodes,
            st_ReadyNodes := hl_ready (p_health p), st_Update := p_update p, st_UpNodes := up_nodes p,
            st_Layout := (case cv_layout (p_convergence p) of
                Some l \<Rightarrow> Some (layout_status l) | None \<Rightarrow> st_Layout status),
            st_Endpoints := Some \<lparr>ep_S3 = S3Endpoint (fsc_Name (p_cluster p)) (fsc_Namespace (p_cluster p))
                (svc_Port (s3_Service (spec_S3 (fsc_Spec (p_cluster p)))))
                (tls_SecretName (s3_TLS (spec_S3 (fsc_Spec (p_cluster p)))) \<noteq> [])\<rparr>\<rparr>
      in case p_configs p of
           None \<Rightarrow> status1
         | Some configs \<Rightarrow>
             (let revision = ConfigRevision configs
              in status1\<lparr>st_ConfigurationRevision := revision, st_StatefulSetRevision := p_templateRevision p,
                   st_UpdateRevision := revision,
                   st_CurrentRevision := (if hl_current (p_health p) = nodes then revision
                                          else st_CurrentRevision status)\<rparr>))"

text \<open>
  \<open>reconcileStatus\<close>. The patch decodes the API server's answer into the object, and what the metrics
  record is that answer. \<open>RecordUpdateFinished\<close> reads the clock.
\<close>

definition set_status :: "FSClusterStatus \<Rightarrow> pass \<Rightarrow> pass" where
  "set_status s p = p\<lparr>p_object := (p_object p)\<lparr>fsc_Status := s\<rparr>\<rparr>"

definition publish :: "Reconciler \<Rightarrow> pass \<Rightarrow> pass" where
  "publish R p = (let status = fsc_Status (p_object p)
     in set_status (status\<lparr>st_Conditions := fold (e_SetStatusCondition R) (p_conditions p) (st_Conditions status)\<rparr>) p)"

definition update_finished :: "Reconciler \<Rightarrow> FSCluster \<Rightarrow> pass \<Rightarrow> history \<Rightarrow> history" where
  "update_finished R base p h = (case st_Update (fsc_Status base) of
      None \<Rightarrow> h
    | Some u \<Rightarrow> (case us_StartedAt u of
        None \<Rightarrow> h
      | Some started \<Rightarrow>
          if p_update p = None
          then (case now R h of (t, h') \<Rightarrow> h' @ [CUpdateFinished (p_object p) (t - started)])
          else h))"

definition reconcileStatus :: "Reconciler \<Rightarrow> pass \<Rightarrow> history \<Rightarrow> step_result" where
  "reconcileStatus R p h =
     (let base = p_object p;
          p1 = publish R (summarize (set_status (new_status p (fsc_Status base)) p));
          h1 = h @ [CPatchStatus (p_object p1)]
      in case e_PatchStatus R h (p_object p1) of
           Inl e \<Rightarrow> (Inl (Wrap e fmt_update_status []), p1, h1)
         | Inr stored \<Rightarrow>
             (let p2 = p1\<lparr>p_object := stored\<rparr>;
                  h2 = update_finished R base p2 (h1 @ [CRecordCluster stored])
              in (Continue, p2, if p_failure p2 \<noteq> None then h2 @ [CReconcileError ''fscluster''] else h2)))"

section \<open>Facts\<close>

definition published :: "ConditionType \<Rightarrow> FSCluster \<Rightarrow> Condition option" where
  "published ct c = find (\<lambda>c. cond_Type c = ct) (st_Conditions (fsc_Status c))"

text \<open>The last condition of a type the pass has queued.\<close>

definition queued :: "ConditionType \<Rightarrow> pass \<Rightarrow> Condition option" where
  "queued ct p = find (\<lambda>c. cond_Type c = ct) (rev (p_conditions p))"

lemma queued_setCondition [simp]:
  "queued ct (setCondition ct' st r m p) = (if ct' = ct
     then Some \<lparr>cond_Type = ct, cond_Status = st, cond_Reason = r, cond_Message = m,
                cond_ObservedGeneration = fsc_Generation (p_object p)\<rparr>
     else queued ct p)"
  by (simp add: queued_def setCondition_def)

lemma queued_None: "queued ct p = None \<longleftrightarrow> \<not> hasCondition ct p"
  by (auto simp: queued_def hasCondition_def find_None_iff list_ex_iff)

lemma set_status_frame [simp]:
  "queued ct (set_status s p) = queued ct p" "hasCondition ct (set_status s p) = hasCondition ct p"
  "p_health (set_status s p) = p_health p" "p_convergence (set_status s p) = p_convergence p"
  "p_cluster (set_status s p) = p_cluster p" "p_desired (set_status s p) = p_desired p"
  "p_live (set_status s p) = p_live p" "p_failure (set_status s p) = p_failure p"
  "p_update (set_status s p) = p_update p" "p_nodes (set_status s p) = p_nodes p"
  "fsc_Generation (p_object (set_status s p)) = fsc_Generation (p_object p)"
  "fsc_Status (p_object (set_status s p)) = s"
  by (simp_all add: set_status_def queued_def hasCondition_def)

lemma summarize_health_frame [simp]:
  "p_health (summarize_health p) = p_health p" "p_convergence (summarize_health p) = p_convergence p"
  "p_cluster (summarize_health p) = p_cluster p" "p_object (summarize_health p) = p_object p"
  "p_desired (summarize_health p) = p_desired p" "p_live (summarize_health p) = p_live p"
  "p_failure (summarize_health p) = p_failure p" "p_update (summarize_health p) = p_update p"
  by (simp_all add: summarize_health_def Let_def split: option.split)

lemma summarizeReadiness_frame [simp]:
  "p_health (summarizeReadiness p) = p_health p" "p_convergence (summarizeReadiness p) = p_convergence p"
  "p_cluster (summarizeReadiness p) = p_cluster p" "p_object (summarizeReadiness p) = p_object p"
  "p_desired (summarizeReadiness p) = p_desired p" "p_live (summarizeReadiness p) = p_live p"
  "p_failure (summarizeReadiness p) = p_failure p" "p_update (summarizeReadiness p) = p_update p"
  by (simp_all add: summarizeReadiness_def Let_def)

lemma summarizeAlignment_frame [simp]:
  "p_health (summarizeAlignment p) = p_health p" "p_convergence (summarizeAlignment p) = p_convergence p"
  "p_cluster (summarizeAlignment p) = p_cluster p" "p_object (summarizeAlignment p) = p_object p"
  "p_failure (summarizeAlignment p) = p_failure p" "p_update (summarizeAlignment p) = p_update p"
  by (simp_all add: summarizeAlignment_def Let_def)

lemma summarizeConvergence_frame [simp]:
  "p_object (summarizeConvergence p) = p_object p" "p_failure (summarizeConvergence p) = p_failure p"
  "p_update (summarizeConvergence p) = p_update p" "p_cluster (summarizeConvergence p) = p_cluster p"
  by (simp_all add: summarizeConvergence_def)

lemma summarize_frame [simp]:
  "p_object (summarize p) = p_object p" "p_failure (summarize p) = p_failure p"
  "p_update (summarize p) = p_update p" "p_cluster (summarize p) = p_cluster p"
  by (simp_all add: summarize_def)

text \<open>Each summary queues its own types only.\<close>

lemma summaries_queue:
  "ct \<noteq> ConditionReconcileSucceeded \<Longrightarrow> ct \<noteq> ConditionNodesHealthy \<Longrightarrow> queued ct (summarize_health p) = queued ct p"
  "ct \<noteq> ConditionReady \<Longrightarrow> queued ct (summarizeReadiness p) = queued ct p"
  "ct \<noteq> ConditionClusterSizeAligned \<Longrightarrow> ct \<noteq> ConditionConfigurationInSync \<Longrightarrow> queued ct (summarizeAlignment p) = queued ct p"
  "ct \<noteq> ConditionConverged \<Longrightarrow> queued ct (summarizeConvergence p) = queued ct p"
  by (simp_all add: summarize_health_def summarizeReadiness_def summarizeAlignment_def summarizeConvergence_def Let_def
      split: option.split)

lemma queued_summarize:
  "queued ConditionReady (summarize p) = queued ConditionReady (summarizeReadiness (summarize_health p))"
  "queued ConditionConverged (summarize p) = queued ConditionConverged
     (summarizeConvergence (summarizeAlignment (summarizeReadiness (summarize_health p))))"
  "queued ConditionReconcileSucceeded (summarize p) = queued ConditionReconcileSucceeded (summarize_health p)"
  "queued ConditionNodesHealthy (summarize p) = queued ConditionNodesHealthy (summarize_health p)"
  "queued ConditionSpecValid (summarize p) = queued ConditionSpecValid p"
  by (simp_all add: summarize_def summaries_queue)

text \<open>The pass as it is when the status is sent, and the object that is sent.\<close>

definition status_pass :: "Reconciler \<Rightarrow> pass \<Rightarrow> pass" where
  "status_pass R p = publish R (summarize (set_status (new_status p (fsc_Status (p_object p))) p))"

lemma reconcileStatus_pass:
  assumes "reconcileStatus R p h = (out, p', h')"
  shows "\<exists>object. p' = (status_pass R p)\<lparr>p_object := object\<rparr>"
proof (cases "e_PatchStatus R h (p_object (status_pass R p))")
  case (Inl e)
  with assms have "p' = (status_pass R p)\<lparr>p_object := p_object (status_pass R p)\<rparr>"
    by (simp add: reconcileStatus_def status_pass_def Let_def)
  then show ?thesis by blast
next
  case (Inr stored)
  with assms have "p' = (status_pass R p)\<lparr>p_object := stored\<rparr>" by (auto simp: reconcileStatus_def status_pass_def Let_def)
  then show ?thesis by blast
qed

lemma update_finished_adds: "\<exists>rest. update_finished R base p h = h @ rest"
  by (simp add: update_finished_def now_def split: option.split)

lemma reconcileStatus_sends: "\<exists>rest. snd (snd (reconcileStatus R p h)) = h @ CPatchStatus (p_object (status_pass R p)) # rest"
proof (cases "e_PatchStatus R h (p_object (status_pass R p))")
  case (Inr stored)
  from update_finished_adds obtain rest where
    "update_finished R (p_object p) ((status_pass R p)\<lparr>p_object := stored\<rparr>) (h @ [CPatchStatus (p_object (status_pass R p)), CRecordCluster stored])
       = (h @ [CPatchStatus (p_object (status_pass R p)), CRecordCluster stored]) @ rest" by blast
  with Inr show ?thesis by (simp add: reconcileStatus_def status_pass_def Let_def)
qed (simp add: reconcileStatus_def status_pass_def Let_def)

lemma reconcileStatus_sent:
  assumes "reconcileStatus R p h = (out, p', h @ CPatchStatus sent # rest)"
  shows "sent = p_object (status_pass R p)"
  using reconcileStatus_sends [of R p h] assms by auto

lemma new_status_conditions [simp]: "st_Conditions (new_status p s) = st_Conditions s"
  by (simp add: new_status_def Let_def split: option.split)

lemma status_published:
  assumes "condition_setter (e_SetStatusCondition R)"
  shows "published ct (p_object (status_pass R p)) = (case queued ct (summarize (set_status (new_status p (fsc_Status (p_object p))) p)) of
      Some c \<Rightarrow> Some c | None \<Rightarrow> published ct (p_object p))"
  unfolding status_pass_def
  by (simp add: publish_def Let_def published_def queued_def condition_setter.fold_find [OF assms(1)]
      split: option.split)

fun status_call :: "call \<Rightarrow> bool" where
  "status_call (CPatchStatus c) = True"
| "status_call (CRecordCluster c) = True"
| "status_call (CUpdateFinished c t) = True"
| "status_call (CReconcileError s) = True"
| "status_call CNow = True"
| "status_call c = False"

lemma emits_reconcileStatus: "emits status_call h (snd (snd (reconcileStatus R p h)))"
proof -
  have u: "emits status_call h' (update_finished R base q h')" for base q h'
    by (simp add: update_finished_def now_def emits_def split: option.split)
  have one: "emits status_call h (h @ [CPatchStatus c])" for c by simp
  have two: "emits status_call h ((h @ [CPatchStatus c]) @ [CRecordCluster c'])" for c c' by (intro emits_snoc one) simp
  have three: "emits status_call h (update_finished R base q ((h @ [CPatchStatus c]) @ [CRecordCluster c']))" for base q c c'
    using two u by (rule emits_trans)
  have four: "emits status_call h (update_finished R base q ((h @ [CPatchStatus c]) @ [CRecordCluster c']) @ [CReconcileError s])"
    for base q c c' s
    using three by (intro emits_snoc) simp_all
  show ?thesis using one three four by (simp add: reconcileStatus_def Let_def split: sum.split)
qed

text \<open>What \<open>observe\<close> counts: the serving nodes, the failure domains, and the ones with a node down.\<close>

definition serving :: "(string, StatefulSet) gomap \<Rightarrow> Node \<Rightarrow> bool" where
  "serving live node \<longleftrightarrow> \<not> not_serving live node"

lemma observe_node_ready:
  "hl_ready (fst (observe_node spec live desired n (hl, ds, dn)))
     = (if not_serving live n then hl_ready hl else i32 (hl_ready hl + 1))"
  by (simp add: observe_node_def not_serving_def Let_def split: option.splits)

lemma observe_loop_ready:
  "0 \<le> hl_ready hl \<Longrightarrow> hl_ready hl + int (length ns) < 2 ^ 31 \<Longrightarrow>
   hl_ready (fst (fold (observe_node spec live desired) ns (hl, ds, dn)))
     = hl_ready hl + int (length (filter (serving live) ns))"
proof (induction ns arbitrary: hl ds dn)
  case (Cons n ns)
  obtain hl' ds' dn' where e: "observe_node spec live desired n (hl, ds, dn) = (hl', ds', dn')"
    by (cases "observe_node spec live desired n (hl, ds, dn)") auto
  have "i32 (hl_ready hl + 1) = hl_ready hl + 1" using Cons.prems by (intro i32_id) auto
  then have r: "hl_ready hl' = (if not_serving live n then hl_ready hl else hl_ready hl + 1)"
    using observe_node_ready [of spec live desired n hl ds dn] by (simp add: e)
  then have "0 \<le> hl_ready hl'" "hl_ready hl' + int (length ns) < 2 ^ 31" using Cons.prems by auto
  from Cons.IH [OF this, of ds' dn'] r show ?case by (simp add: e serving_def)
qed simp

definition down_domains :: "FSClusterSpec \<Rightarrow> (string, StatefulSet) gomap \<Rightarrow> Node list \<Rightarrow> string set" where
  "down_domains spec live nodes = domainOf spec ` {n \<in> set nodes. not_serving live n}"

lemma observe_health:
  assumes "observe R p h = (Inr out, p', h')" and "p_health p = zero_health" and "length (p_nodes p) < 2 ^ 31"
  shows "hl_ready (p_health p') = int (length (filter (serving (p_live p')) (p_nodes p)))
    \<and> hl_domains (p_health p') = int (card (domainOf (fsc_Spec (p_cluster p)) ` set (p_nodes p)))
    \<and> hl_downDomains (p_health p') = int (card (down_domains (fsc_Spec (p_cluster p)) (p_live p') (p_nodes p)))
    \<and> hl_notReady (p_health p') = map node_Name (filter (not_serving (p_live p')) (p_nodes p))
    \<and> p_nodes p' = p_nodes p \<and> p_cluster p' = p_cluster p"
proof -
  from assms(1) obtain ss where ss: "nodeSets R (p_cluster p) h = (Inr ss, h')"
    by (auto simp: observe_def Let_def split: prod.splits sum.splits)
  define live where "live = sets_by_name ss"
  define spec where "spec = fsc_Spec (p_cluster p)"
  obtain hl ds dn where f: "fold (observe_node spec live (revisions_by_name (p_sets p))) (p_nodes p) (zero_health, [], []) = (hl, ds, dn)"
    by (cases "fold (observe_node spec live (revisions_by_name (p_sets p))) (p_nodes p) (zero_health, [], [])") auto
  have p': "p' = p\<lparr>p_live := live, p_health := hl\<lparr>hl_domains := int (length ds), hl_downDomains := int (length dn)\<rparr>\<rparr>"
    using assms(1,2) ss f by (simp add: observe_def Let_def live_def spec_def Continue_def)
  have zero: "hl_ready zero_health = 0" "hl_notReady zero_health = []" by (simp_all add: zero_health_def)
  have "hl_ready hl = int (length (filter (serving live) (p_nodes p)))"
    using observe_loop_ready [of zero_health "p_nodes p" spec live "revisions_by_name (p_sets p)" "[]" "[]"] assms(3)
    by (simp add: f zero)
  moreover have "hl_notReady hl = map node_Name (filter (not_serving live) (p_nodes p))"
    "ds = fold List.insert (map (domainOf spec) (p_nodes p)) []"
    "dn = fold List.insert (map (domainOf spec) (filter (not_serving live) (p_nodes p))) []"
    using observe_loop [of spec live "revisions_by_name (p_sets p)" "p_nodes p" zero_health "[]" "[]"]
    by (simp_all add: f zero)
  ultimately show ?thesis
    by (simp add: p' spec_def down_domains_def zones_count image_def)
qed







lemma view_layout:
  assumes "clusterView R q node token g = (Inr view, g')"
  shows "cv_layout view \<noteq> None \<longleftrightarrow> (\<exists>client l. node_client R q node token = Inr client \<and> fst (admin_Layout R client g) = Inr l)"
  using assms by (auto simp: clusterView_def Let_def split: sum.splits prod.splits if_splits)

section \<open>Properties\<close>

text \<open>
  C16. The Ready condition tells whether a write can be acknowledged. Take a pass that listed the
  StatefulSets and, unless the cluster is a single node, got the cluster's view from one of the nodes. The status it
  sends has a Ready condition for its generation, which is True exactly when: for a single node, one node
  serves; otherwise, a layout exists, because the node asked answered with one or this pass applied one, and the
  nodes that do not serve all lie in one failure domain of at least three, or, with fewer than three
  domains, every node serves.
\<close>

theorem ready_means_quorum:
  assumes "condition_setter (e_SetStatusCondition R)"
    and "observe R p0 h0 = (Inr out0, p1, h1)" and "p_health p0 = zero_health" and "length (p_nodes p0) < 2 ^ 31"
    and "p_health p = (p_health p1)\<lparr>hl_configCurrent := k\<rparr>" and "p_cluster p = p_cluster p1"
    and "SingleNode (fsc_Spec (p_cluster p0)) \<or> clusterView R q node token g = (Inr view, g')
          \<and> cv_layout (p_convergence p) = (if p_layoutApplied p then Some new else cv_layout view)"
    and "reconcileStatus R p h = (out, p', h @ CPatchStatus sent # rest)"
  shows "\<exists>c. published ConditionReady sent = Some c
    \<and> cond_ObservedGeneration c = fsc_Generation (p_object p)
    \<and> (cond_Status c = ConditionTrue \<longleftrightarrow>
         (let spec = fsc_Spec (p_cluster p0); nodes = p_nodes p0; down = down_domains spec (p_live p1) nodes
          in if SingleNode spec then length (filter (serving (p_live p1)) nodes) = 1
             else (p_layoutApplied p \<or> (\<exists>client l. node_client R q node token = Inr client \<and> fst (admin_Layout R client g) = Inr l))
               \<and> (if 3 \<le> card (domainOf spec ` set nodes) then card down \<le> 1 else down = {})))"
proof -
  let ?q = "set_status (new_status p (fsc_Status (p_object p))) p"
  note obs = observe_health [OF assms(2-4)]
  let ?spec = "fsc_Spec (p_cluster p0)"
  have spec: "p_cluster p = p_cluster p0" using obs assms(6) by simp
  have fin: "finite (down_domains ?spec (p_live p1) (p_nodes p0))" by (simp add: down_domains_def)
  have health: "hl_ready (p_health p) = int (length (filter (serving (p_live p1)) (p_nodes p0)))"
    "hl_domains (p_health p) = int (card (domainOf ?spec ` set (p_nodes p0)))"
    "hl_downDomains (p_health p) = int (card (down_domains ?spec (p_live p1) (p_nodes p0)))"
    using obs assms(5) by simp_all
  have "\<exists>c. queued ConditionReady (summarize ?q) = Some c \<and> cond_ObservedGeneration c = fsc_Generation (p_object p)
      \<and> (cond_Status c = ConditionTrue \<longleftrightarrow> (if SingleNode (fsc_Spec (p_cluster p)) then hl_ready (p_health p) = 1
          else cv_layout (p_convergence p) \<noteq> None \<and> hl_downDomains (p_health p) \<le> tolerated (p_health p)))"
    by (simp add: queued_summarize summarizeReadiness_def Let_def)
  then obtain c where c: "queued ConditionReady (summarize ?q) = Some c"
    "cond_ObservedGeneration c = fsc_Generation (p_object p)"
    "cond_Status c = ConditionTrue \<longleftrightarrow> (if SingleNode (fsc_Spec (p_cluster p)) then hl_ready (p_health p) = 1
          else cv_layout (p_convergence p) \<noteq> None \<and> hl_downDomains (p_health p) \<le> tolerated (p_health p))" by blast
  have pub: "published ConditionReady sent = Some c"
    by (simp add: reconcileStatus_sent [OF assms(8)] status_published [OF assms(1)] c(1))
  have layout: "cv_layout (p_convergence p) \<noteq> None \<longleftrightarrow>
      p_layoutApplied p \<or> (\<exists>client l. node_client R q node token = Inr client \<and> fst (admin_Layout R client g) = Inr l)"
    if "\<not> SingleNode ?spec" using assms(7) that view_layout [of R q node token g view g'] by auto
  show ?thesis
  proof (cases "SingleNode ?spec")
    case True
    with pub c(2,3) show ?thesis unfolding Let_def spec health by auto
  next
    case False
    from layout [OF False] have "cv_layout (p_convergence p) = None \<longleftrightarrow>
      \<not> (p_layoutApplied p \<or> (\<exists>client l. node_client R q node token = Inr client \<and> fst (admin_Layout R client g) = Inr l))" by blast
    with pub c(2,3) fin False show ?thesis
      unfolding Let_def spec health tolerated_def DefaultLayoutWidth_def by auto
  qed
qed

text \<open>Two nodes of which one serves, and that one answers with a layout: two domains, so nothing may be down.\<close>

definition half_up_world :: Reconciler where
  "half_up_world = quiet [serving_set (config_cluster [] two_racks) (flat_node ''fs'' 0) ''sts-1''] (quiet_layout []) []"

definition observed_pass :: pass where
  "observed_pass = (fst (snd (observe half_up_world (two_nodes_pass (config_cluster [] two_racks)) [])))
     \<lparr>p_convergence := zero_convergence\<lparr>cv_known := True, cv_layout := Some (layoutFromAPI (quiet_layout []))\<rparr>\<rparr>"

lemma half_up_setter: "condition_setter (e_SetStatusCondition half_up_world)"
  by (simp add: half_up_world_def consing.condition_setter_axioms)

lemma half_up_live: "p_live (fst (snd (observe half_up_world (two_nodes_pass (config_cluster [] two_racks)) [])))
    = [(''fs-0'', serving_set (config_cluster [] two_racks) (flat_node ''fs'' 0) ''sts-1'')]"
  by (simp add: observe_def half_up_world_def nodeSets_def sets_by_name_def gm_put_def Let_def split: prod.split)

lemma two_racks_not_single: "\<not> SingleNode (fsc_Spec (config_cluster [] two_racks))"
  by (simp add: config_cluster_def sample_spec_def two_racks_def SingleNode_def TotalNodes_def)

theorem ready_means_quorum_witness:
  "\<exists>sent rest c. snd (snd (reconcileStatus half_up_world observed_pass [])) = CPatchStatus sent # rest
     \<and> published ConditionReady sent = Some c \<and> cond_Status c \<noteq> ConditionTrue"
proof -
  let ?p0 = "two_nodes_pass (config_cluster [] two_racks)" and ?node = "flat_node ''fs'' 0"
  let ?o = "observe half_up_world ?p0 []"
  have "fst ?o = Inr zero_outcome"
    by (simp add: observe_def half_up_world_def nodeSets_def Continue_def Let_def split: prod.split)
  then have o: "?o = (Inr zero_outcome, fst (snd ?o), snd (snd ?o))" by (metis triple_parts)
  let ?spec = "fsc_Spec (p_cluster ?p0)"
  have "card (domainOf ?spec ` set (p_nodes ?p0)) \<le> length (p_nodes ?p0)"
    by (metis List.finite_set card_image_le card_length le_trans)
  then have dom: "\<not> 3 \<le> card (domainOf ?spec ` set (p_nodes ?p0))" by (simp add: two_nodes_pass_def)
  have down: "down_domains ?spec (p_live (fst (snd ?o))) (p_nodes ?p0) \<noteq> {}"
    unfolding down_domains_def half_up_live
    by (auto simp: two_nodes_pass_def not_serving_def intro!: exI [of _ "flat_node ''fs'' 1"])
  obtain rest where sent: "snd (snd (reconcileStatus half_up_world observed_pass [])) = [] @ CPatchStatus (p_object (status_pass half_up_world observed_pass)) # rest"
    using reconcileStatus_sends by blast
  obtain out p' where run: "reconcileStatus half_up_world observed_pass []
      = (out, p', [] @ CPatchStatus (p_object (status_pass half_up_world observed_pass)) # rest)"
    using sent by (cases "reconcileStatus half_up_world observed_pass []") auto
  obtain view g' where view: "clusterView half_up_world ?p0 ?node ''t'' [] = (Inr view, g')" "cv_layout view = Some (layoutFromAPI (quiet_layout []))"
    by (simp add: clusterView_def half_up_world_def node_client_def adminClient_def fsclient_New_def admin_Layout_def client_Layout_def
        admin_Nodes_def client_Nodes_def Let_def)
  have single: "\<not> SingleNode ?spec" using two_racks_not_single by (simp add: two_nodes_pass_def)
  have start: "p_health ?p0 = zero_health" "length (p_nodes ?p0) < 2 ^ 31" by (simp_all add: two_nodes_pass_def)
  have now: "p_health observed_pass = (p_health (fst (snd ?o)))\<lparr>hl_configCurrent := hl_configCurrent (p_health (fst (snd ?o)))\<rparr>"
    "p_cluster observed_pass = p_cluster (fst (snd ?o))" by (simp_all add: observed_pass_def)
  have "p_layoutApplied (fst (snd ?o)) = p_layoutApplied ?p0" by (simp add: observe_def Let_def split: prod.split sum.split)
  then have lay: "SingleNode ?spec \<or> clusterView half_up_world ?p0 ?node ''t'' [] = (Inr view, g')
      \<and> cv_layout (p_convergence observed_pass) = (if p_layoutApplied observed_pass then Some undefined else cv_layout view)"
    using view by (simp add: observed_pass_def two_nodes_pass_def)
  from ready_means_quorum [OF half_up_setter o start now lay run] obtain c where
    c: "published ConditionReady (p_object (status_pass half_up_world observed_pass)) = Some c"
    "cond_Status c = ConditionTrue \<longrightarrow> down_domains ?spec (p_live (fst (snd ?o))) (p_nodes ?p0) = {}"
    unfolding Let_def using dom single by (elim exE conjE) auto
  with single sent down show ?thesis by auto
qed



text \<open>
  The other conditions on the object after a pass. ReconcileSucceeded is True exactly when
  no step failed. Converged is True only when the pass knew that the cluster had converged, or
  has a single node; when the pass learned nothing about the layout it stays what it was. A
  pass that got no desired state, such as a refused one, leaves ClusterSizeAligned and
  ConfigurationInSync as they were; otherwise ConfigurationInSync is True exactly when every
  node was verified to run its configuration.
\<close>

theorem status_conditions:
  assumes "condition_setter (e_SetStatusCondition R)" and "reconcileStatus R p h = (out, p', h @ CPatchStatus sent # rest)"
    and "\<not> hasCondition ConditionConverged p" and "\<not> hasCondition ConditionConfigurationInSync p"
    and "length (p_nodes p) < 2 ^ 31"
  shows "(\<exists>c. published ConditionReconcileSucceeded sent = Some c
        \<and> (cond_Status c = ConditionTrue \<longleftrightarrow> p_failure p = None))
    \<and> (cv_known (p_convergence p) \<longrightarrow> (\<exists>c. published ConditionConverged sent = Some c
        \<and> (cond_Status c = ConditionTrue \<longleftrightarrow> SingleNode (fsc_Spec (p_cluster p)) \<or> cv_converged (p_convergence p))))
    \<and> (\<not> cv_known (p_convergence p) \<longrightarrow> published ConditionConverged sent = published ConditionConverged (p_object p))
    \<and> (p_desired p = None \<longrightarrow>
         published ConditionConfigurationInSync sent = published ConditionConfigurationInSync (p_object p)
         \<and> (\<not> hasCondition ConditionClusterSizeAligned p \<longrightarrow>
             published ConditionClusterSizeAligned sent = published ConditionClusterSizeAligned (p_object p)))
    \<and> (p_desired p \<noteq> None \<longrightarrow> (\<exists>c. published ConditionConfigurationInSync sent = Some c
        \<and> (cond_Status c = ConditionTrue \<longleftrightarrow> hl_configCurrent (p_health p) = int (length (p_nodes p)))))"
proof -
  let ?q = "set_status (new_status p (fsc_Status (p_object p))) p"
  note pub = status_published [OF assms(1), of _ p, folded reconcileStatus_sent [OF assms(2)]]
  have nodes: "st_Nodes (new_status p s) = int (length (p_nodes p))" for s
    using assms(5) by (simp add: new_status_def Let_def i32_id split: option.split)
  have none: "queued ConditionConverged p = None" "queued ConditionConfigurationInSync p = None"
    using assms(3,4) by (simp_all add: queued_None)
  have has: "hasCondition ConditionConverged (summarizeAlignment (summarizeReadiness (summarize_health ?q))) = False"
    unfolding queued_None [symmetric] not_not [symmetric] using none(1) by (simp add: queued_None [symmetric] summaries_queue)
  let ?a = "summarizeReadiness (summarize_health ?q)"
  have succeeded: "\<exists>c. queued ConditionReconcileSucceeded (summarize ?q) = Some c
      \<and> (cond_Status c = ConditionTrue \<longleftrightarrow> p_failure p = None)"
    by (simp add: queued_summarize summarize_health_def Let_def split: option.split)
  have known: "\<exists>c. queued ConditionConverged (summarize ?q) = Some c
      \<and> (cond_Status c = ConditionTrue \<longleftrightarrow> SingleNode (fsc_Spec (p_cluster p)) \<or> cv_converged (p_convergence p))"
    if "cv_known (p_convergence p)"
    unfolding queued_summarize(2) summarizeConvergence_def has using that by simp
  have unknown: "queued ConditionConverged (summarize ?q) = None" if "\<not> cv_known (p_convergence p)"
    unfolding queued_summarize(2) using that none(1) by (simp add: summarizeConvergence_def summaries_queue)
  have sync: "queued ConditionConfigurationInSync (summarize ?q) = queued ConditionConfigurationInSync (summarizeAlignment ?a)"
    "queued ConditionClusterSizeAligned (summarize ?q) = queued ConditionClusterSizeAligned (summarizeAlignment ?a)"
    by (simp_all add: summarize_def summaries_queue)
  have refused: "queued ConditionConfigurationInSync (summarize ?q) = None"
    "queued ConditionClusterSizeAligned (summarize ?q) = queued ConditionClusterSizeAligned p" if "p_desired p = None"
    using that none(2) by (simp_all add: sync summarizeAlignment_def summaries_queue)
  have applied: "\<exists>c. queued ConditionConfigurationInSync (summarize ?q) = Some c
      \<and> (cond_Status c = ConditionTrue \<longleftrightarrow> hl_configCurrent (p_health p) = int (length (p_nodes p)))"
    if "p_desired p \<noteq> None"
    using that by (auto simp: sync summarizeAlignment_def Let_def nodes)
  have some: "queued ct (summarize ?q) = Some c \<Longrightarrow> published ct sent = Some c" for ct c
    by (simp add: pub)
  have same: "queued ct (summarize ?q) = None \<Longrightarrow> published ct sent = published ct (p_object p)" for ct
    by (simp add: pub)
  show ?thesis
    using succeeded known unknown refused applied some same queued_None by metis
qed

theorem status_conditions_witness:
  "\<exists>sent rest c. snd (snd (reconcileStatus half_up_world (two_nodes_pass (config_cluster [] two_racks)) [])) = CPatchStatus sent # rest
     \<and> published ConditionReconcileSucceeded sent = Some c \<and> cond_Status c = ConditionTrue"
proof -
  let ?p = "two_nodes_pass (config_cluster [] two_racks)"
  have p: "p_conditions ?p = []" "p_failure ?p = None" "length (p_nodes ?p) = 2" by (simp_all add: two_nodes_pass_def)
  then have no: "\<not> hasCondition ct ?p" for ct by (simp add: hasCondition_def)
  obtain rest where sent: "snd (snd (reconcileStatus half_up_world ?p [])) = [] @ CPatchStatus (p_object (status_pass half_up_world ?p)) # rest"
    using reconcileStatus_sends by blast
  then obtain out p' where "reconcileStatus half_up_world ?p [] = (out, p', [] @ CPatchStatus (p_object (status_pass half_up_world ?p)) # rest)"
    by (cases "reconcileStatus half_up_world ?p []") auto
  from status_conditions [OF half_up_setter this no no] p sent show ?thesis by auto
qed

end
