(* ===== verification/Step_Calls.thy ===== *)
theory Step_Calls
  imports Resource_Steps Reload Status
begin

text \<open>
  What every step of a pass may do to the world (\<open>step_call\<close>) and what it leaves of the pass: the
  facts the properties of a whole pass are put together from.
\<close>

section \<open>The calls of a pass\<close>

text \<open>The secrets the operator mints for a cluster: only those the spec does not bring along.\<close>

definition generated_names :: "FSCluster \<Rightarrow> string set" where
  "generated_names c =
     (if spec_ClusterSecretRef (fsc_Spec c) = None then {ClusterSecretName (fsc_Name c)} else {})
     \<union> (if auth_RootCredentialsSecretRef (spec_Auth (fsc_Spec c)) = None
        then {RootCredentialsSecretName (fsc_Name c)} else {})
     \<union> {AdminTokenSecretName (fsc_Name c)}"

text \<open>
  What only some steps may do: ask for the layout, apply one, delete a StatefulSet with its pod, and
  touch what runs (write or orphan a StatefulSet, delete a pod, resize a volume).
\<close>

datatype duty = Asks | Assigns | Removes | Touches

fun step_call :: "duty set \<Rightarrow> FSCluster \<Rightarrow> call \<Rightarrow> bool" where
  "step_call d c (CListSets ns sel) = (ns = fsc_Namespace c \<and> sel = SelectorLabels (fsc_Name c))"
| "step_call d c (CListKeys ns) = (ns = fsc_Namespace c)"
| "step_call d c (CGetSecret ns n) = (ns = fsc_Namespace c)"
| "step_call d c (CGetPVC ns n) = (ns = fsc_Namespace c)"
| "step_call d c (CGetCluster ns n) = False"
| "step_call d c (CApply owner obj) = (owner = fsc_Name c
     \<and> (kind_of obj = KindSecret \<longrightarrow> (\<exists>n. name_of obj = ConfigSecretName n))
     \<and> (kind_of obj = KindStatefulSet \<longrightarrow> Touches \<in> d))"
| "step_call d c (CCreate owner obj) = (owner = fsc_Name c \<and> kind_of obj = KindSecret
     \<and> namespace_of obj = fsc_Namespace c \<and> name_of obj \<in> generated_names c)"
| "step_call d c (CDelete k ns n orphan) = ((k = KindSecret \<longrightarrow> (\<exists>m. n = ConfigSecretName m))
     \<and> (k = KindStatefulSet \<and> \<not> orphan \<longrightarrow> Removes \<in> d)
     \<and> (k = KindPod \<or> k = KindStatefulSet \<and> orphan \<longrightarrow> Touches \<in> d))"
| "step_call d c (CUpdatePVC pvc) = (Touches \<in> d)"
| "step_call d c (CGetLayout u) = (Asks \<in> d)"
| "step_call d c (CApplyLayout u q) = (Assigns \<in> d)"
| "step_call d c (CForget ns n) = False"
| "step_call d c CPanic = False"
| "step_call d c call = True"

lemma step_call_apply:
  assumes "kind_of obj = KindSecret \<Longrightarrow> \<exists>n. name_of obj = ConfigSecretName n"
    and "kind_of obj = KindStatefulSet \<Longrightarrow> Touches \<in> d"
  shows "emits (step_call d c) h (snd (apply_object R c obj h))"
  using assms by (intro emits_apply) simp

section \<open>Validation, planning, rendering, observing\<close>

lemma emits_events: "(\<And>t r m. P (CEvent t r m)) \<Longrightarrow> emits P h (fold (\<lambda>w h. event t r w h) ws h)"
proof (induction ws arbitrary: h)
  case (Cons w ws)
  then have "emits P h (event t r w h)" by simp
  then show ?case using Cons emits_trans by fastforce
qed simp

lemma emits_validate: "emits (step_call d c) h (snd (snd (validate R p h)))"
  by (simp add: validate_def refuse_def Let_def emits_events split: option.split)

lemma emits_nodeSets: "emits (step_call d c) h (snd (nodeSets R c h))"
  by (simp add: nodeSets_def)

lemma emits_planDecommission: "emits (step_call d (p_cluster p)) h (snd (snd (planDecommission R p h)))"
proof -
  obtain r h' where n: "nodeSets R (p_cluster p) h = (r, h')" by (cases "nodeSets R (p_cluster p) h")
  with emits_nodeSets [of d "p_cluster p" h R] have h': "emits (step_call d (p_cluster p)) h h'" by simp
  then have "emits (step_call d (p_cluster p)) h (event t rs m h')" for t rs m by (simp add: emits_event_after)
  with h' show ?thesis by (simp add: planDecommission_def n Let_def split: sum.split option.split)
qed

lemma emits_observe: "emits (step_call d (p_cluster p)) h (snd (snd (observe R p h)))"
proof -
  obtain r h' where n: "nodeSets R (p_cluster p) h = (r, h')" by (cases "nodeSets R (p_cluster p) h")
  with emits_nodeSets [of d "p_cluster p" h R] have "emits (step_call d (p_cluster p)) h h'" by simp
  then show ?thesis by (simp add: observe_def n Let_def split: sum.split prod.split)
qed

lemma emits_collect_ns:
  "emits (\<lambda>c. \<exists>n. c = CGetSecret (fsc_Namespace cluster) n) h (snd (collect_loop R cluster items acc h))"
proof (induction items arbitrary: acc h)
  case (Cons ak items)
  let ?P = "\<lambda>c. \<exists>n. c = CGetSecret (fsc_Namespace cluster) n"
  let ?h = "h @ [CGetSecret (fsc_Namespace cluster) (AccessKeySecretSource ak)]"
  have one: "emits ?P h ?h" by simp
  then have "emits ?P h (snd (collect_loop R cluster items acc' ?h))" for acc'
    using Cons.IH emits_trans by blast
  with Cons.IH one show ?case by (simp add: get_secret_def split: sum.split option.split)
qed simp

lemma emits_render_step: "emits (step_call d (p_cluster p)) h (snd (snd (render R p h)))"
proof -
  let ?c = "p_cluster p"
  let ?h = "h @ [CListKeys (fsc_Namespace ?c)]"
  have one: "emits (step_call d ?c) h ?h" by simp
  have "emits (step_call d ?c) ?h (snd (collect_loop R ?c items [] ?h))" for items
    by (rule emits_mono [OF emits_collect_ns]) auto
  with one have loop: "emits (step_call d ?c) h (snd (collect_loop R ?c items [] ?h))" for items
    by (rule emits_trans)
  obtain r h' where c: "collectAccessKeys R ?c h = (r, h')" by (cases "collectAccessKeys R ?c h")
  have "emits (step_call d ?c) h h'"
  proof (cases "e_ListKeys R h (fsc_Namespace ?c)")
    case (Inl e)
    with c one show ?thesis by (auto simp: collectAccessKeys_def Let_def)
  next
    case (Inr items)
    with c have "h' = snd (collect_loop R ?c items [] ?h)"
      by (auto simp: collectAccessKeys_def Let_def split: prod.splits sum.splits)
    with loop show ?thesis by simp
  qed
  with c show ?thesis by (simp add: render_def Let_def split: sum.split prod.split)
qed

section \<open>Secrets and objects\<close>

lemma emits_generate:
  assumes "x \<in> set (generated c)"
  shows "emits (step_call d c) h (snd (generate_secret R c x h))"
proof (cases "fst x")
  case True
  then show ?thesis by (cases x) (simp add: generate_secret_def)
next
  case False
  obtain r h1 where b: "snd x R c h = (r, h1)" by (cases "snd x R c h")
  have e: "emits (step_call d c) h h1 \<and> (\<forall>s. r = Inr s \<longrightarrow> sec_Namespace s = fsc_Namespace c \<and> sec_Name s \<in> generated_names c)"
    using assms False b
    by (auto simp: generated_def build_cluster_secret_def build_admin_secret_def build_root_secret_def generated_names_def
        NewClusterSecret_def NewAdminTokenSecret_def NewRootCredentialsSecret_def newSecret_def Let_def emits_def
        split: sum.splits)
  have "emits (step_call d c) h1 (snd (createOnce R c (KSecret s) h1))" if "r = Inr s" for s
    using e that by (intro emits_createOnce) simp
  then have "emits (step_call d c) h (snd (createOnce R c (KSecret s) h1))" if "r = Inr s" for s
    using e that emits_trans by blast
  with b e False show ?thesis
    by (cases x; cases r) (auto simp: generate_secret_def)
qed

lemma emits_requireSecret:
  "emits (step_call d (p_cluster p)) h (snd (snd (requireSecret R name keys p h)))"
  "fst (snd (requireSecret R name keys p h)) = p\<lparr>p_conditions := p_conditions (fst (snd (requireSecret R name keys p h)))\<rparr>"
  by (auto simp: requireSecret_def get_secret_def refuse_def event_def emits_def setCondition_def
      split: sum.split option.split)

lemma emits_require_loop:
  "emits (step_call d (p_cluster p)) h (snd (snd (require_loop R refs p h)))
   \<and> (\<exists>cs. fst (snd (require_loop R refs p h)) = p\<lparr>p_conditions := cs\<rparr>)"
proof (induction refs arbitrary: p h)
  case Nil
  then show ?case by (auto intro: exI [of _ "p_conditions p"])
next
  case (Cons ref refs)
  obtain name keys where ref: "ref = (name, keys)" by (cases ref)
  obtain r p' h' where q: "requireSecret R name keys p h = (r, p', h')" by (cases "requireSecret R name keys p h")
  have 1: "emits (step_call d (p_cluster p)) h h'" and p': "p' = p\<lparr>p_conditions := p_conditions p'\<rparr>"
    using emits_requireSecret(1) [where d = d and p = p and h = h and R = R and name = name and keys = keys]
      emits_requireSecret(2) [where p = p and h = h and R = R and name = name and keys = keys] by (simp_all add: q)
  have c: "p_cluster p' = p_cluster p" by (subst p') simp
  from Cons.IH [of p' h'] obtain cs where 2: "emits (step_call d (p_cluster p)) h' (snd (snd (require_loop R refs p' h')))"
    and f: "fst (snd (require_loop R refs p' h')) = p'\<lparr>p_conditions := cs\<rparr>" unfolding c by blast
  have "p'\<lparr>p_conditions := cs\<rparr> = p\<lparr>p_conditions := cs\<rparr>" by (subst p') simp
  with f have f': "fst (snd (require_loop R refs p' h')) = p\<lparr>p_conditions := cs\<rparr>" by simp
  from 1 2 have 3: "emits (step_call d (p_cluster p)) h (snd (snd (require_loop R refs p' h')))" by (rule emits_trans)
  show ?case
  proof (cases r)
    case (Inl e)
    with 1 p' show ?thesis by (auto simp: ref q)
  next
    case (Inr out)
    with 1 3 p' f' show ?thesis by (auto simp: ref q)
  qed
qed

lemma emits_reconcileSecrets:
  "emits (step_call d (p_cluster p)) h (snd (snd (reconcileSecrets R p h)))
   \<and> (\<exists>cs. fst (snd (reconcileSecrets R p h)) = p\<lparr>p_conditions := cs\<rparr>)"
proof -
  obtain e h' where g: "each (generate_secret R (p_cluster p)) (generated (p_cluster p)) h = (e, h')"
    by (cases "each (generate_secret R (p_cluster p)) (generated (p_cluster p)) h")
  have 1: "emits (step_call d (p_cluster p)) h h'"
    using emits_each [of "generated (p_cluster p)" "step_call d (p_cluster p)" "generate_secret R (p_cluster p)" h]
      emits_generate by (simp add: g)
  show ?thesis
  proof (cases e)
    case None
    with g 1 emits_require_loop [of d p h' R "required (p_cluster p)"] show ?thesis
      by (auto simp: reconcileSecrets_def intro: emits_trans)
  next
    case (Some err)
    with g 1 show ?thesis by (auto simp: reconcileSecrets_def intro: exI [of _ "p_conditions p"])
  qed
qed

lemma emits_apply_all:
  assumes "\<And>obj. obj \<in> set objs \<Longrightarrow> kind_of obj = KindSecret \<Longrightarrow> \<exists>n. name_of obj = ConfigSecretName n"
    and "\<And>obj. obj \<in> set objs \<Longrightarrow> kind_of obj \<noteq> KindStatefulSet"
  shows "emits (step_call d (p_cluster p)) h (snd (snd (apply_all R objs p h))) \<and> fst (snd (apply_all R objs p h)) = p"
proof -
  have "emits (step_call d (p_cluster p)) h (snd (each (apply_object R (p_cluster p)) objs h))"
    by (intro emits_each step_call_apply) (use assms in blast)+
  then show ?thesis by (auto simp: apply_all_def split: prod.split option.split)
qed

lemma emits_delete_object:
  "kind_of obj \<notin> {KindSecret, KindStatefulSet, KindPod} \<Longrightarrow>
   emits (step_call d c) h (snd (snd (delete_object R obj p h))) \<and> fst (snd (delete_object R obj p h)) = p"
  using emits_delete_ok [of "step_call d c" "kind_of obj" "namespace_of obj" "name_of obj" False h R fmt_delete]
  by (auto simp: delete_object_def deleteIfExists_def split: prod.split option.split)

lemma emits_objects:
  "emits (step_call d (p_cluster p)) h (snd (snd (reconcileServices R p h))) \<and> fst (snd (reconcileServices R p h)) = p"
  "emits (step_call d (p_cluster p)) h (snd (snd (reconcileNodeConfigs R p h))) \<and> fst (snd (reconcileNodeConfigs R p h)) = p"
  "emits (step_call d (p_cluster p)) h (snd (snd (reconcileBudget R p h))) \<and> fst (snd (reconcileBudget R p h)) = p"
  "emits (step_call d (p_cluster p)) h (snd (snd (reconcileNetworkPolicy R p h))) \<and> fst (snd (reconcileNetworkPolicy R p h)) = p"
  unfolding reconcileServices_def reconcileNodeConfigs_def reconcileBudget_def reconcileNetworkPolicy_def Let_def
  by (intro emits_apply_all; force simp: NewNodeConfigSecret_def)+
    (use emits_apply_all [of "[KNetworkPolicy (NewNetworkPolicy (p_cluster p) (r_OperatorNamespace R))]" d p h R]
      in \<open>simp add: emits_delete_object\<close>)

lemma emits_reconcilePodMonitor:
  "emits (step_call d (p_cluster p)) h (snd (snd (reconcilePodMonitor R p h))) \<and> fst (snd (reconcilePodMonitor R p h)) = p"
proof -
  let ?h = "h @ [CRESTMapping]"
  have one: "emits (step_call d (p_cluster p)) h ?h" by simp
  have "emits (step_call d (p_cluster p)) ?h (snd (snd (delete_object R (KPodMonitor m) p ?h)))"
    "emits (step_call d (p_cluster p)) ?h (snd (snd (apply_all R [KPodMonitor m] p ?h)))"
    "fst (snd (delete_object R (KPodMonitor m) p ?h)) = p" "fst (snd (apply_all R [KPodMonitor m] p ?h)) = p" for m
    using emits_delete_object [of "KPodMonitor m" d "p_cluster p" ?h R p] emits_apply_all [of "[KPodMonitor m]" d p ?h R]
    by simp_all
  note del = emits_trans [OF one this(1)] this(3) and app = emits_trans [OF one this(2)] this(4)
  show ?thesis
    using one del app
    by (simp add: reconcilePodMonitor_def podMonitorAvailable_def Let_def emits_event_after split: bool.split)
qed

section \<open>Convergence, storage, nodes\<close>

lemma emits_gather_loop_ns:
  assumes "Asks \<in> d"
  shows "emits (step_call d (p_cluster p)) h (snd (gather_loop R p token ns h))"
proof (induction ns arbitrary: h)
  case (Cons n ns)
  obtain r h1 where c: "clusterView R p n token h = (r, h1)" by (cases "clusterView R p n token h")
  have 1: "emits (step_call d (p_cluster p)) h h1"
  proof (cases "node_client R p n token")
    case (Inl e)
    with c show ?thesis by (simp add: clusterView_def)
  next
    case (Inr cl)
    have "emits (step_call d (p_cluster p)) h (h @ [CGetLayout u])" for u using assms by simp
    moreover have "emits (step_call d (p_cluster p)) h (h @ [CGetLayout u, CListNodes u])" for u using assms by (simp add: emits_def)
    ultimately show ?thesis using c
      by (auto simp: clusterView_def Inr admin_Layout_def admin_Nodes_def Let_def split: sum.splits if_splits)
  qed
  moreover have "emits (step_call d (p_cluster p)) h1 (snd (gather_loop R p token ns h1))" by (rule Cons.IH)
  ultimately have "emits (step_call d (p_cluster p)) h (snd (gather_loop R p token ns h1))" by (rule emits_trans)
  with 1 show ?case by (simp add: c split: sum.split prod.split)
qed simp

lemma emits_gather_step:
  assumes "Asks \<in> d"
  shows "emits (step_call d (p_cluster p)) h (snd (snd (gatherConvergence R p h)))"
proof -
  obtain t h1 where t: "adminToken R p h = (t, h1)" by (cases "adminToken R p h")
  have 1: "emits (step_call d (p_cluster p)) h h1" using emits_adminToken [of "step_call d (p_cluster p)" p h R] by (simp add: t)
  have "emits (step_call d (p_cluster p)) h (snd (gather_loop R p token ns h1))" for token ns
    using 1 emits_gather_loop_ns [OF assms] by (rule emits_trans)
  with 1 show ?thesis by (auto simp: gatherConvergence_def t split: sum.split prod.split)
qed

lemma emits_storage_step:
  assumes "reconcileStorage R p h = Some (out, p', h')" and "Touches \<in> d"
  shows "emits (step_call d (p_cluster p)) h h'"
proof -
  from reconcileStorage_calls [OF assms(1)] obtain cs where cs: "h' = h @ cs" "list_all (storage_call R p) cs" by blast
  have "step_call d (p_cluster p) c" if "storage_call R p c" for c
    using that assms(2) by (cases c) auto
  with cs show ?thesis by (auto simp: emits_def list_all_iff)
qed

lemma emits_classify:
  assumes "Touches \<in> d"
  shows "emits (step_call d (p_cluster p)) h (snd (classify R p h))"
proof -
  have loop: "emits (step_call d (p_cluster p)) h (snd (classify_loop R p ss h n st))" for ss h n st
  proof (induction ss arbitrary: h n st)
    case (Cons s ss)
    obtain e h1 where a: "apply_object R (p_cluster p) (KStatefulSet s) h = (e, h1)"
      by (cases "apply_object R (p_cluster p) (KStatefulSet s) h")
    have 1: "emits (step_call d (p_cluster p)) h h1"
      using step_call_apply [of "KStatefulSet s" d "p_cluster p" h R] assms by (simp add: a)
    then have "emits (step_call d (p_cluster p)) h (snd (classify_loop R p ss h1 n st))" for n st
      using Cons.IH emits_trans by blast
    with 1 Cons.IH show ?case by (simp add: a split: option.split)
  qed simp
  show ?thesis using loop [where ss = "p_sets p" and h = h and n = 0 and st = "[]"]
    by (auto simp: classify_def split: prod.split sum.split)
qed

lemma emits_roll:
  assumes "Touches \<in> d"
  shows "emits (step_call d (p_cluster p)) h (snd (snd (roll R stale p h)))"
proof (cases stale)
  case Nil
  then show ?thesis by (simp add: roll_def)
next
  case (Cons nxt rest)
  let ?P = "step_call d (p_cluster p)"
  obtain phase hn where ph: "hold_phase p = (phase, hn)" by (cases "hold_phase p")
  have held: "emits ?P h (snd (snd (hold R phase hn m p h)))" for m
    by (rule emits_hold) simp_all
  have one: "emits ?P h (snd (apply_object R (p_cluster p) (KStatefulSet s) h))" for s h
    by (rule step_call_apply) (simp_all add: assms)
  have rep: "emits ?P h (snd (replace_down R p s h))" for s h
    using one [of h s] by (auto simp: replace_down_def emits_event_after split: prod.split option.split)
  show ?thesis
  proof (cases "downSets stale (hl_notReady (p_health p))")
    case d: (Cons d ds)
    obtain e h1 where e: "each (replace_down R p) (d # ds) h = (e, h1)" by (cases "each (replace_down R p) (d # ds) h")
    have "emits ?P h (snd (each (replace_down R p) (d # ds) h))" by (rule emits_each) (rule rep)
    then have "emits ?P h h1" by (simp only: e snd_conv)
    then show ?thesis using Cons ph d e
      by (auto simp: roll_def Let_def now_def simp del: each.simps intro!: emits_snoc split: option.split)
  next
    case Nil
    obtain e h1 where a: "apply_object R (p_cluster p) (KStatefulSet nxt) h = (e, h1)"
      by (cases "apply_object R (p_cluster p) (KStatefulSet nxt) h")
    have "emits ?P h h1" using one [of h nxt] by (simp add: a)
    then show ?thesis using Cons ph Nil a held
      by (auto simp: roll_def Let_def now_def intro!: emits_snoc emits_event_after split: option.split)
  qed
qed

lemma emits_reconcileNodes:
  assumes "Touches \<in> d"
  shows "emits (step_call d (p_cluster p)) h (snd (snd (reconcileNodes R p h)))"
proof -
  let ?P = "step_call d (p_cluster p)"
  obtain r h1 where c: "classify R p h = (r, h1)" by (cases "classify R p h")
  have 1: "emits ?P h h1" using emits_classify [OF assms, of p h R] by (simp add: c)
  have roll: "emits ?P h (snd (snd (roll R st p h2)))" if "emits ?P h h2" for st h2
    using that emits_roll [OF assms] by (rule emits_trans)
  have "emits ?P h (event t rs m h1)" for t rs m using 1 by (simp add: emits_event_after)
  with 1 roll show ?thesis by (simp add: reconcileNodes_def c split: sum.split prod.split)
qed

section \<open>Layout, removal, reload, status\<close>

lemma emits_apply_loop:
  assumes "Assigns \<in> d"
  shows "emits (step_call d c) h (snd (apply_loop R p roles widths token ns final h))"
proof (induction ns arbitrary: final h)
  case (Cons n ns)
  show ?case
  proof (cases "node_client R p n token")
    case (Inl e)
    then show ?thesis by simp
  next
    case (Inr cl)
    let ?h = "h @ [CApplyLayout (cl_baseURL cl) (applyLayoutRequest roles widths)]"
    have 1: "emits (step_call d c) h ?h" using assms by simp
    then have "emits (step_call d c) h (snd (apply_loop R p roles widths token ns f ?h))" for f
      using Cons.IH emits_trans by blast
    with 1 Inr show ?thesis by (simp add: admin_ApplyLayout_def Let_def split: sum.split)
  qed
qed simp

lemma emits_reconcileLayout:
  assumes "Assigns \<in> d"
  shows "emits (step_call d (p_cluster p)) h (snd (snd (reconcileLayout R p h)))"
proof -
  let ?P = "step_call d (p_cluster p)" and ?roles = "desiredRoles p" and ?widths = "desiredWidths (fsc_Spec (p_cluster p))"
  obtain t h1 where t: "adminToken R p h = (t, h1)" by (cases "adminToken R p h")
  have 1: "emits ?P h h1" using emits_adminToken [of ?P p h R] by (simp add: t)
  show ?thesis
  proof (cases t)
    case (Inl e)
    with t 1 show ?thesis
      by (simp add: reconcileLayout_def holdLayout_def Let_def split: option.split)
  next
    case (Inr token)
    obtain r h2 where a: "applyLayout R p ?roles ?widths token h1 = (r, h2)" by (cases "applyLayout R p ?roles ?widths token h1")
    have "emits ?P h1 (snd (applyLayout R p ?roles ?widths token h1))"
      unfolding applyLayout_def by (rule emits_apply_loop [OF assms])
    with 1 a have 2: "emits ?P h h2" by (auto intro: emits_trans)
    then have "emits ?P h (event ty rs m h2)" for ty rs m by (simp add: emits_event_after)
    with t Inr a 2 show ?thesis
      by (simp add: reconcileLayout_def holdLayout_def Let_def split: option.split sum.split)
  qed
qed

lemma emits_removeNode:
  assumes "Removes \<in> d"
  shows "emits (step_call d c) h (snd (remove_one R p l name h))"
proof (cases "gm_get (p_decommission p) name")
  case None
  then show ?thesis by (simp add: remove_one_def)
next
  case (Some s)
  obtain e1 h1 where 1: "delete_ok R KindStatefulSet (set_Namespace s) (set_Name s) False fmt_delete_set h = (e1, h1)"
    by (cases "delete_ok R KindStatefulSet (set_Namespace s) (set_Name s) False fmt_delete_set h")
  obtain e2 h2 where 2: "delete_ok R KindSecret (fsc_Namespace (p_cluster p)) (ConfigSecretName (set_Name s)) False fmt_delete_config h1 = (e2, h2)"
    by (cases "delete_ok R KindSecret (fsc_Namespace (p_cluster p)) (ConfigSecretName (set_Name s)) False fmt_delete_config h1")
  have p1: "emits (step_call d c) h h1"
    using emits_delete_ok [of "step_call d c" KindStatefulSet "set_Namespace s" "set_Name s" False h R fmt_delete_set] assms by (simp add: 1)
  have "emits (step_call d c) h1 h2"
    using emits_delete_ok [of "step_call d c" KindSecret "fsc_Namespace (p_cluster p)" "ConfigSecretName (set_Name s)" False h1 R fmt_delete_config]
    by (auto simp: 2)
  with p1 have p2: "emits (step_call d c) h h2" by (rule emits_trans)
  with p1 show ?thesis
    by (auto simp: remove_one_def Some removeNode_def 1 2 intro!: emits_event_after split: option.split)
qed

lemma emits_reconcileDecommission:
  assumes "Removes \<in> d"
  shows "emits (step_call d (p_cluster p)) h (snd (snd (reconcileDecommission R p h)))"
proof -
  let ?P = "step_call d (p_cluster p)"
  have "emits ?P h (snd (snd (holdDrain R names m p h)))" for names m
    unfolding holdDrain_def by (rule emits_hold) simp_all
  moreover have "emits ?P h h'" if "each (remove_one R p l) names h = (e, h')" for l names e h'
    using emits_each [of names ?P "remove_one R p l" h] emits_removeNode [OF assms] that by simp
  ultimately show ?thesis
    by (auto simp: reconcileDecommission_def Let_def split: option.split prod.split)
qed

lemma emits_reload_step:
  assumes "reconcileReload R p h = Some (out, p', h')"
  shows "emits (step_call d (p_cluster p)) h h'"
proof -
  let ?P = "step_call d (p_cluster p)"
  obtain t h1 where t: "adminToken R p h = (t, h1)" by (cases "adminToken R p h")
  have 1: "emits ?P h h1" using emits_adminToken [of ?P p h R] by (simp add: t)
  show ?thesis
  proof (cases t)
    case (Inl e)
    with t assms 1 show ?thesis by (auto simp: reconcileReload_def)
  next
    case (Inr token)
    have loop: "emits ?P h1 h2" if "reload_loop R p token ns i n b h1 = Some (r, h2)" for ns i n b r h2
    proof -
      have "emits (\<lambda>c. reload_call c \<and> (\<forall>ns n. c \<noteq> CGetSecret ns n)) h1 h2"
        using that
      proof (induction ns arbitrary: i n b h1)
        case (Cons node ns)
        then obtain ok w h3 where r: "reloadNode R p i node token h1 = Some ((ok, w), h3)"
          and l: "reload_loop R p token ns (i + 1) (if ok then i32 (n + 1) else n) (b \<or> w) h3 = Some (r, h2)"
          by (auto split: option.splits prod.splits)
        have "emits (\<lambda>c. reload_call c \<and> (\<forall>ns n. c \<noteq> CGetSecret ns n)) h1 h3"
          using r by (auto simp: reloadNode_def admin_Info_def admin_Reload_def event_def emits_def Let_def
              split: option.splits sum.splits if_splits)
        with Cons.IH [OF l] show ?case by (blast intro: emits_trans)
      qed simp
      moreover have "?P c" if "reload_call c" "\<forall>ns n. c \<noteq> CGetSecret ns n" for c
        using that by (cases c) auto
      ultimately show ?thesis by (auto elim: emits_mono)
    qed
    with t assms Inr 1 show ?thesis
      by (auto simp: reconcileReload_def Let_def intro: emits_trans split: option.splits)
  qed
qed

lemma emits_status_step: "emits (step_call d c) h (snd (snd (reconcileStatus R p h)))"
proof -
  have "step_call d c x" if "status_call x" for x using that by (cases x) auto
  then show ?thesis using emits_reconcileStatus by (rule emits_mono [rotated])
qed

section \<open>What a step leaves of the pass\<close>

text \<open>The part of the pass the gates read.\<close>

definition same_core :: "pass \<Rightarrow> pass \<Rightarrow> bool" where
  "same_core p p' \<longleftrightarrow> p_cluster p' = p_cluster p \<and> p_nodes p' = p_nodes p \<and> p_decommission p' = p_decommission p
     \<and> p_desired p' = p_desired p \<and> p_live p' = p_live p \<and> p_convergence p' = p_convergence p
     \<and> p_layoutApplied p' = p_layoutApplied p \<and> hl_notReady (p_health p') = hl_notReady (p_health p)"

lemma same_core_refl [simp]: "same_core p p"
  by (simp add: same_core_def)

lemma same_core_conditions [simp]: "same_core p (p\<lparr>p_conditions := cs\<rparr>)"
  by (simp add: same_core_def)

lemma same_core_hold: "same_core p (fst (snd (hold R phase subject reason p h)))"
  by (simp add: hold_def now_def Let_def same_core_def setCondition_def split: option.split)

lemma same_core_validate: "same_core p (fst (snd (validate R p h)))"
  by (simp add: validate_def refuse_def Let_def setCondition_def split: option.split)

lemma same_core_storage: "reconcileStorage R p h = Some (out, p', h') \<Longrightarrow> same_core p p'"
  using reconcileStorage_frame same_core_conditions by metis

lemma same_core_secrets: "same_core p (fst (snd (reconcileSecrets R p h)))"
  using emits_reconcileSecrets [of UNIV p h R] same_core_conditions by metis

lemma same_core_nodes: "same_core p (fst (snd (reconcileNodes R p h)))"
proof -
  have u: "same_core p (p\<lparr>p_update := u\<rparr>)" for u by (simp add: same_core_def)
  have "same_core p (fst (snd (roll R st p h)))" for st h
    using u same_core_hold [of p R]
    by (auto simp: roll_def Let_def now_def split: list.split prod.split option.split)
  then show ?thesis by (auto simp: reconcileNodes_def split: prod.split sum.split)
qed

lemma same_core_drain: "same_core p (fst (snd (reconcileDecommission R p h)))"
proof -
  have "same_core p (fst (snd (holdDrain R names m p h)))" for names m
    using same_core_hold [of "setCondition ConditionClusterSizeAligned ConditionFalse ReasonDraining m p" R]
    by (simp add: holdDrain_def same_core_def)
  then show ?thesis by (auto simp: reconcileDecommission_def Let_def split: option.split prod.split)
qed

lemma same_core_reload: "reconcileReload R p h = Some (out, p', h') \<Longrightarrow> same_core p p'"
proof -
  assume "reconcileReload R p h = Some (out, p', h')"
  from reconcileReload_frame [OF this] obtain k where "p' = p\<lparr>p_health := (p_health p)\<lparr>hl_configCurrent := k\<rparr>\<rparr>" by blast
  then show ?thesis by (simp add: same_core_def)
qed

lemma same_core_status: "same_core p (fst (snd (reconcileStatus R p h)))"
proof -
  obtain out p' h' where r: "reconcileStatus R p h = (out, p', h')" by (cases "reconcileStatus R p h")
  have "same_core q (setCondition ct st rs m q)" for q ct st rs m by (simp add: same_core_def)
  then have "same_core q (summarize_health q) \<and> same_core q (summarizeReadiness q) \<and> same_core q (summarizeAlignment q)
      \<and> same_core q (summarizeConvergence q)" for q
    by (simp add: summarize_health_def summarizeReadiness_def summarizeAlignment_def summarizeConvergence_def Let_def
        same_core_def split: option.split)
  then have "same_core q (summarize q)" for q unfolding summarize_def same_core_def by metis
  moreover have "same_core q (set_status s q)" "same_core q (publish R q)" for q s
    by (simp_all add: same_core_def set_status_def publish_def Let_def)
  ultimately have "same_core p (status_pass R p)" unfolding status_pass_def same_core_def by metis
  moreover from reconcileStatus_pass [OF r] obtain object where "p' = (status_pass R p)\<lparr>p_object := object\<rparr>" by blast
  ultimately show ?thesis by (simp add: r same_core_def)
qed

end
