(* ===== verification/Controller.thy ===== *)
theory Controller
  imports Step_Calls
begin

text \<open>
  The FSCluster controller of \<open>internal/controller/fscluster/controller.go\<close>: the pipeline a pass
  runs, \<open>Reconcile\<close>, and what holds of every pass, whatever the API server, the nodes, the clock
  and the random source answer.
\<close>

section \<open>The pipeline\<close>

definition resyncInterval :: Duration where "resyncInterval = 5 * 60 * 1000000000"

text \<open>The state of a pass: what the steps share, and the world.\<close>

type_synonym world = "pass \<times> history"

definition step_of :: "(pass \<Rightarrow> history \<Rightarrow> step_result) \<Rightarrow> world \<Rightarrow> Outcome result \<times> world" where
  "step_of f = (\<lambda>(p, h). case f p h of (out, p', h') \<Rightarrow> (out, p', h'))"

text \<open>
  A step that panics ends the pass: \<open>or_panic\<close> marks the panic in the history, and \<open>Reconcile\<close>
  does not return once it is there, so what the runner does after it is never seen.
\<close>

definition fmt_panic :: string where "fmt_panic = ''runtime error''"

definition or_panic :: "(pass \<Rightarrow> history \<Rightarrow> step_result option) \<Rightarrow> pass \<Rightarrow> history \<Rightarrow> step_result" where
  "or_panic f p h = (case f p h of Some r \<Rightarrow> r | None \<Rightarrow> (Inl (NewError fmt_panic []), p, h @ [CPanic]))"

definition mk_step :: "string \<Rightarrow> bool \<Rightarrow> (pass \<Rightarrow> history \<Rightarrow> step_result) \<Rightarrow> world Step" where
  "mk_step name always f = \<lparr>step_Name = name, step_AlwaysRun = always, step_Run = step_of f\<rparr>"

definition pipeline :: "Reconciler \<Rightarrow> world Step list" where
  "pipeline R =
     [mk_step ''validate'' False (validate R),
      mk_step ''decommission'' False (planDecommission R),
      mk_step ''render'' False (render R),
      mk_step ''observe'' True (observe R),
      mk_step ''secrets'' False (reconcileSecrets R),
      mk_step ''services'' False (reconcileServices R),
      mk_step ''configs'' False (reconcileNodeConfigs R),
      mk_step ''convergence'' False (gatherConvergence R),
      mk_step ''storage'' False (or_panic (reconcileStorage R)),
      mk_step ''nodes'' False (reconcileNodes R),
      mk_step ''layout'' False (reconcileLayout R),
      mk_step ''drain'' False (reconcileDecommission R),
      mk_step ''reload'' False (or_panic (reconcileReload R)),
      mk_step ''budget'' False (reconcileBudget R),
      mk_step ''networkpolicy'' False (reconcileNetworkPolicy R),
      mk_step ''podmonitor'' False (reconcilePodMonitor R),
      mk_step ''status'' True (reconcileStatus R)]"

definition record_pass :: "(error \<Rightarrow> world \<Rightarrow> world) option" where
  "record_pass = Some (\<lambda>e (p, h). (RecordFailure e p, h))"

section \<open>Reconcile\<close>

text \<open>
  \<open>Reconcile\<close>: \<open>None\<close> is a panic, of \<open>newPass\<close> on a topology with neither nodes nor racks or of
  a step of the pipeline.
\<close>

definition panicked :: "history \<Rightarrow> history \<Rightarrow> bool" where
  "panicked h h' \<longleftrightarrow> CPanic \<in> set (drop (length h) h')"

definition Reconcile ::
    "Reconciler \<Rightarrow> string \<Rightarrow> string \<Rightarrow> history \<Rightarrow> ((Result \<times> error option) \<times> history) option" where
  "Reconcile R ns name h =
     (let h1 = h @ [CGetCluster ns name]
      in case e_GetCluster R h ns name of
           Inl e \<Rightarrow>
             Some ((\<lparr>res_RequeueAfter = 0\<rparr>, ignoreNotFound e),
                   if isNotFound e then h1 @ [CForget ns name] else h1)
         | Inr object \<Rightarrow>
             if fsc_DeletionTimestamp object \<noteq> None
             then Some ((\<lparr>res_RequeueAfter = 0\<rparr>, None),
                        h1 @ [CForget (fsc_Namespace object) (fsc_Name object)])
             else (case newPass object (r_FSImageRegistry R) of
                     None \<Rightarrow> None
                   | Some p \<Rightarrow>
                       (case pipeline_Run record_pass (pipeline R) (p, h1) of
                          ((result, err), (p', h')) \<Rightarrow>
                            if panicked h1 h' then None
                            else Some ((if res_RequeueAfter result = 0 \<and> err = None
                                        then \<lparr>res_RequeueAfter = resyncInterval\<rparr> else result, err), h'))))"

definition accessKeyToCluster :: "FSAccessKey \<Rightarrow> (string \<times> string) list" where
  "accessKeyToCluster key =
     (if aks_ClusterRef (ak_Spec key) = [] then [] else [(ak_Namespace key, aks_ClusterRef (ak_Spec key))])"

lemma panicked_append [simp]: "panicked h (h @ cs) \<longleftrightarrow> CPanic \<in> set cs"
  by (simp add: panicked_def)

lemma emits_panicked: "emits P h h' \<Longrightarrow> \<not> P CPanic \<Longrightarrow> \<not> panicked h h'"
  by (auto simp: emits_def list_all_iff)

lemma Reconcile_live:
  assumes "e_GetCluster R h ns name = Inr object" "fsc_DeletionTimestamp object = None"
    "newPass object (r_FSImageRegistry R) = Some p"
    "pipeline_Run record_pass (pipeline R) (p, h @ [CGetCluster ns name]) = ((result, err), (p', h'))"
  shows "Reconcile R ns name h = (if panicked (h @ [CGetCluster ns name]) h' then None
    else Some ((if res_RequeueAfter result = 0 \<and> err = None then \<lparr>res_RequeueAfter = resyncInterval\<rparr> else result, err), h'))"
  using assms by (simp add: Reconcile_def)

lemma Reconcile_ran:
  assumes "Reconcile R ns name h = Some (res, h')" "e_GetCluster R h ns name = Inr object" "fsc_DeletionTimestamp object = None"
  obtains p r e p' where "newPass object (r_FSImageRegistry R) = Some p"
    "pipeline_Run record_pass (pipeline R) (p, h @ [CGetCluster ns name]) = ((r, e), (p', h'))"
    "\<not> panicked (h @ [CGetCluster ns name]) h'"
    "res = (if res_RequeueAfter r = 0 \<and> e = None then \<lparr>res_RequeueAfter = resyncInterval\<rparr> else r, e)"
proof -
  let ?h = "h @ [CGetCluster ns name]"
  from assms have "newPass object (r_FSImageRegistry R) \<noteq> None" by (intro notI) (simp add: Reconcile_def Let_def)
  then obtain p where p: "newPass object (r_FSImageRegistry R) = Some p" by blast
  obtain r e p' h2 where run: "pipeline_Run record_pass (pipeline R) (p, ?h) = ((r, e), (p', h2))"
    by (cases "pipeline_Run record_pass (pipeline R) (p, ?h)") auto
  with Reconcile_live [OF assms(2,3) p run] assms(1) that p show ?thesis by (auto split: if_splits)
qed

section \<open>What every step does\<close>

text \<open>
  A relation between the state before and after a step that every step of the pipeline keeps:
  the cluster the pass works on stays, and the calls it makes are those of \<open>step_call\<close>, a panic
  apart.
\<close>

definition calls_of :: "FSCluster \<Rightarrow> call \<Rightarrow> bool" where
  "calls_of c x \<longleftrightarrow> step_call UNIV c x \<or> x = CPanic"

definition pass_rel :: "world \<Rightarrow> world \<Rightarrow> bool" where
  "pass_rel = (\<lambda>(p, h) (p', h'). p_cluster p' = p_cluster p \<and> emits (calls_of (p_cluster p)) h h')"

lemma emits_calls_of: "emits (step_call UNIV c) h h' \<Longrightarrow> emits (calls_of c) h h'"
  by (erule emits_mono) (simp add: calls_of_def)

lemma step_of_eq: "snd (step_of f (p, h)) = (fst (snd (f p h)), snd (snd (f p h)))"
  by (simp add: step_of_def split: prod.split)

lemma pass_rel_step:
  assumes "\<And>p h. same_core p (fst (snd (f p h))) \<and> emits (step_call UNIV (p_cluster p)) h (snd (snd (f p h)))"
  shows "pass_rel s (snd (step_of f s))"
  using assms [of "fst s" "snd s"]
  by (cases s) (auto simp: pass_rel_def step_of_eq same_core_def intro: emits_calls_of)

lemma pass_rel_core:
  assumes "\<And>p h. p_cluster (fst (snd (f p h))) = p_cluster p \<and> emits (step_call UNIV (p_cluster p)) h (snd (snd (f p h)))"
  shows "pass_rel s (snd (step_of f s))"
  using assms [of "fst s" "snd s"]
  by (cases s) (auto simp: pass_rel_def step_of_eq intro: emits_calls_of)

lemma pass_rel_panic:
  assumes "\<And>p h out p' h'. f p h = Some (out, p', h') \<Longrightarrow> same_core p p' \<and> emits (step_call UNIV (p_cluster p)) h h'"
  shows "pass_rel s (snd (step_of (or_panic f) s))"
proof -
  obtain p h where s: "s = (p, h)" by (cases s)
  show ?thesis
  proof (cases "f p h")
    case None
    then show ?thesis by (simp add: s pass_rel_def step_of_eq or_panic_def calls_of_def)
  next
    case (Some r)
    obtain out p' h' where r: "r = (out, p', h')" by (cases r)
    from assms [of p h out p' h'] Some r show ?thesis
      by (auto simp: s pass_rel_def step_of_eq or_panic_def same_core_def intro: emits_calls_of)
  qed
qed

lemma cluster_plan: "p_cluster (fst (snd (planDecommission R p h))) = p_cluster p"
proof -
  have "p_cluster (fold (plan_set d) ss p) = p_cluster p" for d ss using plan_fold_nodes [of d ss p] by auto
  then show ?thesis by (simp add: planDecommission_def Let_def split: prod.split sum.split)
qed

lemma cluster_render: "p_cluster (fst (snd (render R p h))) = p_cluster p"
  by (simp add: render_def Let_def split: prod.split sum.split)

lemma cluster_observe: "p_cluster (fst (snd (observe R p h))) = p_cluster p"
  by (simp add: observe_def Let_def split: prod.split sum.split)

lemma cluster_gather: "p_cluster (fst (snd (gatherConvergence R p h))) = p_cluster p"
  using gatherConvergence_frame [of R p h] by auto

lemma cluster_layout: "p_cluster (fst (snd (reconcileLayout R p h))) = p_cluster p"
  using reconcileLayout_frame [OF triple_parts [of "reconcileLayout R p h"]] by simp

lemma pipeline_step_rel:
  assumes "x \<in> set (pipeline R)"
  shows "pass_rel s (snd (step_Run x s))"
proof -
  have "pass_rel s (snd (step_of (validate R) s))"
    by (intro pass_rel_step conjI same_core_validate emits_validate)
  moreover have "pass_rel s (snd (step_of (planDecommission R) s))"
    by (intro pass_rel_core conjI cluster_plan emits_planDecommission)
  moreover have "pass_rel s (snd (step_of (render R) s))"
    by (intro pass_rel_core conjI cluster_render emits_render_step)
  moreover have "pass_rel s (snd (step_of (observe R) s))"
    by (intro pass_rel_core conjI cluster_observe emits_observe)
  moreover have "pass_rel s (snd (step_of (reconcileSecrets R) s))"
    by (intro pass_rel_step conjI same_core_secrets) (simp add: emits_reconcileSecrets)
  moreover have "pass_rel s (snd (step_of (reconcileServices R) s))" "pass_rel s (snd (step_of (reconcileNodeConfigs R) s))"
    "pass_rel s (snd (step_of (reconcileBudget R) s))" "pass_rel s (snd (step_of (reconcileNetworkPolicy R) s))"
    "pass_rel s (snd (step_of (reconcilePodMonitor R) s))"
    by (intro pass_rel_step; simp add: emits_objects emits_reconcilePodMonitor)+
  moreover have "pass_rel s (snd (step_of (gatherConvergence R) s))"
    by (intro pass_rel_core conjI cluster_gather emits_gather_step) simp
  moreover have "pass_rel s (snd (step_of (or_panic (reconcileStorage R)) s))"
    by (intro pass_rel_panic conjI same_core_storage emits_storage_step) simp_all
  moreover have "pass_rel s (snd (step_of (reconcileNodes R) s))"
    by (intro pass_rel_step conjI same_core_nodes emits_reconcileNodes) simp
  moreover have "pass_rel s (snd (step_of (reconcileLayout R) s))"
    by (intro pass_rel_core conjI cluster_layout emits_reconcileLayout) simp
  moreover have "pass_rel s (snd (step_of (reconcileDecommission R) s))"
    by (intro pass_rel_step conjI same_core_drain emits_reconcileDecommission) simp
  moreover have "pass_rel s (snd (step_of (or_panic (reconcileReload R)) s))"
    by (intro pass_rel_panic conjI same_core_reload emits_reload_step)
  moreover have "pass_rel s (snd (step_of (reconcileStatus R) s))"
    by (intro pass_rel_step conjI same_core_status emits_status_step)
  ultimately show ?thesis using assms by (auto simp: pipeline_def mk_step_def)
qed

interpretation controller: step_relation pass_rel record_pass "pipeline R" for R
proof
  fix s t u :: world and f e x
  show "pass_rel s s" by (cases s) (simp add: pass_rel_def)
  show "pass_rel s t \<Longrightarrow> pass_rel t u \<Longrightarrow> pass_rel s u"
    by (cases s; cases t; cases u) (auto simp: pass_rel_def intro: emits_trans)
  show "record_pass = Some f \<Longrightarrow> pass_rel s (f e s)"
    by (cases s) (auto simp: record_pass_def pass_rel_def)
  show "x \<in> set (pipeline R) \<Longrightarrow> pass_rel s (snd (step_Run x s))"
    by (rule pipeline_step_rel)
qed

lemma pipeline_calls:
  assumes "pipeline_Run record_pass (pipeline R) (p, h) = (res, (p', h'))"
  shows "p_cluster p' = p_cluster p \<and> emits (calls_of (p_cluster p)) h h'"
  using controller.pipeline_rel [of "(p, h)" R] assms by (simp add: pass_rel_def)

lemma newPass_cluster:
  assumes "newPass object reg = Some p"
  shows "fsc_Name (p_cluster p) = fsc_Name object" "fsc_Namespace (p_cluster p) = fsc_Namespace object"
    "p_object p = object" "p_conditions p = []" "p_health p = zero_health" "p_decommission p = []"
    "p_convergence p = zero_convergence" "\<not> p_layoutApplied p" "Nodes (p_cluster p) = Some (p_nodes p)"
    "p_failure p = None" "p_desired p = None"
    "fsc_Generation (p_object p) = fsc_Generation object"
  using assms by (auto simp: newPass_def Let_def split: option.splits)

text \<open>The calls of a whole pass, the read of the object and the end of a deleted one included.\<close>

definition reconcile_call :: "FSCluster \<Rightarrow> call \<Rightarrow> bool" where
  "reconcile_call c x \<longleftrightarrow> calls_of c x \<or> (\<exists>ns n. x = CGetCluster ns n \<or> x = CForget ns n)"

lemma Reconcile_calls:
  assumes "Reconcile R ns name h = Some (res, h')" and "e_GetCluster R h ns name = Inr object"
  shows "\<exists>c. fsc_Name c = fsc_Name object \<and> fsc_Namespace c = fsc_Namespace object \<and> emits (reconcile_call c) h h'"
proof (cases "fsc_DeletionTimestamp object")
  case (Some t)
  with assms show ?thesis
    by (intro exI [of _ object]) (auto simp: Reconcile_def emits_def reconcile_call_def)
next
  case None
  let ?h = "h @ [CGetCluster ns name]"
  obtain p r e p' where p: "newPass object (r_FSImageRegistry R) = Some p"
    and run: "pipeline_Run record_pass (pipeline R) (p, ?h) = ((r, e), (p', h'))"
    by (rule Reconcile_ran [OF assms None])
  from pipeline_calls [OF run] have "emits (calls_of (p_cluster p)) ?h h'" by simp
  then have "emits (reconcile_call (p_cluster p)) ?h h'" by (rule emits_mono) (simp add: reconcile_call_def)
  moreover have "emits (reconcile_call (p_cluster p)) h ?h" by (simp add: reconcile_call_def)
  ultimately have "emits (reconcile_call (p_cluster p)) h h'" by (blast intro: emits_trans)
  with newPass_cluster [OF p] show ?thesis by blast
qed

section \<open>A refused spec\<close>

text \<open>What a pass does that was refused at the start: it looks, reports and publishes.\<close>

fun refused_call :: "call \<Rightarrow> bool" where
  "refused_call (CListSets ns sel) = True"
| "refused_call (CEvent t r m) = True"
| "refused_call (CPatchStatus c) = True"
| "refused_call (CRecordCluster c) = True"
| "refused_call (CUpdateFinished c t) = True"
| "refused_call (CReconcileError s) = True"
| "refused_call CNow = True"
| "refused_call (CGetCluster ns n) = True"
| "refused_call c = False"

definition always_steps :: "Reconciler \<Rightarrow> world Step list" where
  "always_steps R = [mk_step ''observe'' True (observe R), mk_step ''status'' True (reconcileStatus R)]"

lemma pipeline_always: "filter step_AlwaysRun (tl (pipeline R)) = always_steps R"
  by (simp add: pipeline_def always_steps_def mk_step_def)

lemma pipeline_first: "pipeline R = mk_step ''validate'' False (validate R) # tl (pipeline R)"
  by (simp add: pipeline_def)

text \<open>Two always-run steps in a row, spelled out.\<close>

lemma always_run:
  "\<exists>q. (q = fst (snd (observe R p h)) \<or> (\<exists>e. q = RecordFailure e (fst (snd (observe R p h)))))
     \<and> snd (snd (pipeline_Run record_pass (always_steps R) (p, h)))
         = snd (snd (reconcileStatus R q (snd (snd (observe R p h)))))"
proof -
  obtain r1 p1 h1 where o: "observe R p h = (r1, p1, h1)" by (cases "observe R p h")
  define q where "q = (case r1 of Inl e \<Rightarrow> RecordFailure e p1 | Inr out \<Rightarrow> p1)"
  obtain r2 p2 h2 where st: "reconcileStatus R q h1 = (r2, p2, h2)" by (cases "reconcileStatus R q h1")
  have "snd (snd (run_steps record_pass (always_steps R) (run_init, (p, h)))) = h2"
    using st by (cases r1; cases r2)
      (auto simp: always_steps_def mk_step_def run_step_def step_of_def o q_def record_pass_def run_init_def)
  then have "snd (snd (pipeline_Run record_pass (always_steps R) (p, h))) = h2"
    by (simp add: pipeline_state)
  with o st show ?thesis by (intro exI [of _ q]) (cases r1; auto simp: q_def)
qed

lemma observe_conditions: "p_conditions (fst (snd (observe R p h))) = p_conditions p"
  "p_object (fst (snd (observe R p h))) = p_object p"
  by (simp_all add: observe_def Let_def split: prod.split sum.split)

lemma emits_observe_refused: "emits refused_call h (snd (snd (observe R p h)))"
  by (simp add: observe_def nodeSets_def Let_def split: prod.split sum.split)

lemma emits_status_refused: "emits refused_call h (snd (snd (reconcileStatus R p h)))"
proof -
  have "refused_call x" if "status_call x" for x using that by (cases x) auto
  then show ?thesis using emits_reconcileStatus by (rule emits_mono [rotated])
qed

lemma refused_pass:
  assumes "validation_Cluster (fst (e_MapOrder R)) (snd (e_MapOrder R)) (fsc_Spec (p_cluster p)) = Some failure"
    and "pipeline_Run record_pass (pipeline R) (p, h) = (res, (p', h'))"
  shows "emits refused_call h h' \<and> (condition_setter (e_SetStatusCondition R) \<longrightarrow>
    (\<exists>c object. CPatchStatus object \<in> set h' \<and> published ConditionSpecValid object = Some c
       \<and> cond_Status c = ConditionFalse \<and> cond_Reason c = fail_Reason failure))"
proof -
  let ?p = "setCondition ConditionSpecValid ConditionFalse (fail_Reason failure) (fail_Message failure) p"
  let ?h = "event Warning (fail_Reason failure) (fail_Message failure) h"
  have v: "step_Run (mk_step ''validate'' False (validate R)) (p, h)
      = (Inr (zero_outcome\<lparr>out_Blocked := True, out_Reason := msg (fail_Reason failure)\<rparr>), (?p, ?h))"
    using assms(1) by (simp add: mk_step_def step_of_def validate_def refuse_def Block_def)
  have "snd (pipeline_Run record_pass (pipeline R) (p, h)) = snd (pipeline_Run record_pass (always_steps R) (?p, ?h))"
    using pipeline_stop [OF v, of record_pass "tl (pipeline R)"] pipeline_first [of R] pipeline_always [of R] by simp
  then have h': "h' = snd (snd (pipeline_Run record_pass (always_steps R) (?p, ?h)))" using assms(2) by (metis snd_conv)
  from always_run [of R ?p ?h] obtain q where
    q: "q = fst (snd (observe R ?p ?h)) \<or> (\<exists>e. q = RecordFailure e (fst (snd (observe R ?p ?h))))"
    and run: "h' = snd (snd (reconcileStatus R q (snd (snd (observe R ?p ?h)))))" unfolding h' by blast
  let ?h3 = "snd (snd (observe R ?p ?h))"
  have "emits refused_call h ?h" by simp
  then have "emits refused_call h ?h3" using emits_observe_refused by (rule emits_trans)
  then have e: "emits refused_call h h'" unfolding run using emits_status_refused by (rule emits_trans)
  let ?c = "\<lparr>cond_Type = ConditionSpecValid, cond_Status = ConditionFalse, cond_Reason = fail_Reason failure,
    cond_Message = fail_Message failure, cond_ObservedGeneration = fsc_Generation (p_object p)\<rparr>"
  have "p_conditions q = p_conditions ?p" using q by (auto simp: observe_conditions)
  then have "queued ConditionSpecValid q = queued ConditionSpecValid ?p" by (simp add: queued_def)
  then have "queued ConditionSpecValid q = Some ?c" by simp
  then have "published ConditionSpecValid (p_object (status_pass R q)) = Some ?c"
    if "condition_setter (e_SetStatusCondition R)"
    by (simp add: status_published [OF that] queued_summarize)
  moreover have "CPatchStatus (p_object (status_pass R q)) \<in> set h'"
    using reconcileStatus_sends [of R q ?h3] unfolding run by auto
  ultimately show ?thesis using e by fastforce
qed

section \<open>Minted secrets\<close>

definition minted :: "FSCluster \<Rightarrow> string set" where
  "minted c = {ClusterSecretName (fsc_Name c), AdminTokenSecretName (fsc_Name c), RootCredentialsSecretName (fsc_Name c)}"

lemma ConfigSecretName_minted: "ConfigSecretName n \<notin> minted c"
proof
  assume "ConfigSecretName n \<in> minted c"
  then have "last (ConfigSecretName n) \<in> last ` minted c" by (rule imageI)
  then show False
    by (simp add: minted_def ConfigSecretName_def ClusterSecretName_def AdminTokenSecretName_def RootCredentialsSecretName_def)
qed

lemma generated_minted: "generated_names c \<subseteq> minted c"
  by (auto simp: generated_names_def minted_def)

text \<open>A benign world that stores one object.\<close>

definition storing :: "FSCluster \<Rightarrow> Reconciler" where
  "storing object = (quiet [] (quiet_layout []) [])\<lparr>e_GetCluster := \<lambda>h a b. Inr object\<rparr>"

lemma storing_simps:
  "e_GetCluster (storing c) h a b = Inr c" "e_MapOrder (storing c) = ([Traces, Logs, Metrics], [Traces, Logs, Metrics])"
  "r_FSImageRegistry (storing c) = []" "condition_setter (e_SetStatusCondition (storing c))"
  by (simp_all add: storing_def consing.condition_setter_axioms)

lemma sample_pass:
  "\<exists>p. newPass (sample_cluster (sample_spec three_nodes q)) [] = Some p
     \<and> TotalNodes (fsc_Spec (p_cluster p)) = 3 \<and> sto_Size (spec_Storage (fsc_Spec (p_cluster p))) = q"
  by (simp add: newPass_def Let_def Nodes_def sample_cluster_def sample_spec_def three_nodes_def TotalNodes_def)

lemma sample_schema: "schema_topology (spec_Topology (fsc_Spec (sample_cluster (sample_spec three_nodes q))))"
  by (simp add: sample_cluster_def sample_spec_def three_nodes_def schema_topology_def)

section \<open>Properties\<close>

text \<open>
  C9. A spec that validation refuses leaves the running cluster exactly as it was: the whole
  pass reads the object and lists the StatefulSets, reports events and metrics, and writes
  nothing but the object's status, which says SpecValid is False for the reason the validation
  gave. The admission webhook and the controller run the same check on the same defaulted
  spec, so this is also what happens to a spec that never went through the webhook.
\<close>

theorem refused_spec_untouched:
  assumes "e_GetCluster R h ns name = Inr object" and "fsc_DeletionTimestamp object = None"
    and "newPass object (r_FSImageRegistry R) = Some p"
    and "validation_Cluster (fst (e_MapOrder R)) (snd (e_MapOrder R)) (fsc_Spec (p_cluster p)) = Some failure"
    and "condition_setter (e_SetStatusCondition R)"
  shows "\<exists>res cs. Reconcile R ns name h = Some (res, h @ cs) \<and> list_all refused_call cs
    \<and> (\<exists>c stored. CPatchStatus stored \<in> set (h @ cs) \<and> published ConditionSpecValid stored = Some c
         \<and> cond_Status c = ConditionFalse \<and> cond_Reason c = fail_Reason failure)"
proof -
  let ?h = "h @ [CGetCluster ns name]"
  obtain r p' h' where run: "pipeline_Run record_pass (pipeline R) (p, ?h) = (r, (p', h'))"
    by (cases "pipeline_Run record_pass (pipeline R) (p, ?h)") auto
  note rp = refused_pass [OF assms(4) run]
  have "emits refused_call h ?h" by simp
  then have "emits refused_call h h'" using rp emits_trans by blast
  then obtain cs where cs: "h' = h @ cs" "list_all refused_call cs" by (auto simp: emits_def)
  from rp have "\<not> panicked ?h h'" by (intro emits_panicked [of refused_call]) auto
  then have "\<exists>res. Reconcile R ns name h = Some (res, h')"
    using Reconcile_live [OF assms(1-3)] run by (cases r) simp
  with cs rp assms(5) show ?thesis by blast
qed

theorem refused_spec_untouched_witness:
  "\<exists>res cs. Reconcile (storing (sample_cluster (sample_spec three_nodes 0))) ''storage'' ''fs'' [] = Some (res, cs)
     \<and> list_all refused_call cs"
proof -
  let ?c = "sample_cluster (sample_spec three_nodes 0)"
  from sample_pass obtain p where p: "newPass ?c [] = Some p" "sto_Size (spec_Storage (fsc_Spec (p_cluster p))) = 0" by blast
  have "validation_Cluster (fst (e_MapOrder (storing ?c))) (snd (e_MapOrder (storing ?c))) (fsc_Spec (p_cluster p)) \<noteq> None"
    unfolding storing_simps fst_conv snd_conv validation_Cluster_None [OF sample_orders(1) sample_orders(1)]
    using p(2) by (simp add: spec_ok_def)
  then obtain failure where f: "validation_Cluster (fst (e_MapOrder (storing ?c))) (snd (e_MapOrder (storing ?c)))
      (fsc_Spec (p_cluster p)) = Some failure" by blast
  have "fsc_DeletionTimestamp ?c = None" by (simp add: sample_cluster_def)
  from refused_spec_untouched [where h = "[]" and ns = "''storage''" and name = "''fs''",
      OF storing_simps(1) this _ f storing_simps(4)] p(1)
  have "\<exists>res cs. Reconcile (storing ?c) ''storage'' ''fs'' [] = Some (res, [] @ cs) \<and> list_all refused_call cs"
    unfolding storing_simps(3) by blast
  then show ?thesis by simp
qed

text \<open>
  C11. Secret material is created once and never rewritten. In a pass, whatever happens in it,
  no generated secret (the cluster secret, the admin token, the root credentials) is ever
  applied or deleted; the only Secrets it creates are these, for the cluster at hand and in
  its namespace; an existing one is left as it is, because creation does not overwrite.
  Every applied object is owned by the cluster.
\<close>

theorem secrets_created_once:
  assumes "Reconcile R ns name h = Some (res, h')" and "e_GetCluster R h ns name = Inr object"
  shows "\<exists>cs. h' = h @ cs \<and> (\<forall>x \<in> set cs. case x of
      CApply owner obj \<Rightarrow> owner = fsc_Name object \<and> (kind_of obj = KindSecret \<longrightarrow> name_of obj \<notin> minted object)
    | CDelete k ns' n orphan \<Rightarrow> k = KindSecret \<longrightarrow> n \<notin> minted object
    | CCreate owner obj \<Rightarrow> owner = fsc_Name object \<and> kind_of obj = KindSecret
        \<and> namespace_of obj = fsc_Namespace object \<and> name_of obj \<in> minted object
    | other \<Rightarrow> True)"
proof -
  from Reconcile_calls [OF assms] obtain c where c: "fsc_Name c = fsc_Name object" "fsc_Namespace c = fsc_Namespace object"
    "emits (reconcile_call c) h h'" by blast
  have m: "minted c = minted object" using c by (simp add: minted_def)
  have "case x of CApply owner obj \<Rightarrow> owner = fsc_Name object \<and> (kind_of obj = KindSecret \<longrightarrow> name_of obj \<notin> minted object)
    | CDelete k ns' n orphan \<Rightarrow> k = KindSecret \<longrightarrow> n \<notin> minted object
    | CCreate owner obj \<Rightarrow> owner = fsc_Name object \<and> kind_of obj = KindSecret
        \<and> namespace_of obj = fsc_Namespace object \<and> name_of obj \<in> minted object
    | other \<Rightarrow> True" if "reconcile_call c x" for x
    using that ConfigSecretName_minted [of _ object] generated_minted [of c] c(1,2)
    by (cases x) (auto simp: reconcile_call_def calls_of_def m)
  with c(3) show ?thesis by (auto simp: emits_def list_all_iff)
qed

text \<open>
  C18. A live cluster is always looked at again: a pass over an object that is there and not
  being deleted either reports an error or asks to be run again after a positive time. An
  object being deleted is forgotten by the metrics, and nothing else is done about it.
\<close>

theorem reconcile_comes_back:
  assumes "Reconcile R ns name h = Some ((result, err), h')" and "e_GetCluster R h ns name = Inr object"
  shows "(fsc_DeletionTimestamp object = None \<longrightarrow> err = None \<longrightarrow> 0 < res_RequeueAfter result)
    \<and> (fsc_DeletionTimestamp object \<noteq> None \<longrightarrow> err = None \<and> res_RequeueAfter result = 0
         \<and> h' = h @ [CGetCluster ns name, CForget (fsc_Namespace object) (fsc_Name object)])"
proof (cases "fsc_DeletionTimestamp object")
  case (Some t)
  with assms show ?thesis by (auto simp: Reconcile_def)
next
  case None
  let ?h = "h @ [CGetCluster ns name]"
  obtain p r e p' where run: "pipeline_Run record_pass (pipeline R) (p, ?h) = ((r, e), (p', h'))"
    and res: "(result, err) = (if res_RequeueAfter r = 0 \<and> e = None then \<lparr>res_RequeueAfter = resyncInterval\<rparr> else r, e)"
    by (rule Reconcile_ran [OF assms None])
  have "0 \<le> res_RequeueAfter r"
    using pipeline_requeue_nonneg [of record_pass "pipeline R" "(p, ?h)"] by (simp add: run)
  with res None show ?thesis
    by (auto simp: resyncInterval_def split: if_splits)
qed

end
