(* ===== verification/Whole_Pass.thy ===== *)
theory Whole_Pass
  imports Controller
begin

text \<open>
  What depends on the order of the steps in a whole pass. An abstract specification of removing
  nodes (\<open>drain_run\<close>) says when a node may go, given what was last seen of the layout; the
  calls of a pass are traced to its events (\<open>traced\<close>), and the pipeline is shown to refine it,
  stage by stage, through the locale \<open>staged_pipeline\<close>. The same stages give that no pass
  panics.
\<close>

section \<open>The abstract specification\<close>

datatype drain_event =
    Saw Layout
  | Changed
  | Removed string

text \<open>
  A run of the specification with the layout last seen: \<open>Changed\<close> is an accepted change of the
  layout, after which nothing is known until it is read again. A node is removed only when the
  layout last seen is settled and gives it no share, and when it is not declared.
\<close>

inductive drain_run :: "string list \<Rightarrow> drain_event list \<Rightarrow> Layout option \<Rightarrow> bool" for declared where
  start: "drain_run declared [] None"
| saw: "drain_run declared es v \<Longrightarrow> drain_run declared (es @ [Saw l]) (Some l)"
| changed: "drain_run declared es v \<Longrightarrow> drain_run declared (es @ [Changed]) None"
| removed: "drain_run declared es (Some l) \<Longrightarrow> l_Retained l = [] \<Longrightarrow> n \<notin> role_ID ` set (l_Members l) \<Longrightarrow>
    n \<notin> set declared \<Longrightarrow> drain_run declared (es @ [Removed n]) (Some l)"

text \<open>The calls that are no event of the specification.\<close>

fun silent :: "call \<Rightarrow> bool" where
  "silent (CGetLayout u) = False"
| "silent (CApplyLayout u q) = False"
| "silent (CDelete KindStatefulSet ns n False) = False"
| "silent CPanic = False"
| "silent c = True"

text \<open>
  The events the calls since \<open>h0\<close> stand for. A failed read shows nothing, a refused change
  changes nothing. There is no event for a panic: a history with one is not traced.
\<close>

inductive traced :: "Reconciler \<Rightarrow> history \<Rightarrow> history \<Rightarrow> drain_event list \<Rightarrow> bool" for R h0 where
  none: "traced R h0 h0 []"
| silent: "traced R h0 h es \<Longrightarrow> silent c \<Longrightarrow> traced R h0 (h @ [c]) es"
| read: "traced R h0 h es \<Longrightarrow> client_Layout (e_GetLayout R h u token) = Inr l \<Longrightarrow>
    traced R h0 (h @ [CGetLayout u]) (es @ [Saw l])"
| unread: "traced R h0 h es \<Longrightarrow> client_Layout (e_GetLayout R h u token) = Inl e \<Longrightarrow>
    traced R h0 (h @ [CGetLayout u]) es"
| accepted: "traced R h0 h es \<Longrightarrow> client_ApplyLayout (e_ApplyLayout R h u token q) = Inr l \<Longrightarrow>
    traced R h0 (h @ [CApplyLayout u q]) (es @ [Changed])"
| refused: "traced R h0 h es \<Longrightarrow> client_ApplyLayout (e_ApplyLayout R h u token q) = Inl e \<Longrightarrow>
    traced R h0 (h @ [CApplyLayout u q]) es"
| deletes: "traced R h0 h es \<Longrightarrow> traced R h0 (h @ [CDelete KindStatefulSet ns n False]) (es @ [Removed n])"

fun removed_of :: "drain_event \<Rightarrow> string list" where
  "removed_of (Removed n) = [n]"
| "removed_of e = []"

text \<open>The trace says exactly which nodes the calls delete, and that they did not panic.\<close>

lemma silent_deletes: "silent c \<Longrightarrow> deleted_set c = [] \<and> c \<noteq> CPanic"
  by (cases c rule: silent.cases) auto

lemma traced_calls:
  "traced R h0 h es \<Longrightarrow> \<exists>cs. h = h0 @ cs \<and> deleted cs = concat (map removed_of es) \<and> CPanic \<notin> set cs"
proof (induction rule: traced.induct)
  case (silent h es c)
  then show ?case using silent_deletes [of c] by auto
qed auto

section \<open>The simulation\<close>

definition tracks :: "Reconciler \<Rightarrow> string list \<Rightarrow> history \<Rightarrow> history \<Rightarrow> Layout option \<Rightarrow> bool" where
  "tracks R declared h0 h v \<longleftrightarrow> (\<exists>es. traced R h0 h es \<and> drain_run declared es v)"

lemma tracks_start: "tracks R declared h h None"
  unfolding tracks_def by (blast intro: traced.none drain_run.start)

lemma tracks_silent:
  assumes "tracks R declared h0 h v" and "emits silent h h'"
  shows "tracks R declared h0 h' v"
proof -
  from assms(1) obtain es where es: "traced R h0 h es" "drain_run declared es v" by (auto simp: tracks_def)
  from assms(2) obtain cs where cs: "h' = h @ cs" "list_all silent cs" by (auto simp: emits_def)
  have "traced R h0 (h @ cs) es" using cs(2)
  proof (induction cs rule: rev_induct)
    case (snoc c cs)
    then have "traced R h0 ((h @ cs) @ [c]) es" by (intro traced.silent) auto
    then show ?case by simp
  qed (simp add: es)
  with es cs show ?thesis by (auto simp: tracks_def)
qed

lemma tracks_silent_one: "tracks R declared h0 h v \<Longrightarrow> silent c \<Longrightarrow> tracks R declared h0 (h @ [c]) v"
  using tracks_silent [of R declared h0 h v "h @ [c]"] by simp

lemma tracks_read:
  "tracks R declared h0 h v \<Longrightarrow> client_Layout (e_GetLayout R h u token) = Inr l \<Longrightarrow>
   tracks R declared h0 (h @ [CGetLayout u]) (Some l)"
  unfolding tracks_def by (blast intro: traced.read drain_run.saw)

lemma tracks_unread:
  "tracks R declared h0 h v \<Longrightarrow> client_Layout (e_GetLayout R h u token) = Inl e \<Longrightarrow>
   tracks R declared h0 (h @ [CGetLayout u]) v"
  unfolding tracks_def by (blast intro: traced.unread)

lemma tracks_accepted:
  "tracks R declared h0 h v \<Longrightarrow> client_ApplyLayout (e_ApplyLayout R h u token q) = Inr l \<Longrightarrow>
   tracks R declared h0 (h @ [CApplyLayout u q]) None"
  unfolding tracks_def by (blast intro: traced.accepted drain_run.changed)

lemma tracks_refused:
  "tracks R declared h0 h v \<Longrightarrow> client_ApplyLayout (e_ApplyLayout R h u token q) = Inl e \<Longrightarrow>
   tracks R declared h0 (h @ [CApplyLayout u q]) v"
  unfolding tracks_def by (blast intro: traced.refused)

lemma tracks_removes:
  assumes "tracks R declared h0 h (Some l)" and "emits P h h'" and "l_Retained l = []"
    and "\<And>c. P c \<Longrightarrow> silent c \<or> (\<exists>ns n. c = CDelete KindStatefulSet ns n False \<and> n \<notin> role_ID ` set (l_Members l)
      \<and> n \<notin> set declared)"
  shows "tracks R declared h0 h' (Some l)"
proof -
  from assms(2) obtain cs where cs: "h' = h @ cs" "list_all P cs" by (auto simp: emits_def)
  have "tracks R declared h0 (h @ cs) (Some l)" using cs(2)
  proof (induction cs rule: rev_induct)
    case (snoc c cs)
    then have ih: "tracks R declared h0 (h @ cs) (Some l)" and c: "P c" by auto
    from assms(4) [OF c] have "tracks R declared h0 ((h @ cs) @ [c]) (Some l)"
    proof
      assume "silent c"
      with ih show ?thesis by (rule tracks_silent_one)
    next
      assume "\<exists>ns n. c = CDelete KindStatefulSet ns n False \<and> n \<notin> role_ID ` set (l_Members l) \<and> n \<notin> set declared"
      with ih assms(3) show ?thesis
        unfolding tracks_def by (blast intro: traced.deletes drain_run.removed)
    qed
    then show ?case by simp
  qed (simp add: assms(1))
  with cs show ?thesis by simp
qed

lemma step_call_silent: "step_call {Touches} c x \<Longrightarrow> silent x"
  by (cases x rule: silent.cases) auto

lemma tracks_step: "tracks R declared h0 h v \<Longrightarrow> emits (step_call {Touches} c) h h' \<Longrightarrow> tracks R declared h0 h' v"
  using tracks_silent emits_mono step_call_silent by metis

section \<open>Reading the layout\<close>

text \<open>What the pass believes of the layout is what it last saw.\<close>

definition believes :: "pass \<Rightarrow> Layout option \<Rightarrow> bool" where
  "believes p v \<longleftrightarrow> (\<forall>l. cv_known (p_convergence p) \<longrightarrow> \<not> p_layoutApplied p \<longrightarrow> cv_layout (p_convergence p) = Some l
     \<longrightarrow> v = Some l)"

lemma clusterView_tracks:
  assumes "clusterView R p node token h = (r, h')" and "tracks R declared h0 h v"
  shows "\<exists>v'. tracks R declared h0 h' v' \<and> (\<forall>view l. r = Inr view \<longrightarrow> cv_layout view = Some l \<longrightarrow> v' = Some l)"
proof (cases "node_client R p node token")
  case (Inl e)
  with assms show ?thesis by (auto simp: clusterView_def)
next
  case c: (Inr c)
  let ?h = "h @ [CGetLayout (cl_baseURL c)]"
  have sil: "tracks R declared h0 (?h @ [CListNodes (cl_baseURL c)]) v'" if "tracks R declared h0 ?h v'" for v'
    using that by (rule tracks_silent_one) simp
  show ?thesis
  proof (cases "client_Layout (e_GetLayout R h (cl_baseURL c) (cl_token c))")
    case (Inl e)
    with assms c sil [OF tracks_unread [OF assms(2) Inl]] tracks_unread [OF assms(2) Inl] show ?thesis
      by (auto simp: clusterView_def admin_Layout_def admin_Nodes_def zero_convergence_def Let_def split: sum.splits if_splits)
  next
    case (Inr l)
    with assms c sil [OF tracks_read [OF assms(2) Inr]] tracks_read [OF assms(2) Inr] show ?thesis
      by (auto simp: clusterView_def admin_Layout_def admin_Nodes_def zero_convergence_def Let_def split: sum.splits if_splits)
  qed
qed

lemma gather_loop_tracks:
  assumes "gather_loop R p token ns h = (p', h')" and "tracks R declared h0 h v" and "\<not> cv_known (p_convergence p)"
  shows "\<exists>v'. tracks R declared h0 h' v' \<and> believes p' v'"
  using assms(1,2)
proof (induction ns arbitrary: h v)
  case Nil
  with assms(3) show ?case by (auto simp: believes_def)
next
  case (Cons n ns)
  obtain r h1 where c: "clusterView R p n token h = (r, h1)" by (cases "clusterView R p n token h")
  from clusterView_tracks [OF c Cons.prems(2)] obtain v' where
    v': "tracks R declared h0 h1 v'" "\<forall>view l. r = Inr view \<longrightarrow> cv_layout view = Some l \<longrightarrow> v' = Some l" by blast
  show ?case
  proof (cases r)
    case (Inl e)
    with Cons.prems(1) c have "gather_loop R p token ns h1 = (p', h')" by simp
    then show ?thesis using v'(1) by (rule Cons.IH)
  next
    case (Inr view)
    with Cons.prems(1) c v' show ?thesis
      by (auto simp: believes_def split: prod.splits)
  qed
qed

lemma gather_tracks:
  assumes "gatherConvergence R p h = (out, p', h')" and "tracks R declared h0 h v" and "\<not> cv_known (p_convergence p)"
  shows "\<exists>v'. tracks R declared h0 h' v' \<and> believes p' v'"
proof -
  obtain t h1 where t: "adminToken R p h = (t, h1)" by (cases "adminToken R p h")
  have 1: "tracks R declared h0 h1 v"
    using emits_adminToken [of silent p h R] t by (intro tracks_silent [OF assms(2)]) simp
  show ?thesis
  proof (cases "SingleNode (fsc_Spec (p_cluster p))")
    case True
    with assms show ?thesis by (auto simp: gatherConvergence_def believes_def zero_convergence_def)
  next
    case False
    show ?thesis
    proof (cases t)
      case (Inl e)
      with False assms t 1 show ?thesis by (auto simp: gatherConvergence_def believes_def)
    next
      case (Inr token)
      obtain q h2 where g: "gather_loop R p token (servingNodes p @ notServingNodes p) h1 = (q, h2)"
        by (cases "gather_loop R p token (servingNodes p @ notServingNodes p) h1")
      with False assms(1) t Inr have "q = p'" "h2 = h'" by (auto simp: gatherConvergence_def)
      with gather_loop_tracks [OF g 1 assms(3)] show ?thesis by simp
    qed
  qed
qed

section \<open>Changing the layout\<close>

lemma apply_loop_tracks:
  assumes "apply_loop R p roles widths token ns final h = (r, h')" and "tracks R declared h0 h v"
  shows "tracks R declared h0 h' (case r of Inl e \<Rightarrow> v | Inr l \<Rightarrow> None)"
  using assms
proof (induction ns arbitrary: final h)
  case (Cons n ns)
  show ?case
  proof (cases "node_client R p n token")
    case (Inl e)
    with Cons.prems show ?thesis by auto
  next
    case c: (Inr c)
    let ?q = "applyLayoutRequest roles widths"
    let ?h = "h @ [CApplyLayout (cl_baseURL c) ?q]"
    show ?thesis
    proof (cases "client_ApplyLayout (e_ApplyLayout R h (cl_baseURL c) (cl_token c) ?q)")
      case (Inl e)
      note 1 = tracks_refused [OF Cons.prems(2) Inl]
      show ?thesis
      proof (cases "errors_Is e ErrLayoutRejected")
        case True
        with Cons.prems(1) c Inl have "r = Inl e" "h' = ?h" by (auto simp: admin_ApplyLayout_def Let_def)
        with 1 show ?thesis by simp
      next
        case False
        with Cons.prems(1) c Inl have "apply_loop R p roles widths token ns (Some e) ?h = (r, h')"
          by (simp add: admin_ApplyLayout_def Let_def)
        then show ?thesis using 1 by (rule Cons.IH)
      qed
    next
      case (Inr l)
      with Cons.prems(1) c have "r = Inr l" "h' = ?h" by (auto simp: admin_ApplyLayout_def Let_def)
      with tracks_accepted [OF Cons.prems(2) Inr] show ?thesis by simp
    qed
  qed
qed auto

lemma layout_tracks:
  assumes "reconcileLayout R p h = (out, p', h')" and "tracks R declared h0 h v" and "believes p v"
  shows "\<exists>v'. tracks R declared h0 h' v' \<and> believes p' v'"
proof (cases "h' = h")
  case True
  with assms have "p_layoutApplied p' \<or> p_convergence p' = p_convergence p \<and> (p_layoutApplied p \<longrightarrow> p_layoutApplied p')"
    using reconcileLayout_applied [OF assms(1)] reconcileLayout_keeps [OF assms(1)] by blast
  with True assms(2,3) show ?thesis by (auto simp: believes_def)
next
  case False
  let ?roles = "desiredRoles p" and ?widths = "desiredWidths (fsc_Spec (p_cluster p))"
  obtain t h1 where t: "adminToken R p h = (t, h1)" by (cases "adminToken R p h")
  have 1: "tracks R declared h0 h1 v"
    using emits_adminToken [of silent p h R] t by (intro tracks_silent [OF assms(2)]) simp
  show ?thesis
  proof (cases t)
    case (Inl e)
    with assms(1,3) t 1 False show ?thesis
      by (auto simp: reconcileLayout_def holdLayout_def Let_def split: if_splits option.splits)
  next
    case (Inr token)
    obtain r h2 where a: "applyLayout R p ?roles ?widths token h1 = (r, h2)" by (cases "applyLayout R p ?roles ?widths token h1")
    have 2: "tracks R declared h0 h2 (case r of Inl e \<Rightarrow> v | Inr l \<Rightarrow> None)"
      using apply_loop_tracks [OF a [unfolded applyLayout_def] 1] .
    have 3: "tracks R declared h0 (event ty rs m h2) (case r of Inl e \<Rightarrow> v | Inr l \<Rightarrow> None)" for ty rs m
      unfolding event_def by (rule tracks_silent_one [OF 2]) simp
    have "(h' = h2 \<or> (\<exists>ty rs m. h' = event ty rs m h2))
        \<and> (p_layoutApplied p' \<or> p_layoutApplied p' = p_layoutApplied p \<and> p_convergence p' = p_convergence p \<and> isl r)"
      using assms(1) False t Inr a
      by (cases r) (auto simp: reconcileLayout_def holdLayout_def Let_def split: if_splits option.splits)
    with 2 3 assms(3) show ?thesis by (cases r) (fastforce simp: believes_def)+
  qed
qed

section \<open>Removing\<close>

lemma emits_conj: "emits P h h' \<Longrightarrow> emits Q h h' \<Longrightarrow> emits (\<lambda>c. P c \<and> Q c) h h'"
  by (auto simp: emits_def list_all_iff)

lemma removing_calls:
  "step_call {Removes} c x \<Longrightarrow> silent x \<or> (\<exists>ns n. x = CDelete KindStatefulSet ns n False)"
  by (cases x rule: silent.cases) auto

lemma drain_tracks:
  assumes "reconcileDecommission R p h = (out, p', h')" and "plan_inv declared (p_decommission p)"
    and "tracks R declared h0 h v" and "believes p v"
  shows "tracks R declared h0 h' v"
proof -
  let ?P = "\<lambda>c. deletes_only (drain_gate p) c \<and> step_call {Removes} (p_cluster p) c"
  have e: "emits ?P h h'"
    using reconcileDecommission_deletes [OF assms(1)] emits_reconcileDecommission [of "{Removes}" p h R] assms(1,2)
    by (intro emits_conj) (simp_all add: plan_inv_def)
  have del: "silent c \<or> (\<exists>ns n. c = CDelete KindStatefulSet ns n False \<and> drain_gate p n)" if "?P c" for c
    using that removing_calls [of "p_cluster p" c] by (auto simp: deletes_only_def)
  show ?thesis
  proof (cases "\<exists>n. drain_gate p n")
    case False
    then have "emits silent h h'" using e del by (auto elim: emits_mono)
    then show ?thesis by (rule tracks_silent [OF assms(3)])
  next
    case True
    then obtain l where l: "cv_known (p_convergence p)" "\<not> p_layoutApplied p" "cv_layout (p_convergence p) = Some l"
      "l_Retained l = []" "\<forall>n \<in> set (map fst (p_decommission p)). n \<notin> role_ID ` set (l_Members l)"
      by (auto simp: drain_gate_def)
    with assms(4) have v: "v = Some l" by (simp add: believes_def)
    have "n \<notin> role_ID ` set (l_Members l) \<and> n \<notin> set declared" if "drain_gate p n" for n
    proof -
      have k: "n \<in> set (map fst (p_decommission p))" using that by (simp add: drain_gate_def gm_get_None_iff)
      have "n \<notin> set declared" using that assms(2) by (auto simp: drain_gate_def plan_inv_def)
      with k l(5) show ?thesis by blast
    qed
    with del have "silent c \<or> (\<exists>ns n. c = CDelete KindStatefulSet ns n False \<and> n \<notin> role_ID ` set (l_Members l)
        \<and> n \<notin> set declared)" if "?P c" for c using that by blast
    then show ?thesis using tracks_removes [OF assms(3) [unfolded v] e l(4)] v by blast
  qed
qed

section \<open>The stages of a pass\<close>

text \<open>
  What holds once the pass is blocked: it is still a trace of the specification, or it has
  panicked, which takes a claim without resource requests.
\<close>

definition over :: "Reconciler \<Rightarrow> string list \<Rightarrow> history \<Rightarrow> world \<Rightarrow> bool" where
  "over R declared h0 = (\<lambda>(p, h). (\<exists>v. tracks R declared h0 h v) \<or> \<not> claims_have_requests R \<and> panicked h0 h)"

lemma tracks_extends: "tracks R declared h0 h v \<Longrightarrow> \<exists>cs. h = h0 @ cs \<and> CPanic \<notin> set cs"
  unfolding tracks_def using traced_calls by blast

lemma panicked_emits: "panicked h0 h \<Longrightarrow> emits P h h' \<Longrightarrow> panicked h0 h'"
  by (auto simp: panicked_def emits_def)

definition aligned :: "pass \<Rightarrow> bool" where
  "aligned p \<longleftrightarrow> length (p_sets p) = length (p_nodes p)"

definition fresh :: "Reconciler \<Rightarrow> string list \<Rightarrow> history \<Rightarrow> world \<Rightarrow> bool" where
  "fresh R declared h0 = (\<lambda>(p, h). (\<exists>v. tracks R declared h0 h v) \<and> p_decommission p = []
     \<and> map node_Name (p_nodes p) = declared \<and> \<not> cv_known (p_convergence p))"

definition planned :: "Reconciler \<Rightarrow> string list \<Rightarrow> history \<Rightarrow> world \<Rightarrow> bool" where
  "planned R declared h0 = (\<lambda>(p, h). (\<exists>v. tracks R declared h0 h v) \<and> plan_inv declared (p_decommission p)
     \<and> \<not> cv_known (p_convergence p))"

definition rendered :: "Reconciler \<Rightarrow> string list \<Rightarrow> history \<Rightarrow> world \<Rightarrow> bool" where
  "rendered R declared h0 = (\<lambda>(p, h). planned R declared h0 (p, h) \<and> aligned p)"

definition informed :: "Reconciler \<Rightarrow> string list \<Rightarrow> history \<Rightarrow> world \<Rightarrow> bool" where
  "informed R declared h0 = (\<lambda>(p, h). (\<exists>v. tracks R declared h0 h v \<and> believes p v)
     \<and> plan_inv declared (p_decommission p) \<and> aligned p)"

definition finished :: "Reconciler \<Rightarrow> string list \<Rightarrow> history \<Rightarrow> world \<Rightarrow> bool" where
  "finished R declared h0 = (\<lambda>(p, h). (\<exists>v. tracks R declared h0 h v) \<and> aligned p)"

lemmas stage_defs = over_def aligned_def fresh_def planned_def rendered_def informed_def finished_def

lemma over_recorded: "over R declared h0 (recorded record_pass e (p, h)) \<longleftrightarrow> over R declared h0 (p, h)"
  by (simp add: over_def recorded_def record_pass_def)

text \<open>A predicate that a step keeps which leaves the core of the pass and makes no event.\<close>

definition carried :: "(world \<Rightarrow> bool) \<Rightarrow> bool" where
  "carried P \<longleftrightarrow> (\<forall>p h p' h'. P (p, h) \<longrightarrow> same_core p p' \<longrightarrow> emits silent h h' \<longrightarrow> P (p', h'))"

lemma carried_stages:
  "carried (fresh R declared h0)" "carried (rendered R declared h0)" "carried (informed R declared h0)"
  "carried (finished R declared h0)"
proof -
  have t: "tracks R D h0 h v \<Longrightarrow> emits silent h h' \<Longrightarrow> \<exists>v. tracks R D h0 h' v" for D h h' v
    using tracks_silent by blast
  show "carried (fresh R declared h0)"
    by (auto simp: carried_def fresh_def same_core_def intro: t)
  have a: "aligned p \<Longrightarrow> same_core p p' \<Longrightarrow> aligned p'" for p p'
    by (simp add: aligned_def same_core_def p_sets_def)
  have "\<not> cv_known (p_convergence p) \<Longrightarrow> same_core p p' \<Longrightarrow> \<not> cv_known (p_convergence p')"
    and d: "plan_inv declared (p_decommission p) \<Longrightarrow> same_core p p' \<Longrightarrow> plan_inv declared (p_decommission p')" for p p'
    by (simp_all add: same_core_def)
  with a t show "carried (rendered R declared h0)" "carried (finished R declared h0)"
    unfolding carried_def rendered_def planned_def finished_def by blast+
  have "believes p v \<Longrightarrow> same_core p p' \<Longrightarrow> believes p' v" for p p' v by (simp add: believes_def same_core_def)
  with a d show "carried (informed R declared h0)"
    unfolding carried_def informed_def using tracks_silent by blast
qed

lemma stage_over:
  "fresh R declared h0 s \<Longrightarrow> over R declared h0 s" "planned R declared h0 s \<Longrightarrow> over R declared h0 s"
  "rendered R declared h0 s \<Longrightarrow> over R declared h0 s" "informed R declared h0 s \<Longrightarrow> over R declared h0 s"
  "finished R declared h0 s \<Longrightarrow> over R declared h0 s"
  by (cases s; auto simp: stage_defs)+

text \<open>A step that reaches the next stage whatever it returns; recording a failure changes nothing here.\<close>

lemma stage_of_pass:
  assumes "\<And>p h e. ov (p, h) \<Longrightarrow> ov (RecordFailure e p, h)"
    and "\<And>p h out p' h'. P (p, h) \<Longrightarrow> f p h = (out, p', h') \<Longrightarrow>
      ov (p', h') \<and> (\<forall>o'. out = Inr o' \<longrightarrow> \<not> out_Blocked o' \<longrightarrow> Q (p', h'))"
  shows "stage_ok record_pass ov P (mk_step name a f) Q"
  unfolding stage_ok_def
proof (intro allI impI)
  fix s r s' assume P: "P s" and run: "step_Run (mk_step name a f) s = (r, s')"
  obtain p h where s: "s = (p, h)" by (cases s)
  obtain out p' h' where f: "f p h = (out, p', h')" by (cases "f p h")
  with run s have "r = out" "s' = (p', h')" by (auto simp: mk_step_def step_of_def)
  with assms(2) [OF P [unfolded s] f] assms(1) show "case r of Inl e \<Rightarrow> ov (recorded record_pass e s')
      | Inr out \<Rightarrow> if out_Blocked out then ov s' else Q s'"
    by (cases out) (simp_all add: recorded_def record_pass_def)
qed

lemma stage_okI:
  assumes "\<And>p h out p' h'. P (p, h) \<Longrightarrow> f p h = (out, p', h') \<Longrightarrow>
      over R declared h0 (p', h') \<and> (\<forall>o'. out = Inr o' \<longrightarrow> \<not> out_Blocked o' \<longrightarrow> Q (p', h'))"
  shows "stage_ok record_pass (over R declared h0) P (mk_step name a f) Q"
  using assms by (intro stage_of_pass) (auto simp: over_def)

lemma stage_core:
  assumes "carried P" and "\<And>s. P s \<Longrightarrow> over R declared h0 s"
    and "\<And>p h. same_core p (fst (snd (f p h))) \<and> emits (step_call {Touches} (p_cluster p)) h (snd (snd (f p h)))"
  shows "stage_ok record_pass (over R declared h0) P (mk_step name a f) P"
proof (rule stage_okI)
  fix p h out p' h' assume "P (p, h)" and f: "f p h = (out, p', h')"
  have "emits silent h h'" using assms(3) [of p h] f by (auto elim: emits_mono step_call_silent)
  with assms(1,3) \<open>P (p, h)\<close> f have "P (p', h')" unfolding carried_def by (metis fst_conv snd_conv)
  with assms(2) show "over R declared h0 (p', h') \<and> (\<forall>o'. out = Inr o' \<longrightarrow> \<not> out_Blocked o' \<longrightarrow> P (p', h'))" by blast
qed

text \<open>
  A step that may panic: with one set per node it indexes within the desired sets, and the rest
  is a claim without requests.
\<close>

lemma stage_aligned:
  assumes "carried P" and "\<And>s. P s \<Longrightarrow> over R declared h0 s" and "\<And>p h. P (p, h) \<Longrightarrow> aligned p"
    and "\<And>p h. aligned p \<Longrightarrow> claims_have_requests R \<Longrightarrow> f p h \<noteq> None"
    and "\<And>p h out p' h'. f p h = Some (out, p', h') \<Longrightarrow> same_core p p' \<and> emits (step_call {Touches} (p_cluster p)) h h'"
  shows "stage_ok record_pass (over R declared h0) P (mk_step name a (or_panic f)) P"
proof (rule stage_okI)
  fix p h out p' h' assume P: "P (p, h)" and f: "or_panic f p h = (out, p', h')"
  show "over R declared h0 (p', h') \<and> (\<forall>o'. out = Inr o' \<longrightarrow> \<not> out_Blocked o' \<longrightarrow> P (p', h'))"
  proof (cases "f p h")
    case None
    then have c: "\<not> claims_have_requests R" using assms(3,4) P by blast
    from None f have r: "h' = h @ [CPanic]" "isl out" by (auto simp: or_panic_def)
    from assms(2) [OF P] have "panicked h0 h'"
      by (auto simp: over_def r panicked_emits [of _ h] dest!: tracks_extends)
    with c r show ?thesis by (auto simp: over_def)
  next
    case (Some y)
    with f have e: "f p h = Some (out, p', h')" by (auto simp: or_panic_def)
    have "emits silent h h'" using assms(5) [OF e] by (auto elim: emits_mono step_call_silent)
    with assms(1) assms(5) [OF e] P have "P (p', h')" unfolding carried_def by blast
    with assms(2) show ?thesis by blast
  qed
qed

text \<open>The steps that move the pass from one stage to the next.\<close>

lemma over_step:
  assumes "tracks R declared h0 h v" and "emits (step_call {Touches} c) h h'"
  shows "over R declared h0 (p', h')"
  using tracks_step [OF assms] by (auto simp: over_def)

lemma plan_stage: "stage_ok record_pass (over R declared h0) (fresh R declared h0)
    (mk_step name a (planDecommission R)) (planned R declared h0)"
proof (rule stage_okI)
  fix p h out p' h'
  assume s: "fresh R declared h0 (p, h)" and run: "planDecommission R p h = (out, p', h')"
  then obtain v where v: "tracks R declared h0 h v" and p: "p_decommission p = []" "map node_Name (p_nodes p) = declared"
    "\<not> cv_known (p_convergence p)" by (auto simp: fresh_def)
  have e: "emits (step_call {Touches} (p_cluster p)) h h'" using emits_planDecommission [of "{Touches}" p h R] by (simp add: run)
  have "p_convergence (fold (plan_set d) ss q) = p_convergence q" for d ss q
    by (induction ss arbitrary: q) (simp_all add: plan_set_def)
  with run have "p_convergence p' = p_convergence p"
    by (auto simp: planDecommission_def Let_def split: sum.splits prod.splits)
  with planDecommission_inv [OF run p(1)] p tracks_step [OF v e] have "planned R declared h0 (p', h')"
    by (auto simp: planned_def)
  then show "over R declared h0 (p', h') \<and> (\<forall>o'. out = Inr o' \<longrightarrow> \<not> out_Blocked o' \<longrightarrow> planned R declared h0 (p', h'))"
    using stage_over(2) by blast
qed

lemma render_aligned:
  assumes "render R p h = (Inr o', p', h')"
  shows "aligned p'"
proof -
  from assms obtain keys restarts where "render_nodes R p \<lparr>ro_Keys = keys\<rparr> (p_nodes p) [] [] = Inr (restarts, p_sets p')"
    and n: "p_nodes p' = p_nodes p"
    by (auto simp: render_def Let_def p_sets_def split: prod.splits sum.splits)
  from render_nodes_spec [OF this(1)] show ?thesis by (auto simp: aligned_def n dest: list_all2_lengthD)
qed

lemma render_frame:
  "p_decommission (fst (snd (render R p h))) = p_decommission p" "p_convergence (fst (snd (render R p h))) = p_convergence p"
  by (simp_all add: render_def Let_def split: prod.split sum.split)

lemma render_stage: "stage_ok record_pass (over R declared h0) (planned R declared h0)
    (mk_step name a (render R)) (rendered R declared h0)"
proof (rule stage_okI)
  fix p h out p' h'
  assume s: "planned R declared h0 (p, h)" and run: "render R p h = (out, p', h')"
  then obtain v where v: "tracks R declared h0 h v" by (auto simp: planned_def)
  have "emits (step_call {Touches} (p_cluster p)) h h'" using emits_render_step [of "{Touches}" p h R] by (simp add: run)
  from tracks_step [OF v this] s render_frame [of R p h] have "planned R declared h0 (p', h')"
    by (auto simp: planned_def run)
  then show "over R declared h0 (p', h') \<and> (\<forall>o'. out = Inr o' \<longrightarrow> \<not> out_Blocked o' \<longrightarrow> rendered R declared h0 (p', h'))"
    using stage_over(2) render_aligned run by (auto simp: rendered_def)
qed

lemma observe_frame:
  "p_decommission (fst (snd (observe R p h))) = p_decommission p" "p_convergence (fst (snd (observe R p h))) = p_convergence p"
  "p_nodes (fst (snd (observe R p h))) = p_nodes p" "p_sets (fst (snd (observe R p h))) = p_sets p"
  by (simp_all add: observe_def p_sets_def Let_def split: prod.split sum.split)

lemma observe_stage: "stage_ok record_pass (over R declared h0) (rendered R declared h0)
    (mk_step name a (observe R)) (rendered R declared h0)"
proof (rule stage_okI)
  fix p h out p' h'
  assume s: "rendered R declared h0 (p, h)" and run: "observe R p h = (out, p', h')"
  then obtain v where v: "tracks R declared h0 h v" by (auto simp: rendered_def planned_def)
  have "emits (step_call {Touches} (p_cluster p)) h h'" using emits_observe [of "{Touches}" p h R] by (simp add: run)
  from tracks_step [OF v this] s observe_frame [of R p h] have "rendered R declared h0 (p', h')"
    by (auto simp: rendered_def planned_def aligned_def run)
  then show "over R declared h0 (p', h') \<and> (\<forall>o'. out = Inr o' \<longrightarrow> \<not> out_Blocked o' \<longrightarrow> rendered R declared h0 (p', h'))"
    using stage_over(3) by blast
qed

lemma gather_stage: "stage_ok record_pass (over R declared h0) (rendered R declared h0)
    (mk_step name a (gatherConvergence R)) (informed R declared h0)"
proof (rule stage_okI)
  fix p h out p' h'
  assume s: "rendered R declared h0 (p, h)" and run: "gatherConvergence R p h = (out, p', h')"
  then obtain v where v: "tracks R declared h0 h v" "\<not> cv_known (p_convergence p)" by (auto simp: rendered_def planned_def)
  from gatherConvergence_frame [of R p h] obtain c where p': "p' = p\<lparr>p_convergence := c\<rparr>" by (auto simp: run)
  from gather_tracks [OF run v] s have "informed R declared h0 (p', h')"
    by (simp add: informed_def rendered_def planned_def aligned_def p' p_sets_def)
  then show "over R declared h0 (p', h') \<and> (\<forall>o'. out = Inr o' \<longrightarrow> \<not> out_Blocked o' \<longrightarrow> informed R declared h0 (p', h'))"
    using stage_over(4) by blast
qed

lemma layout_stage: "stage_ok record_pass (over R declared h0) (informed R declared h0)
    (mk_step name a (reconcileLayout R)) (informed R declared h0)"
proof (rule stage_okI)
  fix p h out p' h'
  assume s: "informed R declared h0 (p, h)" and run: "reconcileLayout R p h = (out, p', h')"
  then obtain v where v: "tracks R declared h0 h v" "believes p v" by (auto simp: informed_def)
  from layout_tracks [OF run v] reconcileLayout_frame [OF run] s have "informed R declared h0 (p', h')"
    by (simp add: informed_def aligned_def p_sets_def)
  then show "over R declared h0 (p', h') \<and> (\<forall>o'. out = Inr o' \<longrightarrow> \<not> out_Blocked o' \<longrightarrow> informed R declared h0 (p', h'))"
    using stage_over(4) by blast
qed

lemma drain_stage: "stage_ok record_pass (over R declared h0) (informed R declared h0)
    (mk_step name a (reconcileDecommission R)) (finished R declared h0)"
proof (rule stage_okI)
  fix p h out p' h'
  assume s: "informed R declared h0 (p, h)" and run: "reconcileDecommission R p h = (out, p', h')"
  then obtain v where v: "tracks R declared h0 h v" "believes p v" "plan_inv declared (p_decommission p)"
    by (auto simp: informed_def)
  from same_core_drain [of p R h] s have "aligned p'" by (simp add: run informed_def aligned_def same_core_def p_sets_def)
  with drain_tracks [OF run v(3,1,2)] have "finished R declared h0 (p', h')" by (auto simp: finished_def)
  then show "over R declared h0 (p', h') \<and> (\<forall>o'. out = Inr o' \<longrightarrow> \<not> out_Blocked o' \<longrightarrow> finished R declared h0 (p', h'))"
    using stage_over(5) by blast
qed

section \<open>The pipeline in stages\<close>

definition pass_stages :: "Reconciler \<Rightarrow> string list \<Rightarrow> history \<Rightarrow> (world \<Rightarrow> bool) list" where
  "pass_stages R declared h0 =
     [fresh R declared h0, fresh R declared h0, planned R declared h0]
     @ replicate 5 (rendered R declared h0) @ replicate 4 (informed R declared h0) @ replicate 6 (finished R declared h0)"

lemma pass_stages_ok: "stages_ok record_pass (over R declared h0) (pass_stages R declared h0) (pipeline R)"
proof -
  note core = stage_core [OF carried_stages(2) stage_over(3)] stage_core [OF carried_stages(4) stage_over(5)]
  have "stage_ok record_pass (over R declared h0) (fresh R declared h0) (mk_step n a (validate R)) (fresh R declared h0)" for n a
    by (rule stage_core [OF carried_stages(1) stage_over(1)]) (simp_all add: same_core_validate emits_validate)
  moreover have "stage_ok record_pass (over R declared h0) (rendered R declared h0) (mk_step n a (reconcileSecrets R)) (rendered R declared h0)"
    "stage_ok record_pass (over R declared h0) (rendered R declared h0) (mk_step n a (reconcileServices R)) (rendered R declared h0)"
    "stage_ok record_pass (over R declared h0) (rendered R declared h0) (mk_step n a (reconcileNodeConfigs R)) (rendered R declared h0)" for n a
    by (rule core(1); simp add: emits_objects same_core_secrets emits_reconcileSecrets)+
  moreover have "stage_ok record_pass (over R declared h0) (informed R declared h0) (mk_step n a (or_panic (reconcileStorage R))) (informed R declared h0)" for n a
    by (rule stage_aligned [OF carried_stages(3) stage_over(4)])
      (auto simp: informed_def aligned_def reconcileStorage_total simp del: not_None_eq intro: same_core_storage emits_storage_step)
  moreover have "stage_ok record_pass (over R declared h0) (informed R declared h0) (mk_step n a (reconcileNodes R)) (informed R declared h0)" for n a
    by (rule stage_core [OF carried_stages(3) stage_over(4)]) (simp_all add: same_core_nodes emits_reconcileNodes)
  moreover have "stage_ok record_pass (over R declared h0) (finished R declared h0) (mk_step n a (or_panic (reconcileReload R))) (finished R declared h0)" for n a
    by (rule stage_aligned [OF carried_stages(4) stage_over(5)])
      (auto simp: finished_def aligned_def reconcileReload_total simp del: not_None_eq intro: same_core_reload emits_reload_step)
  moreover have "stage_ok record_pass (over R declared h0) (finished R declared h0) (mk_step n a (reconcileBudget R)) (finished R declared h0)"
    "stage_ok record_pass (over R declared h0) (finished R declared h0) (mk_step n a (reconcileNetworkPolicy R)) (finished R declared h0)"
    "stage_ok record_pass (over R declared h0) (finished R declared h0) (mk_step n a (reconcilePodMonitor R)) (finished R declared h0)"
    "stage_ok record_pass (over R declared h0) (finished R declared h0) (mk_step n a (reconcileStatus R)) (finished R declared h0)" for n a
    by (rule core(2); simp add: emits_objects emits_reconcilePodMonitor same_core_status emits_status_step)+
  ultimately show ?thesis
    by (simp add: pass_stages_def pipeline_def numeral_eq_Suc plan_stage render_stage observe_stage gather_stage
        layout_stage drain_stage)
qed

interpretation staged: staged_pipeline record_pass "pipeline R" "pass_stages R declared h0" "over R declared h0" for R declared h0
proof
  show "stages_ok record_pass (over R declared h0) (pass_stages R declared h0) (pipeline R)" by (rule pass_stages_ok)
  fix x s r s'
  assume "x \<in> set (pipeline R)" "step_AlwaysRun x" "over R declared h0 s" "step_Run x s = (r, s')"
  moreover obtain p h where s: "s = (p, h)" by (cases s)
  ultimately have x: "snd (step_Run x s) = snd (observe R p h) \<or> snd (step_Run x s) = snd (reconcileStatus R p h)"
    and s': "s' = snd (step_Run x s)"
    by (auto simp: pipeline_def mk_step_def step_of_def split: prod.splits)
  have e: "emits (step_call {Touches} (p_cluster p)) h (snd s')"
    using x s' emits_observe [of "{Touches}" p h R] emits_status_step [of "{Touches}" "p_cluster p" h R p] by auto
  from \<open>over R declared h0 s\<close> have "(\<exists>v. tracks R declared h0 (snd s') v) \<or> \<not> claims_have_requests R \<and> panicked h0 (snd s')"
    unfolding over_def s using tracks_step [OF _ e] panicked_emits [OF _ e] by blast
  then show "over R declared h0 s' \<and> (\<forall>e. over R declared h0 (recorded record_pass e s'))"
    by (cases s') (simp add: over_recorded, simp add: over_def)
qed

lemma pass_tracks:
  assumes "newPass object (r_FSImageRegistry R) = Some p" and "pipeline_Run record_pass (pipeline R) (p, h) = (res, (p', h'))"
    and "tracks R (map node_Name (p_nodes p)) h0 h v"
  shows "(\<exists>v'. tracks R (map node_Name (p_nodes p)) h0 h' v') \<or> \<not> claims_have_requests R \<and> panicked h0 h'"
proof -
  let ?d = "map node_Name (p_nodes p)"
  have "hd (pass_stages R ?d h0) (p, h)"
    using newPass_cluster [OF assms(1)] assms(3)
    by (auto simp: pass_stages_def fresh_def zero_convergence_def)
  from staged.staged_outcome [OF this] assms(2)
  have "over R ?d h0 (p', h') \<or> last (pass_stages R ?d h0) (p', h')" by simp
  then show ?thesis by (auto simp: pass_stages_def over_def finished_def)
qed

section \<open>A whole reconcile\<close>

text \<open>The nodes of a pass are those the stored spec declares: the defaults leave the topology.\<close>

lemma NodeNames_topology:
  assumes "topo_Nodes (spec_Topology s) = topo_Nodes (spec_Topology t)" "topo_Racks (spec_Topology s) = topo_Racks (spec_Topology t)"
  shows "NodeNames s c = NodeNames t c"
  unfolding NodeNames_def TotalNodes_def assms ..

lemma newPass_names:
  assumes "newPass object reg = Some p"
  shows "NodeNames (fsc_Spec object) (fsc_Name object) = Some (map node_Name (p_nodes p))"
proof -
  have "NodeNames (fsc_Spec object) c = NodeNames (fsc_Spec (p_cluster p)) c" for c
    using assms by (intro NodeNames_topology) (auto simp: newPass_def Let_def split: option.splits)
  with node_names_NodeNames [OF newPass_cluster(9) [OF assms]] newPass_cluster(1) [OF assms] show ?thesis by simp
qed

lemma newPass_schema:
  assumes "schema_topology (spec_Topology (fsc_Spec object))"
  shows "\<exists>p. newPass object reg = Some p"
proof -
  let ?img = "spec_Image (WithDefaults (fsc_Spec object))"
  let ?c = "object\<lparr>fsc_Spec := (WithDefaults (fsc_Spec object))
    \<lparr>spec_Image := ?img\<lparr>img_Repository := ApplyRegistry (img_Repository ?img) reg\<rparr>\<rparr>\<rparr>"
  have "Nodes ?c \<noteq> None" using assms by (intro Nodes_schema) (simp del: not_None_eq)
  then show ?thesis by (auto simp: newPass_def Let_def)
qed

text \<open>A pass of a live object, for as long as no claim lacks its requests, does not panic.\<close>

lemma panicked_get: "emits P (h @ [CGetCluster ns name]) h' \<Longrightarrow> panicked h h' \<longleftrightarrow> panicked (h @ [CGetCluster ns name]) h'"
  by (auto simp: emits_def panicked_def)

lemma Reconcile_returns:
  assumes "claims_have_requests R"
    and "\<And>object. e_GetCluster R h ns name = Inr object \<Longrightarrow> fsc_DeletionTimestamp object = None \<Longrightarrow>
      \<exists>p. newPass object (r_FSImageRegistry R) = Some p"
  shows "\<exists>res cs. Reconcile R ns name h = Some (res, h @ cs) \<and> CPanic \<notin> set cs"
proof (cases "\<exists>object. e_GetCluster R h ns name = Inr object \<and> fsc_DeletionTimestamp object = None")
  case False
  then show ?thesis by (cases "e_GetCluster R h ns name") (auto simp: Reconcile_def Let_def)
next
  case True
  let ?h = "h @ [CGetCluster ns name]"
  from True assms(2) obtain object p where o: "e_GetCluster R h ns name = Inr object" "fsc_DeletionTimestamp object = None"
    and p: "newPass object (r_FSImageRegistry R) = Some p" by blast
  obtain r e p' h' where run: "pipeline_Run record_pass (pipeline R) (p, ?h) = ((r, e), (p', h'))"
    by (cases "pipeline_Run record_pass (pipeline R) (p, ?h)") auto
  have "tracks R (map node_Name (p_nodes p)) h ?h None" by (rule tracks_silent_one [OF tracks_start]) simp
  from pass_tracks [OF p run this] assms(1) obtain cs where cs: "h' = h @ cs" "CPanic \<notin> set cs"
    using tracks_extends by blast
  then have "\<not> panicked ?h h'" using panicked_get pipeline_calls [OF run] by (metis panicked_append)
  with Reconcile_live [OF o p run] cs show ?thesis by auto
qed

lemma Reconcile_tracks:
  assumes "Reconcile R ns name h = Some (res, h')" and "e_GetCluster R h ns name = Inr object"
    and "NodeNames (fsc_Spec object) (fsc_Name object) = Some declared"
  shows "\<exists>v. tracks R declared h h' v"
proof -
  let ?h = "h @ [CGetCluster ns name]"
  have one: "tracks R declared h ?h None" by (rule tracks_silent_one [OF tracks_start]) simp
  show ?thesis
  proof (cases "fsc_DeletionTimestamp object")
    case (Some t)
    with assms have "h' = ?h @ [CForget (fsc_Namespace object) (fsc_Name object)]" by (auto simp: Reconcile_def Let_def)
    moreover have "tracks R declared h (?h @ [CForget (fsc_Namespace object) (fsc_Name object)]) None"
      by (rule tracks_silent_one [OF one]) simp
    ultimately show ?thesis by auto
  next
    case None
    obtain p r e p' where p: "newPass object (r_FSImageRegistry R) = Some p"
      and run: "pipeline_Run record_pass (pipeline R) (p, ?h) = ((r, e), (p', h'))" and np: "\<not> panicked ?h h'"
      by (rule Reconcile_ran [OF assms(1,2) None])
    with newPass_names [OF p] assms(3) have d: "declared = map node_Name (p_nodes p)" by simp
    from pipeline_calls [OF run] np have "\<not> panicked h h'" using panicked_get by blast
    with pass_tracks [OF p run one [unfolded d]] d show ?thesis by simp
  qed
qed

text \<open>The world that stores one object: its claims have requests, and a pass over it returns.\<close>

lemma storing_claims: "claims_have_requests (storing object)"
  by (simp add: claims_have_requests_def storing_def)

lemma storing_reconciles:
  "\<exists>res h'. Reconcile (storing (sample_cluster (sample_spec three_nodes q))) ''storage'' ''fs'' [] = Some (res, h')"
  using Reconcile_returns [OF storing_claims] newPass_schema sample_schema
  by (metis storing_simps(1) sum.inject(2))

section \<open>Properties\<close>

text \<open>
  C13. Every reconcile refines the specification of removing nodes. Whatever the API server and
  the nodes answer, and wherever the pass is blocked or fails, the calls of the whole pass are
  the trace of a run of \<open>drain_run\<close>: a StatefulSet is deleted together with its pod only when
  the layout last read in this very pass, with no layout accepted since, retains no older
  version and has no share for the node, and the stored spec does not declare the node. The
  events of the trace name exactly the nodes deleted.
\<close>

theorem reconcile_refines_drain:
  assumes "Reconcile R ns name h = Some (res, h')" and "e_GetCluster R h ns name = Inr object"
    and "NodeNames (fsc_Spec object) (fsc_Name object) = Some declared"
  shows "\<exists>cs es v. h' = h @ cs \<and> traced R h h' es \<and> drain_run declared es v
    \<and> deleted cs = concat (map removed_of es)"
proof -
  from Reconcile_tracks [OF assms] obtain es v where es: "traced R h h' es" "drain_run declared es v"
    by (auto simp: tracks_def)
  with traced_calls [OF es(1)] show ?thesis by blast
qed

theorem reconcile_refines_drain_witness:
  "\<exists>res cs es v. Reconcile (storing (sample_cluster (sample_spec three_nodes 1000))) ''storage'' ''fs'' [] = Some (res, cs)
     \<and> traced (storing (sample_cluster (sample_spec three_nodes 1000))) [] cs es
     \<and> drain_run [''fs-0'', ''fs-1'', ''fs-2''] es v \<and> deleted cs = concat (map removed_of es)"
proof -
  let ?c = "sample_cluster (sample_spec three_nodes 1000)"
  from storing_reconciles obtain res cs where r: "Reconcile (storing ?c) ''storage'' ''fs'' [] = Some (res, cs)" by blast
  have "NodeNames (fsc_Spec ?c) (fsc_Name ?c) = Some [''fs-0'', ''fs-1'', ''fs-2'']" by code_simp
  with reconcile_refines_drain [OF r storing_simps(1)] r show ?thesis by auto
qed

text \<open>
  C14. Every reconcile ends without a panic. For an object whose topology the schema admits, and
  when there is none, \<open>Reconcile\<close> returns a result whatever the answers it gets, as long as
  every claim the API server returns carries resource requests (its own validation demands a
  storage request; growing one writes into that map, and a nil map would panic). No step of the
  pass indexes past the desired StatefulSets: where the storage and the reload step index them
  by node, there is exactly one per node, those being removed included.
\<close>

theorem reconcile_total:
  assumes "\<And>object. e_GetCluster R h ns name = Inr object \<Longrightarrow> schema_topology (spec_Topology (fsc_Spec object))"
    and "claims_have_requests R"
  shows "\<exists>res cs. Reconcile R ns name h = Some (res, h @ cs) \<and> CPanic \<notin> set cs"
  using Reconcile_returns [OF assms(2)] newPass_schema assms(1) by blast

theorem reconcile_total_witness:
  "\<exists>res cs. Reconcile (storing (sample_cluster (sample_spec three_nodes 1000))) ''storage'' ''fs'' [] = Some (res, cs)
     \<and> CPanic \<notin> set cs"
  using reconcile_total [where R = "storing (sample_cluster (sample_spec three_nodes 1000))" and h = "[]"
      and ns = "''storage''" and name = "''fs''"] sample_schema storing_simps(1) storing_claims by fastforce

text \<open>Two properties of the controller, at the pass of a stored object.\<close>

theorem secrets_created_once_witness:
  "\<exists>res cs. Reconcile (storing (sample_cluster (sample_spec three_nodes 1000))) ''storage'' ''fs'' [] = Some (res, cs)
     \<and> CDelete KindSecret ''storage'' ''fs-admin-token'' False \<notin> set cs"
proof -
  let ?c = "sample_cluster (sample_spec three_nodes 1000)"
  from storing_reconciles obtain res h' where r: "Reconcile (storing ?c) ''storage'' ''fs'' [] = Some (res, h')" by blast
  have "''fs-admin-token'' \<in> minted ?c" by (simp add: minted_def AdminTokenSecretName_def sample_cluster_def)
  with secrets_created_once [OF r storing_simps(1)] r show ?thesis by fastforce
qed

theorem reconcile_comes_back_witness:
  "\<exists>result err cs. Reconcile (storing (sample_cluster (sample_spec three_nodes 1000))) ''storage'' ''fs'' []
       = Some ((result, err), cs) \<and> (err \<noteq> None \<or> 0 < res_RequeueAfter result)"
proof -
  let ?c = "sample_cluster (sample_spec three_nodes 1000)"
  from storing_reconciles obtain result err h' where
    r: "Reconcile (storing ?c) ''storage'' ''fs'' [] = Some ((result, err), h')" by (metis surj_pair)
  have "fsc_DeletionTimestamp ?c = None" by (simp add: sample_cluster_def)
  with reconcile_comes_back [OF r storing_simps(1)] r show ?thesis by blast
qed

end
