(* ===== verification/Rollout_Rounds.thy ===== *)
theory Rollout_Rounds
  imports Rollout
begin

text \<open>
  A rollout takes many passes: each one looks at the StatefulSets as they are now, applies what is
  missing or one that is stale, and comes back. Here the observe and the nodes step run against a
  server that keeps what is applied. \<open>set_server\<close> states what a rollout relies on of the API server
  and the StatefulSet controller: an applied set is listed with the annotations it was applied
  with, other sets stay as they are, and given time every set serves what it was told to run.
\<close>

section \<open>A server of StatefulSets\<close>

text \<open>\<open>sv_Settle\<close> is the time between two passes, in which the StatefulSet controller does its work.\<close>

record 's set_server =
  sv_List :: "'s \<Rightarrow> StatefulSet list"
  sv_Apply :: "StatefulSet \<Rightarrow> 's \<Rightarrow> 's"
  sv_Settle :: "'s \<Rightarrow> 's"

definition live_set :: "'s set_server \<Rightarrow> 's \<Rightarrow> string \<Rightarrow> StatefulSet option" where
  "live_set S st n = gm_get (sets_by_name (sv_List S st)) n"

text \<open>The server after the calls \<open>cs\<close> that follow \<open>h\<close>: an apply that was not refused is stored.\<close>

fun server_after :: "'s set_server \<Rightarrow> Reconciler \<Rightarrow> history \<Rightarrow> history \<Rightarrow> 's \<Rightarrow> 's" where
  "server_after S R h [] st = st"
| "server_after S R h (c # cs) st = server_after S R (h @ [c]) cs (case c of
      CApply own obj \<Rightarrow> (case obj of
        KStatefulSet s \<Rightarrow> if e_Apply R h obj = None then sv_Apply S s st else st
      | other \<Rightarrow> st)
    | other \<Rightarrow> st)"

lemma server_after_append:
  "server_after S R h (as @ bs) st = server_after S R (h @ as) bs (server_after S R h as st)"
  by (induction as arbitrary: h st) simp_all

text \<open>One pass of the rollout: the sets are listed, the step runs, and time passes.\<close>

definition at_server :: "'s set_server \<Rightarrow> 's \<Rightarrow> Reconciler \<Rightarrow> Reconciler" where
  "at_server S st R = R\<lparr>e_ListSets := \<lambda>h ns sel. Inr (sv_List S st)\<rparr>"

definition rollout_round :: "'s set_server \<Rightarrow> Reconciler \<Rightarrow> pass \<Rightarrow> 's \<times> history \<Rightarrow> 's \<times> history" where
  "rollout_round S R p = (\<lambda>(st, h).
     case observe (at_server S st R) p h of
       (out, p1, h1) \<Rightarrow> (case reconcileNodes (at_server S st R) p1 h1 of
         (out', p2, h2) \<Rightarrow> (sv_Settle S (server_after S R h1 (drop (length h1) h2) st), h2)))"

text \<open>The template revision the server has for a name, and the desired sets it does not have as desired.\<close>

definition revision_at :: "'s set_server \<Rightarrow> 's \<Rightarrow> string \<Rightarrow> string option" where
  "revision_at S st n = map_option template_revision (live_set S st n)"

definition current :: "'s set_server \<Rightarrow> 's \<Rightarrow> StatefulSet \<Rightarrow> bool" where
  "current S st s \<longleftrightarrow> revision_at S st (set_Name s) = Some (template_revision s)"

definition outdated :: "'s set_server \<Rightarrow> StatefulSet list \<Rightarrow> 's \<Rightarrow> StatefulSet list" where
  "outdated S ds st = filter (\<lambda>s. \<not> current S st s) ds"

text \<open>
  A round is healthy when nothing it writes is refused, the nodes that exist serve, and the cluster
  is known to have converged.
\<close>

definition accepts :: "Reconciler \<Rightarrow> pass \<Rightarrow> bool" where
  "accepts R p \<longleftrightarrow> (\<forall>o'. e_SetOwner R (p_cluster p) o' = None \<and> e_Convert R o' = None \<and> (\<forall>h. e_Apply R h o' = None))"

definition healthy :: "'s set_server \<Rightarrow> Reconciler \<Rightarrow> pass \<Rightarrow> 's \<Rightarrow> bool" where
  "healthy S R p st \<longleftrightarrow> accepts R p \<and> cv_known (p_convergence p) \<and> cv_converged (p_convergence p)
     \<and> (\<forall>n \<in> set (p_nodes p). \<forall>l. live_set S st (node_Name n) = Some l \<longrightarrow> nodeServing l)"

text \<open>
  The rounds of a rollout: in each, the answers and the pass are whatever they are by then. The
  passes agree on what they desire; \<open>healthy_rounds\<close> counts the healthy ones.
\<close>

fun rollout_rounds :: "'s set_server \<Rightarrow> (Reconciler \<times> pass) list \<Rightarrow> 's \<times> history \<Rightarrow> 's \<times> history" where
  "rollout_rounds S [] sh = sh"
| "rollout_rounds S ((R, p) # ws) sh = rollout_rounds S ws (rollout_round S R p sh)"

fun healthy_rounds :: "'s set_server \<Rightarrow> (Reconciler \<times> pass) list \<Rightarrow> 's \<times> history \<Rightarrow> nat" where
  "healthy_rounds S [] sh = 0"
| "healthy_rounds S ((R, p) # ws) sh =
     (if healthy S R p (fst sh) then 1 else 0) + healthy_rounds S ws (rollout_round S R p sh)"

text \<open>A pass of the rollout to \<open>ds\<close>: they are its desired sets, one for each of its nodes, and nothing
  has been observed yet.\<close>

definition rolls_to :: "StatefulSet list \<Rightarrow> pass \<Rightarrow> bool" where
  "rolls_to ds p \<longleftrightarrow> p_sets p = ds \<and> map set_Name ds = map node_Name (p_nodes p) \<and> distinct (map set_Name ds)
     \<and> hl_notReady (p_health p) = []"

lemma rolls_to_sets:
  assumes "rolls_to ds p"
  shows "p_sets p = ds" and "distinct (map set_Name (p_sets p))"
  using assms unfolding rolls_to_def by blast+

section \<open>What a pass writes\<close>

text \<open>A call that applies, of StatefulSets, only desired ones.\<close>

definition applies_desired :: "pass \<Rightarrow> call \<Rightarrow> bool" where
  "applies_desired p c \<longleftrightarrow> (\<forall>own s. c = CApply own (KStatefulSet s) \<longrightarrow>
     (\<exists>d \<in> set (p_sets p). set_Name s = set_Name d \<and> set_Annotations s = set_Annotations d))"

lemma applies_desired_other [simp]:
  "applies_desired p (CEvent t r m)" "applies_desired p CNow"
  by (simp_all add: applies_desired_def)

lemma apply_desired:
  assumes "s \<in> set (p_sets p)"
  shows "emits (applies_desired p) h (snd (apply_object R c (KStatefulSet s) h))"
  using assms by (auto simp: apply_object_def applyConfiguration_def applies_desired_def split: option.splits)

lemma classify_loop_desired:
  "set ss \<subseteq> set (p_sets p) \<Longrightarrow> emits (applies_desired p) h (snd (classify_loop R p ss h k st))"
proof (induction ss arbitrary: h k st)
  case (Cons s ss)
  obtain e h1 where a: "apply_object R (p_cluster p) (KStatefulSet s) h = (e, h1)"
    by (cases "apply_object R (p_cluster p) (KStatefulSet s) h")
  have 1: "emits (applies_desired p) h h1"
    using apply_desired [of s p h R "p_cluster p"] Cons.prems by (simp add: a)
  have "emits (applies_desired p) h1 (snd (classify_loop R p ss h1 (k + 1) st))" using Cons by simp
  with 1 have "emits (applies_desired p) h (snd (classify_loop R p ss h1 (k + 1) st))" by (rule emits_trans)
  with 1 Cons show ?case by (auto simp: a split: option.split)
qed simp

lemma classify_desired:
  assumes "classify R p h = (res, h')"
  shows "emits (applies_desired p) h h'"
  using classify_loop_desired [of "p_sets p" p h R 0 "[]"] assms
  by (auto simp: classify_def split: prod.splits sum.splits)

lemma roll_desired:
  assumes "set stale \<subseteq> set (p_sets p)"
  shows "emits (applies_desired p) h (snd (snd (roll R stale p h)))"
proof (cases stale)
  case (Cons nxt rest)
  let ?P = "applies_desired p"
  obtain phase hn where ph: "hold_phase p = (phase, hn)" by (cases "hold_phase p")
  have held: "emits ?P h (snd (snd (hold R phase hn m p h)))" for m
    by (rule emits_hold) simp_all
  have rep: "emits ?P h (snd (replace_down R p s h))" if "s \<in> set (p_sets p)" for s h
    using apply_desired [OF that, of h R "p_cluster p"]
    by (auto simp: replace_down_def emits_event_after split: prod.split option.split)
  show ?thesis
  proof (cases "downSets stale (hl_notReady (p_health p))")
    case d: (Cons d ds)
    then have "set (d # ds) \<subseteq> set (p_sets p)" using assms by (auto simp: d [symmetric] downSets_def)
    then have "emits ?P h (snd (each (replace_down R p) (d # ds) h))" by (intro emits_each rep) auto
    moreover obtain e h1 where "each (replace_down R p) (d # ds) h = (e, h1)" by (cases "each (replace_down R p) (d # ds) h")
    ultimately show ?thesis using Cons ph d
      by (auto simp: roll_def Let_def now_def simp del: each.simps intro!: emits_snoc split: option.split)
  next
    case Nil
    obtain e h1 where a: "apply_object R (p_cluster p) (KStatefulSet nxt) h = (e, h1)"
      by (cases "apply_object R (p_cluster p) (KStatefulSet nxt) h")
    have "emits ?P h h1" using apply_desired [of nxt p h R "p_cluster p"] assms Cons by (simp add: a)
    then show ?thesis using Cons ph Nil a held
      by (auto simp: roll_def Let_def now_def intro!: emits_snoc emits_event_after split: option.split)
  qed
qed (simp add: roll_def)

lemma nodes_desired: "emits (applies_desired p) h (snd (snd (reconcileNodes R p h)))"
proof -
  obtain res h1 where c: "classify R p h = (res, h1)" by (cases "classify R p h")
  note 1 = classify_desired [OF c]
  then have "emits (applies_desired p) h (event t r m h1)" for t r m by (simp add: emits_event_after)
  moreover have "emits (applies_desired p) h (snd (snd (roll R st p h2)))"
    if "res = Inr (k, st)" "emits (applies_desired p) h h2" for k st h2
  proof (rule emits_trans [OF that(2)], rule roll_desired)
    show "set st \<subseteq> set (p_sets p)" using classify_spec [OF c] that(1) by blast
  qed
  ultimately show ?thesis using 1 by (auto simp: reconcileNodes_def c split: sum.split prod.split)
qed

text \<open>The configuration a set is applied as.\<close>

definition as_applied :: "StatefulSet \<Rightarrow> StatefulSet" where
  "as_applied s = s\<lparr>set_CreationTimestamp := None, set_Status := zero_set_status\<rparr>"

lemma as_applied_simps [simp]:
  "set_Name (as_applied s) = set_Name s" "template_revision (as_applied s) = template_revision s"
  by (simp_all add: as_applied_def template_revision_def)

lemma apply_accepted:
  "accepts R p \<Longrightarrow> apply_object R (p_cluster p) (KStatefulSet s) h
     = (None, h @ [CApply (fsc_Name (p_cluster p)) (KStatefulSet (as_applied s))])"
  by (simp add: accepts_def apply_object_def applyConfiguration_def as_applied_def)

definition writes_set :: "StatefulSet \<Rightarrow> history \<Rightarrow> bool" where
  "writes_set s cs \<longleftrightarrow> (\<exists>own. CApply own (KStatefulSet (as_applied s)) \<in> set cs)"

lemma writes_set_append [simp]: "writes_set s (as @ bs) \<longleftrightarrow> writes_set s as \<or> writes_set s bs"
  by (auto simp: writes_set_def)

definition stale_in :: "pass \<Rightarrow> StatefulSet \<Rightarrow> bool" where
  "stale_in p s \<longleftrightarrow> (case gm_get (p_live p) (set_Name s) of None \<Rightarrow> False
     | Some l \<Rightarrow> template_revision l \<noteq> template_revision s)"

lemma stale_in_live [simp]:
  "gm_get (p_live p) (set_Name s) = None \<Longrightarrow> \<not> stale_in p s"
  "gm_get (p_live p) (set_Name s) = Some l \<Longrightarrow> stale_in p s \<longleftrightarrow> template_revision l \<noteq> template_revision s"
  by (simp_all add: stale_in_def)

lemma classify_loop_accepted:
  assumes "accepts R p"
  shows "\<exists>cs k'. classify_loop R p ss h k st = (Inr (k', st @ filter (stale_in p) ss), h @ cs)
    \<and> (\<forall>s \<in> set ss. gm_get (p_live p) (set_Name s) = None \<longrightarrow> writes_set s cs)"
proof (induction ss arbitrary: h k st)
  case (Cons s ss)
  let ?c = "CApply (fsc_Name (p_cluster p)) (KStatefulSet (as_applied s))"
  show ?case
  proof (cases "gm_get (p_live p) (set_Name s)")
    case None
    from Cons [of "h @ [?c]" "k + 1" st] obtain cs k' where
      "classify_loop R p ss (h @ [?c]) (k + 1) st = (Inr (k', st @ filter (stale_in p) ss), (h @ [?c]) @ cs)"
      "\<forall>s \<in> set ss. gm_get (p_live p) (set_Name s) = None \<longrightarrow> writes_set s cs" by blast
    with None apply_accepted [OF assms, of s h] show ?thesis
      by (intro exI [of _ "?c # cs"] exI [of _ k']) (auto simp: writes_set_def)
  next
    case (Some l)
    then show ?thesis using Cons [of h k st] Cons [of h k "st @ [s]"] by auto
  qed
qed simp

lemma roll_accepted:
  assumes "accepts R p" "roll_gate p"
  shows "\<exists>cs. snd (snd (roll R (nxt # rest) p h)) = h @ cs \<and> writes_set nxt cs"
  using assms apply_accepted [OF assms(1), of nxt h]
  by (auto simp: roll_def roll_gate_def downSets_def now_def event_def writes_set_def Let_def split: prod.split)

text \<open>
  Where nothing is refused the step writes every desired set that does not exist, and past the gate
  one of those that are stale.
\<close>

lemma nodes_accepted:
  assumes a: "accepts R p"
  shows "\<exists>cs. snd (snd (reconcileNodes R p h)) = h @ cs
    \<and> (\<forall>s \<in> set (p_sets p). gm_get (p_live p) (set_Name s) = None \<longrightarrow> writes_set s cs)
    \<and> (roll_gate p \<longrightarrow> filter (stale_in p) (p_sets p) \<noteq> [] \<longrightarrow> (\<exists>s \<in> set (p_sets p). stale_in p s \<and> writes_set s cs))"
proof -
  let ?st = "filter (stale_in p) (p_sets p)"
  let ?order = "rollOrder (fsc_Spec (p_cluster p)) ?st (p_nodes p)"
  obtain cs k where c: "classify R p h = (Inr (k, ?order), h @ cs)"
    and w: "\<forall>s \<in> set (p_sets p). gm_get (p_live p) (set_Name s) = None \<longrightarrow> writes_set s cs"
    using classify_loop_accepted [OF a, of "p_sets p" h 0 "[]"] by (auto simp: classify_def)
  define ev where "ev = (if 0 < k then [CEvent Normal eventNodesCreating (Sprintf fmt_creating [AD k])] else [])"
  have r: "reconcileNodes R p h = roll R ?order p (h @ cs @ ev)"
    by (simp add: reconcileNodes_def c event_def ev_def)
  obtain ds where d: "snd (snd (roll R ?order p (h @ cs @ ev))) = h @ cs @ ev @ ds"
    using roll_desired [of ?order p "h @ cs @ ev" R] by (auto simp: rollOrder_set emits_def)
  have "\<exists>s \<in> set (p_sets p). stale_in p s \<and> writes_set s ds" if g: "roll_gate p" and ne: "?st \<noteq> []"
  proof -
    obtain nxt rest where o: "?order = nxt # rest" using ne rollOrder_set [of "fsc_Spec (p_cluster p)" ?st "p_nodes p"]
      by (cases ?order) auto
    then have "nxt \<in> set ?st" using rollOrder_set [of "fsc_Spec (p_cluster p)" ?st "p_nodes p"] by auto
    moreover have "writes_set nxt ds" using roll_accepted [OF a g, of nxt rest "h @ cs @ ev"] d o by auto
    ultimately show ?thesis by auto
  qed
  with w r d show ?thesis by (intro exI [of _ "cs @ ev @ ds"]) auto
qed

text \<open>What a round does to the server.\<close>

definition observed_pass :: "'s set_server \<Rightarrow> 's \<Rightarrow> pass \<Rightarrow> pass \<Rightarrow> bool" where
  "observed_pass S st p p1 \<longleftrightarrow> p_live p1 = sets_by_name (sv_List S st) \<and> p_sets p1 = p_sets p
     \<and> p_cluster p1 = p_cluster p \<and> p_nodes p1 = p_nodes p \<and> p_convergence p1 = p_convergence p
     \<and> hl_notReady (p_health p1) = hl_notReady (p_health p)
         @ map node_Name (filter (not_serving (sets_by_name (sv_List S st))) (p_nodes p))"

lemma observe_at_server:
  "\<exists>c p1. observe (at_server S st R) p h = (Continue, p1, h @ [c]) \<and> observed_pass S st p p1"
proof -
  let ?live = "sets_by_name (sv_List S st)"
  let ?f = "fold (observe_node (fsc_Spec (p_cluster p)) ?live (revisions_by_name (p_sets p))) (p_nodes p) (p_health p, [], [])"
  obtain hl ds dn where f: "?f = (hl, ds, dn)" by (cases ?f)
  from observe_loop [of "fsc_Spec (p_cluster p)" ?live "revisions_by_name (p_sets p)" "p_nodes p" "p_health p" "[]" "[]"]
  have "hl_notReady hl = hl_notReady (p_health p) @ map node_Name (filter (not_serving ?live) (p_nodes p))"
    by (simp add: f)
  moreover have "p_sets (p\<lparr>p_live := l, p_health := x\<rparr>) = p_sets p" for l x by (simp add: p_sets_def)
  ultimately show ?thesis by (simp add: observe_def nodeSets_def at_server_def Let_def f observed_pass_def)
qed

lemma round_writes:
  assumes "rolls_to ds p"
  shows "\<exists>h1 cs. rollout_round S R p (st, h) = (sv_Settle S (server_after S R h1 cs st), h1 @ cs)
    \<and> list_all (applies_desired p) cs
    \<and> (healthy S R p st \<longrightarrow> outdated S ds st \<noteq> [] \<longrightarrow> (\<exists>s \<in> set (outdated S ds st). writes_set s cs))"
proof -
  let ?R = "at_server S st R"
  obtain c p1 where o: "observe ?R p h = (Continue, p1, h @ [c])" and p1: "observed_pass S st p p1"
    using observe_at_server [of S st R p h] by blast
  have sets: "p_sets p1 = ds" using assms p1 by (simp add: rolls_to_def observed_pass_def)
  have live: "gm_get (p_live p1) n = live_set S st n" for n using p1 by (simp add: observed_pass_def live_set_def)
  obtain cs where cs: "snd (snd (reconcileNodes ?R p1 (h @ [c]))) = (h @ [c]) @ cs" "list_all (applies_desired p1) cs"
    using nodes_desired [of p1 "h @ [c]" ?R] by (auto simp: emits_def)
  have prog: "\<exists>s \<in> set (outdated S ds st). writes_set s cs" if hl: "healthy S R p st" and out: "outdated S ds st \<noteq> []"
  proof -
    have "accepts ?R p1" using hl p1 by (simp add: healthy_def accepts_def at_server_def observed_pass_def)
    from nodes_accepted [OF this, of "h @ [c]"] cs(1) sets live
    have miss: "\<forall>s \<in> set ds. live_set S st (set_Name s) = None \<longrightarrow> writes_set s cs"
      and stale: "roll_gate p1 \<longrightarrow> filter (stale_in p1) ds \<noteq> [] \<longrightarrow> (\<exists>s \<in> set ds. stale_in p1 s \<and> writes_set s cs)"
      by auto
    show ?thesis
    proof (cases "\<exists>s \<in> set ds. live_set S st (set_Name s) = None")
      case True
      with miss show ?thesis by (fastforce simp: outdated_def current_def revision_at_def)
    next
      case False
      then have same: "stale_in p1 s \<longleftrightarrow> \<not> current S st s" if "s \<in> set ds" for s
        using that by (auto simp: stale_in_def live current_def revision_at_def split: option.split)
      then have "filter (stale_in p1) ds \<noteq> []" using out by (simp add: outdated_def filter_empty_conv)
      moreover have "live_set S st (node_Name n) \<noteq> None" if "n \<in> set (p_nodes p)" for n
      proof -
        have "node_Name n \<in> set (map set_Name ds)" using that assms by (simp add: rolls_to_def)
        with False show ?thesis by auto
      qed
      with hl assms p1 have "hl_notReady (p_health p1) = []"
        by (auto simp: observed_pass_def rolls_to_def not_serving_def live_set_def [symmetric] healthy_def
            filter_empty_conv split: option.splits)
      with hl p1 have "roll_gate p1" by (simp add: roll_gate_def observed_pass_def healthy_def)
      ultimately obtain s where "s \<in> set ds" "stale_in p1 s" "writes_set s cs" using stale by blast
      with same show ?thesis by (auto simp: outdated_def)
    qed
  qed
  have "list_all (applies_desired p) cs" using cs(2) p1 by (simp add: applies_desired_def observed_pass_def list_all_iff)
  with prog cs(1) o show ?thesis
    by (intro exI [of _ "h @ [c]"] exI [of _ cs]) (auto simp: rollout_round_def split: prod.split)
qed

section \<open>The server's laws\<close>

lemma filter_no_longer: "(\<And>x. x \<in> set xs \<Longrightarrow> P x \<Longrightarrow> Q x) \<Longrightarrow> length (filter P xs) \<le> length (filter Q xs)"
  by (induction xs) (auto simp: le_SucI)

lemma filter_shorter:
  "(\<And>x. x \<in> set xs \<Longrightarrow> P x \<Longrightarrow> Q x) \<Longrightarrow> x \<in> set xs \<Longrightarrow> Q x \<Longrightarrow> \<not> P x
   \<Longrightarrow> length (filter P xs) < length (filter Q xs)"
proof (induction xs)
  case (Cons a xs)
  show ?case
  proof (cases "x = a")
    case True
    with Cons.prems filter_no_longer [of xs P Q] show ?thesis by (simp add: less_Suc_eq_le)
  next
    case False
    then have "length (filter P xs) < length (filter Q xs)" using Cons by simp
    with Cons.prems show ?thesis by auto
  qed
qed simp

text \<open>
  An applied set is listed with the revision it was applied with, applying one set leaves the
  others' revisions alone, and so does the passing of time.
\<close>

locale set_server_laws =
  fixes S :: "'s set_server"
  assumes applied_revision:
    "revision_at S (sv_Apply S s st) n = (if n = set_Name s then Some (template_revision s) else revision_at S st n)"
    and settled_revision: "revision_at S (sv_Settle S st) n = revision_at S st n"
begin

lemma current_settled [simp]: "current S (sv_Settle S st) s \<longleftrightarrow> current S st s"
  by (simp add: current_def settled_revision)

lemma current_applied:
  "current S (sv_Apply S t st) s \<longleftrightarrow>
     (if set_Name s = set_Name t then template_revision s = template_revision t else current S st s)"
  by (auto simp: current_def applied_revision)

text \<open>What is current stays current, since nothing but the desired sets is applied.\<close>

lemma apply_keeps:
  assumes "distinct (map set_Name (p_sets p))" "s \<in> set (p_sets p)" "current S st s"
    "applies_desired p (CApply own (KStatefulSet t))"
  shows "current S (sv_Apply S t st) s"
proof -
  from assms(4) obtain d where d: "d \<in> set (p_sets p)" "set_Name t = set_Name d" "set_Annotations t = set_Annotations d"
    by (auto simp: applies_desired_def)
  have "d = s" if "set_Name s = set_Name t" using assms(1,2) d(1,2) that by (metis distinct_map inj_onD)
  with d assms(3) show ?thesis by (auto simp: current_applied template_revision_def)
qed

lemma after_keeps:
  assumes "distinct (map set_Name (p_sets p))" "s \<in> set (p_sets p)"
  shows "list_all (applies_desired p) cs \<Longrightarrow> current S st s \<Longrightarrow> current S (server_after S R h cs st) s"
proof (induction cs arbitrary: h st)
  case (Cons c cs)
  then show ?case using apply_keeps [OF assms] by (auto split: call.split object.split)
qed simp

lemma after_gains:
  assumes "distinct (map set_Name (p_sets p))" "s \<in> set (p_sets p)" "list_all (applies_desired p) cs"
    "writes_set s cs" "accepts R p"
  shows "current S (server_after S R h cs st) s"
proof -
  obtain as own bs where cs: "cs = as @ CApply own (KStatefulSet (as_applied s)) # bs"
    using assms(4) by (auto simp: writes_set_def in_set_conv_decomp)
  have "current S (sv_Apply S (as_applied s) st') s" for st' by (simp add: current_applied)
  with assms show ?thesis
    by (auto simp: cs server_after_append accepts_def intro!: after_keeps)
qed

text \<open>No round loses ground, and a healthy one gains some.\<close>

lemma round_keeps:
  assumes "rolls_to ds p" "s \<in> set ds" "current S st s"
  shows "current S (fst (rollout_round S R p (st, h))) s"
proof -
  obtain h1 cs where "rollout_round S R p (st, h) = (sv_Settle S (server_after S R h1 cs st), h1 @ cs)"
    "list_all (applies_desired p) cs" using round_writes [OF assms(1), of S R st h] by blast
  with assms after_keeps [of p s cs st R h1] rolls_to_sets [OF assms(1)] show ?thesis by simp
qed

lemma round_gains:
  assumes "rolls_to ds p" "healthy S R p st" "outdated S ds st \<noteq> []"
  shows "\<exists>s \<in> set (outdated S ds st). current S (fst (rollout_round S R p (st, h))) s"
proof -
  obtain h1 cs s where r: "rollout_round S R p (st, h) = (sv_Settle S (server_after S R h1 cs st), h1 @ cs)"
    "list_all (applies_desired p) cs" "s \<in> set (outdated S ds st)" "writes_set s cs"
    using round_writes [OF assms(1), of S R st h] assms(2,3) by blast
  moreover have "s \<in> set ds" using r(3) by (simp add: outdated_def)
  ultimately show ?thesis using assms(2) after_gains [of p s cs R h1 st] rolls_to_sets [OF assms(1)]
    by (auto simp: healthy_def intro!: bexI [of _ s])
qed

lemma round_outdated:
  assumes "rolls_to ds p"
  shows "length (outdated S ds (fst (rollout_round S R p (st, h))))
    \<le> length (outdated S ds st) - (if healthy S R p st then 1 else 0)"
proof -
  let ?st' = "fst (rollout_round S R p (st, h))"
  have sub: "\<not> current S st s" if "s \<in> set ds" "\<not> current S ?st' s" for s
    using round_keeps [OF assms that(1)] that(2) by blast
  show ?thesis
  proof (cases "healthy S R p st \<and> outdated S ds st \<noteq> []")
    case True
    then obtain s where "s \<in> set ds" "\<not> current S st s" "current S ?st' s"
      using round_gains [OF assms, of R st h] by (auto simp: outdated_def)
    then have "length (outdated S ds ?st') < length (outdated S ds st)"
      unfolding outdated_def using sub by (intro filter_shorter) auto
    then show ?thesis by simp linarith
  next
    case False
    moreover have "length (outdated S ds ?st') \<le> length (outdated S ds st)"
      unfolding outdated_def using sub by (rule filter_no_longer)
    ultimately show ?thesis by auto
  qed
qed

lemma rounds_outdated:
  assumes "list_all (\<lambda>(R, p). rolls_to ds p) ws"
  shows "length (outdated S ds (fst (rollout_rounds S ws sh)))
    \<le> length (outdated S ds (fst sh)) - healthy_rounds S ws sh"
  using assms
proof (induction ws arbitrary: sh)
  case (Cons w ws)
  obtain R p where w: "w = (R, p)" by (cases w)
  obtain st h where sh: "sh = (st, h)" by (cases sh)
  from Cons.prems have "rolls_to ds p" by (simp add: w)
  from round_outdated [OF this, of R st h] Cons.IH [of "rollout_round S R p sh"] Cons.prems
  show ?case by (simp add: w sh split: if_splits)
qed simp

end

section \<open>A server that keeps a list\<close>

text \<open>
  Applying replaces the set of that name: its generation goes up and its status is what it was, so it
  does not serve until the StatefulSet controller has caught up, which settling does.
\<close>

definition listed_apply :: "StatefulSet \<Rightarrow> StatefulSet list \<Rightarrow> StatefulSet list" where
  "listed_apply s sets = filter (\<lambda>t. set_Name t \<noteq> set_Name s) sets
     @ [case find (\<lambda>t. set_Name t = set_Name s) (rev sets) of
          None \<Rightarrow> s\<lparr>set_Generation := 1\<rparr>
        | Some old \<Rightarrow> s\<lparr>set_Generation := set_Generation old + 1, set_Status := set_Status old\<rparr>]"

definition catch_up :: "StatefulSet \<Rightarrow> StatefulSet" where
  "catch_up s = s\<lparr>set_Status := \<lparr>ss_ObservedGeneration = set_Generation s, ss_ReadyReplicas = 1, ss_UpdatedReplicas = 1\<rparr>\<rparr>"

definition listed :: "StatefulSet list set_server" where
  "listed = \<lparr>sv_List = (\<lambda>sets. sets), sv_Apply = listed_apply, sv_Settle = map catch_up\<rparr>"

lemma catch_up_simps [simp]:
  "set_Name (catch_up s) = set_Name s" "template_revision (catch_up s) = template_revision s" "nodeServing (catch_up s)"
  by (simp_all add: catch_up_def template_revision_def nodeServing_def)

lemma live_listed: "live_set listed sets n = find (\<lambda>s. set_Name s = n) (rev sets)"
  by (simp add: live_set_def listed_def sets_by_name_get)

lemma find_map: "find P (map f xs) = map_option f (find (\<lambda>x. P (f x)) xs)"
  by (induction xs) simp_all

lemma find_filter: "find P (filter Q xs) = find (\<lambda>x. Q x \<and> P x) xs"
  by (induction xs) auto

lemma find_cong_pred: "(\<And>x. P x \<longleftrightarrow> Q x) \<Longrightarrow> find P xs = find Q xs"
  by (induction xs) auto

interpretation listed: set_server_laws listed
proof
  fix s :: StatefulSet and st :: "StatefulSet list" and n
  have "find (\<lambda>t. set_Name t \<noteq> set_Name s \<and> set_Name t = n) (rev st) = find (\<lambda>t. set_Name t = n) (rev st)"
    if "n \<noteq> set_Name s" using that by (intro find_cong_pred) auto
  then show "revision_at listed (sv_Apply listed s st) n
      = (if n = set_Name s then Some (template_revision s) else revision_at listed st n)"
    by (auto simp: revision_at_def live_listed, simp_all add: listed_def listed_apply_def rev_filter find_filter
        template_revision_def split: option.split)
next
  fix st n
  show "revision_at listed (sv_Settle listed st) n = revision_at listed st n"
    by (simp add: revision_at_def live_listed, simp add: listed_def rev_map find_map option.map_comp comp_def)
qed

section \<open>Property\<close>

text \<open>
  C6. A rollout finishes. Let a server keep what is applied to it and let passes run one after
  another, each with whatever answers and convergence it meets, all desiring the same StatefulSets,
  one per node. No pass takes a node that runs what is desired back to something else, and every
  healthy pass (nothing refused, the nodes that exist serving, the cluster converged) brings at
  least one more node to it. So after as many healthy passes as there were nodes missing or outdated, in
  whatever order and however many unhealthy ones come between, every node runs what is desired.
\<close>

theorem rollout_finishes:
  assumes "set_server_laws S" "list_all (\<lambda>(R, p). rolls_to ds p) ws"
  shows "length (outdated S ds (fst (rollout_rounds S ws sh)))
      \<le> length (outdated S ds (fst sh)) - healthy_rounds S ws sh
    \<and> (length (outdated S ds (fst sh)) \<le> healthy_rounds S ws sh
        \<longrightarrow> (\<forall>s \<in> set ds. current S (fst (rollout_rounds S ws sh)) s))"
proof -
  note bound = set_server_laws.rounds_outdated [OF assms, of sh]
  moreover have "\<forall>s \<in> set ds. current S (fst (rollout_rounds S ws sh)) s"
    if "length (outdated S ds (fst sh)) \<le> healthy_rounds S ws sh"
    using bound that by (auto simp: outdated_def filter_empty_conv)
  ultimately show ?thesis by blast
qed

text \<open>Two nodes, both to be replaced: two healthy passes replace them, one each.\<close>

definition rolling_pass :: pass where
  "rolling_pass = stale_pass\<lparr>p_desired := Some
     [serving_set (p_cluster stale_pass) (flat_node ''fs'' 0) ''sts-2'',
      serving_set (p_cluster stale_pass) (flat_node ''fs'' 1) ''sts-2'']\<rparr>"

definition before_roll :: "StatefulSet list" where
  "before_roll = [serving_set (p_cluster stale_pass) (flat_node ''fs'' 0) ''sts-1'',
     serving_set (p_cluster stale_pass) (flat_node ''fs'' 1) ''sts-1'']"

lemma rolling_pass_rolls: "rolls_to (p_sets rolling_pass) rolling_pass"
  by (simp add: rolls_to_def rolling_pass_def p_sets_def stale_pass_def two_nodes_pass_def Let_def zero_health_def)

lemma quiet_accepts: "accepts (quiet [] (quiet_layout []) []) p"
  by (simp add: accepts_def quiet_def)

lemma rolling_pass_converged: "cv_known (p_convergence rolling_pass)" "cv_converged (p_convergence rolling_pass)"
  by (simp_all add: rolling_pass_def stale_pass_def Let_def)

lemma listed_serves: "list_all nodeServing sets \<Longrightarrow> live_set listed sets n = Some l \<Longrightarrow> nodeServing l"
  by (auto simp: live_listed find_Some_iff list_all_iff) (metis length_rev nth_mem set_rev)

lemma listed_round_serves: "list_all nodeServing (fst (rollout_round listed R p sh))"
  by (auto simp: rollout_round_def list_all_iff split: prod.split, simp add: listed_def, auto)

lemma rolling_healthy: "list_all nodeServing sets \<Longrightarrow> healthy listed (quiet [] (quiet_layout []) []) rolling_pass sets"
  by (simp add: healthy_def quiet_accepts rolling_pass_converged) (blast intro: listed_serves)

theorem rollout_finishes_witness:
  "let w = (quiet [] (quiet_layout []) [], rolling_pass); st = fst (rollout_rounds listed [w, w] (before_roll, []))
   in length (outdated listed (p_sets rolling_pass) before_roll) = 2 \<and> outdated listed (p_sets rolling_pass) st = []"
proof -
  let ?w = "(quiet [] (quiet_layout []) [], rolling_pass)"
  let ?ds = "p_sets rolling_pass"
  have two: "length (outdated listed ?ds before_roll) = 2"
    by (simp add: outdated_def current_def revision_at_def live_listed before_roll_def rolling_pass_def p_sets_def)
  have "list_all nodeServing before_roll" by (simp add: before_roll_def)
  then have "healthy_rounds listed [?w, ?w] (before_roll, []) = 2"
    by (simp add: rolling_healthy listed_round_serves)
  with rollout_finishes [of listed ?ds "[?w, ?w]" "(before_roll, [])"] two listed.set_server_laws_axioms rolling_pass_rolls
  show ?thesis by (simp add: Let_def)
qed

end
