(* ===== verification/Steady_Pass.thy ===== *)
theory Steady_Pass
  imports Whole_Pass Rollout_Rounds
begin

text \<open>
  A cluster at rest is left alone. When every node runs what the pass would render, the volumes have
  their sizes and the layout is the one the spec asks for, a whole pass writes no StatefulSet, deletes
  no pod and no set, resizes no volume and sends no layout, whatever else fails. The steps that could
  are shown to have nothing to do, and the stages of the pipeline carry that through the pass.
\<close>

section \<open>A cluster at rest\<close>

definition claims_of :: "StatefulSet \<Rightarrow> PersistentVolumeClaim list" where
  "claims_of s = sts_VolumeClaimTemplates (set_Spec s)"

text \<open>A desired set that runs: a serving one of its name has its revision and its volumes.\<close>

definition runs_in :: "(string, StatefulSet) gomap \<Rightarrow> StatefulSet \<Rightarrow> bool" where
  "runs_in live s \<longleftrightarrow> (case gm_get live (set_Name s) of None \<Rightarrow> False
     | Some l \<Rightarrow> nodeServing l \<and> template_revision l = template_revision s
         \<and> diskDiff (claims_of l) (claims_of s) = ([], False))"

definition at_target :: "pass \<Rightarrow> pass \<Rightarrow> bool" where
  "at_target p0 p \<longleftrightarrow> p_cluster p = p_cluster p0 \<and> p_nodes p = p_nodes p0
     \<and> p_decommission p = [] \<and> p_decommission p0 = []"

text \<open>
  What a cluster at rest answers, when it answers: the sets of its declared nodes, which are those
  the render step desires, and the layout of the spec. Any call may fail, but no node claims that there
  is no layout.
\<close>

definition at_rest :: "Reconciler \<Rightarrow> pass \<Rightarrow> StatefulSet list \<Rightarrow> bool" where
  "at_rest R p0 sets \<longleftrightarrow>
     (\<forall>h ns sel xs. e_ListSets R h ns sel = Inr xs \<longrightarrow> xs = sets)
     \<and> set_Name ` set sets \<subseteq> node_Name ` set (p_nodes p0)
     \<and> (\<forall>p h o' p' h'. at_target p0 p \<longrightarrow> render R p h = (Inr o', p', h') \<longrightarrow>
          list_all (runs_in (sets_by_name sets)) (p_sets p'))
     \<and> (\<forall>h u t. case client_Layout (e_GetLayout R h u t) of
            Inl e \<Rightarrow> \<not> errors_Is e ErrNoLayout
          | Inr l \<Rightarrow> sameLayout l (desiredRoles p0) (desiredWidths (fsc_Spec (p_cluster p0))))"

section \<open>The steps have nothing to do\<close>

text \<open>The desired sets stand in the order of the nodes and carry their names.\<close>

definition named :: "pass \<Rightarrow> bool" where
  "named p \<longleftrightarrow> map set_Name (p_sets p) = map node_Name (p_nodes p)"

lemma desired_set_name: "p_decommission p = [] \<Longrightarrow> desired_set R p n r = Inr s \<Longrightarrow> set_Name s = node_Name n"
  by (auto simp: desired_set_def stampTemplateRevision_def NewStatefulSet_def split: sum.splits)

lemma render_named:
  assumes "render R p h = (Inr o', p', h')" "p_decommission p = []"
  shows "named p'"
proof -
  from assms(1) obtain keys restarts where r: "render_nodes R p \<lparr>ro_Keys = keys\<rparr> (p_nodes p) [] [] = Inr (restarts, p_sets p')"
    and n: "p_nodes p' = p_nodes p"
    by (auto simp: render_def Let_def p_sets_def split: prod.splits sum.splits)
  from render_nodes_spec [OF r] have "list_all2 (\<lambda>n s. set_Name s = node_Name n) (p_nodes p) (p_sets p')"
    by (auto elim!: list_all2_mono dest: desired_set_name [OF assms(2)])
  then show ?thesis by (auto simp: named_def n list_all2_conv_all_nth intro!: nth_equalityI)
qed

lemma plan_declared:
  assumes "nodeSets R (p_cluster p) h = (Inr sets, h')" "set_Name ` set sets \<subseteq> node_Name ` set (p_nodes p)"
    "p_decommission p = []"
  shows "planDecommission R p h = (Continue, p, h')"
proof -
  have "fold (plan_set (map node_Name (p_nodes p))) ss p = p" if "set ss \<subseteq> set sets" for ss
    using that assms(2) by (induction ss) (auto simp: plan_set_def)
  then show ?thesis using assms by (simp add: planDecommission_def decommission_active_def)
qed

lemma nodes_at_rest:
  assumes "list_all (runs_in (p_live p)) (p_sets p)"
  shows "\<exists>cs. reconcileNodes R p h = (Continue, p, h @ cs) \<and> list_all (\<lambda>c. \<exists>t r m. c = CEvent t r m) cs"
proof -
  have "classify_loop R p ss h k [] = (Inr (k, []), h)" if "list_all (runs_in (p_live p)) ss" for ss k
    using that by (induction ss) (auto simp: runs_in_def split: option.splits)
  with assms show ?thesis
    by (simp add: reconcileNodes_def classify_def rollOrder_def roll_def event_def)
qed

lemma storage_at_rest:
  assumes "list_all (runs_in (p_live p)) (p_sets p)" "named p"
  shows "reconcileStorage R p h = Some (Continue, p, h)"
proof -
  have len: "length (p_sets p) = length (p_nodes p)" using assms(2) map_eq_imp_length_eq by (auto simp: named_def)
  have runs: "runs_in (p_live p) s \<and> set_Name s = node_Name n" if "(n, s) \<in> set (zip (p_nodes p) (p_sets p))" for n s
  proof -
    from that obtain i where i: "i < length (p_nodes p)" "n = p_nodes p ! i" "s = p_sets p ! i"
      using len by (auto simp: in_set_conv_nth)
    then have "map set_Name (p_sets p) ! i = map node_Name (p_nodes p) ! i" using assms(2) by (simp add: named_def)
    with i len assms(1) show ?thesis by (auto simp: list_all_length)
  qed
  have "\<not> stale_pod p n" if n: "n \<in> set (p_nodes p)" for n
  proof -
    from n have "node_Name n \<in> set (map set_Name (p_sets p))" using assms(2) by (simp add: named_def)
    then obtain s where "s \<in> set (p_sets p)" "set_Name s = node_Name n" by auto
    with assms(1) show ?thesis
      by (auto simp: list_all_iff runs_in_def stale_pod_def adoptedStalePod_def nodeServing_def split: option.splits)
  qed
  then have "find (stale_pod p) (p_nodes p) = None" by (simp add: find_None_iff)
  then have fin: "finishAdoption R p h = None" by (simp add: finishAdoption_def)
  have same: "claims_diff (p_live p) x = ([], False)" if "x \<in> set (zip (p_nodes p) (p_sets p))" for x
    using runs [of "fst x" "snd x"] that
    by (cases x) (auto simp: claims_diff_def runs_in_def claims_of_def split: option.splits)
  then have "find (\<lambda>x. fst (claims_diff (p_live p) x) \<noteq> []) (zip (p_nodes p) (p_sets p)) = None"
    "filter (\<lambda>x. snd (claims_diff (p_live p) x)) (zip (p_nodes p) (p_sets p)) = []"
    unfolding find_None_iff filter_empty_conv by auto
  with storage_loop_zip [OF len, of "p_live p" "[]" "[]"]
  have "storage_loop (p_live p) (p_sets p) (p_nodes p) 0 [] = Drifted []" by simp
  with fin show ?thesis by (simp add: reconcileStorage_def)
qed

text \<open>A view a node gives has the layout of the spec in it.\<close>

definition informed_of :: "pass \<Rightarrow> pass \<Rightarrow> bool" where
  "informed_of p0 p \<longleftrightarrow> (cv_known (p_convergence p) \<longrightarrow> SingleNode (fsc_Spec (p_cluster p0)) \<or>
     (\<exists>l. cv_layout (p_convergence p) = Some l
        \<and> sameLayout l (desiredRoles p0) (desiredWidths (fsc_Spec (p_cluster p0)))))"

lemma view_at_rest:
  assumes "at_rest R p0 sets" "clusterView R p n token h = (Inr view, h')"
  shows "\<exists>l. cv_layout view = Some l \<and> sameLayout l (desiredRoles p0) (desiredWidths (fsc_Spec (p_cluster p0)))"
proof -
  have "case client_Layout (e_GetLayout R h u t) of Inl e \<Rightarrow> \<not> errors_Is e ErrNoLayout
      | Inr l \<Rightarrow> sameLayout l (desiredRoles p0) (desiredWidths (fsc_Spec (p_cluster p0)))" for h u t
    using assms(1) unfolding at_rest_def by blast
  from this [of h] assms(2) show ?thesis
    by (fastforce simp: clusterView_def admin_Layout_def Let_def split: sum.splits prod.splits if_splits)
qed

lemma gather_at_rest:
  assumes "at_rest R p0 sets" "gatherConvergence R p h = (out, p', h')" "\<not> cv_known (p_convergence p)"
    "p_cluster p = p_cluster p0"
  shows "informed_of p0 p'"
proof -
  have loop: "informed_of p0 (fst (gather_loop R p token ns h))" for token ns h
  proof (induction ns arbitrary: h)
    case (Cons n ns)
    obtain r h1 where c: "clusterView R p n token h = (r, h1)" by (cases "clusterView R p n token h")
    with Cons view_at_rest [OF assms(1), of p n token h] show ?case
      by (auto simp: informed_of_def split: sum.split prod.split)
  qed (simp add: informed_of_def assms(3))
  show ?thesis
  proof (cases "SingleNode (fsc_Spec (p_cluster p0))")
    case False
    obtain t h1 where t: "adminToken R p h = (t, h1)" by (cases "adminToken R p h")
    with False assms(2,3,4) loop show ?thesis
      by (cases t) (auto simp: gatherConvergence_def informed_of_def split: prod.splits, metis fst_conv)
  qed (simp add: informed_of_def)
qed

lemma layout_at_rest:
  assumes "at_target p0 p" "informed_of p0 p"
  shows "same_core p (fst (snd (reconcileLayout R p h)))
    \<and> emits (step_call {Asks} (p_cluster p)) h (snd (snd (reconcileLayout R p h)))"
proof -
  have "desiredRoles p = desiredRoles p0" using assms(1) by (simp add: at_target_def desiredRoles_def)
  with assms show ?thesis
    by (auto simp: reconcileLayout_def holdLayout_def setCondition_def informed_of_def at_target_def Let_def)
qed

section \<open>The stages of a pass at rest\<close>

definition calm :: "pass \<Rightarrow> history \<Rightarrow> world \<Rightarrow> bool" where
  "calm p0 h0 = (\<lambda>(p, h). p_cluster p = p_cluster p0 \<and> emits (step_call {Asks} (p_cluster p0)) h0 h)"

definition calm_fresh :: "pass \<Rightarrow> history \<Rightarrow> world \<Rightarrow> bool" where
  "calm_fresh p0 h0 = (\<lambda>(p, h). calm p0 h0 (p, h) \<and> at_target p0 p \<and> \<not> cv_known (p_convergence p))"

definition calm_rendered :: "(string, StatefulSet) gomap \<Rightarrow> pass \<Rightarrow> history \<Rightarrow> world \<Rightarrow> bool" where
  "calm_rendered live p0 h0 = (\<lambda>(p, h). calm_fresh p0 h0 (p, h) \<and> named p \<and> list_all (runs_in live) (p_sets p))"

definition calm_observed :: "(string, StatefulSet) gomap \<Rightarrow> pass \<Rightarrow> history \<Rightarrow> world \<Rightarrow> bool" where
  "calm_observed live p0 h0 = (\<lambda>(p, h). calm_rendered live p0 h0 (p, h) \<and> p_live p = live)"

definition calm_informed :: "pass \<Rightarrow> history \<Rightarrow> world \<Rightarrow> bool" where
  "calm_informed p0 h0 = (\<lambda>(p, h). calm p0 h0 (p, h) \<and> at_target p0 p \<and> named p
     \<and> list_all (runs_in (p_live p)) (p_sets p) \<and> informed_of p0 p)"

lemmas calm_defs = calm_def calm_fresh_def calm_rendered_def calm_observed_def calm_informed_def

text \<open>The predicates that steps keep which leave the core of the pass and touch nothing.\<close>

definition calmly_kept :: "pass \<Rightarrow> (world \<Rightarrow> bool) \<Rightarrow> bool" where
  "calmly_kept p0 P \<longleftrightarrow> (\<forall>p h p' h'. P (p, h) \<longrightarrow> same_core p p' \<longrightarrow> emits (step_call {Asks} (p_cluster p0)) h h' \<longrightarrow> P (p', h'))
     \<and> (\<forall>p h. P (p, h) \<longrightarrow> p_cluster p = p_cluster p0)"

lemma calmly_kept_stages:
  "calmly_kept p0 (calm p0 h0)" "calmly_kept p0 (calm_fresh p0 h0)" "calmly_kept p0 (calm_rendered live p0 h0)"
  "calmly_kept p0 (calm_observed live p0 h0)" "calmly_kept p0 (calm_informed p0 h0)"
  unfolding calmly_kept_def calm_defs at_target_def named_def p_sets_def informed_of_def same_core_def
  by (auto intro: emits_trans)

lemma calm_stages:
  "calm_fresh p0 h0 s \<Longrightarrow> calm p0 h0 s" "calm_rendered live p0 h0 s \<Longrightarrow> calm p0 h0 s"
  "calm_observed live p0 h0 s \<Longrightarrow> calm p0 h0 s" "calm_informed p0 h0 s \<Longrightarrow> calm p0 h0 s"
  by (cases s; simp add: calm_fresh_def calm_rendered_def calm_observed_def calm_informed_def)+

lemma calm_recorded: "calm p0 h0 (p, h) \<Longrightarrow> calm p0 h0 (RecordFailure e p, h)"
  by (simp add: calm_def)

lemmas calm_stageI = stage_of_pass [of "calm p0 h0" for p0 h0, OF calm_recorded]

text \<open>Such a step stays in its stage.\<close>

lemma calm_step:
  assumes "calmly_kept p0 P" and "\<And>s. P s \<Longrightarrow> calm p0 h0 s"
    and "\<And>p h. P (p, h) \<Longrightarrow> same_core p (fst (snd (f p h))) \<and> emits (step_call {Asks} (p_cluster p)) h (snd (snd (f p h)))"
  shows "stage_ok record_pass (calm p0 h0) P (mk_step name a f) P"
proof (rule calm_stageI)
  fix p h out p' h' assume P: "P (p, h)" and f: "f p h = (out, p', h')"
  from P have "p_cluster p = p_cluster p0" using assms(1) unfolding calmly_kept_def by blast
  with assms(3) [OF P] f have "same_core p p'" "emits (step_call {Asks} (p_cluster p0)) h h'" by simp_all
  with P have "P (p', h')" using assms(1) unfolding calmly_kept_def by blast
  with assms(2) show "calm p0 h0 (p', h') \<and> (\<forall>o'. out = Inr o' \<longrightarrow> \<not> out_Blocked o' \<longrightarrow> P (p', h'))" by blast
qed

text \<open>The steps that move the pass from one stage to the next.\<close>

lemma rest_sets:
  assumes "at_rest R p0 sets" "nodeSets R c h = (Inr xs, h')"
  shows "xs = sets"
  using assms by (auto simp: at_rest_def nodeSets_def split: sum.splits)

lemma calm_after:
  assumes "calm p0 h0 (p, h)" "emits (step_call {Asks} (p_cluster p)) h h'" "p_cluster p' = p_cluster p"
  shows "calm p0 h0 (p', h')"
  using assms emits_trans by (auto simp: calm_def)

lemma calm_plan:
  assumes "at_rest R p0 sets"
  shows "stage_ok record_pass (calm p0 h0) (calm_fresh p0 h0) (mk_step name a (planDecommission R)) (calm_fresh p0 h0)"
proof (rule calm_stageI)
  fix p h out p' h' assume P: "calm_fresh p0 h0 (p, h)" and run: "planDecommission R p h = (out, p', h')"
  have e: "emits (step_call {Asks} (p_cluster p)) h h'" using emits_planDecommission [of "{Asks}" p h R] by (simp add: run)
  have t: "at_target p0 p" using P by (simp add: calm_fresh_def)
  obtain r h1 where n: "nodeSets R (p_cluster p) h = (r, h1)" by (cases "nodeSets R (p_cluster p) h")
  have "p' = p"
  proof (cases r)
    case (Inl e)
    with n run show ?thesis by (auto simp: planDecommission_def)
  next
    case (Inr xs)
    with n rest_sets [OF assms] have "nodeSets R (p_cluster p) h = (Inr sets, h1)" by auto
    from plan_declared [OF this] assms t run show ?thesis by (auto simp: at_rest_def at_target_def)
  qed
  with P e calm_after [OF _ e, of p0 h0 p'] show "calm p0 h0 (p', h') \<and> (\<forall>o'. out = Inr o' \<longrightarrow> \<not> out_Blocked o' \<longrightarrow> calm_fresh p0 h0 (p', h'))"
    by (auto simp: calm_fresh_def)
qed

lemma calm_render:
  assumes "at_rest R p0 sets"
  shows "stage_ok record_pass (calm p0 h0) (calm_fresh p0 h0) (mk_step name a (render R)) (calm_rendered (sets_by_name sets) p0 h0)"
proof (rule calm_stageI)
  fix p h out p' h' assume P: "calm_fresh p0 h0 (p, h)" and run: "render R p h = (out, p', h')"
  have e: "emits (step_call {Asks} (p_cluster p)) h h'" using emits_render_step [of "{Asks}" p h R] by (simp add: run)
  have f: "p_cluster p' = p_cluster p" "p_nodes p' = p_nodes p" "p_decommission p' = p_decommission p" "p_convergence p' = p_convergence p"
    using run by (auto simp: render_def Let_def split: prod.splits sum.splits)
  have t: "at_target p0 p" using P by (simp add: calm_fresh_def)
  have c: "calm p0 h0 (p', h')" using P calm_after [OF _ e f(1)] by (simp add: calm_fresh_def)
  have "calm_rendered (sets_by_name sets) p0 h0 (p', h')" if "out = Inr o'" for o'
  proof -
    from run that have r: "render R p h = (Inr o', p', h')" by simp
    with assms t have "list_all (runs_in (sets_by_name sets)) (p_sets p')" unfolding at_rest_def by blast
    with c f P t render_named [OF r] show ?thesis by (simp add: calm_rendered_def calm_fresh_def at_target_def)
  qed
  with c show "calm p0 h0 (p', h') \<and> (\<forall>o'. out = Inr o' \<longrightarrow> \<not> out_Blocked o' \<longrightarrow> calm_rendered (sets_by_name sets) p0 h0 (p', h'))"
    by blast
qed

lemma calm_observe:
  assumes "at_rest R p0 sets"
  shows "stage_ok record_pass (calm p0 h0) (calm_rendered (sets_by_name sets) p0 h0) (mk_step name a (observe R))
    (calm_observed (sets_by_name sets) p0 h0)"
proof (rule calm_stageI)
  fix p h out p' h' assume P: "calm_rendered (sets_by_name sets) p0 h0 (p, h)" and run: "observe R p h = (out, p', h')"
  have e: "emits (step_call {Asks} (p_cluster p)) h h'" using emits_observe [of "{Asks}" p h R] by (simp add: run)
  have f: "p_cluster p' = p_cluster p" using cluster_observe [of R p h] by (simp add: run)
  have c: "calm p0 h0 (p', h')" using P calm_after [OF _ e f] by (simp add: calm_rendered_def calm_fresh_def)
  have "p_live p' = sets_by_name sets" if "out = Inr o'" for o'
    using run that rest_sets [OF assms] by (auto simp: observe_def Let_def split: prod.splits sum.splits)
  with c f P observe_frame [of R p h]
  show "calm p0 h0 (p', h') \<and> (\<forall>o'. out = Inr o' \<longrightarrow> \<not> out_Blocked o' \<longrightarrow> calm_observed (sets_by_name sets) p0 h0 (p', h'))"
    by (simp add: run calm_observed_def calm_rendered_def calm_fresh_def at_target_def named_def)
qed

lemma calm_gather:
  assumes "at_rest R p0 sets"
  shows "stage_ok record_pass (calm p0 h0) (calm_observed (sets_by_name sets) p0 h0) (mk_step name a (gatherConvergence R))
    (calm_informed p0 h0)"
proof (rule calm_stageI)
  fix p h out p' h' assume P: "calm_observed (sets_by_name sets) p0 h0 (p, h)" and run: "gatherConvergence R p h = (out, p', h')"
  have e: "emits (step_call {Asks} (p_cluster p)) h h'" using emits_gather_step [of "{Asks}" p h R] by (simp add: run)
  from gatherConvergence_frame [of R p h] obtain cv where p': "p' = p\<lparr>p_convergence := cv\<rparr>" by (auto simp: run)
  have c: "calm p0 h0 (p', h')" using P calm_after [OF _ e] p' by (simp add: calm_observed_def calm_rendered_def calm_fresh_def)
  have "informed_of p0 p'" using P gather_at_rest [OF assms run]
    by (simp add: calm_observed_def calm_rendered_def calm_fresh_def at_target_def)
  with c P show "calm p0 h0 (p', h') \<and> (\<forall>o'. out = Inr o' \<longrightarrow> \<not> out_Blocked o' \<longrightarrow> calm_informed p0 h0 (p', h'))"
    by (simp add: p' calm_informed_def calm_observed_def calm_rendered_def calm_fresh_def at_target_def named_def p_sets_def)
qed

text \<open>The steps that could touch what runs find nothing to do.\<close>

lemma calm_storage:
  "stage_ok record_pass (calm p0 h0) (calm_informed p0 h0) (mk_step name a (or_panic (reconcileStorage R))) (calm_informed p0 h0)"
  by (rule calm_step [OF calmly_kept_stages(5) calm_stages(4)]) (simp_all add: calm_informed_def or_panic_def storage_at_rest)

lemma calm_nodes:
  "stage_ok record_pass (calm p0 h0) (calm_informed p0 h0) (mk_step name a (reconcileNodes R)) (calm_informed p0 h0)"
proof (rule calm_step [OF calmly_kept_stages(5) calm_stages(4)])
  fix p h assume "calm_informed p0 h0 (p, h)"
  then obtain cs where "reconcileNodes R p h = (Continue, p, h @ cs)" "list_all (\<lambda>c. \<exists>t r m. c = CEvent t r m) cs"
    using nodes_at_rest [of p R h] by (auto simp: calm_informed_def)
  then show "same_core p (fst (snd (reconcileNodes R p h)))
      \<and> emits (step_call {Asks} (p_cluster p)) h (snd (snd (reconcileNodes R p h)))"
    by (auto simp: emits_def list_all_iff)
qed

lemma calm_layout:
  "stage_ok record_pass (calm p0 h0) (calm_informed p0 h0) (mk_step name a (reconcileLayout R)) (calm_informed p0 h0)"
  by (rule calm_step [OF calmly_kept_stages(5) calm_stages(4)]) 
    (use layout_at_rest in \<open>auto simp: calm_informed_def\<close>)

lemma calm_drain:
  "stage_ok record_pass (calm p0 h0) (calm_informed p0 h0) (mk_step name a (reconcileDecommission R)) (calm_informed p0 h0)"
  by (rule calm_step [OF calmly_kept_stages(5) calm_stages(4)])
    (simp_all add: calm_informed_def at_target_def reconcileDecommission_def decommission_active_def)

lemma calm_reload:
  "stage_ok record_pass (calm p0 h0) (calm_informed p0 h0) (mk_step name a (or_panic (reconcileReload R))) (calm_informed p0 h0)"
proof (rule calm_step [OF calmly_kept_stages(5) calm_stages(4)])
  fix p h assume "calm_informed p0 h0 (p, h)"
  then have "length (p_sets p) = length (p_nodes p)" by (auto simp: calm_informed_def named_def dest: map_eq_imp_length_eq)
  then have "reconcileReload R p h \<noteq> None" by (simp add: reconcileReload_total del: not_None_eq)
  then obtain out p' h' where r: "reconcileReload R p h = Some (out, p', h')" by auto
  from same_core_reload [OF r] emits_reload_step [OF r, of "{Asks}"]
  show "same_core p (fst (snd (or_panic (reconcileReload R) p h)))
      \<and> emits (step_call {Asks} (p_cluster p)) h (snd (snd (or_panic (reconcileReload R) p h)))"
    by (simp add: or_panic_def r)
qed

section \<open>The pipeline at rest\<close>

definition calm_pass_stages :: "StatefulSet list \<Rightarrow> pass \<Rightarrow> history \<Rightarrow> (world \<Rightarrow> bool) list" where
  "calm_pass_stages sets p0 h0 =
     replicate 3 (calm_fresh p0 h0) @ [calm_rendered (sets_by_name sets) p0 h0]
     @ replicate 4 (calm_observed (sets_by_name sets) p0 h0) @ replicate 10 (calm_informed p0 h0)"

lemma calm_stages_ok:
  assumes "at_rest R p0 sets"
  shows "stages_ok record_pass (calm p0 h0) (calm_pass_stages sets p0 h0) (pipeline R)"
proof -
  note obs = calm_step [OF calmly_kept_stages(4) [where live = "sets_by_name sets"] calm_stages(3)]
  note inf = calm_step [OF calmly_kept_stages(5) calm_stages(4)]
  have "stage_ok record_pass (calm p0 h0) (calm_fresh p0 h0) (mk_step n a (validate R)) (calm_fresh p0 h0)" for n a
    by (rule calm_step [OF calmly_kept_stages(2) calm_stages(1)]) (simp_all add: same_core_validate emits_validate)
  moreover have
    "stage_ok record_pass (calm p0 h0) (calm_observed (sets_by_name sets) p0 h0) (mk_step n a (reconcileSecrets R)) (calm_observed (sets_by_name sets) p0 h0)"
    "stage_ok record_pass (calm p0 h0) (calm_observed (sets_by_name sets) p0 h0) (mk_step n a (reconcileServices R)) (calm_observed (sets_by_name sets) p0 h0)"
    "stage_ok record_pass (calm p0 h0) (calm_observed (sets_by_name sets) p0 h0) (mk_step n a (reconcileNodeConfigs R)) (calm_observed (sets_by_name sets) p0 h0)" for n a
    by (rule obs; simp add: emits_objects same_core_secrets emits_reconcileSecrets)+
  moreover have
    "stage_ok record_pass (calm p0 h0) (calm_informed p0 h0) (mk_step n a (reconcileBudget R)) (calm_informed p0 h0)"
    "stage_ok record_pass (calm p0 h0) (calm_informed p0 h0) (mk_step n a (reconcileNetworkPolicy R)) (calm_informed p0 h0)"
    "stage_ok record_pass (calm p0 h0) (calm_informed p0 h0) (mk_step n a (reconcilePodMonitor R)) (calm_informed p0 h0)"
    "stage_ok record_pass (calm p0 h0) (calm_informed p0 h0) (mk_step n a (reconcileStatus R)) (calm_informed p0 h0)" for n a
    by (rule inf; simp add: emits_objects emits_reconcilePodMonitor same_core_status emits_status_step)+
  ultimately show ?thesis
    by (simp add: calm_pass_stages_def pipeline_def numeral_eq_Suc calm_plan [OF assms] calm_render [OF assms]
        calm_observe [OF assms] calm_gather [OF assms] calm_storage calm_nodes calm_layout calm_drain calm_reload)
qed

lemma calm_pipeline:
  assumes "at_rest R p0 sets"
  shows "staged_pipeline record_pass (pipeline R) (calm_pass_stages sets p0 h0) (calm p0 h0)"
proof
  show "stages_ok record_pass (calm p0 h0) (calm_pass_stages sets p0 h0) (pipeline R)" by (rule calm_stages_ok [OF assms])
  fix x s r s'
  assume x: "x \<in> set (pipeline R)" "step_AlwaysRun x" and c: "calm p0 h0 s" and run: "step_Run x s = (r, s')"
  obtain p h where s: "s = (p, h)" by (cases s)
  from x run s have s': "s' = snd (observe R p h) \<or> s' = snd (reconcileStatus R p h)"
    by (auto simp: pipeline_def mk_step_def step_of_def split: prod.splits)
  have "calm p0 h0 (snd (observe R p h))"
    using calm_after [OF c [unfolded s] emits_observe [of _ _ _ R], of "fst (snd (observe R p h))"]
      cluster_observe [of R p h] by (simp only: prod.collapse)
  moreover have "calm p0 h0 (snd (reconcileStatus R p h))"
    using calm_after [OF c [unfolded s] emits_status_step [of _ _ _ R p], of "fst (snd (reconcileStatus R p h))"]
      same_core_status [of p R h] by (simp only: prod.collapse same_core_def)
  ultimately have "calm p0 h0 s'" using s' by auto
  then show "calm p0 h0 s' \<and> (\<forall>e. calm p0 h0 (recorded record_pass e s'))"
    by (cases s') (simp add: recorded_def record_pass_def calm_recorded)
qed

section \<open>Property\<close>

fun disturbs :: "call \<Rightarrow> bool" where
  "disturbs (CApply own obj) = (kind_of obj = KindStatefulSet)"
| "disturbs (CDelete k ns n orphan) = (k = KindStatefulSet \<or> k = KindPod)"
| "disturbs (CUpdatePVC pvc) = True"
| "disturbs (CApplyLayout u q) = True"
| "disturbs c = False"

lemma step_call_calm: "step_call {Asks} c x \<Longrightarrow> \<not> disturbs x"
  by (cases x) auto

text \<open>
  C5. A cluster at rest is left alone. Suppose that whenever the API server and the nodes answer,
  the StatefulSets are serving ones of the declared nodes with the revision and volume sizes that
  the render step asks for, and the layout is the one the spec asks for. Then a whole reconcile
  writes no StatefulSet, deletes no StatefulSet and no pod, resizes no volume and sends no
  layout, whichever of its calls fail and wherever it stops.
\<close>

theorem rest_undisturbed:
  assumes "Reconcile R ns name h = Some (res, h')" and "e_GetCluster R h ns name = Inr object"
    and "newPass object (r_FSImageRegistry R) = Some p" and "at_rest R p sets"
  shows "\<exists>cs. h' = h @ cs \<and> filter disturbs cs = []"
proof (cases "fsc_DeletionTimestamp object")
  case (Some t)
  with assms(1,2) show ?thesis by (auto simp: Reconcile_def Let_def)
next
  case None
  let ?h = "h @ [CGetCluster ns name]"
  obtain r p' h2 where run: "pipeline_Run record_pass (pipeline R) (p, ?h) = (r, (p', h2))"
    by (cases "pipeline_Run record_pass (pipeline R) (p, ?h)") auto
  obtain p2 r2 e2 p3 where "newPass object (r_FSImageRegistry R) = Some p2"
    "pipeline_Run record_pass (pipeline R) (p2, ?h) = ((r2, e2), (p3, h'))"
    by (rule Reconcile_ran [OF assms(1,2) None])
  with assms(3) run have h2: "h2 = h'" by simp
  have "hd (calm_pass_stages sets p ?h) (p, ?h)" using newPass_cluster [OF assms(3)]
    by (simp add: calm_pass_stages_def calm_fresh_def calm_def at_target_def zero_convergence_def numeral_eq_Suc)
  from staged_pipeline.staged_outcome [OF calm_pipeline [OF assms(4)] this] run h2
  have "calm p ?h (p', h')" by (auto simp: calm_pass_stages_def calm_informed_def)
  then have "emits (step_call {Asks} (p_cluster p)) ?h h'" by (simp add: calm_def)
  then obtain cs where "h' = ?h @ cs" "\<forall>x \<in> set cs. step_call {Asks} (p_cluster p) x" by (auto simp: emits_def list_all_iff)
  then show ?thesis using step_call_calm by (intro exI [of _ "CGetCluster ns name # cs"]) (auto simp: filter_empty_conv dest: step_call_calm)
qed

text \<open>A cluster at rest, made from what a quiet world renders.\<close>

definition rest_sets :: "pass \<Rightarrow> StatefulSet list" where
  "rest_sets p0 = map catch_up (p_sets (fst (snd (render (quiet [] (quiet_layout []) []) p0 []))))"

definition rest_layout :: "pass \<Rightarrow> adm_Layout" where
  "rest_layout p0 = \<lparr>al_Version = 1, al_Widths = desiredWidths (fsc_Spec (p_cluster p0)),
     al_Members = map (\<lambda>r. \<lparr>alr_ID = role_ID r, alr_Zone = Some (role_Zone r), alr_Rack = Some (role_Rack r),
       alr_Capacity = role_Capacity r\<rparr>) (desiredRoles p0), al_RetainedVersions = []\<rparr>"

definition resting :: "FSCluster \<Rightarrow> pass \<Rightarrow> Reconciler" where
  "resting object p0 = (quiet (rest_sets p0) (rest_layout p0) [])\<lparr>e_GetCluster := \<lambda>h a b. Inr object\<rparr>"

lemma render_nodes_same:
  assumes "e_Yaml R = e_Yaml R'" "e_Json R = e_Json R'" "p_cluster p = p_cluster q" "p_decommission p = p_decommission q"
  shows "render_nodes R p opts ns a b = render_nodes R' q opts ns a b"
  by (induction ns arbitrary: a b) (simp_all add: desired_set_def assms cong: sum.case_cong option.case_cong)

lemma quiet_render_sets:
  assumes "render R p h = (Inr o', p', h')" "e_ListKeys R = (\<lambda>h n. Inr [])" "e_SortKeys R [] = []"
  shows "\<exists>restarts. render_nodes R p \<lparr>ro_Keys = []\<rparr> (p_nodes p) [] [] = Inr (restarts, p_sets p')"
  using assms by (auto simp: render_def collectAccessKeys_def p_sets_def Let_def split: sum.splits)

lemma rest_renders:
  assumes "at_target p0 p" "render (resting object p0) p h = (Inr o', p', h')"
    "render (quiet [] (quiet_layout []) []) p0 [] = (Inr o0, p1, h1)"
  shows "p_sets p' = p_sets p1"
proof -
  obtain r where "render_nodes (resting object p0) p \<lparr>ro_Keys = []\<rparr> (p_nodes p) [] [] = Inr (r, p_sets p')"
    using quiet_render_sets [OF assms(2)] by (auto simp: resting_def quiet_def)
  moreover obtain r0 where "render_nodes (quiet [] (quiet_layout []) []) p0 \<lparr>ro_Keys = []\<rparr> (p_nodes p0) [] [] = Inr (r0, p_sets p1)"
    using quiet_render_sets [OF assms(3)] by (auto simp: quiet_def)
  moreover have "render_nodes (resting object p0) p \<lparr>ro_Keys = []\<rparr> (p_nodes p0) [] []
      = render_nodes (quiet [] (quiet_layout []) []) p0 \<lparr>ro_Keys = []\<rparr> (p_nodes p0) [] []"
    using assms(1) by (intro render_nodes_same) (simp_all add: resting_def quiet_def at_target_def)
  ultimately show ?thesis using assms(1) by (simp add: at_target_def)
qed

lemma live_caught_up:
  assumes "distinct (map set_Name ds)" "s \<in> set ds"
  shows "gm_get (sets_by_name (map catch_up ds)) (set_Name s) = Some (catch_up s)"
proof -
  have "find (\<lambda>t. set_Name t = set_Name s) xs = Some s" if "distinct (map set_Name xs)" "s \<in> set xs" for xs
    using that by (induction xs) auto
  from this [of "rev ds"] assms show ?thesis
    by (simp add: sets_by_name_get rev_map find_map) (simp add: rev_map [symmetric])
qed

lemma one_claim_same: "claims_of s = [c] \<Longrightarrow> diskDiff (claims_of (catch_up s)) (claims_of s) = ([], False)"
  by (simp add: claims_of_def catch_up_def diskDiff_def claim_sizes_def diff_claim_def qCmp_def)

lemma list_all2_right: "list_all2 P xs ys \<Longrightarrow> y \<in> set ys \<Longrightarrow> \<exists>x. P x y"
  by (induction rule: list_all2_induct) auto

lemma resting_at_rest:
  assumes "at_target p0 p0" "distinct (map node_Name (p_nodes p0))"
    "fsc_Name (p_cluster p0) \<noteq> []" "fsc_Namespace (p_cluster p0) \<noteq> []" "\<forall>n \<in> set (p_nodes p0). node_Name n \<noteq> []"
  shows "at_rest (resting object p0) p0 (rest_sets p0)" and "length (rest_sets p0) = length (p_nodes p0)"
proof -
  let ?Q = "quiet [] (quiet_layout []) []"
  obtain p1 h1 where r: "render ?Q p0 [] = (Inr zero_outcome, p1, h1)"
    using quiet_render [OF assms(3-5)] by blast
  have d: "p_decommission p0 = []" using assms(1) by (simp add: at_target_def)
  have n1: "p_nodes p1 = p_nodes p0" using r by (auto simp: render_def Let_def split: prod.splits sum.splits)
  have names: "map set_Name (p_sets p1) = map node_Name (p_nodes p0)" using render_named [OF r d] n1 by (simp add: named_def)
  have sets: "rest_sets p0 = map catch_up (p_sets p1)" by (simp add: rest_sets_def r)
  obtain r0 where "render_nodes ?Q p0 \<lparr>ro_Keys = []\<rparr> (p_nodes p0) [] [] = Inr (r0, p_sets p1)"
    using quiet_render_sets [OF r] by (auto simp: quiet_def)
  from render_nodes_spec [OF this]
  have "list_all2 (\<lambda>n s. \<exists>rv. desired_set ?Q p0 n rv = Inr s) (p_nodes p0) (p_sets p1)"
    by (auto elim!: list_all2_mono)
  moreover have "\<exists>c. claims_of s = [c]" if "desired_set ?Q p0 n rv = Inr s" for n rv s
    using that d by (auto simp: desired_set_def stampTemplateRevision_def claims_of_def NewStatefulSet_def
        volumeClaimTemplates_def split: sum.splits)
  ultimately have one: "\<exists>c. claims_of s = [c]" if "s \<in> set (p_sets p1)" for s
    using that by (blast dest: list_all2_right)
  have runs: "runs_in (sets_by_name (rest_sets p0)) s" if s: "s \<in> set (p_sets p1)" for s
  proof -
    have "gm_get (sets_by_name (rest_sets p0)) (set_Name s) = Some (catch_up s)"
      unfolding sets using names assms(2) s by (intro live_caught_up) simp_all
    with one [OF s] one_claim_same show ?thesis by (auto simp: runs_in_def)
  qed
  have "set_Name ` set (rest_sets p0) = set (map set_Name (p_sets p1))" by (simp add: sets image_image)
  then have sub: "set_Name ` set (rest_sets p0) \<subseteq> node_Name ` set (p_nodes p0)" by (simp add: names)
  have same: "sameLayout (layoutFromAPI (rest_layout p0)) (desiredRoles p0) (desiredWidths (fsc_Spec (p_cluster p0)))"
    using desiredRoles_sorted [OF assms(2)] map_idI [of "desiredRoles p0" "\<lambda>r. \<lparr>role_ID = role_ID r, role_Zone = role_Zone r,
      role_Rack = role_Rack r, role_Capacity = role_Capacity r\<rparr>"] desiredWidths_set [of "fsc_Spec (p_cluster p0)"]
    by (simp add: sameLayout_def layoutFromAPI_def rest_layout_def roleFromAPI_def comp_def Or_def sort_key_id_if_sorted)
  show "at_rest (resting object p0) p0 (rest_sets p0)"
    unfolding at_rest_def using rest_renders [OF _ _ r] runs sub same
    by (auto simp: list_all_iff, auto simp: resting_def quiet_def client_Layout_def)
  show "length (rest_sets p0) = length (p_nodes p0)" using names by (auto simp: sets dest: map_eq_imp_length_eq)
qed

definition rest_cluster :: FSCluster where
  "rest_cluster = sample_cluster (sample_spec three_nodes 1000)"

lemma rest_pass: "\<exists>p. newPass rest_cluster [] = Some p \<and> map node_Name (p_nodes p) = [''fs-0'', ''fs-1'', ''fs-2'']"
proof -
  from sample_pass obtain p where p: "newPass rest_cluster [] = Some p" unfolding rest_cluster_def by blast
  have "NodeNames (fsc_Spec rest_cluster) (fsc_Name rest_cluster) = Some [''fs-0'', ''fs-1'', ''fs-2'']" by code_simp
  with newPass_names [OF p] have "map node_Name (p_nodes p) = [''fs-0'', ''fs-1'', ''fs-2'']" by (metis option.inject)
  with p show ?thesis by (intro exI [of _ p] conjI)
qed

theorem rest_undisturbed_witness:
  "\<exists>p res cs. newPass rest_cluster [] = Some p \<and> length (rest_sets p) = 3
     \<and> Reconcile (resting rest_cluster p) ''storage'' ''fs'' [] = Some (res, cs) \<and> filter disturbs cs = []"
proof -
  from rest_pass obtain p where p: "newPass rest_cluster [] = Some p"
    and n: "map node_Name (p_nodes p) = [''fs-0'', ''fs-1'', ''fs-2'']" by (elim exE conjE)
  let ?R = "resting rest_cluster p"
  have "at_target p p" using newPass_cluster [OF p] by (simp add: at_target_def)
  moreover have "distinct (map node_Name (p_nodes p))" unfolding n by simp
  moreover have "fsc_Name (p_cluster p) \<noteq> []" "fsc_Namespace (p_cluster p) \<noteq> []"
    using newPass_cluster [OF p] by (simp_all add: rest_cluster_def sample_cluster_def)
  moreover have "\<forall>m \<in> set (p_nodes p). node_Name m \<noteq> []" using n by auto
  ultimately have rest: "at_rest ?R p (rest_sets p)" and len: "length (rest_sets p) = length (p_nodes p)"
    using resting_at_rest by blast+
  have reg: "r_FSImageRegistry ?R = []" and get: "e_GetCluster ?R [] ''storage'' ''fs'' = Inr rest_cluster"
    by (simp_all add: resting_def quiet_def)
  have "claims_have_requests ?R" by (simp add: claims_have_requests_def resting_def quiet_def)
  then obtain res cs where run: "Reconcile ?R ''storage'' ''fs'' [] = Some (res, cs)"
    using Reconcile_returns [of ?R "[]" "''storage''" "''fs''"] p get reg by auto
  from rest_undisturbed [OF run get _ rest] p reg have "filter disturbs cs = []" by auto
  moreover have "length (p_nodes p) = 3" using n map_eq_imp_length_eq by fastforce
  ultimately show ?thesis using p len run by auto
qed

end
