(* ===== verification/Storage_Rounds.thy ===== *)
theory Storage_Rounds
  imports Storage Rollout_Rounds
begin

text \<open>
  Growing the volumes takes three passes per node: one grows the claims and deletes the StatefulSet
  while its pod runs on, one creates the StatefulSet again, and one replaces the pod that the new
  StatefulSet adopted but does not count as its own. Here the observe, the storage and the nodes
  step run against a server that keeps the StatefulSets, removes the ones deleted, and replaces
  pods. \<open>grow_server_laws\<close> states what is relied on of the API server and the StatefulSet controller.
\<close>

section \<open>What the storage step deletes\<close>

text \<open>A call that neither deletes anything nor applies a StatefulSet.\<close>

fun keeps_sets :: "call \<Rightarrow> bool" where
  "keeps_sets (CDelete k ns n orphan) = False"
| "keeps_sets (CApply own obj) = False"
| "keeps_sets c = True"

lemma grow_claim_keeps: "grow_claim R p node tmpl h = Some (e, h') \<Longrightarrow> emits keeps_sets h h'"
  by (auto simp: grow_claim_def get_pvc_def update_pvc_def Let_def emits_def split: sum.splits option.splits if_splits)

lemma growClaims_keeps: "growClaims R p node d h = Some (e, h') \<Longrightarrow> emits keeps_sets h h'"
  unfolding growClaims_def by (rule emits_grow_loop) (rule grow_claim_keeps)

text \<open>The nodes whose claims have to grow, in order.\<close>

definition drifted_nodes :: "pass \<Rightarrow> (Node \<times> StatefulSet) list" where
  "drifted_nodes p = filter (\<lambda>x. snd (claims_diff (p_live p) x)) (zip (p_nodes p) (p_sets p))"

text \<open>The three ways the step can go: nothing is deleted, an adopted pod is, or the StatefulSet of a node that has to grow is.\<close>

inductive storage_run :: "pass \<Rightarrow> history \<Rightarrow> bool" for p where
  nothing: "list_all keeps_sets cs \<Longrightarrow> storage_run p cs"
| pod: "find (stale_pod p) (p_nodes p) = Some node \<Longrightarrow> otherNodesNotReady p (node_Name node) = [] \<Longrightarrow> list_all keeps_sets cs
    \<Longrightarrow> storage_run p (CDelete KindPod (fsc_Namespace (p_cluster p)) (PodName (node_Name node)) False # cs)"
| set: "roll_gate p \<Longrightarrow> drifted_nodes p = (node, d) # rest \<Longrightarrow> list_all keeps_sets as \<Longrightarrow> list_all keeps_sets cs
    \<Longrightarrow> storage_run p (as @ CDelete KindStatefulSet (fsc_Namespace (p_cluster p)) (node_Name node) True # cs)"

lemma finishAdoption_run:
  assumes "finishAdoption R p h = Some (out, h')"
  shows "\<exists>cs. h' = h @ cs \<and> storage_run p cs"
proof -
  from assms obtain node where f: "find (stale_pod p) (p_nodes p) = Some node" by (auto simp: finishAdoption_def split: option.splits)
  show ?thesis
  proof (cases "otherNodesNotReady p (node_Name node)")
    case (Cons w ws)
    with assms f show ?thesis by (auto simp: finishAdoption_def intro: storage_run.nothing)
  next
    case Nil
    note run = storage_run.pod [OF f Nil]
    from Nil assms f have "h' = h @ [CDelete KindPod (fsc_Namespace (p_cluster p)) (PodName (node_Name node)) False]
      \<or> (\<exists>t r m. h' = h @ [CDelete KindPod (fsc_Namespace (p_cluster p)) (PodName (node_Name node)) False, CEvent t r m])"
      by (auto simp: finishAdoption_def delete_ok_def delete_def event_def split: option.splits if_splits)
    with run [of "[]"] run [of "[CEvent _ _ _]"] show ?thesis by auto
  qed
qed

lemma expandNode_run:
  assumes "expandNode R node d p h = Some (out, p', h')" "roll_gate p" "drifted_nodes p = (node, d) # rest"
  shows "\<exists>cs. h' = h @ cs \<and> storage_run p cs"
proof -
  from assms(1) obtain e h1 where g: "growClaims R p node d h = Some (e, h1)" by (auto simp: expandNode_def split: option.splits)
  from growClaims_keeps [OF g] obtain as where as: "h1 = h @ as" "list_all keeps_sets as" by (auto simp: emits_def)
  show ?thesis
  proof (cases e)
    case (Some err)
    with assms(1) g as show ?thesis by (auto simp: expandNode_def intro: storage_run.nothing)
  next
    case None
    note run = storage_run.set [OF assms(2,3) as(2)]
    have "h' = h1 @ [CDelete KindStatefulSet (fsc_Namespace (p_cluster p)) (node_Name node) True]
      \<or> (\<exists>t r m. h' = h1 @ [CDelete KindStatefulSet (fsc_Namespace (p_cluster p)) (node_Name node) True, CEvent t r m])"
      using assms(1) g None by (auto simp: expandNode_def delete_ok_def delete_def event_def split: option.splits if_splits)
    with run [of "[]"] run [of "[CEvent _ _ _]"] as(1) show ?thesis by auto
  qed
qed

lemma reconcileStorage_run:
  assumes "reconcileStorage R p h = Some (out, p', h')" "length (p_sets p) = length (p_nodes p)"
  shows "\<exists>cs. h' = h @ cs \<and> storage_run p cs"
proof (cases "finishAdoption R p h")
  case (Some r)
  with assms(1) have "finishAdoption R p h = Some (out, h')" by (cases r) (simp add: reconcileStorage_def)
  then show ?thesis by (rule finishAdoption_run)
next
  case None
  have ev: "\<exists>cs. event t r m h = h @ cs \<and> storage_run p cs" for t r m
    by (intro exI [of _ "[CEvent t r m]"]) (simp add: event_def storage_run.nothing)
  have no: "\<exists>cs. h = h @ cs \<and> storage_run p cs" by (intro exI [of _ "[]"]) (simp add: storage_run.nothing)
  show ?thesis
  proof (cases "find (\<lambda>x. fst (claims_diff (p_live p) x) \<noteq> []) (zip (p_nodes p) (p_sets p))")
    case Some
    with assms(1) None ev show ?thesis by (auto simp: reconcileStorage_def storage_scan_total [OF assms(2)] refuse_def)
  next
    case ns: None
    then have "storage_loop (p_live p) (p_sets p) (p_nodes p) 0 [] = Drifted (drifted_nodes p)"
      by (simp add: storage_scan_total [OF assms(2)] drifted_nodes_def)
    with assms(1) None no expandNode_run show ?thesis
      by (auto simp: reconcileStorage_def roll_gate_def split: list.splits if_splits)
  qed
qed

section \<open>What it does when nothing is refused\<close>

definition obeys :: "Reconciler \<Rightarrow> bool" where
  "obeys R \<longleftrightarrow> (\<forall>h ns n e. e_GetPVC R h ns n = Inl e \<longrightarrow> isNotFound e) \<and> (\<forall>h pvc. e_UpdatePVC R h pvc = None)
     \<and> (\<forall>h k ns n orphan. e_Delete R h k ns n orphan = None) \<and> claims_have_requests R"

lemma growClaims_obeyed:
  assumes "obeys R"
  shows "\<exists>h'. growClaims R p node d h = Some (None, h')"
proof -
  have one: "\<exists>h'. grow_claim R p node tmpl h = Some (None, h')" for tmpl h
  proof (cases "e_GetPVC R h (fsc_Namespace (p_cluster p)) (PVCName (pvc_Name tmpl) (node_Name node))")
    case (Inl e)
    with assms have "isNotFound e" by (simp add: obeys_def)
    with Inl show ?thesis by (simp add: grow_claim_def get_pvc_def Let_def)
  next
    case (Inr pvc)
    with assms obtain m where "pvc_Requests pvc = Some m" unfolding obeys_def claims_have_requests_def by blast
    with Inr assms show ?thesis by (simp add: grow_claim_def get_pvc_def update_pvc_def obeys_def Let_def)
  qed
  have "\<exists>h'. grow_loop R p node tmpls h = Some (None, h')" for tmpls
  proof (induction tmpls arbitrary: h)
    case (Cons t ts)
    from one [of t h] obtain h' where "grow_claim R p node t h = Some (None, h')" by blast
    with Cons.IH [of h'] show ?case by simp
  qed simp
  then show ?thesis by (simp add: growClaims_def)
qed

lemma storage_replaces_pod:
  assumes "obeys R" "find (stale_pod p) (p_nodes p) = Some node" "otherNodesNotReady p (node_Name node) = []"
  shows "\<exists>msg ev. reconcileStorage R p h = Some (RequeueAfter pollInterval msg, p,
    h @ CDelete KindPod (fsc_Namespace (p_cluster p)) (PodName (node_Name node)) False # ev) \<and> list_all keeps_sets ev"
  using assms by (auto simp: reconcileStorage_def finishAdoption_def obeys_def delete_ok_def delete_def event_def)

lemma storage_recreates_set:
  assumes "obeys R" "find (stale_pod p) (p_nodes p) = None" "length (p_sets p) = length (p_nodes p)"
    "\<forall>x \<in> set (zip (p_nodes p) (p_sets p)). fst (claims_diff (p_live p) x) = []" "roll_gate p" "drifted_nodes p = (node, d) # rest"
  shows "\<exists>msg p' as ev. reconcileStorage R p h = Some (RequeueAfter pollInterval msg, p',
    h @ as @ CDelete KindStatefulSet (fsc_Namespace (p_cluster p)) (node_Name node) True # ev) \<and> list_all keeps_sets as \<and> list_all keeps_sets ev"
proof -
  from growClaims_obeyed [OF assms(1), of p node d h] obtain h1 where g: "growClaims R p node d h = Some (None, h1)" by blast
  from growClaims_keeps [OF g] obtain as where as: "h1 = h @ as" "list_all keeps_sets as" by (auto simp: emits_def)
  have "find (\<lambda>x. fst (claims_diff (p_live p) x) \<noteq> []) (zip (p_nodes p) (p_sets p)) = None" using assms(4) by (auto simp: find_None_iff)
  then have "storage_loop (p_live p) (p_sets p) (p_nodes p) 0 [] = Drifted ((node, d) # rest)"
    using assms(6) by (simp add: storage_scan_total [OF assms(3)] drifted_nodes_def)
  with assms g as have "\<exists>msg p' t r m. reconcileStorage R p h = Some (RequeueAfter pollInterval msg, p',
      h @ as @ CDelete KindStatefulSet (fsc_Namespace (p_cluster p)) (node_Name node) True # [CEvent t r m])"
    by (auto simp: reconcileStorage_def finishAdoption_def roll_gate_def expandNode_def obeys_def delete_ok_def delete_def event_def)
  with as(2) show ?thesis by fastforce
qed

section \<open>What the nodes step creates\<close>

definition creates :: "pass \<Rightarrow> call \<Rightarrow> bool" where
  "creates p c \<longleftrightarrow> keeps_sets c \<or> (\<exists>own d. c = CApply own (KStatefulSet (as_applied d)) \<and> d \<in> set (p_sets p) \<and> gm_get (p_live p) (set_Name d) = None)"

lemma classify_loop_creates:
  "set ss \<subseteq> set (p_sets p) \<Longrightarrow> \<forall>s \<in> set ss. \<not> stale_in p s \<Longrightarrow>
   emits (creates p) h (snd (classify_loop R p ss h k st)) \<and> (\<forall>k' st'. fst (classify_loop R p ss h k st) = Inr (k', st') \<longrightarrow> st' = st)"
proof (induction ss arbitrary: h k)
  case (Cons s ss)
  show ?case
  proof (cases "gm_get (p_live p) (set_Name s)")
    case (Some l)
    then show ?thesis using Cons by simp
  next
    case None
    obtain e h1 where a: "apply_object R (p_cluster p) (KStatefulSet s) h = (e, h1)"
      by (cases "apply_object R (p_cluster p) (KStatefulSet s) h")
    then have 1: "emits (creates p) h h1" using None Cons.prems(1)
      by (auto simp: apply_object_def applyConfiguration_def creates_def as_applied_def [symmetric] split: option.splits)
    have "emits (creates p) h1 (snd (classify_loop R p ss h1 (k + 1) st))
      \<and> (\<forall>k' st'. fst (classify_loop R p ss h1 (k + 1) st) = Inr (k', st') \<longrightarrow> st' = st)" using Cons by simp
    with 1 None a show ?thesis by (auto intro: emits_trans split: option.split)
  qed
qed simp

lemma nodes_creates:
  assumes "\<forall>s \<in> set (p_sets p). \<not> stale_in p s"
  shows "emits (creates p) h (snd (snd (reconcileNodes R p h)))"
proof -
  have ev: "creates p (CEvent t r m)" for t r m by (simp add: creates_def)
  obtain r h1 where c: "classify_loop R p (p_sets p) h 0 [] = (r, h1)" by (cases "classify_loop R p (p_sets p) h 0 []")
  from classify_loop_creates [OF order.refl assms, of h R 0 "[]"] c have 1: "emits (creates p) h h1" "\<And>k st. r = Inr (k, st) \<Longrightarrow> st = []" by auto
  have "rollOrder (fsc_Spec (p_cluster p)) [] (p_nodes p) = []" using rollOrder_set [of "fsc_Spec (p_cluster p)" "[]" "p_nodes p"] by simp
  with 1 c ev show ?thesis
    by (cases r) (auto simp: reconcileNodes_def classify_def roll_def intro!: emits_event_after split: prod.split)
qed

section \<open>A server that deletes\<close>

text \<open>
  \<open>gs_Orphan\<close> deletes the StatefulSet of a name and leaves its pod; \<open>gs_KillPod\<close> deletes a pod, which its
  StatefulSet then replaces.
\<close>

record 's grow_server =
  gs_Sets :: "'s set_server"
  gs_Orphan :: "string \<Rightarrow> 's \<Rightarrow> 's"
  gs_KillPod :: "string \<Rightarrow> 's \<Rightarrow> 's"

abbreviation live_at :: "'s grow_server \<Rightarrow> 's \<Rightarrow> string \<Rightarrow> StatefulSet option" where
  "live_at G \<equiv> live_set (gs_Sets G)"

definition grow_step :: "'s grow_server \<Rightarrow> Reconciler \<Rightarrow> history \<Rightarrow> call \<Rightarrow> 's \<Rightarrow> 's" where
  "grow_step G R h c st = (case c of
      CApply own obj \<Rightarrow> (case obj of
        KStatefulSet s \<Rightarrow> if e_Apply R h obj = None then sv_Apply (gs_Sets G) s st else st
      | other \<Rightarrow> st)
    | CDelete k ns n orphan \<Rightarrow>
        if e_Delete R h k ns n orphan \<noteq> None then st
        else if k = KindStatefulSet then gs_Orphan G n st
        else if k = KindPod then gs_KillPod G n st
        else st
    | other \<Rightarrow> st)"

fun grow_after :: "'s grow_server \<Rightarrow> Reconciler \<Rightarrow> history \<Rightarrow> history \<Rightarrow> 's \<Rightarrow> 's" where
  "grow_after G R h [] st = st"
| "grow_after G R h (c # cs) st = grow_after G R (h @ [c]) cs (grow_step G R h c st)"

lemma grow_after_append: "grow_after G R h (as @ bs) st = grow_after G R (h @ as) bs (grow_after G R h as st)"
  by (induction as arbitrary: h st) simp_all

lemma grow_step_keeps: "keeps_sets c \<Longrightarrow> grow_step G R h c st = st"
  by (cases c) (simp_all add: grow_step_def)

lemma grow_after_keeps: "list_all keeps_sets cs \<Longrightarrow> grow_after G R h cs st = st"
  by (induction cs arbitrary: h) (simp_all add: grow_step_keeps)

text \<open>
  One pass: the sets are listed, the storage step runs and then, unless it failed or blocked the
  pass, the nodes step; then time passes.
\<close>

definition goes_on :: "Outcome result \<Rightarrow> bool" where
  "goes_on out = (case out of Inl e \<Rightarrow> False | Inr oc \<Rightarrow> \<not> out_Blocked oc)"

lemma goes_on_requeue [simp]: "goes_on (RequeueAfter after m)"
  by (simp add: goes_on_def RequeueAfter_def zero_outcome_def)

definition grow_round :: "'s grow_server \<Rightarrow> Reconciler \<Rightarrow> pass \<Rightarrow> 's \<times> history \<Rightarrow> 's \<times> history" where
  "grow_round G R p = (\<lambda>(st, h).
     let R' = at_server (gs_Sets G) st R
     in case observe R' p h of (out, p1, h1) \<Rightarrow>
       (let h2 = (case reconcileStorage R' p1 h1 of
              None \<Rightarrow> h1
            | Some (out', p2, h2) \<Rightarrow> if goes_on out' then snd (snd (reconcileNodes R' p2 h2)) else h2)
        in (sv_Settle (gs_Sets G) (grow_after G R h1 (drop (length h1) h2) st), h2)))"

lemma claims_at_server [simp]: "claims_have_requests (at_server S st R) = claims_have_requests R"
  by (simp add: claims_have_requests_def at_server_def)

lemma obeys_at_server [simp]: "obeys (at_server S st R) = obeys R"
  by (simp add: obeys_def) (simp add: at_server_def)

section \<open>How far a node is\<close>

abbreviation claims_of :: "StatefulSet \<Rightarrow> PersistentVolumeClaim list" where
  "claims_of s \<equiv> sts_VolumeClaimTemplates (set_Spec s)"

text \<open>The claims of a running set still have to grow, and a set that is not through with what it was told.\<close>

definition drifts :: "StatefulSet \<Rightarrow> StatefulSet \<Rightarrow> bool" where
  "drifts l d \<longleftrightarrow> snd (diskDiff (claims_of l) (claims_of d))"

definition unsettled :: "StatefulSet \<Rightarrow> bool" where
  "unsettled l \<longleftrightarrow> adoptedStalePod l \<or> ss_ObservedGeneration (set_Status l) < set_Generation l"

definition in_flight :: "'s grow_server \<Rightarrow> 's \<Rightarrow> StatefulSet \<Rightarrow> bool" where
  "in_flight G st d = (case live_at G st (set_Name d) of None \<Rightarrow> True | Some l \<Rightarrow> unsettled l)"

definition passes_left :: "'s grow_server \<Rightarrow> 's \<Rightarrow> StatefulSet \<Rightarrow> nat" where
  "passes_left G st d = (case live_at G st (set_Name d) of
      None \<Rightarrow> 2
    | Some l \<Rightarrow> (if drifts l d then 3 else 0) + (if unsettled l then 1 else 0))"

text \<open>Nothing but the claims differs, no claim would shrink, and at most one node is being worked on.\<close>

definition growing :: "'s grow_server \<Rightarrow> StatefulSet list \<Rightarrow> 's \<Rightarrow> bool" where
  "growing G ds st \<longleftrightarrow>
     (\<forall>d \<in> set ds. \<forall>l. live_at G st (set_Name d) = Some l \<longrightarrow>
        template_revision l = template_revision d \<and> fst (diskDiff (claims_of l) (claims_of d)) = [])
     \<and> (\<forall>d \<in> set ds. \<forall>e \<in> set ds. in_flight G st d \<longrightarrow> in_flight G st e \<longrightarrow> d = e)"

definition grows_to :: "StatefulSet list \<Rightarrow> pass \<Rightarrow> bool" where
  "grows_to ds p \<longleftrightarrow> rolls_to ds p \<and> (\<forall>d \<in> set ds. distinct (map pvc_Name (claims_of d)))"

lemma sizes_in:
  "c \<in> set cs \<Longrightarrow> distinct (map pvc_Name cs) \<Longrightarrow> gm_get (claim_sizes cs) (pvc_Name c) = Some (requested c)"
proof (induction cs rule: rev_induct)
  case (snoc x cs)
  then show ?case by (auto simp: claim_sizes_def) (metis imageI)
qed simp

lemma diskDiff_self: "distinct (map pvc_Name cs) \<Longrightarrow> diskDiff cs cs = ([], False)"
  by (auto simp: diskDiff_spec claim_shrinks_def claim_grows_def sizes_in filter_empty_conv list_ex_iff)

text \<open>What a round does to one node: \<open>o'\<close> names the set it deleted.\<close>

definition moved :: "'s grow_server \<Rightarrow> StatefulSet list \<Rightarrow> string option \<Rightarrow> 's \<Rightarrow> 's \<Rightarrow> StatefulSet \<Rightarrow> bool" where
  "moved G ds o' st st' d = (case live_at G st (set_Name d) of
      None \<Rightarrow> (case live_at G st' (set_Name d) of None \<Rightarrow> True
        | Some l' \<Rightarrow> claims_of l' = claims_of d \<and> template_revision l' = template_revision d)
    | Some l \<Rightarrow> (case live_at G st' (set_Name d) of
        None \<Rightarrow> o' = Some (set_Name d) \<and> drifts l d \<and> (\<forall>e \<in> set ds. \<not> in_flight G st e)
      | Some l' \<Rightarrow> claims_of l' = claims_of l \<and> template_revision l' = template_revision l \<and> (unsettled l' \<longrightarrow> unsettled l)))"

lemma moved_cong: "live_at G st2 (set_Name d) = live_at G st1 (set_Name d) \<Longrightarrow> moved G ds o' st st2 d \<longleftrightarrow> moved G ds o' st st1 d"
  unfolding moved_def by (erule ssubst) (rule refl)

lemma moved_left:
  assumes "moved G ds o' st st' d" "distinct (map pvc_Name (claims_of d))"
  shows "passes_left G st' d \<le> passes_left G st d"
  using assms diskDiff_self [OF assms(2)]
  by (auto simp: moved_def passes_left_def drifts_def split: option.splits)

lemma moved_growing:
  assumes "growing G ds st" "\<forall>d \<in> set ds. moved G ds o' st st' d \<and> distinct (map pvc_Name (claims_of d))" "distinct (map set_Name ds)"
  shows "growing G ds st'"
  unfolding growing_def
proof (intro conjI ballI allI impI)
  fix d l assume d: "d \<in> set ds" "live_at G st' (set_Name d) = Some l"
  then have m: "moved G ds o' st st' d" and c: "diskDiff (claims_of d) (claims_of d) = ([], False)"
    using assms(2) by (auto intro: diskDiff_self)
  have "template_revision l = template_revision d \<and> fst (diskDiff (claims_of l) (claims_of d)) = []"
  proof (cases "live_at G st (set_Name d)")
    case None
    with m d(2) have "claims_of l = claims_of d" "template_revision l = template_revision d" by (simp_all add: moved_def)
    with c show ?thesis by simp
  next
    case (Some k)
    with m d(2) have "claims_of l = claims_of k" "template_revision l = template_revision k" by (simp_all add: moved_def)
    moreover have "template_revision k = template_revision d" "fst (diskDiff (claims_of k) (claims_of d)) = []"
      using assms(1) d(1) Some unfolding growing_def by blast+
    ultimately show ?thesis by simp
  qed
  then show "template_revision l = template_revision d" "fst (diskDiff (claims_of l) (claims_of d)) = []" by simp_all
next
  fix d e assume de: "d \<in> set ds" "e \<in> set ds" "in_flight G st' d" "in_flight G st' e"
  have was: "in_flight G st x \<or> o' = Some (set_Name x) \<and> (\<forall>y \<in> set ds. \<not> in_flight G st y)" if "x \<in> set ds" "in_flight G st' x" for x
  proof -
    from assms(2) that(1) have "moved G ds o' st st' x" by blast
    with that(2) show ?thesis unfolding in_flight_def [of G st x] in_flight_def [of G st' x] moved_def
      by (cases "live_at G st (set_Name x)"; cases "live_at G st' (set_Name x)") simp_all
  qed
  have "set_Name d = set_Name e \<or> in_flight G st d \<and> in_flight G st e" using was [OF de(1,3)] was [OF de(2,4)] de by auto
  then show "d = e"
  proof
    assume "set_Name d = set_Name e"
    with assms(3) de(1,2) show ?thesis by (simp add: distinct_map inj_on_def)
  qed (use assms(1) de(1,2) in \<open>unfold growing_def, blast\<close>)
qed

text \<open>
  A round is healthy when nothing it asks for is refused, every node that exists serves or runs a pod
  that its set adopted, and the cluster is known to have converged.
\<close>

definition grow_healthy :: "'s grow_server \<Rightarrow> Reconciler \<Rightarrow> pass \<Rightarrow> 's \<Rightarrow> bool" where
  "grow_healthy G R p st \<longleftrightarrow> obeys R \<and> accepts R p \<and> cv_known (p_convergence p) \<and> cv_converged (p_convergence p)
     \<and> (\<forall>n \<in> set (p_nodes p). \<forall>l. live_at G st (node_Name n) = Some l \<longrightarrow> nodeServing l \<or> adoptedStalePod l)"

section \<open>The server's laws\<close>

text \<open>What a set is that was created from a desired one, if it is there.\<close>

definition made :: "'s grow_server \<Rightarrow> 's \<Rightarrow> StatefulSet \<Rightarrow> bool" where
  "made G st d = (case live_at G st (set_Name d) of None \<Rightarrow> True
     | Some l \<Rightarrow> claims_of l = claims_of d \<and> template_revision l = template_revision d)"

text \<open>
  A set deleted is gone and one created has the claims and the template it was created with; neither
  touches the others. Replacing a pod that was adopted settles its set. Time changes no claims and no
  template, and unsettles nothing.
\<close>

locale grow_server_laws =
  fixes G :: "'s grow_server"
  assumes orphaned: "live_at G (gs_Orphan G n st) m = (if m = n then None else live_at G st m)"
    and other_created: "m \<noteq> set_Name s \<Longrightarrow> live_at G (sv_Apply (gs_Sets G) s st) m = live_at G st m"
    and created: "made G st s \<Longrightarrow> made G (sv_Apply (gs_Sets G) s st) s \<and> live_at G (sv_Apply (gs_Sets G) s st) (set_Name s) \<noteq> None"
    and other_pod: "m \<noteq> n \<Longrightarrow> live_at G (gs_KillPod G (PodName n) st) m = live_at G st m"
    and replaced: "live_at G st n = Some l \<Longrightarrow> adoptedStalePod l \<Longrightarrow>
      \<exists>l'. live_at G (gs_KillPod G (PodName n) st) n = Some l' \<and> claims_of l' = claims_of l \<and> template_revision l' = template_revision l
        \<and> \<not> unsettled l'"
    and gone: "live_at G st n = None \<Longrightarrow> live_at G (sv_Settle (gs_Sets G) st) n = None"
    and settles: "live_at G st n = Some l \<Longrightarrow>
      \<exists>l'. live_at G (sv_Settle (gs_Sets G) st) n = Some l' \<and> claims_of l' = claims_of l \<and> template_revision l' = template_revision l
        \<and> (unsettled l' \<longrightarrow> unsettled l)"
begin

lemma made_applied: "made G st (as_applied d) = made G st d"
proof -
  have "claims_of (as_applied d) = claims_of d" by (simp add: as_applied_def)
  then show ?thesis by (simp add: made_def split: option.split)
qed

lemma create_step:
  assumes "creates p c" "distinct (map set_Name (p_sets p))"
  shows "gm_get (p_live p) m \<noteq> None \<Longrightarrow> live_at G (grow_step G R h c st) m = live_at G st m"
    and "d \<in> set (p_sets p) \<Longrightarrow> made G st d \<Longrightarrow> made G (grow_step G R h c st) d
      \<and> (live_at G st (set_Name d) \<noteq> None \<longrightarrow> live_at G (grow_step G R h c st) (set_Name d) \<noteq> None)"
proof -
  consider "grow_step G R h c st = st"
    | e where "grow_step G R h c st = sv_Apply (gs_Sets G) (as_applied e) st" "e \<in> set (p_sets p)" "gm_get (p_live p) (set_Name e) = None"
    using assms(1) unfolding creates_def
  proof
    assume "keeps_sets c"
    from grow_step_keeps [OF this] show ?thesis by (rule that(1))
  next
    assume "\<exists>own d. c = CApply own (KStatefulSet (as_applied d)) \<and> d \<in> set (p_sets p) \<and> gm_get (p_live p) (set_Name d) = None"
    then obtain own e where e: "c = CApply own (KStatefulSet (as_applied e))" "e \<in> set (p_sets p)" "gm_get (p_live p) (set_Name e) = None" by blast
    then show ?thesis using that(1) that(2) [of e] by (cases "e_Apply R h (KStatefulSet (as_applied e))") (simp_all add: grow_step_def)
  qed
  note steps = this
  show "live_at G (grow_step G R h c st) m = live_at G st m" if "gm_get (p_live p) m \<noteq> None"
    using steps
  proof cases
    case (2 e)
    then have "m \<noteq> set_Name (as_applied e)" using that by auto
    with 2 other_created show ?thesis by metis
  qed simp
  show "made G (grow_step G R h c st) d \<and> (live_at G st (set_Name d) \<noteq> None \<longrightarrow> live_at G (grow_step G R h c st) (set_Name d) \<noteq> None)"
    if d: "d \<in> set (p_sets p)" "made G st d"
    using steps
  proof cases
    case (2 e)
    show ?thesis
    proof (cases "set_Name d = set_Name e")
      case True
      then have "d = e" using assms(2) d(1) 2(2) by (simp add: distinct_map inj_on_def)
      with 2 d(2) created [of st "as_applied e"] show ?thesis by (simp add: made_applied)
    next
      case False
      then have "live_at G (grow_step G R h c st) (set_Name d) = live_at G st (set_Name d)" using 2(1) other_created by simp
      with d(2) show ?thesis by (simp add: made_def)
    qed
  qed (use d in simp)
qed

lemma create_steps:
  assumes "list_all (creates p) cs" "distinct (map set_Name (p_sets p))"
  shows "gm_get (p_live p) m \<noteq> None \<Longrightarrow> live_at G (grow_after G R h cs st) m = live_at G st m"
    and "d \<in> set (p_sets p) \<Longrightarrow> made G st d \<Longrightarrow> made G (grow_after G R h cs st) d
      \<and> (live_at G st (set_Name d) \<noteq> None \<longrightarrow> live_at G (grow_after G R h cs st) (set_Name d) \<noteq> None)"
  using assms(1)
proof (induction cs arbitrary: h st)
  case (Cons c cs)
  { case 1 then show ?case using Cons.IH(1) create_step(1) [OF _ assms(2)] by simp }
  { case 2 then show ?case using Cons.IH(2) create_step(2) [OF _ assms(2), of c d st R h] by simp }
qed simp_all

lemma created_in:
  assumes "list_all (creates p) cs" "distinct (map set_Name (p_sets p))" "accepts R p" "d \<in> set (p_sets p)" "made G st d" "writes_set d cs"
  shows "live_at G (grow_after G R h cs st) (set_Name d) \<noteq> None"
proof -
  from assms(6) obtain as own bs where cs: "cs = as @ CApply own (KStatefulSet (as_applied d)) # bs"
    by (auto simp: writes_set_def in_set_conv_decomp)
  let ?st = "grow_after G R h as st"
  have "made G ?st d" using create_steps(2) [OF _ assms(2,4,5), of as R h] assms(1) cs by simp
  with created [of ?st "as_applied d"] have "made G (sv_Apply (gs_Sets G) (as_applied d) ?st) d"
    "live_at G (sv_Apply (gs_Sets G) (as_applied d) ?st) (set_Name d) \<noteq> None" by (simp_all add: made_applied)
  with create_steps(2) [OF _ assms(2,4), of bs "sv_Apply (gs_Sets G) (as_applied d) ?st" R] assms(1,3) cs show ?thesis
    by (simp add: grow_after_append grow_step_def accepts_def)
qed

text \<open>The pass as it has seen the server.\<close>

lemma settled_when_ready:
  assumes "observed_pass (gs_Sets G) st p p1" "rolls_to ds p" "hl_notReady (p_health p1) = []" "d \<in> set ds"
  shows "\<not> in_flight G st d"
proof -
  from assms(2,4) have "set_Name d \<in> set (map node_Name (p_nodes p))" unfolding rolls_to_def by (metis imageI list.set_map)
  then obtain n where n: "n \<in> set (p_nodes p)" "node_Name n = set_Name d" by auto
  from assms(1,3) n(1) have "\<not> not_serving (sets_by_name (sv_List (gs_Sets G) st)) n"
    by (auto simp: observed_pass_def filter_empty_conv)
  then show ?thesis
    by (auto simp: not_serving_def in_flight_def live_set_def n(2) nodeServing_def unsettled_def adoptedStalePod_def split: option.splits)
qed

text \<open>The storage step: what was missing is missing still, and at most one set is gone.\<close>

lemma storage_moves:
  assumes obs: "observed_pass (gs_Sets G) st p p1" and to: "rolls_to ds p" and run: "storage_run p1 cs"
  shows "\<exists>o'. \<forall>d \<in> set ds. moved G ds o' st (grow_after G R h cs st) d
    \<and> (live_at G st (set_Name d) = None \<longrightarrow> live_at G (grow_after G R h cs st) (set_Name d) = None)"
proof -
  have live: "gm_get (p_live p1) n = live_at G st n" for n using obs by (simp add: observed_pass_def live_set_def)
  have same: "moved G ds o' st st' d \<and> (live_at G st (set_Name d) = None \<longrightarrow> live_at G st' (set_Name d) = None)"
    if "live_at G st' (set_Name d) = live_at G st (set_Name d)" for o' st' d
    using that by (simp add: moved_def split: option.split)
  from run show ?thesis
  proof cases
    case nothing
    then show ?thesis using same by (simp add: grow_after_keeps)
  next
    case (pod node as)
    let ?n = "node_Name node"
    from pod(2) have "stale_pod p1 node" by (auto simp: find_Some_iff)
    then obtain l where l: "live_at G st ?n = Some l" "adoptedStalePod l" by (auto simp: stale_pod_def live split: option.splits)
    from replaced [OF l] obtain l' where l': "live_at G (gs_KillPod G (PodName ?n) st) ?n = Some l'" "claims_of l' = claims_of l"
      "template_revision l' = template_revision l" "\<not> unsettled l'" by blast
    have "moved G ds None st (gs_KillPod G (PodName ?n) st) d
      \<and> (live_at G st (set_Name d) = None \<longrightarrow> live_at G (gs_KillPod G (PodName ?n) st) (set_Name d) = None)" for d
      by (cases "set_Name d = ?n") (use l l' in \<open>simp add: moved_def\<close>, rule same, rule other_pod)
    then show ?thesis using same pod(1,4)
      by (cases "e_Delete R h KindPod (fsc_Namespace (p_cluster p1)) (PodName ?n) False") (auto simp: grow_step_def grow_after_keeps)
  next
    case (set node d0 rest as bs)
    let ?n = "node_Name node"
    have ready: "hl_notReady (p_health p1) = []" using set(2) by (simp add: roll_gate_def)
    have sets: "p_sets p1 = ds" "map set_Name ds = map node_Name (p_nodes p1)" "distinct (map set_Name ds)"
      using obs to by (auto simp: observed_pass_def rolls_to_def)
    have "(node, d0) \<in> set (drifted_nodes p1)" using set(3) by simp
    then have z: "(node, d0) \<in> set (zip (p_nodes p1) ds)" "snd (claims_diff (p_live p1) (node, d0))"
      by (simp_all add: drifted_nodes_def sets(1))
    then have d0: "d0 \<in> set ds" "set_Name d0 = ?n" using sets(2) by (auto simp: in_set_zip) (metis nth_map)
    have "moved G ds (Some ?n) st (gs_Orphan G ?n st) d
      \<and> (live_at G st (set_Name d) = None \<longrightarrow> live_at G (gs_Orphan G ?n st) (set_Name d) = None)" if "d \<in> set ds" for d
    proof (cases "set_Name d = ?n")
      case True
      with that d0 sets(3) have d: "d = d0" by (simp add: distinct_map inj_on_def)
      show ?thesis using z(2) settled_when_ready [OF obs to ready]
        by (auto simp: moved_def orphaned True d d0 claims_diff_def drifts_def live split: option.splits)
    qed (rule same, simp add: orphaned)
    then show ?thesis using same set(1,4,5)
      by (cases "e_Delete R (h @ as) KindStatefulSet (fsc_Namespace (p_cluster p1)) ?n True")
        (auto simp: grow_step_def grow_after_append grow_after_keeps)
  qed
qed

lemma nodes_move:
  assumes "list_all (creates p1) cs" "p_sets p1 = ds" "distinct (map set_Name ds)" "\<And>n. gm_get (p_live p1) n = live_at G st n" "d \<in> set ds"
    "moved G ds o' st st1 d" "live_at G st (set_Name d) = None \<longrightarrow> live_at G st1 (set_Name d) = None"
  shows "moved G ds o' st (grow_after G R h cs st1) d"
proof (cases "live_at G st (set_Name d)")
  case None
  then have "made G st1 d" using assms(7) by (simp add: made_def)
  then have "made G (grow_after G R h cs st1) d" using create_steps(2) [OF assms(1)] assms(2,3,5) by simp
  with None show ?thesis by (simp add: made_def moved_def)
next
  case (Some l)
  then have "live_at G (grow_after G R h cs st1) (set_Name d) = live_at G st1 (set_Name d)"
    using create_steps(1) [OF assms(1)] assms(2-4) by simp
  then show ?thesis by (rule moved_cong [THEN iffD2, OF _ assms(6)])
qed

lemma settle_moves:
  assumes "moved G ds o' st st2 d"
  shows "moved G ds o' st (sv_Settle (gs_Sets G) st2) d"
proof (cases "live_at G st2 (set_Name d)")
  case None
  have "live_at G (sv_Settle (gs_Sets G) st2) (set_Name d) = live_at G st2 (set_Name d)" using gone [OF None] None by simp
  then show ?thesis by (rule moved_cong [THEN iffD2, OF _ assms])
next
  case (Some l)
  from settles [OF this] Some assms show ?thesis by (auto simp: moved_def split: option.splits)
qed

lemma moved_settled: "moved G ds o' st (sv_Settle (gs_Sets G) st) d"
  by (rule settle_moves) (simp add: moved_def split: option.split)

text \<open>A round in its two parts; one that panics only lets time pass.\<close>

lemma round_parts:
  assumes "grows_to ds p" "growing G ds st" "claims_have_requests R \<or> fst (grow_round G R p (st, h)) \<noteq> sv_Settle (gs_Sets G) st"
  shows "\<exists>p1 h1 out p2 cs1 cs2. observed_pass (gs_Sets G) st p p1
    \<and> reconcileStorage (at_server (gs_Sets G) st R) p1 h1 = Some (out, p2, h1 @ cs1) \<and> storage_run p1 cs1 \<and> list_all (creates p1) cs2
    \<and> grow_round G R p (st, h) = (sv_Settle (gs_Sets G) (grow_after G R (h1 @ cs1) cs2 (grow_after G R h1 cs1 st)), h1 @ cs1 @ cs2)
    \<and> (goes_on out \<longrightarrow> accepts R p \<longrightarrow> (\<forall>d \<in> set ds. live_at G st (set_Name d) = None \<longrightarrow> writes_set d cs2))"
proof -
  let ?R = "at_server (gs_Sets G) st R"
  obtain c p1 where o: "observe ?R p h = (Continue, p1, h @ [c])" and p1: "observed_pass (gs_Sets G) st p p1"
    using observe_at_server [of "gs_Sets G" st R p h] by blast
  have live: "gm_get (p_live p1) n = live_at G st n" for n using p1 by (simp add: observed_pass_def live_set_def)
  have sets: "p_sets p1 = ds" "map set_Name ds = map node_Name (p_nodes p1)" using p1 assms(1) by (auto simp: observed_pass_def grows_to_def rolls_to_def)
  have len: "length (p_sets p1) = length (p_nodes p1)" using arg_cong [OF sets(2), of length] by (simp add: sets(1))
  have "fst (grow_round G R p (st, h)) = sv_Settle (gs_Sets G) st" if "reconcileStorage ?R p1 (h @ [c]) = None"
    using o that by (simp add: grow_round_def)
  with reconcileStorage_total [OF len, of ?R "h @ [c]"] assms(3) obtain out p2 h2 where r: "reconcileStorage ?R p1 (h @ [c]) = Some (out, p2, h2)"
    by fastforce
  from reconcileStorage_run [OF r len] obtain cs1 where cs1: "h2 = (h @ [c]) @ cs1" "storage_run p1 cs1" by blast
  from reconcileStorage_frame [OF r] obtain cond where "p2 = p1\<lparr>p_conditions := cond\<rparr>" by blast
  then have p2: "p_live p2 = p_live p1" "p_sets p2 = p_sets p1" "p_cluster p2 = p_cluster p1" by (simp_all add: p_sets_def)
  have "\<forall>s \<in> set (p_sets p2). \<not> stale_in p2 s" using assms(2) by (auto simp: p2 sets(1) stale_in_def live growing_def split: option.splits)
  then have "emits (creates p1) h2 (snd (snd (reconcileNodes ?R p2 h2)))" using nodes_creates [of p2 h2 ?R] by (simp add: creates_def [abs_def] p2)
  then obtain cs where cs: "snd (snd (reconcileNodes ?R p2 h2)) = h2 @ cs" "list_all (creates p1) cs" by (auto simp: emits_def)
  have w: "accepts R p \<longrightarrow> (\<forall>d \<in> set ds. live_at G st (set_Name d) = None \<longrightarrow> writes_set d cs)"
  proof (intro impI)
    assume "accepts R p"
    then have "accepts ?R p2" using p1 by (simp add: accepts_def at_server_def p2 observed_pass_def)
    from nodes_accepted [OF this, of h2] cs(1) show "\<forall>d \<in> set ds. live_at G st (set_Name d) = None \<longrightarrow> writes_set d cs"
      by (auto simp: p2 sets(1) live)
  qed
  define cs2 where "cs2 = (if goes_on out then cs else [])"
  have "grow_round G R p (st, h) = (sv_Settle (gs_Sets G) (grow_after G R ((h @ [c]) @ cs1) cs2 (grow_after G R (h @ [c]) cs1 st)), (h @ [c]) @ cs1 @ cs2)"
    using o r cs(1) by (simp add: grow_round_def cs2_def cs1(1) grow_after_append)
  then show ?thesis using p1 r cs1 cs(2) w
    by (intro exI [of _ p1] exI [of _ "h @ [c]"] exI [of _ out] exI [of _ p2] exI [of _ cs1] exI [of _ cs2]) (simp add: cs2_def)
qed

lemma round_moves:
  assumes "grows_to ds p" "growing G ds st"
  shows "\<exists>o'. \<forall>d \<in> set ds. moved G ds o' st (fst (grow_round G R p (st, h))) d"
proof (cases "fst (grow_round G R p (st, h)) = sv_Settle (gs_Sets G) st")
  case True
  then show ?thesis using moved_settled by metis
next
  case False
  with round_parts [OF assms, of R h] obtain p1 h1 out p2 cs1 cs2 where obs: "observed_pass (gs_Sets G) st p p1" and run: "storage_run p1 cs1"
    and cr: "list_all (creates p1) cs2"
    and r: "grow_round G R p (st, h) = (sv_Settle (gs_Sets G) (grow_after G R (h1 @ cs1) cs2 (grow_after G R h1 cs1 st)), h1 @ cs1 @ cs2)" by blast
  from assms(1) have to: "rolls_to ds p" by (simp add: grows_to_def)
  from storage_moves [OF obs to run, of R h1] obtain o' where m: "\<forall>d \<in> set ds. moved G ds o' st (grow_after G R h1 cs1 st) d
    \<and> (live_at G st (set_Name d) = None \<longrightarrow> live_at G (grow_after G R h1 cs1 st) (set_Name d) = None)" by blast
  have "moved G ds o' st (fst (grow_round G R p (st, h))) d" if "d \<in> set ds" for d
    unfolding r fst_conv
  proof (rule settle_moves, rule nodes_move [OF cr _ _ _ that])
    show "p_sets p1 = ds" "distinct (map set_Name ds)" using obs to unfolding observed_pass_def rolls_to_def by auto
    show "gm_get (p_live p1) n = live_at G st n" for n using obs by (simp add: observed_pass_def live_set_def)
  qed (use m that in simp_all)
  then show ?thesis by blast
qed

text \<open>Every desired set has its node and every node its set.\<close>

lemma names_match:
  assumes "rolls_to ds p" "observed_pass (gs_Sets G) st p p1"
  shows "d \<in> set ds \<Longrightarrow> \<exists>n \<in> set (p_nodes p1). node_Name n = set_Name d"
    and "n \<in> set (p_nodes p1) \<Longrightarrow> \<exists>d \<in> set ds. set_Name d = node_Name n"
proof -
  from assms have m: "set_Name ` set ds = node_Name ` set (p_nodes p1)"
    unfolding rolls_to_def observed_pass_def by (metis list.set_map)
  show "d \<in> set ds \<Longrightarrow> \<exists>n \<in> set (p_nodes p1). node_Name n = set_Name d" using m by (metis (no_types, lifting) imageE imageI)
  show "n \<in> set (p_nodes p1) \<Longrightarrow> \<exists>d \<in> set ds. set_Name d = node_Name n" using m by (metis (no_types, lifting) imageE imageI)
qed

lemma stale_in_flight:
  assumes "rolls_to ds p" "observed_pass (gs_Sets G) st p p1" "n \<in> set (p_nodes p1)" "stale_pod p1 n"
  shows "\<exists>d \<in> set ds. set_Name d = node_Name n \<and> in_flight G st d"
proof -
  from names_match(2) [OF assms(1-3)] obtain d where d: "d \<in> set ds" "set_Name d = node_Name n" by blast
  moreover have "in_flight G st d" using assms(2,4) d(2)
    by (auto simp: stale_pod_def in_flight_def observed_pass_def live_set_def unsettled_def split: option.splits)
  ultimately show ?thesis by blast
qed

lemma no_shrink:
  assumes "growing G ds st" "rolls_to ds p" "observed_pass (gs_Sets G) st p p1" "x \<in> set (zip (p_nodes p1) (p_sets p1))"
  shows "fst (claims_diff (p_live p1) x) = []"
proof -
  obtain n d where x: "x = (n, d)" by (cases x)
  have ds: "p_sets p1 = ds" "map node_Name (p_nodes p1) = map set_Name ds" using assms(2,3) by (auto simp: observed_pass_def rolls_to_def)
  then have d: "d \<in> set ds" "node_Name n = set_Name d" using assms(4) x by (auto simp: in_set_zip) (metis nth_map)
  have "gm_get (p_live p1) (node_Name n) = live_at G st (set_Name d)" using assms(3) d(2) by (simp add: observed_pass_def live_set_def)
  then show ?thesis using assms(1) d(1) x by (auto simp: claims_diff_def growing_def split: option.splits)
qed

lemma healthy_claims: "grow_healthy G R p st \<Longrightarrow> claims_have_requests R"
  by (simp add: grow_healthy_def obeys_def)

text \<open>A healthy pass brings one node further, whichever of the three things it finds to do.\<close>

lemma waiting_goes_on:
  assumes "find (stale_pod p1) (p_nodes p1) = None" "length (p_sets p1) = length (p_nodes p1)"
    "\<forall>x \<in> set (zip (p_nodes p1) (p_sets p1)). fst (claims_diff (p_live p1) x) = []" "hl_notReady (p_health p1) \<noteq> []"
  shows "\<exists>out. reconcileStorage R p1 h = Some (out, p1, h) \<and> goes_on out"
proof -
  have "find (\<lambda>x. fst (claims_diff (p_live p1) x) \<noteq> []) (zip (p_nodes p1) (p_sets p1)) = None" using assms(3) by (auto simp: find_None_iff)
  with assms show ?thesis
    by (auto simp: reconcileStorage_def finishAdoption_def storage_scan_total Continue_def goes_on_def zero_outcome_def RequeueAfter_def
        split: list.split)
qed

lemma progress_missing:
  assumes "grows_to ds p" "growing G ds st" "grow_healthy G R p st" "d \<in> set ds" "live_at G st (set_Name d) = None"
  shows "passes_left G (fst (grow_round G R p (st, h))) d < passes_left G st d"
proof -
  from round_parts [OF assms(1,2) disjI1 [OF healthy_claims [OF assms(3)]], of h] obtain p1 h1 out p2 cs1 cs2 where obs: "observed_pass (gs_Sets G) st p p1"
    and st: "reconcileStorage (at_server (gs_Sets G) st R) p1 h1 = Some (out, p2, h1 @ cs1)" and cr: "list_all (creates p1) cs2"
    and r: "grow_round G R p (st, h) = (sv_Settle (gs_Sets G) (grow_after G R (h1 @ cs1) cs2 (grow_after G R h1 cs1 st)), h1 @ cs1 @ cs2)"
    and w: "goes_on out \<longrightarrow> accepts R p \<longrightarrow> (\<forall>d \<in> set ds. live_at G st (set_Name d) = None \<longrightarrow> writes_set d cs2)" by blast
  from assms(1) have to: "rolls_to ds p" by (simp add: grows_to_def)
  then have ds: "p_sets p1 = ds" "map set_Name ds = map node_Name (p_nodes p1)" "distinct (map set_Name (p_sets p1))"
    using obs by (auto simp: observed_pass_def rolls_to_def)
  have here: "in_flight G st d" using assms(5) by (simp add: in_flight_def)
  have "\<not> stale_pod p1 n" if "n \<in> set (p_nodes p1)" for n
  proof
    assume s: "stale_pod p1 n"
    from stale_in_flight [OF to obs that this] obtain e where "e \<in> set ds" "set_Name e = node_Name n" "in_flight G st e" by blast
    with assms(2,4) here have "set_Name d = node_Name n" unfolding growing_def by blast
    with s obs assms(5) show False by (simp add: stale_pod_def observed_pass_def live_set_def)
  qed
  then have "find (stale_pod p1) (p_nodes p1) = None" by (simp add: find_None_iff)
  moreover have "hl_notReady (p_health p1) \<noteq> []"
    using settled_when_ready [OF obs to _ assms(4)] here by blast
  ultimately have "cs1 = []" "goes_on out"
    using waiting_goes_on [of p1 "at_server (gs_Sets G) st R" h1] st no_shrink [OF assms(2) to obs] ds(1) arg_cong [OF ds(2), of length] by auto
  then have cs: "cs1 = []" "writes_set d cs2" using w assms(3-5) by (auto simp: grow_healthy_def)
  have m: "made G st d" using assms(5) by (simp add: made_def)
  have acc: "accepts R p1" using assms(3) obs by (simp add: grow_healthy_def accepts_def observed_pass_def)
  let ?st2 = "grow_after G R h1 cs2 st"
  from created_in [OF cr ds(3) acc _ m cs(2), of h1] obtain l where l: "live_at G ?st2 (set_Name d) = Some l" using assms(4) ds(1) by auto
  moreover have "made G ?st2 d" using create_steps(2) [OF cr ds(3) _ m, of R h1] assms(4) ds(1) by simp
  ultimately have "claims_of l = claims_of d" by (simp add: made_def)
  moreover from settles [OF l] obtain l' where "live_at G (sv_Settle (gs_Sets G) ?st2) (set_Name d) = Some l'" "claims_of l' = claims_of l" by blast
  moreover have "diskDiff (claims_of d) (claims_of d) = ([], False)" using assms(1,4) by (auto simp: grows_to_def intro: diskDiff_self)
  ultimately show ?thesis using r cs(1) assms(5) by (simp add: passes_left_def drifts_def)
qed

lemma progress_adopted:
  assumes "grows_to ds p" "growing G ds st" "grow_healthy G R p st" "d \<in> set ds" "live_at G st (set_Name d) = Some l" "adoptedStalePod l"
  shows "passes_left G (fst (grow_round G R p (st, h))) d < passes_left G st d"
proof -
  from round_parts [OF assms(1,2) disjI1 [OF healthy_claims [OF assms(3)]], of h] obtain p1 h1 out p2 cs1 cs2 where obs: "observed_pass (gs_Sets G) st p p1"
    and st: "reconcileStorage (at_server (gs_Sets G) st R) p1 h1 = Some (out, p2, h1 @ cs1)" and cr: "list_all (creates p1) cs2"
    and r: "grow_round G R p (st, h) = (sv_Settle (gs_Sets G) (grow_after G R (h1 @ cs1) cs2 (grow_after G R h1 cs1 st)), h1 @ cs1 @ cs2)" by blast
  from assms(1) have to: "rolls_to ds p" by (simp add: grows_to_def)
  then have dist: "distinct (map set_Name (p_sets p1))" using obs by (auto simp: observed_pass_def rolls_to_def)
  have live: "gm_get (p_live p1) n = live_at G st n" for n using obs by (simp add: observed_pass_def live_set_def)
  have here: "in_flight G st d" using assms(5,6) by (simp add: in_flight_def unsettled_def)
  have only: "set_Name e = set_Name d" if "e \<in> set ds" "in_flight G st e" for e
    using assms(2,4) here that unfolding growing_def by blast
  from names_match(1) [OF to obs assms(4)] obtain n0 where "n0 \<in> set (p_nodes p1)" "stale_pod p1 n0"
    using assms(5,6) by (auto simp: stale_pod_def live)
  then obtain node where f: "find (stale_pod p1) (p_nodes p1) = Some node" by (cases "find (stale_pod p1) (p_nodes p1)") (auto simp: find_None_iff)
  then have node: "node \<in> set (p_nodes p1)" "stale_pod p1 node" by (auto simp: find_Some_iff)
  then have name: "node_Name node = set_Name d" using stale_in_flight [OF to obs] only by metis
  have "m = node_Name node" if "m \<in> set (hl_notReady (p_health p1))" for m
  proof -
    from that obs to obtain n where n: "n \<in> set (p_nodes p1)" "m = node_Name n" "not_serving (p_live p1) n"
      by (auto simp: observed_pass_def rolls_to_def)
    from names_match(2) [OF to obs n(1)] obtain e where e: "e \<in> set ds" "set_Name e = node_Name n" by blast
    have "in_flight G st e" using n assms(3) e(2) obs
      by (auto simp: not_serving_def in_flight_def live grow_healthy_def unsettled_def observed_pass_def split: option.splits)
    with only e n(2) name show ?thesis by simp
  qed
  then have "otherNodesNotReady p1 (node_Name node) = []" by (auto simp: otherNodesNotReady_def filter_empty_conv)
  moreover have "obeys (at_server (gs_Sets G) st R)" using assms(3) by (simp add: grow_healthy_def)
  ultimately obtain ev where ev: "cs1 = CDelete KindPod (fsc_Namespace (p_cluster p1)) (PodName (set_Name d)) False # ev" "list_all keeps_sets ev"
    using storage_replaces_pod [OF _ f, of "at_server (gs_Sets G) st R" h1] st name by auto
  then have st1: "grow_after G R h1 cs1 st = gs_KillPod G (PodName (set_Name d)) st"
    using assms(3) by (simp add: grow_after_keeps grow_step_def grow_healthy_def obeys_def)
  from replaced [OF assms(5,6)] obtain l1 where l1: "live_at G (gs_KillPod G (PodName (set_Name d)) st) (set_Name d) = Some l1"
    "claims_of l1 = claims_of l" "\<not> unsettled l1" by blast
  then have "live_at G (grow_after G R (h1 @ cs1) cs2 (grow_after G R h1 cs1 st)) (set_Name d) = Some l1"
    using create_steps(1) [OF cr dist, of "set_Name d" R "h1 @ cs1"] live assms(5) st1 by simp
  from settles [OF this] l1 obtain l2 where "live_at G (fst (grow_round G R p (st, h))) (set_Name d) = Some l2" "claims_of l2 = claims_of l" "\<not> unsettled l2"
    by (auto simp: r)
  then show ?thesis using assms(5,6) by (simp add: passes_left_def drifts_def unsettled_def [of l])
qed

lemma progress_drifted:
  assumes "grows_to ds p" "growing G ds st" "grow_healthy G R p st" "\<forall>d \<in> set ds. \<exists>l. live_at G st (set_Name d) = Some l \<and> \<not> adoptedStalePod l"
    "\<exists>d \<in> set ds. 0 < passes_left G st d"
  shows "\<exists>d \<in> set ds. passes_left G (fst (grow_round G R p (st, h))) d < passes_left G st d"
proof -
  from round_parts [OF assms(1,2) disjI1 [OF healthy_claims [OF assms(3)]], of h] obtain p1 h1 out p2 cs1 cs2 where obs: "observed_pass (gs_Sets G) st p p1"
    and st: "reconcileStorage (at_server (gs_Sets G) st R) p1 h1 = Some (out, p2, h1 @ cs1)" and cr: "list_all (creates p1) cs2"
    and r: "grow_round G R p (st, h) = (sv_Settle (gs_Sets G) (grow_after G R (h1 @ cs1) cs2 (grow_after G R h1 cs1 st)), h1 @ cs1 @ cs2)" by blast
  from assms(1) have to: "rolls_to ds p" by (simp add: grows_to_def)
  then have ds: "p_sets p1 = ds" "map set_Name ds = map node_Name (p_nodes p1)" "distinct (map set_Name (p_sets p1))"
    using obs by (auto simp: observed_pass_def rolls_to_def)
  have live: "gm_get (p_live p1) n = live_at G st n" for n using obs by (simp add: observed_pass_def live_set_def)
  have serves: "\<exists>l. live_at G st (node_Name n) = Some l \<and> nodeServing l \<and> \<not> adoptedStalePod l" if "n \<in> set (p_nodes p1)" for n
  proof -
    from names_match(2) [OF to obs that] obtain d where "d \<in> set ds" "set_Name d = node_Name n" by blast
    with assms(3,4) that obs show ?thesis by (fastforce simp: grow_healthy_def observed_pass_def)
  qed
  have "hl_notReady (p_health p1) = map node_Name (filter (not_serving (p_live p1)) (p_nodes p1))"
    using obs to by (auto simp: observed_pass_def rolls_to_def)
  moreover have "filter (not_serving (p_live p1)) (p_nodes p1) = []"
    using serves by (fastforce simp: filter_empty_conv not_serving_def live)
  ultimately have ready: "hl_notReady (p_health p1) = []" by simp
  then have gate: "roll_gate p1" using assms(3) obs by (simp add: roll_gate_def grow_healthy_def observed_pass_def)
  have nostale: "find (stale_pod p1) (p_nodes p1) = None" using serves by (fastforce simp: find_None_iff stale_pod_def live)
  from assms(4,5) obtain d l where d: "d \<in> set ds" "live_at G st (set_Name d) = Some l" "0 < passes_left G st d" by blast
  with settled_when_ready [OF obs to ready d(1)] have "drifts l d" by (simp add: passes_left_def in_flight_def split: if_splits)
  note d = d(1,2) this
  then obtain i where i: "i < length ds" "ds ! i = d" by (auto simp: in_set_conv_nth)
  have len: "length ds = length (p_nodes p1)" using arg_cong [OF ds(2), of length] by simp
  have "set_Name d = node_Name (p_nodes p1 ! i)" using arg_cong [OF ds(2), of "\<lambda>xs. xs ! i"] i len by simp
  then have "(p_nodes p1 ! i, d) \<in> set (drifted_nodes p1)" using d i len
    by (auto simp: drifted_nodes_def ds(1) claims_diff_def live drifts_def in_set_zip)
  then obtain node d0 rest where dr: "drifted_nodes p1 = (node, d0) # rest" by (cases "drifted_nodes p1") auto
  then have "(node, d0) \<in> set (drifted_nodes p1)" by simp
  then have d0: "d0 \<in> set ds" "set_Name d0 = node_Name node" "snd (claims_diff (p_live p1) (node, d0))" using ds(2)
    by (auto simp: drifted_nodes_def ds(1) in_set_zip) (metis nth_map)
  then obtain l0 where l0: "live_at G st (set_Name d0) = Some l0" "drifts l0 d0" by (auto simp: claims_diff_def live drifts_def split: option.splits)
  have "obeys (at_server (gs_Sets G) st R)" using assms(3) by (simp add: grow_healthy_def)
  from storage_recreates_set [OF this nostale _ _ gate dr, of h1] st no_shrink [OF assms(2) to obs] ds(1) len
  obtain as ev where ev: "cs1 = as @ CDelete KindStatefulSet (fsc_Namespace (p_cluster p1)) (node_Name node) True # ev" "list_all keeps_sets as"
    "list_all keeps_sets ev" by auto
  then have "grow_after G R h1 cs1 st = gs_Orphan G (set_Name d0) st"
    using assms(3) d0(2) by (simp add: grow_after_append grow_after_keeps grow_step_def grow_healthy_def obeys_def)
  then have "live_at G (grow_after G R (h1 @ cs1) cs2 (grow_after G R h1 cs1 st)) (set_Name d0) = None"
    using create_steps(1) [OF cr ds(3), of "set_Name d0" R "h1 @ cs1"] live l0(1) orphaned by simp
  from gone [OF this] have "live_at G (fst (grow_round G R p (st, h))) (set_Name d0) = None" by (simp add: r)
  with d0(1) l0 show ?thesis by (intro bexI [of _ d0]) (simp_all add: passes_left_def)
qed

lemma round_progress:
  assumes "grows_to ds p" "growing G ds st" "grow_healthy G R p st" "\<exists>d \<in> set ds. 0 < passes_left G st d"
  shows "\<exists>d \<in> set ds. passes_left G (fst (grow_round G R p (st, h))) d < passes_left G st d"
proof (cases "\<forall>d \<in> set ds. \<exists>l. live_at G st (set_Name d) = Some l \<and> \<not> adoptedStalePod l")
  case True
  from progress_drifted [OF assms(1-3) this assms(4)] show ?thesis .
next
  case False
  then obtain d where d: "d \<in> set ds" "\<forall>l. live_at G st (set_Name d) = Some l \<longrightarrow> adoptedStalePod l" by blast
  then show ?thesis using progress_missing [OF assms(1-3) d(1)] progress_adopted [OF assms(1-3) d(1)] by (cases "live_at G st (set_Name d)") blast+
qed

lemma round_left:
  assumes "grows_to ds p" "growing G ds st"
  shows "growing G ds (fst (grow_round G R p (st, h)))"
    and "sum_list (map (passes_left G (fst (grow_round G R p (st, h)))) ds) \<le> sum_list (map (passes_left G st) ds) - (if grow_healthy G R p st then 1 else 0)"
proof -
  let ?st' = "fst (grow_round G R p (st, h))"
  from round_moves [OF assms, of R h] obtain o' where "\<forall>d \<in> set ds. moved G ds o' st ?st' d" by blast
  then have m: "\<forall>d \<in> set ds. moved G ds o' st ?st' d \<and> distinct (map pvc_Name (claims_of d))" using assms(1) by (simp add: grows_to_def)
  have "distinct (map set_Name ds)" using assms(1) unfolding grows_to_def rolls_to_def by blast
  from moved_growing [OF assms(2) m this] show "growing G ds ?st'" .
  have le: "passes_left G ?st' d \<le> passes_left G st d" if "d \<in> set ds" for d
    by (rule moved_left [of G ds o']) (use m that in simp_all)
  then have sum: "sum_list (map (passes_left G ?st') ds) \<le> sum_list (map (passes_left G st) ds)" by (rule sum_list_mono)
  show "sum_list (map (passes_left G ?st') ds) \<le> sum_list (map (passes_left G st) ds) - (if grow_healthy G R p st then 1 else 0)"
  proof (cases "grow_healthy G R p st \<and> (\<exists>d \<in> set ds. 0 < passes_left G st d)")
    case True
    then obtain d where d: "d \<in> set ds" "passes_left G ?st' d < passes_left G st d" using round_progress [OF assms, of R h] by blast
    then obtain as bs where ds: "ds = as @ d # bs" by (auto simp: in_set_conv_decomp)
    have "sum_list (map (passes_left G ?st') as) \<le> sum_list (map (passes_left G st) as)"
      "sum_list (map (passes_left G ?st') bs) \<le> sum_list (map (passes_left G st) bs)" using le ds by (auto intro!: sum_list_mono)
    with d(2) True show ?thesis by (simp add: ds)
  next
    case False
    show ?thesis
    proof (cases "grow_healthy G R p st")
      case True
      with False have "\<forall>d \<in> set ds. passes_left G st d = 0" by auto
      then have "sum_list (map (passes_left G st) ds) = 0" by (auto simp: sum_list_eq_0_iff)
      with sum show ?thesis by linarith
    qed (use sum in simp)
  qed
qed

end

fun grow_rounds :: "'s grow_server \<Rightarrow> (Reconciler \<times> pass) list \<Rightarrow> 's \<times> history \<Rightarrow> 's \<times> history" where
  "grow_rounds G [] sh = sh"
| "grow_rounds G ((R, p) # ws) sh = grow_rounds G ws (grow_round G R p sh)"

fun healthy_growth :: "'s grow_server \<Rightarrow> (Reconciler \<times> pass) list \<Rightarrow> 's \<times> history \<Rightarrow> nat" where
  "healthy_growth G [] sh = 0"
| "healthy_growth G ((R, p) # ws) sh = (if grow_healthy G R p (fst sh) then 1 else 0) + healthy_growth G ws (grow_round G R p sh)"

context grow_server_laws
begin

lemma rounds_left:
  assumes "list_all (\<lambda>(R, p). grows_to ds p) ws" "growing G ds (fst sh)"
  shows "growing G ds (fst (grow_rounds G ws sh))
    \<and> sum_list (map (passes_left G (fst (grow_rounds G ws sh))) ds) \<le> sum_list (map (passes_left G (fst sh)) ds) - healthy_growth G ws sh"
  using assms
proof (induction ws arbitrary: sh)
  case (Cons w ws)
  obtain R p where w: "w = (R, p)" by (cases w)
  obtain st h where sh: "sh = (st, h)" by (cases sh)
  from Cons.prems have p: "grows_to ds p" "growing G ds st" by (simp_all add: w sh)
  from round_left [OF p, of R h] Cons.IH [of "grow_round G R p sh"] Cons.prems show ?case
    by (simp add: w sh split: if_splits)
qed simp

lemma finished:
  assumes "growing G ds st" "sum_list (map (passes_left G st) ds) = 0" "d \<in> set ds"
  shows "\<exists>l. live_at G st (set_Name d) = Some l \<and> template_revision l = template_revision d \<and> \<not> unsettled l
    \<and> (\<forall>c \<in> set (claims_of d). gm_get (claim_sizes (claims_of l)) (pvc_Name c) = Some (requested c))"
proof -
  have "passes_left G st d = 0" using assms(2,3) by (simp add: sum_list_eq_0_iff)
  then obtain l where l: "live_at G st (set_Name d) = Some l" "\<not> drifts l d" "\<not> unsettled l"
    by (auto simp: passes_left_def split: option.splits if_splits)
  with assms(1,3) have t: "template_revision l = template_revision d" "fst (diskDiff (claims_of l) (claims_of d)) = []" unfolding growing_def by blast+
  have "gm_get (claim_sizes (claims_of l)) (pvc_Name c) = Some (requested c)" if "c \<in> set (claims_of d)" for c
  proof -
    have "\<not> claim_grows (claims_of l) c" "\<not> claim_shrinks (claims_of l) c"
      using that l(2) t(2) by (auto simp: drifts_def diskDiff_spec filter_empty_conv list_ex_iff)
    then show ?thesis by (auto simp: claim_grows_def claim_shrinks_def)
  qed
  with l t show ?thesis by blast
qed

end

section \<open>A server that keeps a list\<close>

text \<open>
  The StatefulSets, and the names of those whose pod was left behind. A new StatefulSet that finds such
  a pod adopts it: the pod is ready but not of the set's revision. A set in that state stays in it until the pod is
  replaced; every other one catches up.
\<close>

record grow_state =
  g_sets :: "StatefulSet list"
  g_pods :: "string list"

definition settle_set :: "string list \<Rightarrow> StatefulSet \<Rightarrow> StatefulSet" where
  "settle_set pods s =
     (if adoptedStalePod s then s
      else if ss_ObservedGeneration (set_Status s) < set_Generation s \<and> set_Name s \<in> set pods
      then s\<lparr>set_Status := \<lparr>ss_ObservedGeneration = set_Generation s, ss_ReadyReplicas = 1, ss_UpdatedReplicas = 0\<rparr>\<rparr>
      else catch_up s)"

definition lose_pod :: "string \<Rightarrow> StatefulSet \<Rightarrow> StatefulSet" where
  "lose_pod pod s = (if PodName (set_Name s) = pod
     then s\<lparr>set_Status := \<lparr>ss_ObservedGeneration = set_Generation s, ss_ReadyReplicas = 0, ss_UpdatedReplicas = 1\<rparr>\<rparr> else s)"

definition kept :: "grow_state grow_server" where
  "kept = \<lparr>gs_Sets = \<lparr>sv_List = g_sets, sv_Apply = (\<lambda>s st. st\<lparr>g_sets := listed_apply s (g_sets st)\<rparr>),
       sv_Settle = (\<lambda>st. \<lparr>g_sets = map (settle_set (g_pods st)) (g_sets st),
         g_pods = filter (\<lambda>n. n \<notin> set_Name ` set (g_sets st)) (g_pods st)\<rparr>)\<rparr>,
     gs_Orphan = (\<lambda>n st. \<lparr>g_sets = filter (\<lambda>s. set_Name s \<noteq> n) (g_sets st), g_pods = n # g_pods st\<rparr>),
     gs_KillPod = (\<lambda>pod st. st\<lparr>g_sets := map (lose_pod pod) (g_sets st)\<rparr>)\<rparr>"

lemma live_kept: "live_at kept st n = find (\<lambda>s. set_Name s = n) (rev (g_sets st))"
  by (simp add: live_set_def kept_def sets_by_name_get)

lemma kept_ops [simp]:
  "g_sets (gs_Orphan kept n st) = filter (\<lambda>s. set_Name s \<noteq> n) (g_sets st)"
  "g_sets (gs_KillPod kept pod st) = map (lose_pod pod) (g_sets st)"
  "g_sets (sv_Apply (gs_Sets kept) s st) = listed_apply s (g_sets st)"
  "g_sets (sv_Settle (gs_Sets kept) st) = map (settle_set (g_pods st)) (g_sets st)"
  by (simp_all add: kept_def)

lemma set_ops [simp]:
  "set_Name (settle_set pods s) = set_Name s" "set_Name (lose_pod pod s) = set_Name s"
  "set_Spec (settle_set pods s) = set_Spec s" "set_Spec (lose_pod pod s) = set_Spec s"
  "template_revision (settle_set pods s) = template_revision s" "template_revision (lose_pod pod s) = template_revision s"
  by (simp_all add: settle_set_def lose_pod_def catch_up_def template_revision_def)

lemma settle_set_unsettled: "unsettled (settle_set pods s) \<Longrightarrow> unsettled s"
  by (auto simp: settle_set_def unsettled_def adoptedStalePod_def catch_up_def split: if_splits)

lemma find_named: "find (\<lambda>s. set_Name s = n) xs = Some l \<Longrightarrow> set_Name l = n"
  by (auto simp: find_Some_iff)

interpretation kept: grow_server_laws kept
proof
  fix st :: grow_state and n m
  show "live_at kept (gs_Orphan kept n st) m = (if m = n then None else live_at kept st m)"
  proof (cases "m = n")
    case True
    then show ?thesis by (auto simp: live_kept find_None_iff)
  next
    case False
    then have "find (\<lambda>t. set_Name t \<noteq> n \<and> set_Name t = m) xs = find (\<lambda>t. set_Name t = m) xs" for xs by (intro find_cong_pred) auto
    with False show ?thesis by (simp add: live_kept rev_filter find_filter)
  qed
next
  fix s :: StatefulSet and st :: grow_state and m
  assume "m \<noteq> set_Name s"
  then have "find (\<lambda>t. set_Name t \<noteq> set_Name s \<and> set_Name t = m) xs = find (\<lambda>t. set_Name t = m) xs" for xs by (intro find_cong_pred) auto
  with \<open>m \<noteq> set_Name s\<close> show "live_at kept (sv_Apply (gs_Sets kept) s st) m = live_at kept st m"
    by (auto simp: live_kept listed_apply_def rev_filter find_filter split: option.split)
next
  fix s :: StatefulSet and st :: grow_state
  show "made kept (sv_Apply (gs_Sets kept) s st) s \<and> live_at kept (sv_Apply (gs_Sets kept) s st) (set_Name s) \<noteq> None"
    by (auto simp: made_def live_kept listed_apply_def template_revision_def split: option.splits)
next
  fix st :: grow_state and n m :: string
  assume "m \<noteq> n"
  then have "lose_pod (PodName n) t = t" if "set_Name t = m" for t using that by (simp add: lose_pod_def PodName_def)
  with find_named [of m "rev (g_sets st)"] show "live_at kept (gs_KillPod kept (PodName n) st) m = live_at kept st m"
    by (cases "find (\<lambda>s. set_Name s = m) (rev (g_sets st))") (simp_all add: live_kept rev_map find_map)
next
  fix st :: grow_state and n l
  assume l: "live_at kept st n = Some l" "adoptedStalePod l"
  then have "live_at kept (gs_KillPod kept (PodName n) st) n = Some (lose_pod (PodName n) l)" by (simp add: live_kept rev_map find_map)
  moreover have "\<not> unsettled (lose_pod (PodName n) l)" using l(1) find_named
    by (auto simp: live_kept lose_pod_def unsettled_def adoptedStalePod_def)
  ultimately show "\<exists>l'. live_at kept (gs_KillPod kept (PodName n) st) n = Some l' \<and> claims_of l' = claims_of l
    \<and> template_revision l' = template_revision l \<and> \<not> unsettled l'" by simp
next
  fix st :: grow_state and n
  assume "live_at kept st n = None"
  then show "live_at kept (sv_Settle (gs_Sets kept) st) n = None" by (simp add: live_kept rev_map find_map)
next
  fix st :: grow_state and n l
  assume "live_at kept st n = Some l"
  then have "live_at kept (sv_Settle (gs_Sets kept) st) n = Some (settle_set (g_pods st) l)" by (simp add: live_kept rev_map find_map)
  then show "\<exists>l'. live_at kept (sv_Settle (gs_Sets kept) st) n = Some l' \<and> claims_of l' = claims_of l
    \<and> template_revision l' = template_revision l \<and> (unsettled l' \<longrightarrow> unsettled l)" using settle_set_unsettled by auto
qed

section \<open>Property\<close>

lemma left_at_rest:
  assumes "\<forall>d \<in> set ds. \<not> in_flight G st d"
  shows "sum_list (map (passes_left G st) ds) = 3 * length (filter (\<lambda>d. \<exists>l. live_at G st (set_Name d) = Some l \<and> drifts l d) ds)"
  using assms by (induction ds) (auto simp: passes_left_def in_flight_def split: option.splits)

text \<open>
  C7. Growing the volumes finishes. Let a server keep the StatefulSets, remove the ones deleted and
  replace pods, and let passes run one after another, each with whatever answers and convergence it
  meets, all desiring the same StatefulSets, one per node, that differ from the running ones in nothing
  but larger or new claims. No pass, however unhealthy, undoes anything, and every healthy one takes one of the
  steps left: deleting a StatefulSet, creating it again, replacing its pod. A cluster at rest
  is three healthy passes per node to grow away from the end, where every StatefulSet is there with the
  template and the claim sizes declared, and settled.
\<close>

theorem growth_finishes:
  assumes "grow_server_laws G" "list_all (\<lambda>(R, p). grows_to ds p) ws" "growing G ds (fst sh)"
  shows "sum_list (map (passes_left G (fst (grow_rounds G ws sh))) ds) \<le> sum_list (map (passes_left G (fst sh)) ds) - healthy_growth G ws sh
    \<and> ((\<forall>d \<in> set ds. \<not> in_flight G (fst sh) d) \<longrightarrow> sum_list (map (passes_left G (fst sh)) ds)
         = 3 * length (filter (\<lambda>d. \<exists>l. live_at G (fst sh) (set_Name d) = Some l \<and> snd (diskDiff (claims_of l) (claims_of d))) ds))
    \<and> (sum_list (map (passes_left G (fst sh)) ds) \<le> healthy_growth G ws sh \<longrightarrow>
        (\<forall>d \<in> set ds. \<exists>l. live_at G (fst (grow_rounds G ws sh)) (set_Name d) = Some l \<and> template_revision l = template_revision d
           \<and> \<not> unsettled l \<and> (\<forall>c \<in> set (claims_of d). gm_get (claim_sizes (claims_of l)) (pvc_Name c) = Some (requested c))))"
proof -
  note left = grow_server_laws.rounds_left [OF assms]
  have "\<exists>l. live_at G (fst (grow_rounds G ws sh)) (set_Name d) = Some l \<and> template_revision l = template_revision d
      \<and> \<not> unsettled l \<and> (\<forall>c \<in> set (claims_of d). gm_get (claim_sizes (claims_of l)) (pvc_Name c) = Some (requested c))"
    if "sum_list (map (passes_left G (fst sh)) ds) \<le> healthy_growth G ws sh" "d \<in> set ds" for d
  proof -
    have "sum_list (map (passes_left G (fst (grow_rounds G ws sh))) ds) = 0" using left that(1) by linarith
    from grow_server_laws.finished [OF assms(1) conjunct1 [OF left] this that(2)] show ?thesis .
  qed
  with left left_at_rest [of ds G "fst sh"] show ?thesis unfolding drifts_def by blast
qed

text \<open>Two nodes with volumes of 10 that should have 20: six healthy passes, three for each.\<close>

definition small_state :: grow_state where
  "small_state = \<lparr>g_sets = p_sets (growing_pass 20 10), g_pods = []\<rparr>"

lemma small_set_simps [simp]:
  "set_Name (small_set c n q) = node_Name n" "template_revision (small_set c n q) = ''sts-1''"
  "nodeServing (small_set c n q)" "\<not> unsettled (small_set c n q)"
  "claims_of (small_set c n q) = map (\<lambda>t. t\<lparr>pvc_Requests := Some [(ResourceStorage, q)]\<rparr>) (volumeClaimTemplates c n)"
  by (simp_all add: small_set_def serving_set_def NewStatefulSet_def template_revision_def gm_str_def nodeServing_def unsettled_def adoptedStalePod_def)

lemma small_diff: "diskDiff (claims_of (small_set c n q)) (claims_of (small_set c n q')) = (if q' < q then [DataVolumeName] else [], q < q')"
  by (simp add: volumeClaimTemplates_def diskDiff_def diff_claim_def claim_sizes_def requested_def gm_put_def)

lemma growing_sets: "p_sets (growing_pass have want) =
  [small_set (config_cluster [] two_racks) (flat_node ''fs'' 0) want, small_set (config_cluster [] two_racks) (flat_node ''fs'' 1) want]"
  by (simp add: growing_pass_def Let_def p_sets_def)

lemma small_grows: "grows_to (p_sets (growing_pass 10 20)) (growing_pass 10 20)"
  by (simp add: grows_to_def rolls_to_def growing_sets) (simp add: growing_pass_def Let_def two_nodes_pass_def
      volumeClaimTemplates_def zero_health_def)

lemma small_start:
  "growing kept (p_sets (growing_pass 10 20)) small_state"
  "sum_list (map (passes_left kept small_state) (p_sets (growing_pass 10 20))) = 6"
  by (simp_all add: small_state_def growing_sets growing_def in_flight_def passes_left_def drifts_def live_kept small_diff del: small_set_simps(5))

lemma kept_round_ok: "list_all (\<lambda>s. nodeServing s \<or> adoptedStalePod s) (g_sets (fst (grow_round kept R p sh)))"
proof -
  have "nodeServing (settle_set pods s) \<or> adoptedStalePod (settle_set pods s)" for pods s
    by (auto simp: settle_set_def adoptedStalePod_def)
  then show ?thesis by (auto simp: grow_round_def list_all_iff Let_def split: prod.split)
qed

lemma small_healthy:
  assumes "list_all (\<lambda>s. nodeServing s \<or> adoptedStalePod s) (g_sets st)"
  shows "grow_healthy kept (quiet [] (quiet_layout []) []) (growing_pass 10 20) st"
proof -
  have "nodeServing l \<or> adoptedStalePod l" if "live_at kept st n = Some l" for n l
    using that assms by (auto simp: live_kept find_Some_iff list_all_iff) (metis length_rev nth_mem set_rev)+
  moreover have "obeys (quiet [] (quiet_layout []) [])" by (simp add: obeys_def claims_have_requests_def)
  ultimately show ?thesis by (simp add: grow_healthy_def quiet_accepts growing_facts)
qed

theorem growth_finishes_witness:
  "let w = (quiet [] (quiet_layout []) [], growing_pass 10 20); st = fst (grow_rounds kept (replicate 6 w) (small_state, []))
   in \<forall>d \<in> set (p_sets (growing_pass 10 20)). \<exists>l. live_at kept st (set_Name d) = Some l \<and> template_revision l = template_revision d
     \<and> \<not> unsettled l \<and> (\<forall>c \<in> set (claims_of d). gm_get (claim_sizes (claims_of l)) (pvc_Name c) = Some 20)"
proof -
  let ?w = "(quiet [] (quiet_layout []) [], growing_pass 10 20)" and ?ds = "p_sets (growing_pass 10 20)"
  have start: "list_all (\<lambda>s. nodeServing s \<or> adoptedStalePod s) (g_sets small_state)" by (simp add: small_state_def growing_sets)
  have "healthy_growth kept (replicate 6 ?w) (small_state, []) = 6"
    by (simp add: numeral_eq_Suc start small_healthy kept_round_ok)
  moreover have "requested c = 20" if "d \<in> set ?ds" "c \<in> set (claims_of d)" for d c
    using that by (auto simp: growing_sets requested_def)
  ultimately show ?thesis
    using growth_finishes [of kept ?ds "replicate 6 ?w" "(small_state, [])"] kept.grow_server_laws_axioms small_grows small_start
    by (simp add: Let_def list_all_iff)
qed

end
