(* ===== verification/Removal_Rounds.thy ===== *)
theory Removal_Rounds
  imports Layout_Step Decommission
begin

text \<open>
  Removing nodes over several passes: the layout step asks fs for a layout without them, fs moves
  their data, and the removal step of a later pass deletes them. \<open>layout_service\<close> states what fs
  does with a layout it accepts.
\<close>

section \<open>What fs does with a layout\<close>

locale layout_service =
  fixes adopt :: "adm_Layout option \<Rightarrow> adm_ApplyLayoutRequest \<Rightarrow> adm_Layout"
    and settle :: "adm_Layout \<Rightarrow> adm_Layout"
  assumes adopt_members: "al_Members (adopt l q) = alq_Members q"
    and adopt_widths: "al_Widths (adopt l q) = alq_Widths q"
    and settle_members: "al_Members (settle l') = al_Members l'"
    and settle_widths: "al_Widths (settle l') = al_Widths l'"
    and settle_done: "al_RetainedVersions (settle l') = []"

text \<open>
  A layout that is accepted is the next version; the one before it is retained until its data has
  moved.
\<close>

definition next_layout :: "adm_Layout option \<Rightarrow> adm_ApplyLayoutRequest \<Rightarrow> adm_Layout" where
  "next_layout l q = \<lparr>al_Version = (case l of None \<Rightarrow> 1 | Some l \<Rightarrow> al_Version l + 1), al_Widths = alq_Widths q,
     al_Members = alq_Members q, al_RetainedVersions = (case l of None \<Rightarrow> [] | Some l \<Rightarrow> al_Version l # al_RetainedVersions l)\<rparr>"

definition data_moved :: "adm_Layout \<Rightarrow> adm_Layout" where
  "data_moved l = l\<lparr>al_RetainedVersions := []\<rparr>"

interpretation versioned: layout_service next_layout data_moved
  by unfold_locales (simp_all add: next_layout_def data_moved_def)

section \<open>Rounds\<close>

text \<open>
  A pass that has read the layout \<open>l\<close>, as far as the layout and the removal step, which the pipeline
  skips when the layout step fails; and the layout fs has afterwards.
\<close>

definition reading :: "adm_Layout option \<Rightarrow> pass \<Rightarrow> pass" where
  "reading l p = p\<lparr>p_convergence := (p_convergence p)\<lparr>cv_known := True, cv_layout := map_option layoutFromAPI l\<rparr>, p_layoutApplied := False\<rparr>"

definition removal_round ::
    "(adm_Layout option \<Rightarrow> adm_ApplyLayoutRequest \<Rightarrow> adm_Layout) \<Rightarrow> Reconciler \<Rightarrow> pass
     \<Rightarrow> adm_Layout option \<times> history \<Rightarrow> adm_Layout option \<times> history" where
  "removal_round adopt R p = (\<lambda>(l, h). case reconcileLayout R (reading l p) h of
      (Inl e, p', h') \<Rightarrow> (fold (\<lambda>(u, q) l. Some (adopt l q)) (layout_writes (drop (length h) h')) l, h')
    | (Inr out, p', h') \<Rightarrow>
        (fold (\<lambda>(u, q) l. Some (adopt l q)) (layout_writes (drop (length h) h')) l, snd (snd (reconcileDecommission R p' h'))))"

text \<open>A pass that meets no obstacle: every node is there and up, and what it sends is accepted.\<close>

definition unhindered :: "Reconciler \<Rightarrow> pass \<Rightarrow> bool" where
  "unhindered R p \<longleftrightarrow> \<not> SingleNode (fsc_Spec (p_cluster p)) \<and> length (p_nodes p) \<le> length (p_live p)
     \<and> (\<forall>role \<in> set (desiredRoles p). convergence_up (p_convergence p) (role_ID role))
     \<and> servingNodes p @ notServingNodes p \<noteq> [] \<and> (\<forall>u. e_NewClient R u = None)
     \<and> (\<forall>h. \<exists>token. fst (adminToken R p h) = Inr token)
     \<and> (\<forall>h u t q. \<exists>l. e_ApplyLayout R h u t q = Inr l) \<and> (\<forall>h k ns n b. e_Delete R h k ns n b = None)"

lemma reading_simps [simp]:
  "desiredRoles (reading l p) = desiredRoles p" "p_cluster (reading l p) = p_cluster p" "p_nodes (reading l p) = p_nodes p"
  "p_live (reading l p) = p_live p" "p_decommission (reading l p) = p_decommission p" "\<not> p_layoutApplied (reading l p)"
  "cv_known (p_convergence (reading l p))" "cv_layout (p_convergence (reading l p)) = map_option layoutFromAPI l"
  "cv_nodes (p_convergence (reading l p)) = cv_nodes (p_convergence p)"
  "servingNodes (reading l p) = servingNodes p" "notServingNodes (reading l p) = notServingNodes p"
  "adminToken R (reading l p) h = (fst (adminToken R p h), snd (adminToken R p h))"
  by (simp_all add: reading_def desiredRoles_def servingNodes_def notServingNodes_def adminToken_def)

text \<open>The layout fs has is the one the pass asks for.\<close>

definition as_desired :: "pass \<Rightarrow> adm_Layout option \<Rightarrow> bool" where
  "as_desired p l \<longleftrightarrow> (case l of None \<Rightarrow> False | Some l \<Rightarrow>
     sameLayout (layoutFromAPI l) (desiredRoles p) (desiredWidths (fsc_Spec (p_cluster p))))"

lemma as_desired_members:
  assumes "as_desired p (Some l)"
  shows "role_ID ` set (l_Members (layoutFromAPI l)) = {n \<in> node_Name ` set (p_nodes p). gm_get (p_decommission p) n = None}"
proof -
  have "set (l_Members (layoutFromAPI l)) = set (slices_SortFunc role_ID (l_Members (layoutFromAPI l)))" by simp
  also have "\<dots> = set (desiredRoles p)" using assms by (simp add: as_desired_def sameLayout_def)
  finally show ?thesis using desiredRoles_ids [of p] by simp
qed

lemma share_not_desired:
  "n \<in> role_ID ` set (l_Members (layoutFromAPI l)) \<Longrightarrow> gm_get (p_decommission p) n \<noteq> None \<Longrightarrow> \<not> as_desired p (Some l)"
  by (rule notI) (simp add: as_desired_members)

text \<open>Once fs has it, a pass that reads it settled deletes the nodes and sends nothing.\<close>

lemma settled_round:
  assumes "as_desired p (Some l)" "al_RetainedVersions l = []" "\<And>h k ns n b. e_Delete R h k ns n b = None"
    and "decommission_ok (p_decommission p)"
  shows "\<exists>cs. removal_round adopt R p (Some l, h) = (Some l, h @ cs) \<and> deleted cs = decommission_names (p_decommission p)"
proof -
  let ?p = "reading (Some l) p"
  have "reconcileLayout R ?p h = (Continue, ?p, h)"
    using assms(1) by (simp add: reconcileLayout_def as_desired_def Let_def)
  moreover have "\<forall>n \<in> set (map fst (p_decommission ?p)). n \<notin> role_ID ` set (l_Members (layoutFromAPI l))"
    unfolding as_desired_members [OF assms(1)] by (auto simp: gm_get_None_iff)
  then have "\<exists>cs. reconcileDecommission R ?p h = (Continue, ?p, h @ cs) \<and> deleted cs = decommission_names (p_decommission ?p)"
    by (intro drain_completes [where l = "layoutFromAPI l"]) (use assms(2,3,4) in \<open>simp_all add: layoutFromAPI_def\<close>)
  ultimately show ?thesis by (auto simp: removal_round_def Continue_def)
qed

text \<open>Until then, a pass that reads a settled layout asks for the one it wants and removes nothing.\<close>

lemma applied:
  assumes "unhindered R p"
  shows "\<exists>u l. applyLayout R (reading l0 p) roles widths token h = (Inr l, h @ [CApplyLayout u (applyLayoutRequest roles widths)])"
proof -
  from assms obtain n ns where n: "servingNodes p @ notServingNodes p = n # ns"
    by (cases "servingNodes p @ notServingNodes p") (auto simp: unhindered_def)
  from assms obtain a where a: "e_ApplyLayout R h u t q = Inr (a h u t q)" for h u t q unfolding unhindered_def by metis
  from assms have "e_NewClient R u = None" for u by (simp add: unhindered_def)
  with n a show ?thesis
    by (simp add: applyLayout_def node_client_def adminClient_def fsclient_New_def admin_ApplyLayout_def client_ApplyLayout_def Let_def)
qed

lemma held_drain:
  assumes "p_layoutApplied p" "decommission_ok (p_decommission p)"
  shows "\<exists>cs. snd (snd (reconcileDecommission R p h)) = h @ cs \<and> deleted cs = []"
proof -
  obtain out p' h' where r: "reconcileDecommission R p h = (out, p', h')" by (cases "reconcileDecommission R p h")
  from reconcileDecommission_deletes [OF this assms(2)] obtain cs where "h' = h @ cs" "list_all (deletes_only (drain_gate p)) cs"
    by (auto simp: emits_def)
  moreover from this assms(1) have "deleted_set c = []" if "c \<in> set cs" for c
    using that by (cases "deleted_set c") (auto simp: list_all_iff deletes_only_def drain_gate_def)
  ultimately show ?thesis using r by (auto simp: deleted_def)
qed

lemma applying_round:
  assumes "unhindered R p" "\<not> as_desired p l" "case l of None \<Rightarrow> True | Some l \<Rightarrow> al_RetainedVersions l = []"
    and "decommission_ok (p_decommission p)"
  shows "\<exists>cs. removal_round adopt R p (l, h)
      = (Some (adopt l (applyLayoutRequest (desiredRoles p) (desiredWidths (fsc_Spec (p_cluster p))))), h @ cs) \<and> deleted cs = []"
proof -
  let ?p = "reading l p" and ?roles = "desiredRoles p" and ?widths = "desiredWidths (fsc_Spec (p_cluster p))"
  from assms(1) obtain token where t: "fst (adminToken R p h) = Inr token" unfolding unhindered_def by blast
  from emits_adminToken [of "\<lambda>c. layout_write c = [] \<and> deleted_set c = []" p h R] obtain ts where
    "snd (adminToken R p h) = h @ ts" "list_all (\<lambda>c. layout_write c = [] \<and> deleted_set c = []) ts" by (auto simp: emits_def)
  then have ts: "snd (adminToken R p h) = h @ ts" "layout_writes ts = []" "deleted ts = []"
    by (auto simp: layout_writes_def deleted_def list_all_iff)
  from applied [OF assms(1), of l ?roles ?widths token "h @ ts"] obtain u l1 where
    a: "applyLayout R ?p ?roles ?widths token (h @ ts) = (Inr l1, (h @ ts) @ [CApplyLayout u (applyLayoutRequest ?roles ?widths)])" by blast
  have "find (\<lambda>role. \<not> convergence_up (p_convergence ?p) (role_ID role)) ?roles = None"
    using assms(1) by (auto simp: find_None_iff unhindered_def convergence_up_def)
  moreover have "\<not> (case map_option layoutFromAPI l of None \<Rightarrow> False | Some l \<Rightarrow> sameLayout l ?roles ?widths)"
    "\<not> (case map_option layoutFromAPI l of None \<Rightarrow> False | Some l \<Rightarrow> Transitioning l)"
    using assms(2,3) by (auto simp: as_desired_def Transitioning_def layoutFromAPI_def split: option.splits)
  ultimately obtain out p' e where r: "reconcileLayout R ?p h = (Inr out, p', h @ ts @ [CApplyLayout u (applyLayoutRequest ?roles ?widths), e])"
    "p_layoutApplied p'" "p_decommission p' = p_decommission p" "layout_write e = []" "deleted_set e = []"
    using assms(1) t ts(1) a by (auto simp: reconcileLayout_def unhindered_def Let_def event_def RequeueAfter_def)
  from held_drain [of p' R] r(2,3) assms(4) obtain cs where
    cs: "snd (snd (reconcileDecommission R p' (h @ ts @ [CApplyLayout u (applyLayoutRequest ?roles ?widths), e])))
      = (h @ ts @ [CApplyLayout u (applyLayoutRequest ?roles ?widths), e]) @ cs" "deleted cs = []" by metis
  show ?thesis
    by (intro exI [of _ "ts @ [CApplyLayout u (applyLayoutRequest ?roles ?widths), e] @ cs"])
      (simp add: removal_round_def r cs ts)
qed

text \<open>What fs adopts of the request reads back as the layout that was asked for.\<close>

lemma request_desired:
  assumes "layout_service adopt settle"
    and "desiredRoles p' = desiredRoles p" "desiredWidths (fsc_Spec (p_cluster p')) = desiredWidths (fsc_Spec (p_cluster p))"
  shows "as_desired p' (Some (settle (adopt l (applyLayoutRequest (desiredRoles p) (desiredWidths (fsc_Spec (p_cluster p)))))))"
proof -
  have "map roleFromAPI (alq_Members (applyLayoutRequest roles widths)) = roles" for roles widths
    by (induction roles) (simp_all add: applyLayoutRequest_def roleFromAPI_def)
  moreover have "alq_Widths (applyLayoutRequest roles widths) = widths" for roles widths by (simp add: applyLayoutRequest_def)
  moreover have "slices_SortFunc role_ID (desiredRoles p) = desiredRoles p"
    by (simp add: desiredRoles_def Let_def sort_key_id_if_sorted)
  moreover have "slices_Sort (desiredWidths spec) = desiredWidths spec" for spec
    using desiredWidths_set by (simp add: sort_key_id_if_sorted)
  ultimately show ?thesis
    using assms(2,3) by (simp add: as_desired_def sameLayout_def layoutFromAPI_def
        layout_service.settle_members [OF assms(1)] layout_service.settle_widths [OF assms(1)]
        layout_service.adopt_members [OF assms(1)] layout_service.adopt_widths [OF assms(1)])
qed

text \<open>
  The removal step goes by the layout of the one node the pass has read. When that node lags behind,
  so that its own gossip view shows a node on a newer version, the step still deletes: what the newer
  version gives the removed nodes is not looked at.
\<close>

lemma lagging_view_removes:
  assumes "decommission_ok (p_decommission p)" "\<And>h k ns n b. e_Delete R h k ns n b = None" "\<not> p_layoutApplied p"
    and "p_convergence p = \<lparr>cv_known = True, cv_layout = Some l, cv_nodes = nodes, cv_converged = c, cv_waiting = w\<rparr>"
    and "l_Retained l = []" "\<forall>n \<in> set (map fst (p_decommission p)). n \<notin> role_ID ` set (l_Members l)"
    and "(m, ahead) \<in> set nodes" "l_Version l < gn_LayoutVersion ahead"
  shows "\<exists>cs. reconcileDecommission R p h = (Continue, p, h @ cs) \<and> deleted cs = decommission_names (p_decommission p)"
  by (rule drain_completes [where l = l]) (use assms in simp_all)

section \<open>Property\<close>

text \<open>
  C8. A removal finishes in two passes. Let two passes plan the same removals of the same spec and meet no
  obstacle, and let fs have moved the data of any layout change between them. Whatever layout fs
  starts from, as long as it has settled, it ends with the one the spec asks for, and the
  StatefulSet of every node being removed has been deleted: by the first pass when fs had that
  layout already, and otherwise only by the second, after the data has moved.
\<close>

theorem removal_finishes:
  assumes fs: "layout_service adopt settle" and start: "case l of None \<Rightarrow> True | Some l \<Rightarrow> al_RetainedVersions l = []"
    and passes: "unhindered R p" "unhindered R' p'" "desiredRoles p' = desiredRoles p"
      "desiredWidths (fsc_Spec (p_cluster p')) = desiredWidths (fsc_Spec (p_cluster p))"
      "decommission_names (p_decommission p') = decommission_names (p_decommission p)"
    and planned: "planDecommission P0 p0 h0 = (o0, p1, h1)" "p_decommission p0 = []" "p_decommission p = p_decommission p1"
      "planDecommission P0' p0' h0' = (o0', p1', h1')" "p_decommission p0' = []" "p_decommission p' = p_decommission p1'"
  shows "\<exists>l1 cs l2 ds. removal_round adopt R p (l, h) = (l1, h @ cs)
    \<and> removal_round adopt R' p' (map_option settle l1, h @ cs) = (Some l2, h @ cs @ ds)
    \<and> as_desired p' (Some l2) \<and> al_RetainedVersions l2 = []
    \<and> deleted ds = decommission_names (p_decommission p)
    \<and> deleted cs = (if as_desired p l then decommission_names (p_decommission p) else [])"
proof -
  have ok: "decommission_ok (p_decommission p)" "decommission_ok (p_decommission p')"
    using planDecommission_inv [OF planned(1,2)] planDecommission_inv [OF planned(4,5)] planned(3,6) by (simp_all add: plan_inv_def)
  have del: "e_Delete R h k ns n b = None" "e_Delete R' h k ns n b = None" for h k ns n b
    using passes(1,2) by (simp_all add: unhindered_def)
  have second: "\<exists>ds. removal_round adopt R' p' (Some (settle l1), h @ cs) = (Some (settle l1), h @ cs @ ds)
      \<and> deleted ds = decommission_names (p_decommission p)" if "as_desired p' (Some (settle l1))" for l1 cs
    using settled_round [OF that layout_service.settle_done [OF fs] del(2) ok(2), of adopt "h @ cs"] passes(5) by simp
  show ?thesis
  proof (cases "as_desired p l")
    case False
    from applying_round [OF passes(1) False start ok(1), of adopt h] obtain cs where
      1: "removal_round adopt R p (l, h)
        = (Some (adopt l (applyLayoutRequest (desiredRoles p) (desiredWidths (fsc_Spec (p_cluster p))))), h @ cs)" "deleted cs = []" by blast
    note d = request_desired [OF fs passes(3,4), of l]
    from second [OF d, of cs] 1 d False layout_service.settle_done [OF fs] show ?thesis by auto
  next
    case True
    then obtain l0 where l0: "l = Some l0" by (cases l) (simp_all add: as_desired_def)
    with settled_round [of p l0 R adopt h] True start del(1) ok(1) obtain cs where
      1: "removal_round adopt R p (l, h) = (Some l0, h @ cs)" "deleted cs = decommission_names (p_decommission p)" by auto
    have d: "as_desired p' (Some (settle l0))"
      using True l0 passes(3,4) by (simp add: as_desired_def sameLayout_def layoutFromAPI_def
          layout_service.settle_members [OF fs] layout_service.settle_widths [OF fs])
    from second [OF d, of cs] 1 d True layout_service.settle_done [OF fs] show ?thesis by auto
  qed
qed

text \<open>Two declared nodes and a third to be removed, which fs still gives a share.\<close>

definition removal_pass :: pass where
  "removal_pass = (let c = config_cluster [] two_racks
     in (fst (snd (planDecommission removal_world (two_nodes_pass c) [])))
       \<lparr>p_live := sets_by_name (map (\<lambda>i. serving_set c (flat_node ''fs'' i) ''sts-1'') [0, 1, 2]),
        p_convergence := zero_convergence\<lparr>cv_nodes := [(''fs-0'', nodeFromAPI (quiet_node ''fs-0'')), (''fs-1'', nodeFromAPI (quiet_node ''fs-1''))]\<rparr>\<rparr>)"

lemma removal_pass_simps:
  "map fst (p_decommission removal_pass) = [''fs-2'']" "map node_Name (p_nodes removal_pass) = [''fs-0'', ''fs-1'', ''fs-2'']"
  "length (p_live removal_pass) = 3" "p_cluster removal_pass = config_cluster [] two_racks"
  by (simp_all add: removal_pass_def removal_world_def Let_def planDecommission_def nodeSets_def plan_set_def nodeFromSet_def
      two_nodes_pass_def gm_put_def sets_by_name_def)

lemma removal_pass_up: "convergence_up (p_convergence removal_pass) n \<longleftrightarrow> n = ''fs-0'' \<or> n = ''fs-1''"
  by (simp add: removal_pass_def Let_def convergence_up_def nodeFromAPI_def quiet_node_def)

lemma removal_pass_roles: "set (map role_ID (desiredRoles removal_pass)) = {''fs-0'', ''fs-1''}"
proof -
  have "node_Name ` set (p_nodes removal_pass) = {''fs-0'', ''fs-1'', ''fs-2''}"
    unfolding set_map [symmetric] removal_pass_simps by auto
  moreover have "gm_get (p_decommission removal_pass) n = None \<longleftrightarrow> n \<noteq> ''fs-2''" for n
    unfolding gm_get_None_iff removal_pass_simps by simp
  ultimately show ?thesis unfolding desiredRoles_ids by auto
qed

lemma removal_pass_unhindered: "unhindered removal_world removal_pass"
proof -
  have "\<not> SingleNode (fsc_Spec (config_cluster [] two_racks))"
    by (simp add: config_cluster_def sample_spec_def two_racks_def SingleNode_def TotalNodes_def)
  moreover have "length (p_nodes removal_pass) = 3" using removal_pass_simps(2) by (metis length_map length_Cons list.size(3) numeral_3_eq_3)
  moreover have "servingNodes removal_pass \<noteq> []"
    by (simp add: servingNodes_def removal_pass_def removal_world_def Let_def planDecommission_def nodeSets_def plan_set_def
        two_nodes_pass_def gm_put_def sets_by_name_def)
  moreover have "convergence_up (p_convergence removal_pass) (role_ID r)" if "r \<in> set (desiredRoles removal_pass)" for r
  proof -
    have "role_ID r \<in> set (map role_ID (desiredRoles removal_pass))" using that by simp
    then show ?thesis unfolding removal_pass_roles removal_pass_up by simp
  qed
  moreover have "fst (adminToken removal_world p h) = Inr ''t''" for p h by (simp add: removal_world_def Let_def quiet_token)
  moreover have "e_NewClient removal_world = (\<lambda>u. None)" "\<exists>l. e_ApplyLayout removal_world h u t q = Inr l" for h u t q
    by (simp_all add: removal_world_def Let_def)
  ultimately show ?thesis by (simp add: unhindered_def removal_pass_simps removal_world_deletes)
qed

theorem removal_finishes_witness:
  "\<exists>l1 cs l2 ds. removal_round next_layout removal_world removal_pass (Some (quiet_layout [''fs-0'', ''fs-1'', ''fs-2'']), []) = (l1, cs)
     \<and> removal_round next_layout removal_world removal_pass (map_option data_moved l1, cs) = (Some l2, cs @ ds)
     \<and> deleted cs = [] \<and> deleted ds = [''fs-2'']"
proof -
  let ?l = "quiet_layout [''fs-0'', ''fs-1'', ''fs-2'']" and ?p = removal_pass and ?two = "two_nodes_pass (config_cluster [] two_racks)"
  have "''fs-2'' \<in> role_ID ` set (l_Members (layoutFromAPI ?l))" by (simp add: layoutFromAPI_def quiet_layout_def roleFromAPI_def)
  moreover have "gm_get (p_decommission ?p) ''fs-2'' \<noteq> None" unfolding gm_get_None_iff removal_pass_simps by simp
  ultimately have n: "\<not> as_desired ?p (Some ?l)" by (rule share_not_desired)
  have start: "case Some ?l of None \<Rightarrow> True | Some l \<Rightarrow> al_RetainedVersions l = []" by (simp add: quiet_layout_def)
  have p0: "p_decommission ?two = []" "p_decommission ?p = p_decommission (fst (snd (planDecommission removal_world ?two [])))"
    by (simp add: two_nodes_pass_def) (simp add: removal_pass_def Let_def)
  have names: "decommission_names (p_decommission ?p) = [''fs-2'']" by (simp add: decommission_names_def removal_pass_simps)
  from removal_finishes [OF versioned.layout_service_axioms start removal_pass_unhindered removal_pass_unhindered refl refl refl
      triple_parts p0 triple_parts p0, of "[]"] n names
  show ?thesis by auto
qed

end
