(* ===== verification/Reporting.thy ===== *)
theory Reporting
  imports Whole_Pass
begin

text \<open>
  Every pass reports: whatever a pass runs into, it ends by publishing a status for the generation it
  worked on, and the error it returns is the error that status names.
\<close>

section \<open>What the steps leave for the report\<close>

text \<open>The stored object and the recorded failure; no step but the last touches them.\<close>

definition same_report :: "pass \<Rightarrow> pass \<Rightarrow> bool" where
  "same_report p p' \<longleftrightarrow> p_object p' = p_object p \<and> p_failure p' = p_failure p"

lemma same_report_refl [simp]: "same_report p p"
  by (simp add: same_report_def)

lemma same_report_condition [simp]: "same_report p (setCondition ct st r m p)"
  by (simp add: same_report_def)

lemma same_report_hold: "same_report p (fst (snd (hold R phase subject reason p h)))"
  by (simp add: hold_def now_def Let_def same_report_def setCondition_def split: option.split)

lemma report_validate: "same_report p (fst (snd (validate R p h)))"
  by (simp add: validate_def refuse_def Let_def split: option.split)

lemma report_plan: "same_report p (fst (snd (planDecommission R p h)))"
proof -
  have "same_report p (fold (plan_set d) ss p)" for d ss
    by (induction ss arbitrary: p) (simp_all add: plan_set_def same_report_def)
  then show ?thesis by (simp add: planDecommission_def Let_def split: prod.split sum.split)
qed

lemma report_render: "same_report p (fst (snd (render R p h)))"
  by (simp add: render_def Let_def same_report_def split: prod.split sum.split)

lemma report_observe: "same_report p (fst (snd (observe R p h)))"
  by (simp add: observe_def Let_def same_report_def split: prod.split sum.split)

lemma report_secrets: "same_report p (fst (snd (reconcileSecrets R p h)))"
  using emits_reconcileSecrets [of UNIV p h R] by (auto simp: same_report_def)

lemma report_gather: "same_report p (fst (snd (gatherConvergence R p h)))"
  using gatherConvergence_frame [of R p h] by (auto simp: same_report_def)

lemma report_storage: "reconcileStorage R p h = Some (out, p', h') \<Longrightarrow> same_report p p'"
  by (drule reconcileStorage_frame, erule ssubst) (simp add: same_report_def)

lemma report_nodes: "same_report p (fst (snd (reconcileNodes R p h)))"
proof -
  have "same_report p (p\<lparr>p_update := u\<rparr>)" for u by (simp add: same_report_def)
  then have "same_report p (fst (snd (roll R st p h)))" for st h
    using same_report_hold [of p R]
    by (auto simp: roll_def Let_def now_def split: list.split prod.split option.split)
  then show ?thesis by (auto simp: reconcileNodes_def split: prod.split sum.split)
qed

lemma report_layout: "same_report p (fst (snd (reconcileLayout R p h)))"
  by (auto simp: reconcileLayout_def holdLayout_def Let_def setCondition_def same_report_def
      split: option.split prod.split sum.split)

lemma report_drain: "same_report p (fst (snd (reconcileDecommission R p h)))"
proof -
  have "same_report p (fst (snd (holdDrain R names m p h)))" for names m
    using same_report_hold [of "setCondition ConditionClusterSizeAligned ConditionFalse ReasonDraining m p" R]
    by (simp add: holdDrain_def same_report_def)
  then show ?thesis by (auto simp: reconcileDecommission_def Let_def split: option.split prod.split)
qed

lemma report_reload: "reconcileReload R p h = Some (out, p', h') \<Longrightarrow> same_report p p'"
  by (drule reconcileReload_frame, erule ssubst) (simp add: same_report_def)

section \<open>The pass up to its last step\<close>

definition working_steps :: "Reconciler \<Rightarrow> world Step list" where
  "working_steps R = butlast (pipeline R)"

lemma working_steps_last: "pipeline R = working_steps R @ [mk_step ''status'' True (reconcileStatus R)]"
  by (simp add: working_steps_def pipeline_def)

lemma same_report_panic:
  assumes "\<And>out p' h'. f p h = Some (out, p', h') \<Longrightarrow> same_report p p'"
  shows "same_report p (fst (snd (or_panic f p h)))"
  using assms by (auto simp: or_panic_def split: option.split prod.split)

lemma working_report:
  assumes "x \<in> set (working_steps R)"
  shows "same_report p (fst (snd (step_Run x (p, h))))"
proof -
  have "same_report p (fst (snd (step_of f (p, h)))) \<longleftrightarrow> same_report p (fst (snd (f p h)))" for f
    by (simp add: step_of_eq)
  moreover have "same_report p (fst (snd (or_panic (reconcileStorage R) p h)))" "same_report p (fst (snd (or_panic (reconcileReload R) p h)))"
    by (rule same_report_panic, erule report_storage report_reload)+
  moreover have "fst (snd (reconcileServices R p h)) = p" "fst (snd (reconcileNodeConfigs R p h)) = p" "fst (snd (reconcileBudget R p h)) = p"
    "fst (snd (reconcileNetworkPolicy R p h)) = p" "fst (snd (reconcilePodMonitor R p h)) = p"
    using emits_objects [of UNIV p h R] emits_reconcilePodMonitor [of UNIV p h R] by simp_all
  ultimately show ?thesis using assms
    by (auto simp: working_steps_def pipeline_def mk_step_def report_validate report_plan report_render report_observe
        report_secrets report_gather report_nodes report_layout report_drain)
qed

text \<open>The failure the loop keeps is the failure the pass has recorded.\<close>

lemma working_failure:
  assumes "set xs \<subseteq> set (working_steps R)" "rv_failure v = p_failure p"
    "run_steps record_pass xs (v, (p, h)) = (v', (p', h'))"
  shows "rv_failure v' = p_failure p' \<and> p_object p' = p_object p"
  using assms
proof (induction xs arbitrary: v p h)
  case (Cons x xs)
  obtain r q g where r: "step_Run x (p, h) = (r, (q, g))" by (cases "step_Run x (p, h)") auto
  obtain v1 p1 h1 where n: "run_step record_pass x (v, (p, h)) = (v1, (p1, h1))"
    by (cases "run_step record_pass x (v, (p, h))") auto
  have "same_report p q" using working_report [of x R p h] Cons.prems(1) r by simp
  then have "rv_failure v1 = p_failure p1 \<and> p_object p1 = p_object p"
    using n r Cons.prems(2)
    by (auto simp: run_step_def record_pass_def RecordFailure_def same_report_def split: if_splits sum.splits)
  with Cons.IH [of v1 p1 h1] Cons.prems n show ?case by simp
qed simp

section \<open>The last step\<close>

lemma status_of_object:
  "fsc_Name (p_object (status_pass R p)) = fsc_Name (p_object p)" "fsc_Namespace (p_object (status_pass R p)) = fsc_Namespace (p_object p)"
  "fsc_Spec (p_object (status_pass R p)) = fsc_Spec (p_object p)"
  "st_ObservedGeneration (fsc_Status (p_object (status_pass R p))) = fsc_Generation (p_object p)"
  by (simp_all add: status_pass_def publish_def set_status_def new_status_def Let_def split: option.split)

lemma status_of_failure:
  assumes "condition_setter (e_SetStatusCondition R)"
  shows "\<exists>c. published ConditionReconcileSucceeded (p_object (status_pass R p)) = Some c \<and> (case p_failure p of
      None \<Rightarrow> cond_Status c = ConditionTrue
    | Some e \<Rightarrow> cond_Status c = ConditionFalse \<and> cond_Message c = Sprintf fmt_error [AE e])"
  unfolding status_published [OF assms]
  by (auto simp: queued_summarize summarize_health_def Let_def split: option.split)

lemma status_outcome:
  assumes "reconcileStatus R p h = (out, p', h')"
  shows "case e_PatchStatus R h (p_object (status_pass R p)) of Inr stored \<Rightarrow> out = Continue | Inl e \<Rightarrow> out = Inl (Wrap e fmt_update_status [])"
  using assms by (auto simp: reconcileStatus_def status_pass_def Let_def split: sum.splits)

text \<open>A pass is the working steps and then the status.\<close>

lemma pipeline_reports:
  assumes "p_failure p = None"
  shows "\<exists>result err q q' g g' out. pipeline_Run record_pass (pipeline R) (p, h) = ((result, err), (q', g'))
    \<and> emits (calls_of (p_cluster p)) h g \<and> p_object q = p_object p \<and> reconcileStatus R q g = (out, fst (snd (reconcileStatus R q g)), g')
    \<and> err = (case p_failure q of Some e \<Rightarrow> Some e | None \<Rightarrow> (case out of Inl e \<Rightarrow> Some e | Inr o' \<Rightarrow> None))"
proof -
  obtain v q g where pre: "run_steps record_pass (working_steps R) (run_init, (p, h)) = (v, (q, g))"
    by (cases "run_steps record_pass (working_steps R) (run_init, (p, h))") auto
  from working_failure [OF subset_refl _ pre] assms have f: "rv_failure v = p_failure q" "p_object q = p_object p"
    by (simp_all add: run_init_def)
  have "set (working_steps R) \<subseteq> set (pipeline R)" by (auto simp: working_steps_last)
  from controller.run_steps_rel [OF this, of "(p, h)" run_init] have e: "emits (calls_of (p_cluster p)) h g"
    by (simp add: pre pass_rel_def)
  obtain out q' g' where st: "reconcileStatus R q g = (out, q', g')" by (cases "reconcileStatus R q g")
  have "\<exists>v' q''. run_steps record_pass (pipeline R) (run_init, (p, h)) = (v', (q'', g'))
      \<and> rv_failure v' = (case p_failure q of Some e \<Rightarrow> Some e | None \<Rightarrow> (case out of Inl e \<Rightarrow> Some e | Inr o' \<Rightarrow> None))"
    unfolding working_steps_last run_steps_append pre
    by (cases out; cases "p_failure q") (simp_all add: run_step_def mk_step_def step_of_def st f(1) record_pass_def)
  then obtain v' q'' where run: "run_steps record_pass (pipeline R) (run_init, (p, h)) = (v', (q'', g'))"
    "rv_failure v' = (case p_failure q of Some e \<Rightarrow> Some e | None \<Rightarrow> (case out of Inl e \<Rightarrow> Some e | Inr o' \<Rightarrow> None))" by blast
  have "\<exists>result. pipeline_Run record_pass (pipeline R) (p, h) = ((result, rv_failure v'), (q'', g'))"
    by (simp add: pipeline_Run_def run(1) split: option.split)
  with run(2) e f(2) st show ?thesis by fastforce
qed

section \<open>Property\<close>

text \<open>
  C10. Every pass reports. Whatever the API server and the nodes answer, and wherever a pass over a live
  object is blocked or fails, \<open>Reconcile\<close> returns (claims carry resource requests, so growing one
  does not panic) and publishes a status for the generation it worked on. Its
  ReconcileSucceeded condition tells what the pass came to: when it is True, the only error that
  \<open>Reconcile\<close> can return is the refusal of that very status; when it is False, \<open>Reconcile\<close> returns the
  error that the condition names.
\<close>

theorem every_pass_reports:
  assumes "e_GetCluster R h ns name = Inr object" and "fsc_DeletionTimestamp object = None"
    and "newPass object (r_FSImageRegistry R) = Some p" and "condition_setter (e_SetStatusCondition R)"
    and "claims_have_requests R"
  shows "\<exists>result err as bs st c. Reconcile R ns name h = Some ((result, err), h @ as @ CPatchStatus st # bs)
    \<and> fsc_Name st = fsc_Name object \<and> fsc_Namespace st = fsc_Namespace object \<and> fsc_Spec st = fsc_Spec object
    \<and> st_ObservedGeneration (fsc_Status st) = fsc_Generation object
    \<and> published ConditionReconcileSucceeded st = Some c
    \<and> (if cond_Status c = ConditionTrue
       then err = (case e_PatchStatus R (h @ as) st of Inl e \<Rightarrow> Some (Wrap e fmt_update_status []) | Inr stored \<Rightarrow> None)
       else \<exists>e. err = Some e \<and> cond_Status c = ConditionFalse \<and> cond_Message c = Sprintf fmt_error [AE e])"
proof -
  let ?h = "h @ [CGetCluster ns name]"
  have p: "p_failure p = None" "p_object p = object" using newPass_cluster [OF assms(3)] by auto
  from pipeline_reports [OF p(1), of R ?h] obtain result err q q' q'' g g' out where
    run: "pipeline_Run record_pass (pipeline R) (p, ?h) = ((result, err), (q', g'))"
    and e: "emits (calls_of (p_cluster p)) ?h g" and q: "p_object q = object" and st: "reconcileStatus R q g = (out, q'', g')"
    and err: "err = (case p_failure q of Some e \<Rightarrow> Some e | None \<Rightarrow> (case out of Inl e \<Rightarrow> Some e | Inr o' \<Rightarrow> None))"
    using p(2) by blast
  from e obtain cs where g: "g = h @ CGetCluster ns name # cs" by (auto simp: emits_def)
  let ?sent = "p_object (status_pass R q)"
  from reconcileStatus_sends [of R q g] st obtain rest where g': "g' = g @ CPatchStatus ?sent # rest" by auto
  have "Reconcile R ns name h \<noteq> None" using Reconcile_returns [OF assms(5), of h ns name] assms(1,3) by auto
  then obtain result' where rec: "Reconcile R ns name h = Some ((result', err), g')"
    using Reconcile_live [OF assms(1-3) run] by (auto split: if_splits)
  from status_of_failure [OF assms(4), of q] obtain c where c: "published ConditionReconcileSucceeded ?sent = Some c"
    "case p_failure q of None \<Rightarrow> cond_Status c = ConditionTrue
     | Some e \<Rightarrow> cond_Status c = ConditionFalse \<and> cond_Message c = Sprintf fmt_error [AE e]" by blast
  have "if cond_Status c = ConditionTrue then err = (case e_PatchStatus R g ?sent of Inl e \<Rightarrow> Some (Wrap e fmt_update_status []) | Inr stored \<Rightarrow> None)
      else \<exists>e. err = Some e \<and> cond_Status c = ConditionFalse \<and> cond_Message c = Sprintf fmt_error [AE e]"
    using c(2) err status_outcome [OF st] by (auto simp: Continue_def split: option.splits sum.splits)
  with rec g g' c(1) status_of_object [of R q] q show ?thesis
    by (intro exI [of _ result'] exI [of _ err] exI [of _ "CGetCluster ns name # cs"] exI [of _ rest] exI [of _ ?sent] exI [of _ c]) simp
qed

theorem every_pass_reports_witness:
  "\<exists>result err as bs st c. Reconcile (storing (sample_cluster (sample_spec three_nodes 1000))) ''storage'' ''fs'' []
       = Some ((result, err), as @ CPatchStatus st # bs)
     \<and> published ConditionReconcileSucceeded st = Some c \<and> st_ObservedGeneration (fsc_Status st) = 1"
proof -
  let ?c = "sample_cluster (sample_spec three_nodes 1000)"
  from sample_pass obtain p where p: "newPass ?c [] = Some p" by blast
  have "fsc_DeletionTimestamp ?c = None" "fsc_Generation ?c = 1" by (simp_all add: sample_cluster_def)
  from every_pass_reports [where R = "storing ?c" and h = "[]" and ns = "''storage''" and name = "''fs''" and p = p,
      OF storing_simps(1) this(1) _ storing_simps(4) storing_claims] p this(2)
  show ?thesis unfolding storing_simps(3) by (auto, blast)
qed

end
