(* ===== verification/Key_Controller.thy ===== *)
theory Key_Controller
  imports Access_Keys Conditions
begin

text \<open>
  The FSAccessKey controller, \<open>internal/controller/fsaccesskey_controller.go\<close>: it resolves a
  credential (mints it once, or reads an imported Secret), fingerprints it on the object, and
  reports whether every node of the cluster accepts it; on deletion it waits until no node that
  answers accepts it any more. The FSCluster controller is what renders the key into the
  configuration (\<open>Access_Keys\<close>).

  As for the FSCluster controller, everything outside the repository is an answer of the
  environment and may depend on all calls made before. \<open>Update\<close> and \<open>Patch\<close> answer the object as it
  is stored afterwards, which is what the code goes on with.
\<close>

section \<open>The environment\<close>

datatype key_call =
    KGetKey string string
  | KGetSecret string string
  | KGetCluster string string
  | KListKeys string
  | KUpdate FSAccessKey
  | KPatch FSAccessKey
  | KPatchStatus FSAccessKey
  | KCreate string Secret
  | KAccessKeys string
  | KRandom nat
  | KEvent event_type string message
  | KReconcileError string

type_synonym key_history = "key_call list"

record FSAccessKeyReconciler =
  ke_GetKey :: "key_history \<Rightarrow> string \<Rightarrow> string \<Rightarrow> FSAccessKey result"
  ke_GetSecret :: "key_history \<Rightarrow> string \<Rightarrow> string \<Rightarrow> Secret result"
  ke_GetCluster :: "key_history \<Rightarrow> string \<Rightarrow> string \<Rightarrow> FSCluster result"
  ke_ListKeys :: "key_history \<Rightarrow> string \<Rightarrow> FSAccessKey list result"
  ke_Update :: "key_history \<Rightarrow> FSAccessKey \<Rightarrow> FSAccessKey result"
  ke_Patch :: "key_history \<Rightarrow> FSAccessKey \<Rightarrow> FSAccessKey result"
  ke_PatchStatus :: "key_history \<Rightarrow> FSAccessKey \<Rightarrow> error option"
  ke_SetOwner :: "FSAccessKey \<Rightarrow> Secret \<Rightarrow> error option"
  ke_Create :: "key_history \<Rightarrow> Secret \<Rightarrow> error option"
  ke_NewClient :: "string \<Rightarrow> error option"
  ke_AccessKeys :: "key_history \<Rightarrow> string \<Rightarrow> string \<Rightarrow> string list result"
  ke_Random :: "key_history \<Rightarrow> nat \<Rightarrow> string result"
  ke_SetStatusCondition :: "Condition \<Rightarrow> Condition list \<Rightarrow> Condition list"
  ke_Finalizers :: finalizer_lib
  ke_Recorder :: bool

definition accessKeyFinalizer :: string where "accessKeyFinalizer = ''fs.go-faster.org/accesskey''"
definition credentialHashAnnotation :: string where "credentialHashAnnotation = ''fs.go-faster.org/credential-hash''"
definition requeueAfterPending :: Duration where "requeueAfterPending = 10 * 1000000000"

definition fmt_plain :: string where "fmt_plain = ''%v''"
definition fmt_cluster_not_found :: string where "fmt_cluster_not_found = ''FSCluster %s not found''"
definition fmt_no_nodes :: string where "fmt_no_nodes = ''cluster has no nodes yet''"
definition fmt_no_token :: string where "fmt_no_token = ''admin token unavailable''"
definition fmt_token_key :: string where "fmt_token_key = ''admin token secret %q has no %q''"
definition fmt_pending_nodes :: string where "fmt_pending_nodes = ''waiting for node(s) to apply the credential: %s''"
definition fmt_accepted :: string where "fmt_accepted = ''credential accepted by every node''"
definition fmt_imported_missing :: string where "fmt_imported_missing = ''imported Secret %s not found''"
definition fmt_imported_empty :: string where "fmt_imported_empty = ''imported Secret %s needs non-empty %s and %s''"
definition fmt_weak :: string where "fmt_weak = ''secret-key must be at least 16 characters''"
definition fmt_material :: string where "fmt_material = ''credential Secret %s is missing its key material''"
definition fmt_create_credential :: string where "fmt_create_credential = ''create credential secret''"
definition fmt_stamp :: string where "fmt_stamp = ''stamp credential hash''"
definition fmt_add_finalizer :: string where "fmt_add_finalizer = ''add finalizer''"
definition fmt_remove_finalizer :: string where "fmt_remove_finalizer = ''remove finalizer''"
definition fmt_status :: string where "fmt_status = ''update status''"
definition fmt_revoked :: string where "fmt_revoked = ''revoked credential %s''"

definition unreachable_suffix :: string where "unreachable_suffix = '' (unreachable)''"

text \<open>\<open>err.Error()\<close> as a message.\<close>

abbreviation err_message :: "error \<Rightarrow> message" where
  "err_message e \<equiv> Sprintf fmt_plain [AE e]"

type_synonym key_outcome = "(Result \<times> error option) \<times> key_history"

definition no_result :: Result where "no_result = \<lparr>res_RequeueAfter = 0\<rparr>"

section \<open>The credential\<close>

definition credentialHash :: "string \<Rightarrow> string \<Rightarrow> string" where
  "credentialHash access secret = hex_EncodeToString (take 8 (sha256_Sum256 (access @ CHR 0x00 # secret)))"

definition readImported ::
    "FSAccessKeyReconciler \<Rightarrow> FSAccessKey \<Rightarrow> string \<Rightarrow> key_history \<Rightarrow> (readyCondition + string \<times> string) \<times> key_history" where
  "readImported R key name h =
     (let h' = h @ [KGetSecret (ak_Namespace key) name]
      in case ke_GetSecret R h (ak_Namespace key) name of
           Inl e \<Rightarrow>
             (Inl (if isNotFound e then falseCondition ReasonSecretNotFound (Sprintf fmt_imported_missing [AS name])
                   else falseCondition ReasonSecretInvalid (err_message e)), h')
         | Inr secret \<Rightarrow>
             (let access = gm_str (sec_Data secret) AccessKeyKey;
                  secretKey = gm_str (sec_Data secret) SecretKeyKey
              in if access = [] \<or> secretKey = []
                 then (Inl (falseCondition ReasonSecretInvalid
                        (Sprintf fmt_imported_empty [AS name, AS AccessKeyKey, AS SecretKeyKey])), h')
                 else if length secretKey < MinSecretKeyLength
                 then (Inl (falseCondition ReasonWeakSecretKey (msg fmt_weak)), h')
                 else (Inr (access, secretKey), h')))"

text \<open>The Secret a generated credential is stored in.\<close>

definition owned_secret :: "FSAccessKey \<Rightarrow> FSCluster \<Rightarrow> string \<Rightarrow> string \<Rightarrow> Secret" where
  "owned_secret key cluster access secretKey =
     \<lparr>sec_Name = AccessKeySecretName key, sec_Namespace = ak_Namespace key, sec_Labels = [], sec_Annotations = [],
      sec_Data = [],
      sec_StringData = [(AccessKeyKey, access), (SecretKeyKey, secretKey),
        (EndpointKey, S3Endpoint (fsc_Name cluster) (fsc_Namespace cluster) S3Port
           (tls_SecretName (s3_TLS (spec_S3 (fsc_Spec cluster))) \<noteq> []))]\<rparr>"

text \<open>Minting: the two random halves, the owner, and the creation.\<close>

definition mint ::
    "FSAccessKeyReconciler \<Rightarrow> FSAccessKey \<Rightarrow> FSCluster \<Rightarrow> key_history \<Rightarrow> (readyCondition + string \<times> string) \<times> key_history" where
  "mint R key cluster h =
     (let h1 = h @ [KRandom accessKeyBytes]; h2 = h1 @ [KRandom tokenBytes]
      in case keygen_AccessKey (ke_Random R h) of
           Inl e \<Rightarrow> (Inl (falseCondition ReasonReconcileError (err_message e)), h1)
         | Inr access \<Rightarrow>
             (case keygen_Token (ke_Random R h1) of
                Inl e \<Rightarrow> (Inl (falseCondition ReasonReconcileError (err_message e)), h2)
              | Inr secretKey \<Rightarrow>
                  (let owned = owned_secret key cluster access secretKey
                   in case ke_SetOwner R key owned of
                        Some e \<Rightarrow> (Inl (falseCondition ReasonReconcileError (err_message e)), h2)
                      | None \<Rightarrow>
                          (let h3 = h2 @ [KCreate (ak_Name key) owned]
                           in case ke_Create R h2 owned of
                                None \<Rightarrow> (Inr (access, secretKey), h3)
                              | Some e \<Rightarrow>
                                  if isAlreadyExists e then (Inr (access, secretKey), h3)
                                  else (Inl (falseCondition ReasonReconcileError
                                         (err_message (Wrap e fmt_create_credential []))), h3)))))"

definition ensureGenerated ::
    "FSAccessKeyReconciler \<Rightarrow> FSAccessKey \<Rightarrow> key_history \<Rightarrow> (readyCondition + string \<times> string) \<times> key_history" where
  "ensureGenerated R key h =
     (let name = AccessKeySecretName key; h1 = h @ [KGetSecret (ak_Namespace key) name]
      in case ke_GetSecret R h (ak_Namespace key) name of
           Inr secret \<Rightarrow>
             (let access = gm_str (sec_Data secret) AccessKeyKey;
                  secretKey = gm_str (sec_Data secret) SecretKeyKey
              in if access = [] \<or> secretKey = []
                 then (Inl (falseCondition ReasonSecretInvalid (Sprintf fmt_material [AS name])), h1)
                 else (Inr (access, secretKey), h1))
         | Inl e \<Rightarrow>
             if \<not> isNotFound e then (Inl (falseCondition ReasonSecretInvalid (err_message e)), h1)
             else
               (let ref = aks_ClusterRef (ak_Spec key); h2 = h1 @ [KGetCluster (ak_Namespace key) ref]
                in case ke_GetCluster R h1 (ak_Namespace key) ref of
                     Inl e \<Rightarrow>
                       (Inl (if isNotFound e
                             then falseCondition ReasonClusterNotFound (Sprintf fmt_cluster_not_found [AS ref])
                             else falseCondition ReasonReconcileError (err_message e)), h2)
                   | Inr cluster \<Rightarrow> mint R key cluster h2))"

definition resolveCredential ::
    "FSAccessKeyReconciler \<Rightarrow> FSAccessKey \<Rightarrow> key_history \<Rightarrow> (readyCondition + string \<times> string) \<times> key_history" where
  "resolveCredential R key h = (case aks_ExistingSecretRef (ak_Spec key) of
      Some name \<Rightarrow> if name \<noteq> [] then readImported R key name h else ensureGenerated R key h
    | None \<Rightarrow> ensureGenerated R key h)"

definition stampCredentialHash ::
    "FSAccessKeyReconciler \<Rightarrow> FSAccessKey \<Rightarrow> string \<Rightarrow> key_history \<Rightarrow> FSAccessKey result \<times> key_history" where
  "stampCredentialHash R key want h =
     (if gm_str (ak_Annotations key) credentialHashAnnotation = want then (Inr key, h)
      else
        (let key' = key\<lparr>ak_Annotations := gm_put credentialHashAnnotation want (ak_Annotations key)\<rparr>
         in (case ke_Patch R h key' of Inl e \<Rightarrow> Inl (Wrap e fmt_stamp []) | Inr stored \<Rightarrow> Inr stored,
             h @ [KPatch key'])))"

section \<open>What the nodes accept\<close>

definition key_adminToken :: "FSAccessKeyReconciler \<Rightarrow> FSCluster \<Rightarrow> key_history \<Rightarrow> string result \<times> key_history" where
  "key_adminToken R cluster h =
     (let name = AdminTokenSecretName (fsc_Name cluster); h' = h @ [KGetSecret (fsc_Namespace cluster) name]
      in case ke_GetSecret R h (fsc_Namespace cluster) name of
           Inl e \<Rightarrow> (Inl e, h')
         | Inr secret \<Rightarrow>
             (let token = gm_str (sec_Data secret) AdminTokenKey
              in if token = [] then (Inl (NewError fmt_token_key [name, AdminTokenKey]), h') else (Inr token, h')))"

definition key_adminClient :: "FSAccessKeyReconciler \<Rightarrow> string \<Rightarrow> string \<Rightarrow> Client result" where
  "key_adminClient R baseURL token = fsclient_New (ke_NewClient R) baseURL token DefaultTimeout"

definition admin_AccessKeys :: "FSAccessKeyReconciler \<Rightarrow> Client \<Rightarrow> key_history \<Rightarrow> string list result \<times> key_history" where
  "admin_AccessKeys R c h =
     (client_AccessKeys (ke_AccessKeys R h (cl_baseURL c) (cl_token c)), h @ [KAccessKeys (cl_baseURL c)])"

text \<open>The keys a node accepts, by node; \<open>None\<close>, Go's nil, when it did not answer.\<close>

type_synonym listings = "(string, string list option) gomap"

definition node_url :: "FSCluster \<Rightarrow> string \<Rightarrow> string" where
  "node_url cluster node = AdminURL (fsc_Name cluster) (fsc_Namespace cluster) node"

fun node_keys_loop ::
    "FSAccessKeyReconciler \<Rightarrow> FSCluster \<Rightarrow> string \<Rightarrow> Node list \<Rightarrow> listings \<Rightarrow> key_history
     \<Rightarrow> (readyCondition \<times> bool + listings) \<times> key_history" where
  "node_keys_loop R cluster token [] ls h = (Inr ls, h)"
| "node_keys_loop R cluster token (node # nodes) ls h =
     (let ls' = gm_put (node_Name node) None ls
      in case key_adminClient R (node_url cluster (node_Name node)) token of
           Inl e \<Rightarrow> (Inl (falseCondition ReasonClusterNotReady (err_message e), True), h)
         | Inr c \<Rightarrow> (case admin_AccessKeys R c h of
             (Inl e, h') \<Rightarrow> node_keys_loop R cluster token nodes ls' h'
           | (Inr keys, h') \<Rightarrow> node_keys_loop R cluster token nodes (gm_put (node_Name node) (Some keys) ls') h'))"

text \<open>\<open>nodeKeys\<close>: \<open>None\<close> is the panic of \<open>Nodes\<close>, \<open>Inl\<close> a condition and whether to come back.\<close>

definition nodeKeys ::
    "FSAccessKeyReconciler \<Rightarrow> FSAccessKey \<Rightarrow> key_history \<Rightarrow> ((readyCondition \<times> bool + listings) \<times> key_history) option" where
  "nodeKeys R key h =
     (let ref = aks_ClusterRef (ak_Spec key); h1 = h @ [KGetCluster (ak_Namespace key) ref]
      in case ke_GetCluster R h (ak_Namespace key) ref of
           Inl e \<Rightarrow>
             Some (Inl (if isNotFound e
                        then falseCondition ReasonClusterNotFound (Sprintf fmt_cluster_not_found [AS ref])
                        else falseCondition ReasonReconcileError (err_message e), True), h1)
         | Inr cluster \<Rightarrow> (case Nodes cluster of
             None \<Rightarrow> None
           | Some nodes \<Rightarrow>
               if length nodes = 0
               then Some (Inl (falseCondition ReasonClusterNotReady (msg fmt_no_nodes), True), h1)
               else (case key_adminToken R cluster h1 of
                   (Inl e, h2) \<Rightarrow> Some (Inl (falseCondition ReasonClusterNotReady (msg fmt_no_token), True), h2)
                 | (Inr token, h2) \<Rightarrow> Some (node_keys_loop R cluster token nodes [] h2))))"

text \<open>
  The nodes that do not accept the key yet. The code ranges over the map in any order and then
  sorts, so the order of the map does not show.
\<close>

definition missing_entry :: "string \<Rightarrow> string \<times> string list option \<Rightarrow> string list" where
  "missing_entry access = (\<lambda>(node, keys). case keys of
      None \<Rightarrow> [node @ unreachable_suffix]
    | Some ks \<Rightarrow> if slices_Contains ks access then [] else [node])"

definition verifyAccepted ::
    "FSAccessKeyReconciler \<Rightarrow> FSAccessKey \<Rightarrow> string \<Rightarrow> key_history \<Rightarrow> ((readyCondition \<times> bool) \<times> key_history) option" where
  "verifyAccepted R key access h = (case nodeKeys R key h of
      None \<Rightarrow> None
    | Some (Inl (cond, requeue), h') \<Rightarrow> Some ((cond, requeue), h')
    | Some (Inr ls, h') \<Rightarrow>
        (let missing = concat (map (missing_entry access) ls)
         in if 0 < length missing
            then Some ((falseCondition ReasonConfigReloadPending
                    (Sprintf fmt_pending_nodes [AS (strings_Join (slices_Sort missing) '', '')]), True), h')
            else Some ((trueCondition ReasonKeyAccepted (msg fmt_accepted), False), h')))"

section \<open>Reporting and finalizing\<close>

definition key_reported :: "FSAccessKeyReconciler \<Rightarrow> FSAccessKey \<Rightarrow> string \<Rightarrow> readyCondition \<Rightarrow> FSAccessKey" where
  "key_reported R key access cond =
     (let st = ak_Status key
      in key\<lparr>ak_Status := st\<lparr>akst_ObservedGeneration := ak_Generation key,
           akst_AccessKey := if access \<noteq> [] then access else akst_AccessKey st,
           akst_Conditions := ke_SetStatusCondition R (ready_condition (ak_Generation key) cond) (akst_Conditions st)\<rparr>\<rparr>)"

definition key_report ::
    "FSAccessKeyReconciler \<Rightarrow> FSAccessKey \<Rightarrow> string \<Rightarrow> readyCondition \<Rightarrow> key_history \<Rightarrow> key_outcome" where
  "key_report R key access cond h =
     (let key' = key_reported R key access cond
      in ((no_result, case ke_PatchStatus R h key' of None \<Rightarrow> None | Some e \<Rightarrow> Some (Wrap e fmt_status [])),
          h @ [KPatchStatus key']))"

definition key_event :: "FSAccessKeyReconciler \<Rightarrow> event_type \<Rightarrow> string \<Rightarrow> message \<Rightarrow> key_history \<Rightarrow> key_history" where
  "key_event R t reason m h = (if ke_Recorder R then h @ [KEvent t reason m] else h)"

definition remove_key_finalizer :: "FSAccessKeyReconciler \<Rightarrow> FSAccessKey \<Rightarrow> key_history \<Rightarrow> key_outcome" where
  "remove_key_finalizer R key h =
     (let key' = key\<lparr>ak_Finalizers := fl_Remove (ke_Finalizers R) accessKeyFinalizer (ak_Finalizers key)\<rparr>
      in ((no_result, case ke_Update R h key' of Inl e \<Rightarrow> Some (Wrap e fmt_remove_finalizer []) | Inr stored \<Rightarrow> None),
          h @ [KUpdate key']))"

definition key_finalize :: "FSAccessKeyReconciler \<Rightarrow> FSAccessKey \<Rightarrow> key_history \<Rightarrow> key_outcome option" where
  "key_finalize R key h =
     (if \<not> fl_Contains (ke_Finalizers R) (ak_Finalizers key) accessKeyFinalizer then Some ((no_result, None), h)
      else
        let access = akst_AccessKey (ak_Status key)
        in if access = [] then Some (remove_key_finalizer R key h)
           else (case nodeKeys R key h of
               None \<Rightarrow> None
             | Some (Inl (cond, requeue), h') \<Rightarrow>
                 if rc_reason cond = ReasonClusterNotFound then Some (remove_key_finalizer R key h')
                 else Some ((\<lparr>res_RequeueAfter = requeueAfterPending\<rparr>, None), h')
             | Some (Inr ls, h') \<Rightarrow>
                 if list_ex (\<lambda>(node, keys). case keys of None \<Rightarrow> False | Some ks \<Rightarrow> slices_Contains ks access) ls
                 then Some ((\<lparr>res_RequeueAfter = requeueAfterPending\<rparr>, None), h')
                 else Some (remove_key_finalizer R key
                        (key_event R Normal ''KeyDeleted'' (Sprintf fmt_revoked [AS access]) h'))))"

definition add_key_finalizer :: "FSAccessKeyReconciler \<Rightarrow> FSAccessKey \<Rightarrow> key_history \<Rightarrow> FSAccessKey result \<times> key_history" where
  "add_key_finalizer R key h =
     (if fl_Contains (ke_Finalizers R) (ak_Finalizers key) accessKeyFinalizer then (Inr key, h)
      else
        (let key' = key\<lparr>ak_Finalizers := fl_Add (ke_Finalizers R) accessKeyFinalizer (ak_Finalizers key)\<rparr>
         in (case ke_Update R h key' of Inl e \<Rightarrow> Inl (Wrap e fmt_add_finalizer []) | Inr stored \<Rightarrow> Inr stored,
             h @ [KUpdate key'])))"

section \<open>Reconcile\<close>

text \<open>The pass over a key that is not being deleted.\<close>

definition key_live :: "FSAccessKeyReconciler \<Rightarrow> FSAccessKey \<Rightarrow> key_history \<Rightarrow> key_outcome option" where
  "key_live R key h = (case resolveCredential R key h of
      (Inl cond, h1) \<Rightarrow> Some (key_report R key [] cond h1)
    | (Inr (access, secret), h1) \<Rightarrow> (case stampCredentialHash R key (credentialHash access secret) h1 of
        (Inl e, h2) \<Rightarrow> Some ((no_result, Some e), h2)
      | (Inr stored, h2) \<Rightarrow> (case verifyAccepted R stored access h2 of
          None \<Rightarrow> None
        | Some ((cond, requeue), h3) \<Rightarrow> (case key_report R stored access cond h3 of
            ((result, err), h4) \<Rightarrow>
              Some ((if err = None \<and> requeue \<and> res_RequeueAfter result = 0
                     then \<lparr>res_RequeueAfter = requeueAfterPending\<rparr> else result, err), h4)))))"

definition key_reconcile :: "FSAccessKeyReconciler \<Rightarrow> string \<Rightarrow> string \<Rightarrow> key_history \<Rightarrow> key_outcome option" where
  "key_reconcile R ns name h =
     (let h1 = h @ [KGetKey ns name]
      in case ke_GetKey R h ns name of
           Inl e \<Rightarrow> Some ((no_result, ignoreNotFound e), h1)
         | Inr key \<Rightarrow>
             if ak_DeletionTimestamp key \<noteq> None then key_finalize R key h1
             else (case add_key_finalizer R key h1 of
                 (Inl e, h2) \<Rightarrow> Some ((no_result, Some e), h2)
               | (Inr stored, h2) \<Rightarrow> key_live R stored h2))"

definition key_Reconcile :: "FSAccessKeyReconciler \<Rightarrow> string \<Rightarrow> string \<Rightarrow> key_history \<Rightarrow> key_outcome option" where
  "key_Reconcile R ns name h = (case key_reconcile R ns name h of
      None \<Rightarrow> None
    | Some ((result, err), h') \<Rightarrow>
        Some ((result, err), if err \<noteq> None then h' @ [KReconcileError ''fsaccesskey''] else h'))"

text \<open>The keys that import a Secret, for the watch on Secrets.\<close>

definition importedSecretToKeys ::
    "FSAccessKeyReconciler \<Rightarrow> string \<Rightarrow> string \<Rightarrow> key_history \<Rightarrow> (string \<times> string) list \<times> key_history" where
  "importedSecretToKeys R ns name h =
     (case ke_ListKeys R h ns of
        Inl e \<Rightarrow> []
      | Inr items \<Rightarrow> map (\<lambda>key. (ak_Namespace key, ak_Name key))
          (filter (\<lambda>key. aks_ExistingSecretRef (ak_Spec key) = Some name) items),
      h @ [KListKeys ns])"

section \<open>What the operations call\<close>

fun is_read :: "key_call \<Rightarrow> bool" where
  "is_read (KGetKey ns n) = True"
| "is_read (KGetSecret ns n) = True"
| "is_read (KGetCluster ns n) = True"
| "is_read (KAccessKeys u) = True"
| "is_read c = False"

fun credential_call :: "key_call \<Rightarrow> bool" where
  "credential_call (KRandom n) = True"
| "credential_call (KCreate owner s) = True"
| "credential_call c = is_read c"

lemma read_credential: "is_read c \<Longrightarrow> credential_call c"
  by (cases c) auto

lemma emits_mint: "emits credential_call h (snd (mint R key cluster h))"
  by (auto simp: mint_def Let_def emits_def split: sum.splits option.splits)

lemma emits_resolveCredential: "emits credential_call h (snd (resolveCredential R key h))"
proof -
  have "emits credential_call h (snd (readImported R key name h))" for name
    by (auto simp: readImported_def Let_def split: sum.splits)
  moreover have "emits credential_call h (snd (ensureGenerated R key h))"
  proof -
    let ?h = "h @ [KGetSecret (ak_Namespace key) (AccessKeySecretName key), KGetCluster (ak_Namespace key) (aks_ClusterRef (ak_Spec key))]"
    have "emits credential_call h ?h" by (simp add: emits_def)
    then have "emits credential_call h (snd (mint R key cluster ?h))" for cluster
      using emits_mint by (rule emits_trans)
    then show ?thesis by (auto simp: ensureGenerated_def Let_def emits_def split: sum.splits)
  qed
  ultimately show ?thesis by (simp add: resolveCredential_def split: option.split)
qed

lemma emits_node_keys_loop: "emits is_read h (snd (node_keys_loop R cluster token nodes ls h))"
proof (induction nodes arbitrary: ls h)
  case (Cons node nodes)
  have "emits is_read h (snd (node_keys_loop R cluster token nodes ls' (h @ [KAccessKeys u])))" for ls' u
    by (rule emits_trans [OF _ Cons.IH]) simp
  then show ?case by (auto simp: Let_def admin_AccessKeys_def split: sum.splits)
qed simp

lemma emits_adminToken_key: "emits is_read h (snd (key_adminToken R cluster h))"
  by (auto simp: key_adminToken_def Let_def split: sum.splits)

lemma emits_nodeKeys: "nodeKeys R key h = Some (r, h') \<Longrightarrow> emits is_read h h'"
proof -
  assume n: "nodeKeys R key h = Some (r, h')"
  let ?h = "h @ [KGetCluster (ak_Namespace key) (aks_ClusterRef (ak_Spec key))]"
  have h: "emits is_read h ?h" by simp
  have t: "emits is_read h (snd (key_adminToken R c ?h))" for c using h emits_adminToken_key by (rule emits_trans)
  have "emits is_read h (snd (node_keys_loop R c token nodes ls (snd (key_adminToken R c ?h))))" for c token nodes ls
    using t emits_node_keys_loop by (rule emits_trans)
  with n h t show ?thesis
    by (auto simp: nodeKeys_def Let_def split: sum.splits option.splits if_splits prod.splits) (metis snd_conv)+
qed

lemma node_keys_loop_cond:
  "node_keys_loop R cluster token nodes ls h = (Inl (cond, requeue), h') \<Longrightarrow>
   rc_status cond = ConditionFalse \<and> rc_reason cond = ReasonClusterNotReady \<and> requeue"
  by (induction nodes arbitrary: ls h)
    (auto simp: Let_def admin_AccessKeys_def split: sum.splits)

text \<open>A condition means the cluster could not be asked; \<open>ClusterNotFound\<close> only says that there is none.\<close>

lemma nodeKeys_cond:
  assumes "nodeKeys R key h = Some (Inl (cond, requeue), h')"
  shows "rc_status cond = ConditionFalse \<and> requeue
    \<and> (rc_reason cond = ReasonClusterNotFound \<longrightarrow>
         (\<exists>e. ke_GetCluster R h (ak_Namespace key) (aks_ClusterRef (ak_Spec key)) = Inl e \<and> isNotFound e))"
proof -
  have d: "ReasonClusterNotReady \<noteq> ReasonClusterNotFound" "ReasonReconcileError \<noteq> ReasonClusterNotFound"
    by (simp_all add: ReasonClusterNotReady_def ReasonClusterNotFound_def ReasonReconcileError_def)
  from assms show ?thesis
    using d by (auto simp: nodeKeys_def Let_def split: sum.splits option.splits if_splits prod.splits
        dest!: node_keys_loop_cond)
qed

lemma verifyAccepted_cases:
  assumes "verifyAccepted R key access h = Some ((cond, requeue), h')"
  shows "(rc_status cond = ConditionFalse \<and> requeue
      \<or> (\<exists>ls. nodeKeys R key h = Some (Inr ls, h') \<and> (\<forall>node keys. (node, keys) \<in> set ls \<longrightarrow> (\<exists>ks. keys = Some ks \<and> access \<in> set ks))))
    \<and> emits is_read h h'"
proof -
  from assms obtain r where r: "nodeKeys R key h = Some (r, h')"
    by (auto simp: verifyAccepted_def Let_def split: option.splits sum.splits if_splits)
  note e = emits_nodeKeys [OF r]
  show ?thesis
  proof (cases r)
    case (Inl x)
    obtain c q where x: "x = (c, q)" by (cases x)
    from nodeKeys_cond [of R key h c q h'] assms r e show ?thesis by (simp add: verifyAccepted_def Inl x)
  next
    case (Inr ls)
    with assms r e show ?thesis
      by (fastforce simp: verifyAccepted_def missing_entry_def Let_def split: if_splits option.splits)
  qed
qed

section \<open>What the nodes answered\<close>

text \<open>
  The listing \<open>ks\<close> is what the node at \<open>u\<close> answered to a call between the histories \<open>h\<close> and \<open>h'\<close>
  (\<open>None\<close> for an error).
\<close>

definition answered :: "FSAccessKeyReconciler \<Rightarrow> key_history \<Rightarrow> key_history \<Rightarrow> string \<Rightarrow> string \<Rightarrow> string list option \<Rightarrow> bool" where
  "answered R h h' u token ks \<longleftrightarrow> (\<exists>h0 b. h' = h0 @ KAccessKeys u # b \<and> prefix h h0
     \<and> ks = (case ke_AccessKeys R h0 u token of Inl e \<Rightarrow> None | Inr keys \<Rightarrow> Some keys))"

lemma answered_mono: "answered R h h' u token ks \<Longrightarrow> prefix g h \<Longrightarrow> prefix h' h'' \<Longrightarrow> answered R g h'' u token ks"
proof -
  assume a: "answered R h h' u token ks" and g: "prefix g h" and h: "prefix h' h''"
  from a obtain h0 b where o: "h' = h0 @ KAccessKeys u # b" "prefix h h0"
    "ks = (case ke_AccessKeys R h0 u token of Inl e \<Rightarrow> None | Inr keys \<Rightarrow> Some keys)" by (auto simp: answered_def)
  from h obtain c where "h'' = h' @ c" by (auto simp: prefix_def)
  with o(1) have "h'' = h0 @ KAccessKeys u # (b @ c)" by simp
  moreover from g o(2) have "prefix g h0" by (rule prefix_order.trans)
  ultimately show ?thesis using o(3) unfolding answered_def by blast
qed

lemma emits_prefix: "emits P h h' \<Longrightarrow> prefix h h'"
  by (auto simp: emits_def prefix_def)

lemma node_keys_loop_listed:
  "node_keys_loop R cluster token nodes ls h = (Inr ls', h') \<Longrightarrow>
   (\<forall>n. (gm_get ls' n \<noteq> None) = (gm_get ls n \<noteq> None \<or> n \<in> node_Name ` set nodes))
   \<and> (\<forall>n v. gm_get ls' n = Some v \<longrightarrow> gm_get ls n = Some v \<or> answered R h h' (node_url cluster n) token v)"
proof (induction nodes arbitrary: ls h)
  case (Cons node nodes)
  let ?u = "node_url cluster (node_Name node)"
  define v where "v = (case ke_AccessKeys R h ?u token of Inl e \<Rightarrow> None | Inr keys \<Rightarrow> Some keys)"
  let ?h = "h @ [KAccessKeys ?u]"
  from Cons.prems have "\<exists>l. node_keys_loop R cluster token nodes l ?h = (Inr ls', h')
      \<and> (\<forall>n. gm_get l n = (if n = node_Name node then Some v else gm_get ls n))"
    by (auto simp: Let_def key_adminClient_def fsclient_New_def admin_AccessKeys_def client_AccessKeys_def v_def
        split: option.splits sum.splits)
  then obtain l where l: "node_keys_loop R cluster token nodes l ?h = (Inr ls', h')"
    "\<And>n. gm_get l n = (if n = node_Name node then Some v else gm_get ls n)" by blast
  have "prefix ?h h'" using emits_node_keys_loop [of ?h R cluster token nodes l] l(1) by (simp add: emits_prefix)
  then have a: "answered R h h' ?u token v" by (auto simp: answered_def v_def prefix_def)
  have m: "answered R ?h h' u token v \<Longrightarrow> answered R h h' u token v" for u v by (rule answered_mono) auto
  note ih = Cons.IH [OF l(1)]
  have "gm_get ls' n \<noteq> None \<longleftrightarrow> gm_get ls n \<noteq> None \<or> n \<in> node_Name ` set (node # nodes)" for n
    using ih l(2) [of n] by (auto simp del: not_None_eq split: if_splits)
  moreover have "gm_get ls n = Some w \<or> answered R h h' (node_url cluster n) token w" if "gm_get ls' n = Some w" for n w
  proof -
    from ih that have "gm_get l n = Some w \<or> answered R ?h h' (node_url cluster n) token w" by blast
    then show ?thesis using l(2) [of n] a m by (cases "n = node_Name node") auto
  qed
  ultimately show ?case by blast
qed simp

lemma nodeKeys_listed:
  assumes "nodeKeys R key h = Some (Inr ls, h')"
  shows "\<exists>cluster nodes token. ke_GetCluster R h (ak_Namespace key) (aks_ClusterRef (ak_Spec key)) = Inr cluster
    \<and> Nodes cluster = Some nodes \<and> nodes \<noteq> []
    \<and> (\<forall>node \<in> set nodes. \<exists>ks. (node_Name node, ks) \<in> set ls \<and> answered R h h' (node_url cluster (node_Name node)) token ks)"
proof -
  let ?h = "h @ [KGetCluster (ak_Namespace key) (aks_ClusterRef (ak_Spec key))]"
  from assms obtain cluster nodes token h2 where c: "ke_GetCluster R h (ak_Namespace key) (aks_ClusterRef (ak_Spec key)) = Inr cluster"
    "Nodes cluster = Some nodes" "nodes \<noteq> []" "key_adminToken R cluster ?h = (Inr token, h2)"
    "node_keys_loop R cluster token nodes [] h2 = (Inr ls, h')"
    by (auto simp: nodeKeys_def Let_def split: sum.splits option.splits if_splits prod.splits)
  have "prefix ?h h2" using emits_adminToken_key [of ?h R cluster] c(4) by (simp add: emits_prefix)
  then have "prefix h h2" by (auto simp: prefix_def)
  then have m: "answered R h2 h' u token v \<Longrightarrow> answered R h h' u token v" for u v
    by (blast intro: answered_mono prefix_order.refl)
  have "\<exists>ks. (node_Name node, ks) \<in> set ls \<and> answered R h h' (node_url cluster (node_Name node)) token ks"
    if "node \<in> set nodes" for node
  proof -
    from node_keys_loop_listed [OF c(5)] that obtain ks where "gm_get ls (node_Name node) = Some ks"
      by (metis imageI not_None_eq)
    with node_keys_loop_listed [OF c(5)] m show ?thesis by (auto simp: gm_get_def dest: map_of_SomeD)
  qed
  with c(1-3) show ?thesis by blast
qed

text \<open>A resolved credential has an access key; a problem is a condition that is not Ready.\<close>

definition credential_ok :: "readyCondition + string \<times> string \<Rightarrow> bool" where
  "credential_ok r \<longleftrightarrow> (case r of Inl cond \<Rightarrow> rc_status cond = ConditionFalse | Inr (access, secret) \<Rightarrow> access \<noteq> [])"

lemma credential_ok_simps [simp]:
  "credential_ok (Inl cond) \<longleftrightarrow> rc_status cond = ConditionFalse" "credential_ok (Inr (a, k)) \<longleftrightarrow> a \<noteq> []"
  by (simp_all add: credential_ok_def)

lemma mint_ok [simp]: "credential_ok (fst (mint R key cluster h))"
  by (auto simp: mint_def keygen_AccessKey_def accessKeyPrefix_def Let_def split: sum.splits option.splits)

lemma resolveCredential_result: "credential_ok (fst (resolveCredential R key h))"
  by (auto simp: resolveCredential_def readImported_def ensureGenerated_def Let_def split: sum.splits option.splits)

section \<open>The statuses a pass writes\<close>

definition no_status :: "key_call \<Rightarrow> bool" where
  "no_status c \<longleftrightarrow> (\<forall>k. c \<noteq> KPatchStatus k)"

lemma credential_no_status: "credential_call c \<Longrightarrow> no_status c"
  by (cases c) (auto simp: no_status_def)

text \<open>A pass over a live key writes at most one status, at its end.\<close>

lemma key_live_status:
  assumes "key_live R key h = Some (res, h')"
  shows "emits no_status h h'
    \<or> (\<exists>h1 cond. emits no_status h h1 \<and> rc_status cond = ConditionFalse \<and> h' = h1 @ [KPatchStatus (key_reported R key [] cond)])
    \<or> (\<exists>h1 h2 access stored cond requeue. emits no_status h h1 \<and> emits no_status h1 h2 \<and> access \<noteq> []
         \<and> verifyAccepted R stored access h1 = Some ((cond, requeue), h2)
         \<and> h' = h2 @ [KPatchStatus (key_reported R stored access cond)])"
proof -
  obtain r h1 where r: "resolveCredential R key h = (r, h1)" by (cases "resolveCredential R key h")
  have e1: "emits no_status h h1"
    using emits_resolveCredential [of h R key] r by (auto intro: emits_mono credential_no_status)
  show ?thesis
  proof (cases r)
    case (Inl cond)
    with resolveCredential_result [of R key h] r have "rc_status cond = ConditionFalse" by simp
    with e1 assms r Inl show ?thesis by (auto simp: key_live_def key_report_def Let_def)
  next
    case (Inr x)
    obtain access secret where x: "x = (access, secret)" by (cases x)
    with resolveCredential_result [of R key h] r Inr have a: "access \<noteq> []" by simp
    obtain s h2 where s: "stampCredentialHash R key (credentialHash access secret) h1 = (s, h2)"
      by (cases "stampCredentialHash R key (credentialHash access secret) h1")
    then have "emits no_status h1 h2" by (auto simp: stampCredentialHash_def Let_def no_status_def split: if_splits)
    with e1 have e2: "emits no_status h h2" by (rule emits_trans)
    show ?thesis
    proof (cases s)
      case (Inl e)
      with assms r Inr x s e2 show ?thesis by (auto simp: key_live_def)
    next
      case (Inr stored)
      with assms r \<open>r = Inr x\<close> x s obtain cond requeue h3 where v: "verifyAccepted R stored access h2 = Some ((cond, requeue), h3)"
        "h' = h3 @ [KPatchStatus (key_reported R stored access cond)]"
        by (auto simp: key_live_def key_report_def Let_def split: option.splits)
      have "emits no_status h2 h3"
        using verifyAccepted_cases [OF v(1)] by (auto intro: emits_mono credential_no_status read_credential)
      with e2 a v show ?thesis by blast
    qed
  qed
qed

fun finalizing_call :: "key_call \<Rightarrow> bool" where
  "finalizing_call (KUpdate k) = True"
| "finalizing_call (KEvent t reason m) = True"
| "finalizing_call c = is_read c"

lemma read_finalizing: "is_read c \<Longrightarrow> finalizing_call c"
  by (cases c) auto

lemma key_finalize_calls: "key_finalize R key h = Some (res, h') \<Longrightarrow> emits finalizing_call h h'"
proof -
  assume f: "key_finalize R key h = Some (res, h')"
  have r: "emits finalizing_call h h'" if "remove_key_finalizer R key g = (res, h')" "emits finalizing_call h g" for g
    using that by (auto simp: remove_key_finalizer_def Let_def intro: emits_snoc)
  have e: "emits finalizing_call h (key_event R t reason m h')" if "emits finalizing_call h h'" for h' t reason m
    using that by (simp add: key_event_def emits_snoc)
  have n: "emits finalizing_call h h'" if "nodeKeys R key h = Some (x, h')" for x h'
    using emits_nodeKeys [OF that] by (blast intro: emits_mono read_finalizing)
  from f r n e show ?thesis
    by (auto simp: key_finalize_def Let_def split: if_splits option.splits sum.splits prod.splits)
qed

lemma finalizing_no_status: "finalizing_call c \<Longrightarrow> no_status c"
  by (cases c) (auto simp: no_status_def)

lemma key_finalize_status: "key_finalize R key h = Some (res, h') \<Longrightarrow> emits no_status h h'"
  by (blast intro: emits_mono key_finalize_calls finalizing_no_status)

lemma emits_append [simp]: "emits P h (h @ cs) \<longleftrightarrow> list_all P cs"
  by (simp add: emits_def)

lemma no_status_append: "list_all no_status cs \<Longrightarrow> KPatchStatus k \<notin> set cs"
  by (auto simp: list_all_iff no_status_def)

text \<open>Where a status that a pass writes comes from.\<close>

lemma key_Reconcile_status:
  assumes "key_Reconcile R ns name h = Some (res, h @ cs)" and "KPatchStatus k \<in> set cs"
  shows "(\<exists>key cond. rc_status cond = ConditionFalse \<and> k = key_reported R key [] cond)
    \<or> (\<exists>h1 h2 access stored cond requeue. prefix h h1 \<and> prefix h2 (h @ cs) \<and> access \<noteq> []
         \<and> verifyAccepted R stored access h1 = Some ((cond, requeue), h2) \<and> k = key_reported R stored access cond)"
proof -
  let ?h = "h @ [KGetKey ns name]"
  from assms(1) obtain result err h' where r: "key_reconcile R ns name h = Some ((result, err), h')"
    and cs: "h @ cs = h' \<or> h @ cs = h' @ [KReconcileError ''fsaccesskey'']"
    by (auto simp: key_Reconcile_def split: option.splits if_splits)
  have no: "\<not> emits no_status h h'"
  proof
    assume "emits no_status h h'"
    moreover from this have "emits no_status h (h' @ [KReconcileError ''fsaccesskey''])"
      by (intro emits_snoc) (simp_all add: no_status_def)
    ultimately have "emits no_status h (h @ cs)" using cs by metis
    then show False using no_status_append assms(2) by auto
  qed
  have "emits no_status h ?h" by (simp add: no_status_def)
  then have h1: "\<not> emits no_status ?h h'" using no emits_trans by blast
  from r h1 obtain key where k: "ke_GetKey R h ns name = Inr key" "ak_DeletionTimestamp key = None"
    by (auto simp: key_reconcile_def Let_def split: sum.splits if_splits dest: key_finalize_status)
  obtain a h2 where a: "add_key_finalizer R key ?h = (a, h2)" by (cases "add_key_finalizer R key ?h")
  have e2: "emits no_status ?h h2"
    using a by (auto simp: add_key_finalizer_def Let_def no_status_def emits_def split: if_splits)
  then have e: "emits no_status h h2" using \<open>emits no_status h ?h\<close> emits_trans by blast
  from r k a e2 h1 obtain stored where "a = Inr stored" and l: "key_live R stored h2 = Some ((result, err), h')"
    by (auto simp: key_reconcile_def Let_def split: sum.splits)
  have only: "k = k'" "prefix h3 (h @ cs)" if "emits no_status h2 h3" "h' = h3 @ [KPatchStatus k']" for h3 k'
  proof -
    from emits_trans [OF e that(1)] obtain ds where "h3 = h @ ds" "list_all no_status ds" by (auto simp: emits_def)
    with cs that(2) assms(2) show "k = k'" by (auto dest: no_status_append)
    show "prefix h3 (h @ cs)" using cs that(2) by (auto simp: prefix_def)
  qed
  have nl: "\<not> emits no_status h2 h'" using no e emits_trans by blast
  have pre: "prefix h g" if "emits no_status h2 g" for g using emits_trans [OF e that] by (rule emits_prefix)
  from key_live_status [OF l] nl consider
    (cond) h1 cond where "emits no_status h2 h1" "rc_status cond = ConditionFalse" "h' = h1 @ [KPatchStatus (key_reported R stored [] cond)]"
  | (verified) h1 h3 access stored cond requeue where "emits no_status h2 h1" "emits no_status h1 h3" "access \<noteq> []"
      "verifyAccepted R stored access h1 = Some ((cond, requeue), h3)" "h' = h3 @ [KPatchStatus (key_reported R stored access cond)]"
    by blast
  then show ?thesis
  proof cases
    case cond
    with only show ?thesis by blast
  next
    case verified
    from emits_trans [OF verified(1,2)] only verified(5) have "k = key_reported R stored access cond" "prefix h3 (h @ cs)" by blast+
    with pre [OF verified(1)] verified(3,4) show ?thesis by blast
  qed
qed

lemma key_reported_sel [simp]:
  "ak_Namespace (key_reported R key a c) = ak_Namespace key" "ak_Spec (key_reported R key a c) = ak_Spec key"
  "a \<noteq> [] \<Longrightarrow> akst_AccessKey (ak_Status (key_reported R key a c)) = a"
  "akst_Conditions (ak_Status (key_reported R key a c))
     = ke_SetStatusCondition R (ready_condition (ak_Generation key) c) (akst_Conditions (ak_Status key))"
  by (simp_all add: key_reported_def Let_def)

text \<open>The Ready condition an object carries.\<close>

definition key_ready :: "FSAccessKey \<Rightarrow> Condition option" where
  "key_ready key = find (\<lambda>c. cond_Type c = ConditionReady) (akst_Conditions (ak_Status key))"

lemma key_ready_reported:
  "condition_setter (ke_SetStatusCondition R) \<Longrightarrow> key_ready (key_reported R key a c) = Some (ready_condition (ak_Generation key) c)"
  by (simp add: key_ready_def condition_setter.set_find)

section \<open>Updates and creations\<close>

fun reporting_call :: "key_call \<Rightarrow> bool" where
  "reporting_call (KPatch k) = True"
| "reporting_call (KPatchStatus k) = True"
| "reporting_call c = is_read c"

lemma read_reporting: "is_read c \<Longrightarrow> reporting_call c"
  by (cases c) auto

text \<open>
  When the Secret appeared between the read and the creation, the pass goes on with the
  credential it minted and not with the one that is stored: fingerprint and status then name a
  credential that no Secret holds, until the next pass reads the stored one.
\<close>

lemma mint_lost_race:
  assumes "keygen_AccessKey (ke_Random R h) = Inr access" and "keygen_Token (ke_Random R (h @ [KRandom accessKeyBytes])) = Inr secretKey"
    and "\<And>s. ke_SetOwner R key s = None" and "\<And>h s. ke_Create R h s = Some (ApiError AlreadyExists)"
  shows "fst (mint R key cluster h) = Inr (access, secretKey)"
  using assms by (simp add: mint_def Let_def isAlreadyExists_def)

text \<open>What a pass over a live key does after it has resolved the credential.\<close>

lemma key_live_calls:
  assumes "key_live R key h = Some (res, h')"
  shows "emits reporting_call (snd (resolveCredential R key h)) h'"
proof -
  obtain r h1 where r: "resolveCredential R key h = (r, h1)" by (cases "resolveCredential R key h")
  have rep: "emits reporting_call h1 g'" if "emits reporting_call h1 g" "key_report R k a c g = (x, g')" for k a c g x g'
    using that by (auto simp: key_report_def Let_def intro: emits_snoc)
  show ?thesis
  proof (cases r)
    case (Inl cond)
    with assms r show ?thesis by (auto simp: key_live_def intro: rep [OF emits_refl])
  next
    case (Inr x)
    obtain access secret where x: "x = (access, secret)" by (cases x)
    obtain st h2 where st: "stampCredentialHash R key (credentialHash access secret) h1 = (st, h2)"
      by (cases "stampCredentialHash R key (credentialHash access secret) h1")
    then have e: "emits reporting_call h1 h2" by (auto simp: stampCredentialHash_def Let_def split: if_splits)
    have "emits reporting_call h1 h3" if "verifyAccepted R k access h2 = Some ((c, q), h3)" for k c q h3
      using verifyAccepted_cases [OF that] by (intro emits_trans [OF e]) (blast intro: emits_mono read_reporting)
    then have "emits reporting_call h1 g'"
      if "verifyAccepted R k access h2 = Some ((c, q), h3)" "key_report R k access c h3 = (y, g')" for k c q h3 y g'
      using rep that by blast
    with assms r Inr x st e show ?thesis
      by (auto simp: key_live_def split: sum.splits option.splits prod.splits)
  qed
qed

text \<open>Every node was asked between two histories, and none that answered accepts the key.\<close>

definition no_node_accepts ::
    "FSAccessKeyReconciler \<Rightarrow> key_history \<Rightarrow> key_history \<Rightarrow> FSCluster \<Rightarrow> Node list \<Rightarrow> string \<Rightarrow> string \<Rightarrow> bool" where
  "no_node_accepts R h h' cluster nodes token access \<longleftrightarrow>
     (\<forall>node \<in> set nodes. \<exists>answer. answered R h h' (node_url cluster (node_Name node)) token answer
        \<and> (\<forall>keys. answer = Some keys \<longrightarrow> access \<notin> set keys))"

lemma no_node_accepts_mono:
  "no_node_accepts R h h' c ns t a \<Longrightarrow> prefix g h \<Longrightarrow> prefix h' h'' \<Longrightarrow> no_node_accepts R g h'' c ns t a"
  unfolding no_node_accepts_def by (meson answered_mono)

text \<open>When deleting a key goes past reading what the nodes accept, the finalizer goes for one of three reasons.\<close>

lemma key_finalize_removes:
  assumes "key_finalize R key h = Some (res, h')" and "\<not> emits is_read h h'"
  shows "akst_AccessKey (ak_Status key) = []
    \<or> (\<exists>e. ke_GetCluster R h (ak_Namespace key) (aks_ClusterRef (ak_Spec key)) = Inl e \<and> isNotFound e)
    \<or> (\<exists>cluster nodes token. ke_GetCluster R h (ak_Namespace key) (aks_ClusterRef (ak_Spec key)) = Inr cluster
         \<and> Nodes cluster = Some nodes \<and> nodes \<noteq> []
         \<and> no_node_accepts R h h' cluster nodes token (akst_AccessKey (ak_Status key)))"
proof (cases "akst_AccessKey (ak_Status key) = [] \<or> \<not> fl_Contains (ke_Finalizers R) (ak_Finalizers key) accessKeyFinalizer")
  case True
  with assms show ?thesis by (auto simp: key_finalize_def Let_def)
next
  case False
  with assms(1) obtain r g where n: "nodeKeys R key h = Some (r, g)"
    by (auto simp: key_finalize_def Let_def split: option.splits)
  note e = emits_nodeKeys [OF n]
  show ?thesis
  proof (cases r)
    case (Inl x)
    obtain cond q where x: "x = (cond, q)" by (cases x)
    from assms False n Inl x e have "rc_reason cond = ReasonClusterNotFound"
      by (auto simp: key_finalize_def Let_def split: if_splits)
    with nodeKeys_cond [of R key h cond q g] n Inl x show ?thesis by auto
  next
    case (Inr ls)
    let ?acc = "\<lambda>(node :: string, keys). case keys of None \<Rightarrow> False | Some ks \<Rightarrow> akst_AccessKey (ak_Status key) \<in> set ks"
    from assms False n Inr e have "\<not> list_ex ?acc ls" and "prefix g h'"
      by (auto simp: key_finalize_def Let_def remove_key_finalizer_def key_event_def prefix_def split: if_splits)
    then have no: "(node, Some keys) \<in> set ls \<Longrightarrow> akst_AccessKey (ak_Status key) \<notin> set keys" for node keys
      by (fastforce simp: list_ex_iff)
    from nodeKeys_listed [of R key h ls g] n Inr obtain cluster nodes token where
      c: "ke_GetCluster R h (ak_Namespace key) (aks_ClusterRef (ak_Spec key)) = Inr cluster" "Nodes cluster = Some nodes" "nodes \<noteq> []"
      "\<And>node. node \<in> set nodes \<Longrightarrow> \<exists>ks. (node_Name node, ks) \<in> set ls \<and> answered R h g (node_url cluster (node_Name node)) token ks"
      by blast
    have "\<exists>answer. answered R h h' (node_url cluster (node_Name node)) token answer
        \<and> (\<forall>keys. answer = Some keys \<longrightarrow> akst_AccessKey (ak_Status key) \<notin> set keys)" if "node \<in> set nodes" for node
      using c(4) [OF that] no answered_mono [OF _ prefix_order.refl \<open>prefix g h'\<close>] by blast
    with c(1-3) show ?thesis unfolding no_node_accepts_def by blast
  qed
qed

text \<open>
  A Secret is only created when the read of it said that there is none; the rest of resolving
  the credential reads.
\<close>

definition minted_by :: "FSAccessKeyReconciler \<Rightarrow> FSAccessKey \<Rightarrow> key_history \<Rightarrow> Secret \<Rightarrow> bool" where
  "minted_by R key h s \<longleftrightarrow> (\<exists>e cluster access secretKey h1 h2.
     aks_ExistingSecretRef (ak_Spec key) \<in> {None, Some []} \<and> ke_SetOwner R key s = None
     \<and> ke_GetSecret R h (ak_Namespace key) (AccessKeySecretName key) = Inl e \<and> isNotFound e
     \<and> keygen_AccessKey (ke_Random R h1) = Inr access \<and> keygen_Token (ke_Random R h2) = Inr secretKey
     \<and> s = owned_secret key cluster access secretKey)"

definition no_create :: "key_call \<Rightarrow> bool" where
  "no_create c \<longleftrightarrow> (\<forall>owner s. c \<noteq> KCreate owner s)"

lemma no_create_simps [simp]:
  "no_create (KCreate owner s) = False" "no_create (KGetSecret ns n)" "no_create (KGetCluster ns n)" "no_create (KRandom i)"
  "no_create (KUpdate k)" "no_create (KGetKey ns n)" "no_create (KReconcileError e)" "no_create (KEvent t reason m)"
  by (simp_all add: no_create_def)

lemma reporting_no_create: "reporting_call c \<Longrightarrow> no_create c"
  by (cases c) (auto simp: no_create_def)

lemma finalizing_no_create: "finalizing_call c \<Longrightarrow> no_create c"
  by (cases c) (auto simp: no_create_def)

lemma resolveCredential_creates:
  "emits no_create h (snd (resolveCredential R key h))
   \<or> (\<exists>g s. snd (resolveCredential R key h) = g @ [KCreate (ak_Name key) s] \<and> emits no_create h g
        \<and> prefix (h @ [KGetSecret (ak_Namespace key) (AccessKeySecretName key)]) g \<and> minted_by R key h s)"
proof -
  have imp: "emits no_create h (snd (readImported R key name h))" for name
    by (auto simp: readImported_def Let_def split: sum.splits)
  have "emits no_create h (snd (ensureGenerated R key h))
   \<or> (\<exists>g s. snd (ensureGenerated R key h) = g @ [KCreate (ak_Name key) s] \<and> emits no_create h g
        \<and> prefix (h @ [KGetSecret (ak_Namespace key) (AccessKeySecretName key)]) g \<and> minted_by R key h s)"
    if "aks_ExistingSecretRef (ak_Spec key) \<in> {None, Some []}"
    using that
    by (auto simp: ensureGenerated_def mint_def Let_def emits_def minted_by_def prefix_def split: sum.splits option.splits)
  with imp show ?thesis
    by (auto simp: resolveCredential_def split: option.splits)
qed

section \<open>A benign world\<close>

text \<open>
  An instance for the concrete checks: one key and one cluster are stored, the Secrets are
  \<open>secrets\<close>, every write succeeds and every node accepts \<open>accepted\<close>.
\<close>

definition key_world ::
    "FSAccessKey \<Rightarrow> FSCluster \<Rightarrow> (string \<Rightarrow> Secret result) \<Rightarrow> string list \<Rightarrow> FSAccessKeyReconciler" where
  "key_world key cluster secrets accepted =
     \<lparr>ke_GetKey = (\<lambda>h ns n. Inr key), ke_GetSecret = (\<lambda>h ns n. secrets n), ke_GetCluster = (\<lambda>h ns n. Inr cluster),
      ke_ListKeys = (\<lambda>h ns. Inr [key]), ke_Update = (\<lambda>h k. Inr k), ke_Patch = (\<lambda>h k. Inr k),
      ke_PatchStatus = (\<lambda>h k. None), ke_SetOwner = (\<lambda>k s. None), ke_Create = (\<lambda>h s. None),
      ke_NewClient = (\<lambda>u. None), ke_AccessKeys = (\<lambda>h u t. Inr accepted),
      ke_Random = (\<lambda>h n. Inr (replicate n (CHR ''r''))), ke_SetStatusCondition = replace_condition,
      ke_Finalizers = list_finalizers, ke_Recorder = True\<rparr>"

lemma key_world_simps [simp]:
  "ke_GetKey (key_world key cluster secrets acc) = (\<lambda>h ns n. Inr key)"
  "ke_GetSecret (key_world key cluster secrets acc) = (\<lambda>h ns n. secrets n)"
  "ke_GetCluster (key_world key cluster secrets acc) = (\<lambda>h ns n. Inr cluster)"
  "ke_Update (key_world key cluster secrets acc) = (\<lambda>h k. Inr k)"
  "ke_Patch (key_world key cluster secrets acc) = (\<lambda>h k. Inr k)"
  "ke_PatchStatus (key_world key cluster secrets acc) = (\<lambda>h k. None)"
  "ke_SetOwner (key_world key cluster secrets acc) = (\<lambda>k s. None)"
  "ke_Create (key_world key cluster secrets acc) = (\<lambda>h s. None)"
  "ke_NewClient (key_world key cluster secrets acc) = (\<lambda>u. None)"
  "ke_AccessKeys (key_world key cluster secrets acc) = (\<lambda>h u t. Inr acc)"
  "ke_Random (key_world key cluster secrets acc) = (\<lambda>h n. Inr (replicate n (CHR ''r'')))"
  "ke_SetStatusCondition (key_world key cluster secrets acc) = replace_condition"
  "ke_Finalizers (key_world key cluster secrets acc) = list_finalizers"
  "ke_Recorder (key_world key cluster secrets acc) = True"
  by (simp_all add: key_world_def)

section \<open>Properties\<close>

text \<open>
  C20. An access key is reported Ready only when it works everywhere: if a pass writes a status
  with Ready=True, the key's cluster was read and has nodes, and in this very pass every node of
  it answered a listing that has the access key the status names.
\<close>

theorem key_ready_accepted:
  assumes "key_Reconcile R ns name h = Some (res, h @ cs)" and "KPatchStatus k \<in> set cs"
    and "condition_setter (ke_SetStatusCondition R)"
    and "key_ready k = Some c" and "cond_Status c = ConditionTrue"
  shows "akst_AccessKey (ak_Status k) \<noteq> []
    \<and> (\<exists>h1 cluster nodes token. ke_GetCluster R h1 (ak_Namespace k) (aks_ClusterRef (ak_Spec k)) = Inr cluster
         \<and> Nodes cluster = Some nodes \<and> nodes \<noteq> []
         \<and> (\<forall>node \<in> set nodes. \<exists>keys. answered R h (h @ cs) (node_url cluster (node_Name node)) token (Some keys)
              \<and> akst_AccessKey (ak_Status k) \<in> set keys))"
proof -
  from key_Reconcile_status [OF assms(1,2)] obtain h1 h2 access stored cond requeue where
    v: "prefix h h1" "prefix h2 (h @ cs)" "access \<noteq> []" "verifyAccepted R stored access h1 = Some ((cond, requeue), h2)"
    and k: "k = key_reported R stored access cond"
    using assms(3-5) by (auto simp: key_ready_reported)
  with assms(3-5) have "rc_status cond = ConditionTrue" by (auto simp: key_ready_reported)
  with verifyAccepted_cases [OF v(4)] obtain ls where ls: "nodeKeys R stored h1 = Some (Inr ls, h2)"
    "\<And>node keys. (node, keys) \<in> set ls \<Longrightarrow> \<exists>ks. keys = Some ks \<and> access \<in> set ks" by auto
  from nodeKeys_listed [OF ls(1)] obtain cluster nodes token where
    c: "ke_GetCluster R h1 (ak_Namespace stored) (aks_ClusterRef (ak_Spec stored)) = Inr cluster"
      "Nodes cluster = Some nodes" "nodes \<noteq> []"
      "\<And>node. node \<in> set nodes \<Longrightarrow> \<exists>ks. (node_Name node, ks) \<in> set ls
          \<and> answered R h1 h2 (node_url cluster (node_Name node)) token ks" by blast
  have "\<exists>keys. answered R h (h @ cs) (node_url cluster (node_Name node)) token (Some keys) \<and> access \<in> set keys"
    if "node \<in> set nodes" for node
    using c(4) [OF that] ls(2) v(1,2) by (blast intro: answered_mono)
  with c(1-3) v(3) show ?thesis unfolding k by (simp, blast)
qed

text \<open>A key without a finalizer, which imports nothing; the cluster has three nodes.\<close>

definition fs_key :: FSAccessKey where
  "fs_key = (sample_key ''fs'')\<lparr>ak_Finalizers := [accessKeyFinalizer]\<rparr>"

abbreviation fs_cluster :: FSCluster where
  "fs_cluster \<equiv> sample_cluster (sample_spec three_nodes 1000)"

lemma fs_cluster_nodes: "Nodes fs_cluster = Some (map (flat_node ''fs'') [0, 1, 2])"
  by (simp add: Nodes_def sample_cluster_def sample_spec_def three_nodes_def range_int_def upt_rec)

lemma credentialHash_length [simp]: "length (credentialHash a k) = 16"
  by (simp add: credentialHash_def)

lemma credentialHash_nonempty [simp]: "credentialHash a k \<noteq> []" "[] \<noteq> credentialHash a k"
  using credentialHash_length [of a k] by (metis list.size(3) zero_neq_numeral)+

lemma fs_listings:
  "\<exists>h' a b c. nodeKeys (key_world k fs_cluster (\<lambda>n. Inr (quiet_secret ''storage'' n)) accepted) key h
     = Some (Inr [(a, Some accepted), (b, Some accepted), (c, Some accepted)], h')"
  by (simp add: nodeKeys_def fs_cluster_nodes key_adminToken_def quiet_secret_def gm_str_def Let_def AdminTokenKey_def
      ClusterSecretKey_def key_adminClient_def fsclient_New_def admin_AccessKeys_def client_AccessKeys_def flat_node_def
      NodeName_def itoa_def itoa_nat_small digit_char_def gm_put_def)

theorem key_ready_accepted_witness:
  "\<exists>res cs k token keys. key_Reconcile (key_world fs_key fs_cluster (\<lambda>n. Inr (quiet_secret ''storage'' n)) [''AK'']) ''default'' ''app'' []
       = Some (res, cs) \<and> KPatchStatus k \<in> set cs \<and> key_ready k \<noteq> None \<and> akst_AccessKey (ak_Status k) = ''AK''
     \<and> answered (key_world fs_key fs_cluster (\<lambda>n. Inr (quiet_secret ''storage'' n)) [''AK'']) [] cs
         (node_url fs_cluster (NodeName ''fs'' [] 2)) token (Some keys) \<and> ''AK'' \<in> set keys"
proof -
  let ?R = "key_world fs_key fs_cluster (\<lambda>n. Inr (quiet_secret ''storage'' n)) [''AK'']"
  let ?k = "fs_key\<lparr>ak_Annotations := [(credentialHashAnnotation, credentialHash ''AK'' ''0123456789abcdef'')]\<rparr>"
  have res: "resolveCredential ?R fs_key h = (Inr (''AK'', ''0123456789abcdef''), h @ [KGetSecret ''default'' ''app-credentials''])" for h
    by (simp add: resolveCredential_def ensureGenerated_def fs_key_def sample_key_def Let_def quiet_secret_def gm_str_def
        AccessKeyKey_def SecretKeyKey_def AdminTokenKey_def ClusterSecretKey_def AccessKeySecretName_def)
  have st: "stampCredentialHash ?R fs_key (credentialHash ''AK'' ''0123456789abcdef'') h = (Inr ?k, h @ [KPatch ?k])" for h
    by (simp add: stampCredentialHash_def fs_key_def sample_key_def gm_str_def gm_put_def Let_def)
  have "\<exists>h'. verifyAccepted ?R ?k ''AK'' h
      = Some ((trueCondition ReasonKeyAccepted (msg fmt_accepted), False), h')" for h
  proof -
    from fs_listings [of fs_key "[''AK'']" ?k h] obtain h' a b c where
      "nodeKeys ?R ?k h = Some (Inr [(a, Some [''AK'']), (b, Some [''AK'']), (c, Some [''AK''])], h')" by blast
    then show ?thesis by (simp add: verifyAccepted_def missing_entry_def)
  qed
  then obtain v where v: "verifyAccepted ?R ?k ''AK'' h
      = Some ((trueCondition ReasonKeyAccepted (msg fmt_accepted), False), v h)" for h by metis
  let ?k' = "key_reported ?R ?k ''AK'' (trueCondition ReasonKeyAccepted (msg fmt_accepted))"
  have "\<exists>res cs. key_Reconcile ?R ''default'' ''app'' [] = Some (res, [] @ cs) \<and> KPatchStatus ?k' \<in> set cs"
    by (simp add: key_Reconcile_def key_reconcile_def key_live_def add_key_finalizer_def list_finalizers_def res st v key_report_def Let_def)
      (simp add: fs_key_def sample_key_def)
  then obtain res cs where run: "key_Reconcile ?R ''default'' ''app'' [] = Some (res, [] @ cs)" "KPatchStatus ?k' \<in> set cs" by blast
  have c: "key_ready ?k' = Some (ready_condition 1 (trueCondition ReasonKeyAccepted (msg fmt_accepted)))"
    by (simp add: key_ready_reported replacing.condition_setter_axioms fs_key_def sample_key_def)
  from key_ready_accepted [OF run _ c] have "\<exists>token keys. answered ?R [] cs (node_url fs_cluster (NodeName ''fs'' [] 2)) token (Some keys) \<and> ''AK'' \<in> set keys"
    by (simp add: replacing.condition_setter_axioms fs_cluster_nodes flat_node_def) blast
  with run c show ?thesis by auto
qed

text \<open>
  C22. Deleting a key revokes it before the object goes: the finalizer is taken off only in a
  pass over a key being deleted that never had an access key, or whose cluster is gone, or of
  whose cluster every node was asked in this pass and no node that answered still accepts the
  key.
\<close>

theorem key_revoked:
  assumes "key_Reconcile R ns name h = Some (res, h @ cs)" and "KUpdate k \<in> set cs"
    and "finalizer_ops (ke_Finalizers R)" and "accessKeyFinalizer \<notin> set (ak_Finalizers k)"
  shows "\<exists>key. ke_GetKey R h ns name = Inr key \<and> ak_DeletionTimestamp key \<noteq> None
    \<and> (akst_AccessKey (ak_Status key) = []
       \<or> (\<exists>h1 e. ke_GetCluster R h1 (ak_Namespace key) (aks_ClusterRef (ak_Spec key)) = Inl e \<and> isNotFound e)
       \<or> (\<exists>h1 cluster nodes token. ke_GetCluster R h1 (ak_Namespace key) (aks_ClusterRef (ak_Spec key)) = Inr cluster
            \<and> Nodes cluster = Some nodes \<and> nodes \<noteq> []
            \<and> no_node_accepts R h (h @ cs) cluster nodes token (akst_AccessKey (ak_Status key))))"
proof -
  let ?h = "h @ [KGetKey ns name]"
  from assms(1) obtain result err h' where r: "key_reconcile R ns name h = Some ((result, err), h')"
    and cs: "h @ cs = h' \<or> h @ cs = h' @ [KReconcileError ''fsaccesskey'']"
    by (auto simp: key_Reconcile_def split: option.splits if_splits)
  have not_kept: "\<not> emits (\<lambda>c. c \<noteq> KUpdate k) h h'"
  proof
    assume "emits (\<lambda>c. c \<noteq> KUpdate k) h h'"
    then obtain ds where "h' = h @ ds" "list_all (\<lambda>c. c \<noteq> KUpdate k) ds" by (auto simp: emits_def)
    with cs assms(2) show False by (auto simp: list_all_iff)
  qed
  have h1: "emits (\<lambda>c. c \<noteq> KUpdate k) h ?h" by simp
  from r not_kept h1 obtain key where key: "ke_GetKey R h ns name = Inr key"
    by (auto simp: key_reconcile_def Let_def split: sum.splits)
  have "ak_DeletionTimestamp key \<noteq> None"
  proof
    assume live: "ak_DeletionTimestamp key = None"
    obtain a h2 where a: "add_key_finalizer R key ?h = (a, h2)" by (cases "add_key_finalizer R key ?h")
    have "accessKeyFinalizer \<in> set (fl_Add (ke_Finalizers R) accessKeyFinalizer fs)" for fs
      using finalizer_ops.add [OF assms(3)] by simp
    with assms(4) a have "emits (\<lambda>c. c \<noteq> KUpdate k) ?h h2"
      by (auto simp: add_key_finalizer_def Let_def emits_def split: if_splits)
    then have h2: "emits (\<lambda>c. c \<noteq> KUpdate k) h h2" using h1 emits_trans by blast
    have "emits (\<lambda>c. c \<noteq> KUpdate k) h2 h'" if "key_live R stored h2 = Some ((result, err), h')" for stored
      by (rule emits_trans [OF emits_mono [OF emits_resolveCredential] emits_mono [OF key_live_calls [OF that]]]) auto
    with r key live a h2 have "emits (\<lambda>c. c \<noteq> KUpdate k) h h'"
      by (auto simp: key_reconcile_def Let_def split: sum.splits intro: emits_trans)
    with not_kept show False ..
  qed
  with r key have f: "key_finalize R key ?h = Some ((result, err), h')"
    by (auto simp: key_reconcile_def Let_def)
  have kept: "\<not> emits is_read ?h h'"
    using not_kept h1 by (auto intro: emits_trans [OF h1 emits_mono])
  have "prefix h ?h" "prefix h' (h @ cs)" using cs by (auto simp: prefix_def)
  then have "no_node_accepts R ?h h' c ns t a \<Longrightarrow> no_node_accepts R h (h @ cs) c ns t a" for c ns t a
    by (rule no_node_accepts_mono [rotated])
  with key_finalize_removes [OF f kept] key \<open>ak_DeletionTimestamp key \<noteq> None\<close> show ?thesis by blast
qed

text \<open>A key being deleted that no node accepts any more.\<close>

definition leaving_key :: FSAccessKey where
  "leaving_key = fs_key\<lparr>ak_DeletionTimestamp := Some 5, ak_Status := (ak_Status fs_key)\<lparr>akst_AccessKey := ''AKgone''\<rparr>\<rparr>"

theorem key_revoked_witness:
  "\<exists>res cs k token answer. key_Reconcile (key_world leaving_key fs_cluster (\<lambda>n. Inr (quiet_secret ''storage'' n)) [''AK'']) ''default'' ''app'' []
       = Some (res, cs) \<and> KUpdate k \<in> set cs \<and> accessKeyFinalizer \<notin> set (ak_Finalizers k)
     \<and> answered (key_world leaving_key fs_cluster (\<lambda>n. Inr (quiet_secret ''storage'' n)) [''AK'']) [] cs
         (node_url fs_cluster (NodeName ''fs'' [] 1)) token answer \<and> answer \<noteq> Some [''AKgone'']"
proof -
  let ?R = "key_world leaving_key fs_cluster (\<lambda>n. Inr (quiet_secret ''storage'' n)) [''AK'']"
  let ?k = "leaving_key\<lparr>ak_Finalizers := []\<rparr>"
  have k: "ak_DeletionTimestamp leaving_key \<noteq> None" "ak_Finalizers leaving_key = [accessKeyFinalizer]"
    "akst_AccessKey (ak_Status leaving_key) = ''AKgone''" by (simp_all add: leaving_key_def fs_key_def)
  from fs_listings [of leaving_key "[''AK'']" leaving_key "[KGetKey ''default'' ''app'']"] obtain h' a b c where
    n: "nodeKeys ?R leaving_key [KGetKey ''default'' ''app''] = Some (Inr [(a, Some [''AK'']), (b, Some [''AK'']), (c, Some [''AK''])], h')" by blast
  from emits_prefix [OF emits_nodeKeys [OF n]] obtain g where "h' = KGetKey ''default'' ''app'' # g" by (auto simp: prefix_def)
  then have "\<exists>res cs. key_Reconcile ?R ''default'' ''app'' [] = Some (res, [] @ cs) \<and> KUpdate ?k \<in> set cs"
    using k(1) by (simp add: key_Reconcile_def key_reconcile_def key_finalize_def k(2,3) n list_finalizers_def remove_key_finalizer_def key_event_def Let_def)
  then obtain res cs where run: "key_Reconcile ?R ''default'' ''app'' [] = Some (res, [] @ cs)" "KUpdate ?k \<in> set cs" by blast
  have "\<exists>token answer. answered ?R [] cs (node_url fs_cluster (NodeName ''fs'' [] 1)) token answer \<and> answer \<noteq> Some [''AKgone'']"
    using key_revoked [OF run] k(3)
    by (simp add: listed_finalizers.finalizer_ops_axioms fs_cluster_nodes flat_node_def no_node_accepts_def) fastforce
  with run show ?thesis by auto
qed

text \<open>
  What the API server stores for a Secret that is created with string data: the string data is
  merged into the data.
\<close>

definition stored_secret :: "Secret \<Rightarrow> Secret" where
  "stored_secret s = s\<lparr>sec_Data := gm_copy (sec_Data s) (sec_StringData s), sec_StringData := []\<rparr>"

lemma minted_rendered:
  assumes "minted_by R key h s" and "\<forall>h n buf. ke_Random R h n = Inr buf \<longrightarrow> length buf = n"
  shows "\<exists>access secretKey. key_of key (stored_secret s) = Some \<lparr>key_AccessKey = access, key_SecretKey = secretKey,
      key_Grants = GrantsToConfig (aks_Grants (ak_Spec key))\<rparr> \<and> take 2 access = ''AK'' \<and> length secretKey = 43"
proof -
  from assms(1) obtain cluster access secretKey h1 h2 where m: "keygen_AccessKey (ke_Random R h1) = Inr access"
    "keygen_Token (ke_Random R h2) = Inr secretKey" "s = owned_secret key cluster access secretKey"
    by (auto simp: minted_by_def)
  have "take 2 access = ''AK''" using m(1) by (auto simp: keygen_AccessKey_def accessKeyPrefix_def split: sum.splits)
  moreover from this have "access \<noteq> []" by auto
  moreover have "length secretKey = 43"
    using m(2) assms(2) by (auto simp: keygen_Token_def base64_RawURL_def b64_groups_length tokenBytes_def split: sum.splits)
  moreover have "gm_str (sec_Data (stored_secret s)) AccessKeyKey = access" "gm_str (sec_Data (stored_secret s)) SecretKeyKey = secretKey"
    by (simp_all add: m(3) stored_secret_def owned_secret_def gm_copy_def gm_str_def AccessKeyKey_def SecretKeyKey_def EndpointKey_def)
  ultimately show ?thesis by (simp add: key_of_def MinSecretKeyLength_def)
qed

text \<open>A pass that creates a Secret is one of a live key, and only the resolving of its credential creates.\<close>

lemma key_Reconcile_creates:
  assumes "key_Reconcile R ns name h = Some (res, h @ cs)" and "KCreate owner s \<in> set cs"
    and "ke_GetKey R h ns name = Inr key0" and "fst (add_key_finalizer R key0 (h @ [KGetKey ns name])) = Inr key"
  obtains h2 result err h' where "ak_DeletionTimestamp key0 = None" "key_live R key h2 = Some ((result, err), h')"
    "emits no_create h h2" "h @ cs = h' \<or> h @ cs = h' @ [KReconcileError ''fsaccesskey'']" "\<not> emits no_create h h'"
proof -
  let ?h = "h @ [KGetKey ns name]"
  from assms(1) obtain result err h' where r: "key_reconcile R ns name h = Some ((result, err), h')"
    and cs: "h @ cs = h' \<or> h @ cs = h' @ [KReconcileError ''fsaccesskey'']"
    by (auto simp: key_Reconcile_def split: option.splits if_splits)
  have not_kept: "\<not> emits no_create h h'"
  proof
    assume "emits no_create h h'"
    then obtain ds where "h' = h @ ds" "list_all no_create ds" by (auto simp: emits_def)
    moreover from this cs assms(2) have "KCreate owner s \<in> set ds" by auto
    ultimately have "no_create (KCreate owner s)" by (simp only: list_all_iff)
    then show False by simp
  qed
  have h1: "emits no_create h ?h" by simp
  have fin: "emits no_create g g'" if "key_finalize R k g = Some (x, g')" for k g x g'
    using key_finalize_calls [OF that] by (blast intro: emits_mono finalizing_no_create)
  have "\<not> emits no_create ?h h'" using not_kept emits_trans [OF h1] by blast
  then have key: "ke_GetKey R h ns name = Inr key0" "ak_DeletionTimestamp key0 = None"
    using r assms(3) by (auto simp: key_reconcile_def Let_def split: sum.splits if_splits dest: fin)
  obtain a h2 where a: "add_key_finalizer R key0 ?h = (a, h2)" by (cases "add_key_finalizer R key0 ?h")
  have "emits no_create ?h h2" using a by (auto simp: add_key_finalizer_def Let_def emits_def split: if_splits)
  with h1 have h2: "emits no_create h h2" by (rule emits_trans)
  have l: "key_live R key h2 = Some ((result, err), h')"
    using r key a assms(4) by (auto simp: key_reconcile_def Let_def)
  from that [OF key(2) l h2 cs not_kept] show thesis .
qed

text \<open>
  C25. A credential is minted once and rendered as minted. Let \<open>key\<close> be the key a pass is about, as stored
  once it has its finalizer. The pass creates a Secret at most once, only when this key imports
  none, and only after the read of that very Secret, in this pass, said that it does not
  exist; a Secret that exists is never written. What it creates is owned by this key, lies in its
  namespace under the name where the FSCluster controller looks for the key's credential, and gives
  there a complete configuration entry with the grants of the key and a secret of 43 characters.
\<close>

theorem credential_minted_once:
  assumes "key_Reconcile R ns name h = Some (res, h @ cs)" and "KCreate owner s \<in> set cs"
    and "\<forall>h n buf. ke_Random R h n = Inr buf \<longrightarrow> length buf = n"
    and "ke_GetKey R h ns name = Inr key0" and "fst (add_key_finalizer R key0 (h @ [KGetKey ns name])) = Inr key"
  shows "filter (\<lambda>c. \<not> no_create c) cs = [KCreate owner s]
    \<and> aks_ExistingSecretRef (ak_Spec key) \<in> {None, Some []} \<and> ak_DeletionTimestamp key0 = None
    \<and> owner = ak_Name key \<and> ke_SetOwner R key s = None
    \<and> sec_Namespace s = ak_Namespace key \<and> sec_Name s = AccessKeySecretSource key
    \<and> (\<exists>h1 e access secretKey. prefix h h1 \<and> prefix (h1 @ [KGetSecret (ak_Namespace key) (sec_Name s)]) (h @ cs)
         \<and> ke_GetSecret R h1 (ak_Namespace key) (sec_Name s) = Inl e \<and> isNotFound e
         \<and> key_of key (stored_secret s) = Some \<lparr>key_AccessKey = access, key_SecretKey = secretKey,
             key_Grants = GrantsToConfig (aks_Grants (ak_Spec key))\<rparr> \<and> length secretKey = 43)"
proof -
  obtain h2 result err h' where key: "ak_DeletionTimestamp key0 = None" and l: "key_live R key h2 = Some ((result, err), h')"
    and h2: "emits no_create h h2" and cs: "h @ cs = h' \<or> h @ cs = h' @ [KReconcileError ''fsaccesskey'']"
    and not_kept: "\<not> emits no_create h h'"
    by (rule key_Reconcile_creates [OF assms(1,2,4,5)])
  let ?h3 = "snd (resolveCredential R key h2)"
  have h3: "emits no_create ?h3 h'" using key_live_calls [OF l] by (blast intro: emits_mono reporting_no_create)
  with h2 not_kept have "\<not> emits no_create h2 ?h3" by (blast intro: emits_trans)
  with resolveCredential_creates [of h2 R key] obtain g s' where g: "?h3 = g @ [KCreate (ak_Name key) s']" "emits no_create h2 g"
    "prefix (h2 @ [KGetSecret (ak_Namespace key) (AccessKeySecretName key)]) g" "minted_by R key h2 s'" by blast
  from emits_trans [OF h2 g(2)] obtain gs where gs: "g = h @ gs" "list_all no_create gs" by (auto simp: emits_def)
  from h3 obtain ts where ts: "h' = ?h3 @ ts" "list_all no_create ts" by (auto simp: emits_def)
  have "filter (\<lambda>c. \<not> no_create c) xs = []" if "list_all no_create xs" for xs using that by (auto simp: list_all_iff)
  with cs gs ts g(1) have f: "filter (\<lambda>c. \<not> no_create c) cs = [KCreate (ak_Name key) s']" by auto
  moreover have "KCreate owner s \<in> set (filter (\<lambda>c. \<not> no_create c) cs)" using assms(2) by simp
  ultimately have os: "owner = ak_Name key" "s = s'" by auto
  have "prefix g (h @ cs)" using cs ts(1) g(1) by (auto simp: prefix_def)
  with g(3) have "prefix (h2 @ [KGetSecret (ak_Namespace key) (AccessKeySecretName key)]) (h @ cs)" by (rule prefix_order.trans)
  moreover have "sec_Name s = AccessKeySecretName key" "sec_Namespace s = ak_Namespace key" "ke_SetOwner R key s = None"
    "AccessKeySecretSource key = AccessKeySecretName key" "aks_ExistingSecretRef (ak_Spec key) \<in> {None, Some []}"
    "\<exists>e. ke_GetSecret R h2 (ak_Namespace key) (AccessKeySecretName key) = Inl e \<and> isNotFound e"
    using g(4) os by (auto simp: minted_by_def owned_secret_def AccessKeySecretSource_def)
  moreover note minted_rendered [OF g(4) assms(3)] emits_prefix [OF h2] f os key
  ultimately show ?thesis by metis
qed

theorem credential_minted_once_witness:
  "\<exists>res cs s. key_Reconcile (key_world fs_key fs_cluster (\<lambda>n. Inl (ApiError NotFound)) []) ''default'' ''app'' []
       = Some (res, cs) \<and> KCreate ''app'' s \<in> set cs \<and> filter (\<lambda>c. \<not> no_create c) cs = [KCreate ''app'' s]
     \<and> sec_Name s = ''app-credentials''"
proof -
  let ?R = "key_world fs_key fs_cluster (\<lambda>n. Inl (ApiError NotFound)) []"
  have key: "ak_DeletionTimestamp fs_key = None" "ak_Finalizers fs_key = [accessKeyFinalizer]" "ak_Name fs_key = ''app''"
    "AccessKeySecretName fs_key = ''app-credentials''" "aks_ExistingSecretRef (ak_Spec fs_key) = None"
    by (simp_all add: fs_key_def sample_key_def AccessKeySecretName_def)
  have "\<exists>a k h'. resolveCredential ?R fs_key h = (Inr (a, k), h') \<and> KCreate ''app'' (owned_secret fs_key fs_cluster a k) \<in> set h'" for h
    by (simp add: resolveCredential_def ensureGenerated_def mint_def key keygen_AccessKey_def keygen_Token_def Let_def)
  then obtain a k h1 where r: "resolveCredential ?R fs_key [KGetKey ''default'' ''app''] = (Inr (a, k), h1)"
    "KCreate ''app'' (owned_secret fs_key fs_cluster a k) \<in> set h1" by blast
  have "\<exists>cond q h'. verifyAccepted ?R stored a h = Some ((cond, q), h')" for stored h
    by (simp add: verifyAccepted_def nodeKeys_def fs_cluster_nodes key_adminToken_def Let_def) blast
  then obtain vc vq vh where v: "verifyAccepted ?R stored a h = Some ((vc stored h, vq stored h), vh stored h)" for stored h
    by metis
  have "\<exists>res h'. key_live ?R fs_key [KGetKey ''default'' ''app''] = Some (res, h')"
    by (simp add: key_live_def r(1) stampCredentialHash_def key_report_def v Let_def)
  then obtain res h' where l: "key_live ?R fs_key [KGetKey ''default'' ''app''] = Some (res, h')" by blast
  have "emits reporting_call h1 h'" using key_live_calls [OF l] r(1) by simp
  then have "KCreate ''app'' (owned_secret fs_key fs_cluster a k) \<in> set h'" using r(2) by (auto simp: emits_def)
  moreover have "\<exists>cs. key_Reconcile ?R ''default'' ''app'' [] = Some (res, [] @ cs) \<and> set h' \<subseteq> set cs"
    by (cases res) (auto simp: key_Reconcile_def key_reconcile_def add_key_finalizer_def list_finalizers_def key l)
  ultimately obtain cs where run: "key_Reconcile ?R ''default'' ''app'' [] = Some (res, [] @ cs)"
    "KCreate ''app'' (owned_secret fs_key fs_cluster a k) \<in> set cs" by blast
  from credential_minted_once [OF run, of fs_key fs_key] key have "filter (\<lambda>c. \<not> no_create c) cs = [KCreate ''app'' (owned_secret fs_key fs_cluster a k)]" by (simp add: add_key_finalizer_def list_finalizers_def)
  with run show ?thesis by (auto simp: owned_secret_def key)
qed

end
