(* ===== verification/Bucket_Controller.thy ===== *)
theory Bucket_Controller
  imports Key_Controller
begin

text \<open>
  The FSBucket controller, \<open>internal/controller/fsbucket_controller.go\<close>: it makes sure the S3 bucket
  exists in the referenced cluster, applies the bucket's scheme and honours the reclaim policy
  when the object is deleted. The S3 client (minio), the admin API and the API server are answers
  of the environment.
\<close>

section \<open>The environment\<close>

datatype bucket_call =
    BGetBucket string string
  | BGetCluster string string
  | BGetSecret string string
  | BUpdate FSBucket
  | BPatchStatus FSBucket
  | BEvent event_type string message
  | BBucketExists string
  | BMakeBucket string
  | BRemoveBucket string
  | BGetScheme string string
  | BSetScheme string string string
  | BReconcileError string

type_synonym bucket_history = "bucket_call list"

text \<open>An S3 client: its endpoint, its credentials and whether it uses TLS.\<close>

record S3Client =
  s3c_endpoint :: string
  s3c_access :: string
  s3c_secret :: string
  s3c_secure :: bool

record FSBucketReconciler =
  be_GetBucket :: "bucket_history \<Rightarrow> string \<Rightarrow> string \<Rightarrow> FSBucket result"
  be_GetCluster :: "bucket_history \<Rightarrow> string \<Rightarrow> string \<Rightarrow> FSCluster result"
  be_GetSecret :: "bucket_history \<Rightarrow> string \<Rightarrow> string \<Rightarrow> Secret result"
  be_Update :: "bucket_history \<Rightarrow> FSBucket \<Rightarrow> FSBucket result"
  be_PatchStatus :: "bucket_history \<Rightarrow> FSBucket \<Rightarrow> error option"
  be_NewS3 :: "S3Client \<Rightarrow> error option"
  be_BucketExists :: "bucket_history \<Rightarrow> S3Client \<Rightarrow> string \<Rightarrow> bool result"
  be_MakeBucket :: "bucket_history \<Rightarrow> S3Client \<Rightarrow> string \<Rightarrow> error option"
  be_RemoveBucket :: "bucket_history \<Rightarrow> S3Client \<Rightarrow> string \<Rightarrow> error option"
  be_ErrorCode :: "error \<Rightarrow> string"
  be_NewClient :: "string \<Rightarrow> error option"
  be_GetScheme :: "bucket_history \<Rightarrow> Client \<Rightarrow> string \<Rightarrow> string result"
  be_SetScheme :: "bucket_history \<Rightarrow> Client \<Rightarrow> string \<Rightarrow> string \<Rightarrow> string result"
  be_SetStatusCondition :: "Condition \<Rightarrow> Condition list \<Rightarrow> Condition list"
  be_Finalizers :: finalizer_lib
  be_Recorder :: bool

definition bucketFinalizer :: string where "bucketFinalizer = ''fs.go-faster.org/bucket''"

definition fmt_get_cluster :: string where "fmt_get_cluster = ''get cluster''"
definition fmt_root_credentials :: string where "fmt_root_credentials = ''get root credentials''"
definition fmt_root_incomplete :: string where "fmt_root_incomplete = ''root credentials secret %q is incomplete''"
definition fmt_build_s3 :: string where "fmt_build_s3 = ''build s3 client''"
definition fmt_admin_token :: string where "fmt_admin_token = ''get admin token''"
definition fmt_check_bucket :: string where "fmt_check_bucket = ''check bucket''"
definition fmt_create_bucket :: string where "fmt_create_bucket = ''create bucket''"
definition fmt_delete_bucket :: string where "fmt_delete_bucket = ''delete bucket''"
definition fmt_created_bucket :: string where "fmt_created_bucket = ''created S3 bucket %s''"
definition fmt_deleted_bucket :: string where "fmt_deleted_bucket = ''deleted S3 bucket %s''"
definition fmt_refusing_bucket :: string where "fmt_refusing_bucket = ''refusing to delete non-empty bucket %s''"
definition fmt_not_empty :: string where
  "fmt_not_empty = ''bucket %s is not empty; empty it or set reclaimPolicy: Retain''"
definition fmt_single_scheme :: string where
  "fmt_single_scheme = ''spec.scheme is not available on a single-node cluster: it has no layout to spread over''"
definition fmt_admin_unreachable :: string where "fmt_admin_unreachable = ''cluster admin not reachable yet''"
definition fmt_bucket_ready :: string where "fmt_bucket_ready = ''bucket ready''"

type_synonym bucket_outcome = "(Result \<times> error option) \<times> bucket_history"

section \<open>Clients\<close>

definition isBucketNotEmpty :: "FSBucketReconciler \<Rightarrow> error \<Rightarrow> bool" where
  "isBucketNotEmpty R e \<longleftrightarrow> be_ErrorCode R e = ''BucketNotEmpty''"

definition isBucketNotFound :: "FSBucketReconciler \<Rightarrow> error \<Rightarrow> bool" where
  "isBucketNotFound R e \<longleftrightarrow> be_ErrorCode R e = ''NoSuchBucket''"

definition newMinioClient :: "FSBucketReconciler \<Rightarrow> string \<Rightarrow> string \<Rightarrow> string \<Rightarrow> bool \<Rightarrow> S3Client result" where
  "newMinioClient R endpoint access secret secure =
     (let c = \<lparr>s3c_endpoint = endpoint, s3c_access = access, s3c_secret = secret, s3c_secure = secure\<rparr>
      in case be_NewS3 R c of Some e \<Rightarrow> Inl (Wrap e fmt_build_s3 []) | None \<Rightarrow> Inr c)"

definition s3For :: "FSBucketReconciler \<Rightarrow> FSCluster \<Rightarrow> bucket_history \<Rightarrow> S3Client result \<times> bucket_history" where
  "s3For R cluster h =
     (let name = RootCredentialsSource cluster; h' = h @ [BGetSecret (fsc_Namespace cluster) name]
      in case be_GetSecret R h (fsc_Namespace cluster) name of
           Inl e \<Rightarrow> (Inl (Wrap e fmt_root_credentials []), h')
         | Inr secret \<Rightarrow>
             (let access = gm_str (sec_Data secret) AccessKeyKey;
                  secretKey = gm_str (sec_Data secret) SecretKeyKey
              in if access = [] \<or> secretKey = [] then (Inl (NewError fmt_root_incomplete [name]), h')
                 else (newMinioClient R
                         (ClientServiceName (fsc_Name cluster) @ ''.'' @ fsc_Namespace cluster @ ''.svc:'' @ itoa S3Port)
                         access secretKey (tls_SecretName (s3_TLS (spec_S3 (fsc_Spec cluster))) \<noteq> []), h')))"

text \<open>\<open>clusterAdmin\<close>: \<open>None\<close> is the panic of \<open>Nodes\<close>.\<close>

definition bucket_adminClient :: "FSBucketReconciler \<Rightarrow> string \<Rightarrow> string \<Rightarrow> Client result" where
  "bucket_adminClient R baseURL token = fsclient_New (be_NewClient R) baseURL token DefaultTimeout"

definition clusterAdmin :: "FSBucketReconciler \<Rightarrow> FSCluster \<Rightarrow> bucket_history \<Rightarrow> (Client result \<times> bucket_history) option" where
  "clusterAdmin R cluster h = (case Nodes cluster of
      None \<Rightarrow> None
    | Some [] \<Rightarrow> Some (Inl (NewError fmt_no_nodes []), h)
    | Some (node # nodes) \<Rightarrow>
        (let name = AdminTokenSecretName (fsc_Name cluster); h' = h @ [BGetSecret (fsc_Namespace cluster) name]
         in case be_GetSecret R h (fsc_Namespace cluster) name of
              Inl e \<Rightarrow> Some (Inl (Wrap e fmt_admin_token []), h')
            | Inr secret \<Rightarrow>
                (let token = gm_str (sec_Data secret) AdminTokenKey
                 in if token = [] then Some (Inl (NewError fmt_token_key [name, AdminTokenKey]), h')
                    else Some (bucket_adminClient R
                           (AdminURL (fsc_Name cluster) (fsc_Namespace cluster) (node_Name node)) token, h'))))"

section \<open>Reporting\<close>

definition bucket_event :: "FSBucketReconciler \<Rightarrow> event_type \<Rightarrow> string \<Rightarrow> message \<Rightarrow> bucket_history \<Rightarrow> bucket_history" where
  "bucket_event R t reason m h = (if be_Recorder R then h @ [BEvent t reason m] else h)"

definition bucket_reported :: "FSBucketReconciler \<Rightarrow> FSBucket \<Rightarrow> string \<Rightarrow> readyCondition \<Rightarrow> FSBucket" where
  "bucket_reported R bucket scheme cond =
     (let st = fsb_Status bucket
      in bucket\<lparr>fsb_Status := st\<lparr>bst_ObservedGeneration := fsb_Generation bucket,
           bst_Scheme := if scheme \<noteq> [] then scheme else bst_Scheme st,
           bst_Conditions := be_SetStatusCondition R (ready_condition (fsb_Generation bucket) cond) (bst_Conditions st)\<rparr>\<rparr>)"

definition bucket_report ::
    "FSBucketReconciler \<Rightarrow> FSBucket \<Rightarrow> string \<Rightarrow> readyCondition \<Rightarrow> bool \<Rightarrow> bucket_history \<Rightarrow> bucket_outcome" where
  "bucket_report R bucket scheme cond requeue h =
     (let bucket' = bucket_reported R bucket scheme cond; h' = h @ [BPatchStatus bucket']
      in case be_PatchStatus R h bucket' of
           Some e \<Rightarrow> ((no_result, Some (Wrap e fmt_status [])), h')
         | None \<Rightarrow> ((if requeue then \<lparr>res_RequeueAfter = requeueAfterPending\<rparr> else no_result, None), h'))"

section \<open>The scheme\<close>

definition reconcileScheme ::
    "FSBucketReconciler \<Rightarrow> FSCluster \<Rightarrow> string \<Rightarrow> string \<Rightarrow> bucket_history
     \<Rightarrow> ((string \<times> readyCondition option \<times> bool) \<times> bucket_history) option" where
  "reconcileScheme R cluster bucket scheme h =
     (if SingleNode (fsc_Spec cluster)
      then Some (([], if scheme \<noteq> [] then Some (falseCondition ReasonSchemeRejected (msg fmt_single_scheme)) else None, False), h)
      else (case clusterAdmin R cluster h of
          None \<Rightarrow> None
        | Some (Inl e, h1) \<Rightarrow> Some (([], Some (falseCondition ReasonClusterNotReady (err_message e)), True), h1)
        | Some (Inr admin, h1) \<Rightarrow>
            (case (if scheme = []
                   then (client_GetBucketScheme (be_GetScheme R h1 admin bucket), h1 @ [BGetScheme (cl_baseURL admin) bucket])
                   else (client_SetBucketScheme (be_SetScheme R h1 admin bucket scheme),
                         h1 @ [BSetScheme (cl_baseURL admin) bucket scheme])) of
               (Inl e, h2) \<Rightarrow>
                 if errors_Is e ErrSchemeRejected
                 then Some (([], Some (falseCondition ReasonSchemeRejected (err_message e)), False), h2)
                 else Some (([], Some (falseCondition ReasonClusterNotReady (msg fmt_admin_unreachable)), True), h2)
             | (Inr effective, h2) \<Rightarrow> Some ((effective, None, False), h2))))"

section \<open>Deleting\<close>

definition remove_bucket_finalizer :: "FSBucketReconciler \<Rightarrow> FSBucket \<Rightarrow> bucket_history \<Rightarrow> bucket_outcome" where
  "remove_bucket_finalizer R bucket h =
     (let bucket' = bucket\<lparr>fsb_Finalizers := fl_Remove (be_Finalizers R) bucketFinalizer (fsb_Finalizers bucket)\<rparr>
      in ((no_result, case be_Update R h bucket' of Inl e \<Rightarrow> Some (Wrap e fmt_remove_finalizer []) | Inr stored \<Rightarrow> None),
          h @ [BUpdate bucket']))"

definition bucket_finalize ::
    "FSBucketReconciler \<Rightarrow> FSBucket \<Rightarrow> string \<Rightarrow> FSCluster result \<Rightarrow> bucket_history \<Rightarrow> bucket_outcome" where
  "bucket_finalize R bucket name cluster h =
     (if \<not> fl_Contains (be_Finalizers R) (fsb_Finalizers bucket) bucketFinalizer then ((no_result, None), h)
      else if bs_ReclaimPolicy (fsb_Spec bucket) \<noteq> ReclaimDelete then remove_bucket_finalizer R bucket h
      else (case cluster of
          Inl clusterErr \<Rightarrow> remove_bucket_finalizer R bucket h
        | Inr c \<Rightarrow> (case s3For R c h of
            (Inl e, h1) \<Rightarrow> bucket_report R bucket [] (falseCondition ReasonClusterNotReady (err_message e)) True h1
          | (Inr s3, h1) \<Rightarrow>
              (let h2 = h1 @ [BRemoveBucket name];
                   deleted = remove_bucket_finalizer R bucket
                     (bucket_event R Normal ''Deleted'' (Sprintf fmt_deleted_bucket [AS name]) h2)
               in case be_RemoveBucket R h1 s3 name of
                    None \<Rightarrow> deleted
                  | Some e \<Rightarrow>
                      if isBucketNotFound R e then deleted
                      else if isBucketNotEmpty R e
                      then bucket_report R bucket []
                             (falseCondition ReasonBucketNotEmpty (Sprintf fmt_not_empty [AS name])) True
                             (bucket_event R Warning ''BucketNotEmpty'' (Sprintf fmt_refusing_bucket [AS name]) h2)
                      else bucket_report R bucket []
                             (falseCondition ReasonBucketError (err_message (Wrap e fmt_delete_bucket []))) True h2))))"

section \<open>Reconcile\<close>

definition add_bucket_finalizer :: "FSBucketReconciler \<Rightarrow> FSBucket \<Rightarrow> bucket_history \<Rightarrow> FSBucket result \<times> bucket_history" where
  "add_bucket_finalizer R bucket h =
     (if fl_Contains (be_Finalizers R) (fsb_Finalizers bucket) bucketFinalizer then (Inr bucket, h)
      else
        (let bucket' = bucket\<lparr>fsb_Finalizers := fl_Add (be_Finalizers R) bucketFinalizer (fsb_Finalizers bucket)\<rparr>
         in (case be_Update R h bucket' of Inl e \<Rightarrow> Inl (Wrap e fmt_add_finalizer []) | Inr stored \<Rightarrow> Inr stored,
             h @ [BUpdate bucket'])))"

text \<open>Making sure the bucket exists: the condition that says why it does not, if so.\<close>

definition ensure_bucket ::
    "FSBucketReconciler \<Rightarrow> S3Client \<Rightarrow> string \<Rightarrow> bucket_history \<Rightarrow> readyCondition option \<times> bucket_history" where
  "ensure_bucket R s3 name h =
     (let h1 = h @ [BBucketExists name]
      in case be_BucketExists R h s3 name of
           Inl e \<Rightarrow> (Some (falseCondition ReasonClusterNotReady (err_message (Wrap e fmt_check_bucket []))), h1)
         | Inr True \<Rightarrow> (None, h1)
         | Inr False \<Rightarrow>
             (case be_MakeBucket R h1 s3 name of
                Some e \<Rightarrow> (Some (falseCondition ReasonClusterNotReady (err_message (Wrap e fmt_create_bucket []))),
                          h1 @ [BMakeBucket name])
              | None \<Rightarrow> (None, bucket_event R Normal ''Created'' (Sprintf fmt_created_bucket [AS name]) (h1 @ [BMakeBucket name]))))"

text \<open>The pass over a bucket that is not being deleted; \<open>name\<close> was read before the finalizer was added.\<close>

definition bucket_live ::
    "FSBucketReconciler \<Rightarrow> FSBucket \<Rightarrow> string \<Rightarrow> FSCluster result \<Rightarrow> bucket_history \<Rightarrow> bucket_outcome option" where
  "bucket_live R bucket name cluster h = (case cluster of
      Inl clusterErr \<Rightarrow>
        if isNotFound clusterErr
        then Some (bucket_report R bucket [] (falseCondition ReasonClusterNotFound
               (Sprintf fmt_cluster_not_found [AS (bs_ClusterRef (fsb_Spec bucket))])) True h)
        else Some ((no_result, Some (Wrap clusterErr fmt_get_cluster [])), h)
    | Inr c \<Rightarrow> (case s3For R c h of
        (Inl e, h1) \<Rightarrow> Some (bucket_report R bucket [] (falseCondition ReasonClusterNotReady (err_message e)) True h1)
      | (Inr s3, h1) \<Rightarrow> (case ensure_bucket R s3 name h1 of
          (Some cond, h2) \<Rightarrow> Some (bucket_report R bucket [] cond True h2)
        | (None, h2) \<Rightarrow> (case reconcileScheme R c name (bs_Scheme (fsb_Spec bucket)) h2 of
            None \<Rightarrow> None
          | Some ((effective, Some cond, requeue), h3) \<Rightarrow> Some (bucket_report R bucket effective cond requeue h3)
          | Some ((effective, None, requeue), h3) \<Rightarrow>
              Some (bucket_report R bucket effective (trueCondition ReasonBucketReady (msg fmt_bucket_ready)) False h3)))))"

definition bucket_name :: "FSBucket \<Rightarrow> string" where
  "bucket_name bucket = (if bs_BucketName (fsb_Spec bucket) = [] then fsb_Name bucket else bs_BucketName (fsb_Spec bucket))"

definition bucket_reconcile :: "FSBucketReconciler \<Rightarrow> string \<Rightarrow> string \<Rightarrow> bucket_history \<Rightarrow> bucket_outcome option" where
  "bucket_reconcile R ns name h =
     (let h1 = h @ [BGetBucket ns name]
      in case be_GetBucket R h ns name of
           Inl e \<Rightarrow> Some ((no_result, ignoreNotFound e), h1)
         | Inr bucket \<Rightarrow>
             (let ref = bs_ClusterRef (fsb_Spec bucket);
                  cluster = be_GetCluster R h1 (fsb_Namespace bucket) ref;
                  h2 = h1 @ [BGetCluster (fsb_Namespace bucket) ref]
              in if fsb_DeletionTimestamp bucket \<noteq> None then Some (bucket_finalize R bucket (bucket_name bucket) cluster h2)
                 else (case add_bucket_finalizer R bucket h2 of
                     (Inl e, h3) \<Rightarrow> Some ((no_result, Some e), h3)
                   | (Inr stored, h3) \<Rightarrow> bucket_live R stored (bucket_name bucket) cluster h3)))"

definition bucket_Reconcile :: "FSBucketReconciler \<Rightarrow> string \<Rightarrow> string \<Rightarrow> bucket_history \<Rightarrow> bucket_outcome option" where
  "bucket_Reconcile R ns name h = (case bucket_reconcile R ns name h of
      None \<Rightarrow> None
    | Some ((result, err), h') \<Rightarrow>
        Some ((result, err), if err \<noteq> None then h' @ [BReconcileError ''fsbucket''] else h'))"

section \<open>What the operations call\<close>

fun live_bucket_call :: "bucket_call \<Rightarrow> bool" where
  "live_bucket_call (BUpdate b) = False"
| "live_bucket_call (BRemoveBucket n) = False"
| "live_bucket_call (BPatchStatus b) = False"
| "live_bucket_call c = True"

lemma bucket_event_calls [simp]: "emits live_bucket_call h (bucket_event R t reason m h)"
  by (simp add: bucket_event_def)

lemma s3For_calls [simp]: "emits live_bucket_call h (snd (s3For R c h))"
  by (auto simp: s3For_def Let_def split: sum.splits)

lemma clusterAdmin_calls: "clusterAdmin R c h = Some (r, h') \<Longrightarrow> emits live_bucket_call h h'"
  by (auto simp: clusterAdmin_def Let_def split: option.splits list.splits sum.splits if_splits)

lemma ensure_bucket_calls [simp]: "emits live_bucket_call h (snd (ensure_bucket R s3 n h))"
  by (auto simp: ensure_bucket_def bucket_event_def Let_def emits_def split: sum.splits option.splits bool.splits)

lemma reconcileScheme_calls: "reconcileScheme R c n scheme h = Some (r, h') \<Longrightarrow> emits live_bucket_call h h'"
  by (auto simp: reconcileScheme_def intro!: emits_snoc dest!: clusterAdmin_calls split: if_splits option.splits sum.splits)

text \<open>
  How making sure of the bucket ends well: somewhere between the histories \<open>g\<close> and \<open>full\<close> the client of
  the cluster was built, and through it the bucket was found, or not found and created.
\<close>

definition bucket_there :: "FSBucketReconciler \<Rightarrow> FSCluster \<Rightarrow> string \<Rightarrow> bucket_history \<Rightarrow> bucket_history \<Rightarrow> bool" where
  "bucket_there R c name g full \<longleftrightarrow> (\<exists>g1 s3 g2. prefix g g1 \<and> s3For R c g1 = (Inr s3, g2)
     \<and> (be_BucketExists R g2 s3 name = Inr True \<and> prefix (g2 @ [BBucketExists name]) full
        \<or> be_BucketExists R g2 s3 name = Inr False \<and> be_MakeBucket R (g2 @ [BBucketExists name]) s3 name = None
           \<and> prefix (g2 @ [BBucketExists name, BMakeBucket name]) full))"

lemma bucket_there_mono: "bucket_there R c name g full \<Longrightarrow> prefix g' g \<Longrightarrow> prefix full full' \<Longrightarrow> bucket_there R c name g' full'"
  unfolding bucket_there_def by (meson prefix_order.trans)

lemma ensure_bucket_None:
  "s3For R c g = (Inr s3, g1) \<Longrightarrow> ensure_bucket R s3 name g1 = (None, g2) \<Longrightarrow> bucket_there R c name g g2"
  unfolding bucket_there_def
  by (rule exI [of _ g], rule exI [of _ s3], rule exI [of _ g1])
    (auto simp: ensure_bucket_def bucket_event_def Let_def split: sum.splits option.splits bool.splits)

lemma ensure_bucket_Some: "fst (ensure_bucket R s3 name h) = Some cond \<Longrightarrow>
    rc_status cond = ConditionFalse \<and> rc_reason cond = ReasonClusterNotReady"
  by (auto simp: ensure_bucket_def Let_def split: sum.splits option.splits bool.splits)

text \<open>
  The scheme in effect: nothing on a single node, otherwise what the admin API of the cluster answered
  to the call made between the histories \<open>g\<close> and \<open>full\<close>.
\<close>

definition scheme_in_effect ::
    "FSBucketReconciler \<Rightarrow> FSCluster \<Rightarrow> string \<Rightarrow> string \<Rightarrow> bucket_history \<Rightarrow> bucket_history \<Rightarrow> string \<Rightarrow> bool" where
  "scheme_in_effect R c name scheme g full effective \<longleftrightarrow>
     (if SingleNode (fsc_Spec c) then scheme = [] \<and> effective = []
      else \<exists>g1 admin g2. prefix g g1 \<and> clusterAdmin R c g1 = Some (Inr admin, g2)
        \<and> (if scheme = []
           then be_GetScheme R g2 admin name = Inr effective \<and> prefix (g2 @ [BGetScheme (cl_baseURL admin) name]) full
           else be_SetScheme R g2 admin name scheme = Inr effective \<and> prefix (g2 @ [BSetScheme (cl_baseURL admin) name scheme]) full))"

lemma scheme_in_effect_mono:
  "scheme_in_effect R c name scheme g full effective \<Longrightarrow> prefix g' g \<Longrightarrow> prefix full full'
   \<Longrightarrow> scheme_in_effect R c name scheme g' full' effective"
  unfolding scheme_in_effect_def by (smt (verit, ccfv_threshold) prefix_order.trans)

lemma reconcileScheme_result:
  assumes "reconcileScheme R c name scheme h = Some ((effective, cond, requeue), h')"
  shows "case cond of None \<Rightarrow> scheme_in_effect R c name scheme h h' effective
    | Some x \<Rightarrow> rc_status x = ConditionFalse \<and> effective = [] \<and> requeue = (rc_reason x \<noteq> ReasonSchemeRejected)"
proof (cases cond)
  case None
  show ?thesis
  proof (cases "SingleNode (fsc_Spec c)")
    case True
    with assms None show ?thesis by (auto simp: reconcileScheme_def scheme_in_effect_def split: if_splits)
  next
    case False
    with assms None obtain admin g where g: "clusterAdmin R c h = Some (Inr admin, g)"
      by (auto simp: reconcileScheme_def split: if_splits option.splits sum.splits)
    with assms None False have "if scheme = []
      then be_GetScheme R g admin name = Inr effective \<and> prefix (g @ [BGetScheme (cl_baseURL admin) name]) h'
      else be_SetScheme R g admin name scheme = Inr effective \<and> prefix (g @ [BSetScheme (cl_baseURL admin) name scheme]) h'"
      by (auto simp: reconcileScheme_def client_GetBucketScheme_def client_SetBucketScheme_def split: if_splits sum.splits)
    moreover from None have "?thesis \<longleftrightarrow> scheme_in_effect R c name scheme h h' effective" by simp
    ultimately show ?thesis using g False unfolding scheme_in_effect_def by (simp only: if_False) blast
  qed
next
  case (Some x)
  have "ReasonClusterNotReady \<noteq> ReasonSchemeRejected" by (simp add: ReasonClusterNotReady_def ReasonSchemeRejected_def)
  with assms Some show ?thesis by (auto simp: reconcileScheme_def split: if_splits option.splits sum.splits)
qed

section \<open>What a pass reports\<close>

text \<open>
  A pass over a live bucket reports once, at its end, or fails before it can: Ready=True when the
  bucket is there and its scheme is in effect, and otherwise a reason, with a retry unless the
  scheme was rejected.
\<close>

definition sound_report ::
    "FSBucketReconciler \<Rightarrow> FSBucket \<Rightarrow> string \<Rightarrow> FSCluster result \<Rightarrow> bucket_history \<Rightarrow> bucket_history \<Rightarrow> string \<Rightarrow> readyCondition \<Rightarrow> bool \<Rightarrow> bool" where
  "sound_report R bucket name cluster g full effective cond requeue \<longleftrightarrow>
     (if rc_status cond = ConditionTrue
      then \<not> requeue \<and> (\<exists>c. cluster = Inr c \<and> bucket_there R c name g full
             \<and> scheme_in_effect R c name (bs_Scheme (fsb_Spec bucket)) g full effective)
      else rc_status cond = ConditionFalse \<and> effective = [] \<and> requeue = (rc_reason cond \<noteq> ReasonSchemeRejected))"

lemma sound_report_mono:
  "sound_report R b n cl g full e cond q \<Longrightarrow> prefix g' g \<Longrightarrow> prefix full full' \<Longrightarrow> sound_report R b n cl g' full' e cond q"
  unfolding sound_report_def using bucket_there_mono scheme_in_effect_mono by (smt (verit))

lemma sound_failure:
  "rc_status cond = ConditionFalse \<Longrightarrow> rc_reason cond \<noteq> ReasonSchemeRejected \<Longrightarrow> sound_report R b n cl g full [] cond True"
  by (simp add: sound_report_def)

lemma bucket_reasons [simp]:
  "ReasonClusterNotFound \<noteq> ReasonSchemeRejected" "ReasonClusterNotReady \<noteq> ReasonSchemeRejected"
  "ReasonBucketNotEmpty \<noteq> ReasonSchemeRejected" "ReasonBucketError \<noteq> ReasonSchemeRejected"
  "ReasonSchemeRejected \<noteq> ReasonClusterNotReady"
  by (simp_all add: ReasonClusterNotFound_def ReasonClusterNotReady_def ReasonBucketNotEmpty_def ReasonBucketError_def
      ReasonSchemeRejected_def)

lemma bucket_live_cases:
  assumes "bucket_live R bucket name cluster h = Some (out, h')"
  shows "(\<exists>e. snd out = Some e \<and> h' = h)
    \<or> (\<exists>g effective cond requeue. emits live_bucket_call h g \<and> bucket_report R bucket effective cond requeue g = (out, h')
         \<and> sound_report R bucket name cluster h g effective cond requeue)"
proof (cases cluster)
  case (Inl e)
  show ?thesis
  proof (cases "isNotFound e")
    case True
    with assms Inl show ?thesis by (auto simp: bucket_live_def intro!: disjI2 exI conjI sound_failure emits_refl)
  qed (use assms Inl in \<open>auto simp: bucket_live_def\<close>)
next
  case (Inr c)
  obtain r h1 where s: "s3For R c h = (r, h1)" by (cases "s3For R c h")
  then have h1: "emits live_bucket_call h h1" using s3For_calls [of h R c] by simp
  show ?thesis
  proof (cases r)
    case (Inl e)
    have "bucket_report R bucket [] (falseCondition ReasonClusterNotReady (err_message e)) True h1 = (out, h')"
      using assms Inr s Inl by (simp add: bucket_live_def)
    with h1 show ?thesis by (intro disjI2 exI conjI) (auto intro!: sound_failure)
  next
    case (Inr s3)
    obtain m h2 where m: "ensure_bucket R s3 name h1 = (m, h2)" by (cases "ensure_bucket R s3 name h1")
    then have h2: "emits live_bucket_call h h2" using ensure_bucket_calls [of h1 R s3 name] h1 by (auto intro: emits_trans)
    show ?thesis
    proof (cases m)
      case (Some cond)
      have "bucket_report R bucket [] cond True h2 = (out, h')"
        using assms \<open>cluster = Inr c\<close> s Inr m Some by (simp add: bucket_live_def)
      with ensure_bucket_Some [of R s3 name h1 cond] m Some h2 show ?thesis by (intro disjI2 exI conjI) (auto intro!: sound_failure)
    next
      case None
      with ensure_bucket_None [of R c h s3 h1 name h2] s Inr m have there: "bucket_there R c name h h2" by simp
      from assms \<open>cluster = Inr c\<close> s Inr m None obtain effective cond requeue h3 where
        sc: "reconcileScheme R c name (bs_Scheme (fsb_Spec bucket)) h2 = Some ((effective, cond, requeue), h3)"
        by (auto simp: bucket_live_def split: option.splits)
      from emits_trans [OF h2 reconcileScheme_calls [OF sc]] have h3: "emits live_bucket_call h h3" .
      let ?cond = "case cond of Some x \<Rightarrow> x | None \<Rightarrow> trueCondition ReasonBucketReady (msg fmt_bucket_ready)"
      have "bucket_report R bucket effective ?cond (cond \<noteq> None \<and> requeue) h3 = (out, h')"
        using assms \<open>cluster = Inr c\<close> s Inr m None sc by (auto simp: bucket_live_def split: option.splits)
      moreover have p: "prefix h h2" "prefix h2 h3" using h2 emits_prefix reconcileScheme_calls [OF sc] by blast+
      then have "sound_report R bucket name cluster h h3 effective ?cond (cond \<noteq> None \<and> requeue)"
        using reconcileScheme_result [OF sc] bucket_there_mono [OF there _ p(2)] scheme_in_effect_mono [OF _ p(1), of R c name _ h3] \<open>cluster = Inr c\<close>
        by (auto simp: sound_report_def split: option.splits)
      ultimately show ?thesis using h3 by blast
    qed
  qed
qed

text \<open>
  A pass over a bucket being deleted: it either takes the finalizer off or
  reports and comes back; or there is nothing to do.
\<close>

lemma s3For_history: "snd (s3For R c h) = h @ [BGetSecret (fsc_Namespace c) (RootCredentialsSource c)]"
  by (auto simp: s3For_def Let_def split: sum.splits)

lemma bucket_report_history:
  "bucket_report R b e c q g = (out, h') \<Longrightarrow> h' = g @ [BPatchStatus (bucket_reported R b e c)]"
  by (auto simp: bucket_report_def Let_def split: option.splits)

text \<open>What every ending of the deletion has to satisfy.\<close>

definition finalized :: "FSBucketReconciler \<Rightarrow> FSBucket \<Rightarrow> bucket_history \<Rightarrow> bucket_outcome \<Rightarrow> bool" where
  "finalized R bucket h o' \<longleftrightarrow> (\<exists>cs. snd o' = h @ cs
     \<and> (\<forall>b. BPatchStatus b \<in> set cs \<longrightarrow> (\<exists>g cond. bucket_report R bucket [] cond True g = o'
          \<and> b = bucket_reported R bucket [] cond \<and> rc_status cond = ConditionFalse \<and> rc_reason cond \<noteq> ReasonSchemeRejected)))"

lemma finalized_report:
  assumes "rc_status cond = ConditionFalse" and "rc_reason cond \<noteq> ReasonSchemeRejected" and "emits live_bucket_call (h @ gs) g"
    and "\<And>b. BPatchStatus b \<notin> set gs"
  shows "finalized R bucket h (bucket_report R bucket [] cond True g)"
proof -
  from assms(3) obtain es where es: "g = h @ gs @ es" "list_all live_bucket_call es" by (auto simp: emits_def)
  obtain out h' where r: "bucket_report R bucket [] cond True g = (out, h')" by (cases "bucket_report R bucket [] cond True g")
  from bucket_report_history [OF r] have "h' = h @ (gs @ es @ [BPatchStatus (bucket_reported R bucket [] cond)])"
    by (simp add: es(1))
  moreover have "BPatchStatus b \<notin> set es" for b using es(2) by (auto simp: list_all_iff)
  ultimately show ?thesis using r assms unfolding finalized_def
    by (intro exI [of _ "gs @ es @ [BPatchStatus (bucket_reported R bucket [] cond)]"]) auto
qed

lemma finalized_remove:
  assumes "emits live_bucket_call (h @ gs) g" and "\<And>b. BPatchStatus b \<notin> set gs"
  shows "finalized R bucket h (remove_bucket_finalizer R bucket g)"
proof -
  from assms(1) obtain es where es: "g = h @ gs @ es" "list_all live_bucket_call es" by (auto simp: emits_def)
  then obtain b where "snd (remove_bucket_finalizer R bucket g) = h @ (gs @ es @ [BUpdate b])" by (auto simp: remove_bucket_finalizer_def Let_def)
  moreover have "BPatchStatus b \<notin> set es" for b using es(2) by (auto simp: list_all_iff)
  ultimately show ?thesis using assms(2) unfolding finalized_def by (intro exI [of _ "gs @ es @ [BUpdate b]"]) auto
qed

lemma bucket_finalize_calls: "finalized R bucket h (bucket_finalize R bucket name cluster h)"
proof -
  have stays: "finalized R bucket h (x, h)" for x by (simp add: finalized_def)
  have off: "finalized R bucket h (remove_bucket_finalizer R bucket h)" by (rule finalized_remove [of h "[]"]) simp_all
  have "finalized R bucket h (bucket_finalize R bucket name cluster h)" if c: "cluster = Inr c" for c
  proof -
    obtain r h1 where s: "s3For R c h = (r, h1)" by (cases "s3For R c h")
    with s3For_history [of R c h] have h1: "h1 = h @ [BGetSecret (fsc_Namespace c) (RootCredentialsSource c)]" by simp
    let ?gs = "[BGetSecret (fsc_Namespace c) (RootCredentialsSource c), BRemoveBucket name]"
    have ev: "emits live_bucket_call (h @ ?gs) (bucket_event R t reason m (h1 @ [BRemoveBucket name]))" for t reason m
      by (simp add: h1 bucket_event_def emits_def)
    have "finalized R bucket h (bucket_report R bucket [] (falseCondition ReasonClusterNotReady m) True h1)" for m
      by (rule finalized_report [of _ h "[BGetSecret (fsc_Namespace c) (RootCredentialsSource c)]"]) (simp_all add: h1)
    moreover have "finalized R bucket h (bucket_report R bucket [] (falseCondition ReasonBucketError m) True (h1 @ [BRemoveBucket name]))" for m
      by (rule finalized_report [of _ h ?gs]) (simp_all add: h1)
    moreover have "finalized R bucket h (bucket_report R bucket [] (falseCondition ReasonBucketNotEmpty m') True
        (bucket_event R t reason m (h1 @ [BRemoveBucket name])))" for m' t reason m
      by (rule finalized_report [OF _ _ ev]) simp_all
    moreover have "finalized R bucket h (remove_bucket_finalizer R bucket (bucket_event R t reason m (h1 @ [BRemoveBucket name])))" for t reason m
      by (rule finalized_remove [OF ev]) simp
    ultimately show ?thesis using stays off s c by (cases r) (simp_all add: bucket_finalize_def Let_def split: option.split)
  qed
  with stays off show ?thesis by (cases cluster) (simp_all add: bucket_finalize_def)
qed

section \<open>What a whole pass does\<close>

text \<open>The two ways a pass goes on from the stored bucket: deleting it, or bringing it in line.\<close>

lemma bucket_Reconcile_cases:
  assumes "bucket_Reconcile R ns name h = Some ((result, err), h @ cs)" and "be_GetBucket R h ns name = Inr bucket"
  obtains
    (deleting) h' cluster where "fsb_DeletionTimestamp bucket \<noteq> None"
      "bucket_finalize R bucket (bucket_name bucket) cluster (h @ [BGetBucket ns name, BGetCluster (fsb_Namespace bucket) (bs_ClusterRef (fsb_Spec bucket))]) = ((result, err), h')"
      "cluster = be_GetCluster R (h @ [BGetBucket ns name]) (fsb_Namespace bucket) (bs_ClusterRef (fsb_Spec bucket))"
      "h @ cs = h' \<or> h @ cs = h' @ [BReconcileError ''fsbucket'']"
  | (failed) "fsb_DeletionTimestamp bucket = None" "\<And>b. BPatchStatus b \<notin> set cs" "\<And>n. BRemoveBucket n \<notin> set cs"
      "\<And>b. BUpdate b \<in> set cs \<Longrightarrow> b = bucket\<lparr>fsb_Finalizers := fl_Add (be_Finalizers R) bucketFinalizer (fsb_Finalizers bucket)\<rparr>"
  | (live) gs stored cluster effective cond requeue rest where
      "cluster = be_GetCluster R (h @ [BGetBucket ns name]) (fsb_Namespace bucket) (bs_ClusterRef (fsb_Spec bucket))"
      "cs = gs @ BPatchStatus (bucket_reported R stored effective cond) # rest" "rest = [] \<or> rest = [BReconcileError ''fsbucket'']"
      "\<And>b. BPatchStatus b \<notin> set gs" "\<And>n. BRemoveBucket n \<notin> set gs"
      "\<And>b. BUpdate b \<in> set gs \<Longrightarrow> b = bucket\<lparr>fsb_Finalizers := fl_Add (be_Finalizers R) bucketFinalizer (fsb_Finalizers bucket)\<rparr>"
      "fst (bucket_report R stored effective cond requeue (h @ gs)) = (result, err)"
      "fsb_DeletionTimestamp bucket = None"
      "sound_report R stored (bucket_name bucket) cluster
         (h @ [BGetBucket ns name, BGetCluster (fsb_Namespace bucket) (bs_ClusterRef (fsb_Spec bucket))]) (h @ cs) effective cond requeue"
proof -
  let ?ref = "bs_ClusterRef (fsb_Spec bucket)"
  let ?cluster = "be_GetCluster R (h @ [BGetBucket ns name]) (fsb_Namespace bucket) ?ref"
  let ?h2 = "h @ [BGetBucket ns name, BGetCluster (fsb_Namespace bucket) ?ref]"
  let ?added = "bucket\<lparr>fsb_Finalizers := fl_Add (be_Finalizers R) bucketFinalizer (fsb_Finalizers bucket)\<rparr>"
  from assms(1) obtain h' where r: "bucket_reconcile R ns name h = Some ((result, err), h')"
    and cs: "h @ cs = h' \<or> h @ cs = h' @ [BReconcileError ''fsbucket'']"
    by (auto simp: bucket_Reconcile_def split: option.splits if_splits)
  show ?thesis
  proof (cases "fsb_DeletionTimestamp bucket = None")
    case False
    with r assms(2) have "bucket_finalize R bucket (bucket_name bucket) ?cluster ?h2 = ((result, err), h')"
      by (simp add: bucket_reconcile_def Let_def)
    with deleting [OF False _ refl cs] show ?thesis by blast
  next
    case True
    obtain a h3 where a: "add_bucket_finalizer R bucket ?h2 = (a, h3)" by (cases "add_bucket_finalizer R bucket ?h2")
    then have h3: "h3 = ?h2 \<or> h3 = ?h2 @ [BUpdate ?added]" by (auto simp: add_bucket_finalizer_def Let_def split: if_splits)
    show ?thesis
    proof (cases a)
      case (Inl e)
      with r assms(2) True a have "h' = h3" by (auto simp: bucket_reconcile_def Let_def)
      with cs h3 show ?thesis by (intro failed) (auto simp: True)
    next
      case (Inr stored)
      with r assms(2) True a have l: "bucket_live R stored (bucket_name bucket) ?cluster h3 = Some ((result, err), h')"
        by (auto simp: bucket_reconcile_def Let_def)
      from bucket_live_cases [OF l] show ?thesis
      proof (elim disjE exE conjE)
        fix e assume "h' = h3"
        with cs h3 show ?thesis by (intro failed) (auto simp: True)
      next
        fix g effective cond requeue
        assume g: "emits live_bucket_call h3 g" "bucket_report R stored effective cond requeue g = ((result, err), h')"
          and sound: "sound_report R stored (bucket_name bucket) ?cluster h3 g effective cond requeue"
        from h3 g(1) obtain gs where gs: "g = h @ gs" by (auto simp: emits_def)
        from g(1) obtain ds where ds: "g = h3 @ ds" "list_all live_bucket_call ds" by (auto simp: emits_def)
        from ds(2) have d: "BPatchStatus b \<notin> set ds" "BRemoveBucket n \<notin> set ds" "BUpdate b \<notin> set ds" for b n
          by (auto simp: list_all_iff)
        have set_gs: "set gs \<subseteq> {BGetBucket ns name, BGetCluster (fsb_Namespace bucket) ?ref, BUpdate ?added} \<union> set ds"
          using h3 ds(1) gs by auto
        from bucket_report_history [OF g(2)] cs gs obtain rest where
          rest: "cs = gs @ BPatchStatus (bucket_reported R stored effective cond) # rest" "rest = [] \<or> rest = [BReconcileError ''fsbucket'']"
          by auto
        show ?thesis
        proof (rule live [OF refl rest _ _ _ _ True])
          show "fst (bucket_report R stored effective cond requeue (h @ gs)) = (result, err)" using g(2) gs by simp
          show "sound_report R stored (bucket_name bucket) ?cluster ?h2 (h @ cs) effective cond requeue"
            by (rule sound_report_mono [OF sound]) (use h3 gs rest in auto)
        qed (use set_gs d in auto)
      qed
    qed
  qed
qed

definition bucket_ready :: "FSBucket \<Rightarrow> Condition option" where
  "bucket_ready b = find (\<lambda>c. cond_Type c = ConditionReady) (bst_Conditions (fsb_Status b))"

lemma bucket_reported_sel [simp]:
  "fsb_Spec (bucket_reported R b e c) = fsb_Spec b" "fsb_Namespace (bucket_reported R b e c) = fsb_Namespace b"
  "e \<noteq> [] \<Longrightarrow> bst_Scheme (fsb_Status (bucket_reported R b e c)) = e"
  by (simp_all add: bucket_reported_def Let_def)

lemma bucket_ready_reported:
  "condition_setter (be_SetStatusCondition R) \<Longrightarrow> bucket_ready (bucket_reported R b e c) = Some (ready_condition (fsb_Generation b) c)"
  by (simp add: bucket_ready_def bucket_reported_def condition_setter.set_find Let_def)

lemma bucket_report_result:
  "fst (bucket_report R b e c q g) = (result, None) \<Longrightarrow> res_RequeueAfter result = (if q then requeueAfterPending else 0)"
  by (auto simp: bucket_report_def no_result_def Let_def split: option.splits)

section \<open>A benign world\<close>

definition bucket_world :: "FSBucket \<Rightarrow> FSCluster \<Rightarrow> bool \<Rightarrow> error option \<Rightarrow> FSBucketReconciler" where
  "bucket_world bucket cluster exists removal =
     \<lparr>be_GetBucket = (\<lambda>h ns n. Inr bucket), be_GetCluster = (\<lambda>h ns n. Inr cluster),
      be_GetSecret = (\<lambda>h ns n. Inr (quiet_secret ns n)), be_Update = (\<lambda>h b. Inr b), be_PatchStatus = (\<lambda>h b. None),
      be_NewS3 = (\<lambda>c. None), be_BucketExists = (\<lambda>h c n. Inr exists), be_MakeBucket = (\<lambda>h c n. None),
      be_RemoveBucket = (\<lambda>h c n. removal), be_ErrorCode = (\<lambda>e. case e of S3Error code \<Rightarrow> code | _ \<Rightarrow> []),
      be_NewClient = (\<lambda>u. None), be_GetScheme = (\<lambda>h c n. Inr ''rf3''), be_SetScheme = (\<lambda>h c n sc. Inr sc),
      be_SetStatusCondition = replace_condition, be_Finalizers = list_finalizers, be_Recorder = True\<rparr>"

lemma bucket_world_simps [simp]:
  "be_GetBucket (bucket_world b c x r) = (\<lambda>h ns n. Inr b)" "be_GetCluster (bucket_world b c x r) = (\<lambda>h ns n. Inr c)"
  "be_GetSecret (bucket_world b c x r) = (\<lambda>h ns n. Inr (quiet_secret ns n))" "be_Update (bucket_world b c x r) = (\<lambda>h b. Inr b)"
  "be_PatchStatus (bucket_world b c x r) = (\<lambda>h b. None)" "be_NewS3 (bucket_world b c x r) = (\<lambda>c. None)"
  "be_BucketExists (bucket_world b c x r) = (\<lambda>h c n. Inr x)" "be_MakeBucket (bucket_world b c x r) = (\<lambda>h c n. None)"
  "be_RemoveBucket (bucket_world b c x r) = (\<lambda>h c n. r)" "be_ErrorCode (bucket_world b c x r) = (\<lambda>e. case e of S3Error code \<Rightarrow> code | _ \<Rightarrow> [])"
  "be_NewClient (bucket_world b c x r) = (\<lambda>u. None)" "be_GetScheme (bucket_world b c x r) = (\<lambda>h c n. Inr ''rf3'')"
  "be_SetScheme (bucket_world b c x r) = (\<lambda>h c n sc. Inr sc)" "be_SetStatusCondition (bucket_world b c x r) = replace_condition"
  "be_Finalizers (bucket_world b c x r) = list_finalizers" "be_Recorder (bucket_world b c x r) = True"
  by (simp_all add: bucket_world_def)

definition sample_bucket :: "string \<Rightarrow> Time option \<Rightarrow> FSBucket" where
  "sample_bucket policy deleted =
     \<lparr>fsb_Name = ''data'', fsb_Namespace = ''storage'', fsb_Generation = 1, fsb_DeletionTimestamp = deleted,
      fsb_Finalizers = [bucketFinalizer],
      fsb_Spec = \<lparr>bs_ClusterRef = ''fs'', bs_BucketName = [], bs_Scheme = ''ec:2,1'', bs_ReclaimPolicy = policy\<rparr>,
      fsb_Status = \<lparr>bst_ObservedGeneration = 0, bst_Scheme = [], bst_Conditions = []\<rparr>\<rparr>"

lemma world_s3For: "\<exists>s3. s3For (bucket_world b fs_cluster x r) fs_cluster h
    = (Inr s3, h @ [BGetSecret (fsc_Namespace fs_cluster) (RootCredentialsSource fs_cluster)])"
  by (simp add: s3For_def newMinioClient_def quiet_secret_def gm_str_def AccessKeyKey_def SecretKeyKey_def AdminTokenKey_def
      ClusterSecretKey_def Let_def)

text \<open>
  What becomes of a bucket being deleted whose cluster answers: nothing without the finalizer; it is
  taken off at once when the data is kept, and after the removal otherwise, unless the bucket is not empty.
\<close>

lemma bucket_finalize_outcomes:
  assumes run: "bucket_finalize R bucket (bucket_name bucket) (Inr cluster) h0 = ((result, err), h')"
    and fin: "finalizer_ops (be_Finalizers R)" and s3: "s3For R cluster h0 = (Inr s3, g)"
    and answer: "\<forall>e. be_RemoveBucket R g s3 (bucket_name bucket) = Some e \<longrightarrow> isBucketNotFound R e \<or> isBucketNotEmpty R e"
    and off: "off = BUpdate (bucket\<lparr>fsb_Finalizers := fl_Remove (be_Finalizers R) bucketFinalizer (fsb_Finalizers bucket)\<rparr>)"
    and ask: "ask = [BGetSecret (fsc_Namespace cluster) (RootCredentialsSource cluster), BRemoveBucket (bucket_name bucket)]"
    and cond: "cond = falseCondition ReasonBucketNotEmpty (Sprintf fmt_not_empty [AS (bucket_name bucket)])"
    and went: "gone = (case be_RemoveBucket R g s3 (bucket_name bucket) of None \<Rightarrow> True | Some e \<Rightarrow> isBucketNotFound R e)"
  obtains "bucketFinalizer \<notin> set (fsb_Finalizers bucket)" "h' = h0"
  | "bucketFinalizer \<in> set (fsb_Finalizers bucket)" "bs_ReclaimPolicy (fsb_Spec bucket) \<noteq> ReclaimDelete" "h' = h0 @ [off]"
  | es where "bucketFinalizer \<in> set (fsb_Finalizers bucket)" "bs_ReclaimPolicy (fsb_Spec bucket) = ReclaimDelete" "gone"
      "h' = h0 @ ask @ es @ [off]" "list_all live_bucket_call es"
  | es where "bucketFinalizer \<in> set (fsb_Finalizers bucket)" "bs_ReclaimPolicy (fsb_Spec bucket) = ReclaimDelete" "\<not> gone"
      "h' = h0 @ ask @ es @ [BPatchStatus (bucket_reported R bucket [] cond)]" "list_all live_bucket_call es"
      "err = None \<Longrightarrow> res_RequeueAfter result = requeueAfterPending"
proof -
  note ops = finalizer_ops.contains [OF fin] finalizer_ops.remove [OF fin]
  from s3For_history [of R cluster h0] s3 have g: "g = h0 @ [hd ask]" by (simp add: ask)
  consider (none) "bucketFinalizer \<notin> set (fsb_Finalizers bucket)"
    | (retain) "bucketFinalizer \<in> set (fsb_Finalizers bucket)" "bs_ReclaimPolicy (fsb_Spec bucket) \<noteq> ReclaimDelete"
    | (removed) "bucketFinalizer \<in> set (fsb_Finalizers bucket)" "bs_ReclaimPolicy (fsb_Spec bucket) = ReclaimDelete" gone
    | (full) e where "bucketFinalizer \<in> set (fsb_Finalizers bucket)" "bs_ReclaimPolicy (fsb_Spec bucket) = ReclaimDelete" "\<not> gone"
        "be_RemoveBucket R g s3 (bucket_name bucket) = Some e" "\<not> isBucketNotFound R e" "isBucketNotEmpty R e"
    using answer went by (cases "be_RemoveBucket R g s3 (bucket_name bucket)") auto
  then show thesis
  proof cases
    case none
    with run ops that(1) show ?thesis by (auto simp: bucket_finalize_def)
  next
    case retain
    with run ops off that(2) show ?thesis by (simp add: bucket_finalize_def remove_bucket_finalizer_def Let_def)
  next
    case removed
    have "\<exists>t r m. remove_bucket_finalizer R bucket (bucket_event R t r m (h0 @ ask)) = ((result, err), h')"
      using run removed went ops s3 g by (auto simp: bucket_finalize_def ask Let_def split: option.splits)
    then have "\<exists>es. h' = h0 @ ask @ es @ [off] \<and> list_all live_bucket_call es"
      by (auto simp: remove_bucket_finalizer_def bucket_event_def off Let_def split: if_splits)
    with removed that(3) show ?thesis by blast
  next
    case (full e)
    have "\<exists>t r m. bucket_report R bucket [] cond True (bucket_event R t r m (h0 @ ask)) = ((result, err), h')"
      using run full ops s3 g by (auto simp: bucket_finalize_def ask cond Let_def)
    then obtain t r m where rep: "bucket_report R bucket [] cond True (bucket_event R t r m (h0 @ ask)) = ((result, err), h')" by blast
    from bucket_report_history [OF rep] have "\<exists>es. h' = h0 @ ask @ es @ [BPatchStatus (bucket_reported R bucket [] cond)] \<and> list_all live_bucket_call es"
      by (auto simp: bucket_event_def split: if_splits)
    moreover have "fst (bucket_report R bucket [] cond True (bucket_event R t r m (h0 @ ask))) = (result, err)" by (simp only: rep fst_conv)
    then have "err = None \<Longrightarrow> res_RequeueAfter result = requeueAfterPending" using bucket_report_result [of R bucket "[]" cond True] by metis
    ultimately show ?thesis using full(1-3) that(4) by blast
  qed
qed

section \<open>Properties\<close>

text \<open>
  C26. The reclaim policy is honoured. Take a pass that reads its cluster and, with the cluster's root
  credentials, gets an answer from it when it asks to remove the bucket: done, no such bucket, or not
  empty. Then the S3 bucket is asked to go exactly when the object is being deleted with the policy
  Delete and still has its finalizer, and it is the bucket the object names. The finalizer, and with it the object, goes
  exactly when the object is being deleted and either the policy keeps the data or the bucket is
  gone; while the bucket is not empty the object stays, says so, and the pass comes back.
\<close>

theorem bucket_reclaim_honoured:
  assumes "bucket_Reconcile R ns name h = Some ((result, err), h @ cs)" and "be_GetBucket R h ns name = Inr bucket"
    and "finalizer_ops (be_Finalizers R)"
    and "be_GetCluster R (h @ [BGetBucket ns name]) (fsb_Namespace bucket) (bs_ClusterRef (fsb_Spec bucket)) = Inr cluster"
    and "s3For R cluster (h @ [BGetBucket ns name, BGetCluster (fsb_Namespace bucket) (bs_ClusterRef (fsb_Spec bucket))]) = (Inr s3, g)"
    and "\<forall>e. be_RemoveBucket R g s3 (bucket_name bucket) = Some e \<longrightarrow> isBucketNotFound R e \<or> isBucketNotEmpty R e"
  shows "let deleting = fsb_DeletionTimestamp bucket \<noteq> None \<and> bucketFinalizer \<in> set (fsb_Finalizers bucket);
             delete = (bs_ReclaimPolicy (fsb_Spec bucket) = ReclaimDelete);
             gone = (case be_RemoveBucket R g s3 (bucket_name bucket) of None \<Rightarrow> True | Some e \<Rightarrow> isBucketNotFound R e)
    in (\<forall>n. BRemoveBucket n \<in> set cs \<longleftrightarrow> deleting \<and> delete \<and> n = bucket_name bucket)
      \<and> ((\<exists>b. BUpdate b \<in> set cs \<and> bucketFinalizer \<notin> set (fsb_Finalizers b)) \<longleftrightarrow> deleting \<and> (\<not> delete \<or> gone))
      \<and> (deleting \<and> delete \<and> \<not> gone \<longrightarrow>
           BPatchStatus (bucket_reported R bucket []
             (falseCondition ReasonBucketNotEmpty (Sprintf fmt_not_empty [AS (bucket_name bucket)]))) \<in> set cs
           \<and> (err = None \<longrightarrow> res_RequeueAfter result = requeueAfterPending))"
  using assms(1,2)
proof (cases rule: bucket_Reconcile_cases)
  case (deleting h' cl)
  note ops = finalizer_ops.remove [OF assms(3)]
  let ?pre = "[BGetBucket ns name, BGetCluster (fsb_Namespace bucket) (bs_ClusterRef (fsb_Spec bucket))]"
  have run: "bucket_finalize R bucket (bucket_name bucket) (Inr cluster) (h @ ?pre) = ((result, err), h')"
    using deleting(2,3) assms(4) by simp
  have quiet: "BRemoveBucket n \<notin> set es" "BUpdate b \<notin> set es" if "list_all live_bucket_call es" for es n b
    using that by (auto simp: list_all_iff)
  from run assms(3) assms(5) assms(6) refl refl refl refl show ?thesis
  proof (rule bucket_finalize_outcomes)
    assume "bucketFinalizer \<notin> set (fsb_Finalizers bucket)" "h' = h @ ?pre"
    with deleting(4) show ?thesis by auto
  next
    assume o: "bucketFinalizer \<in> set (fsb_Finalizers bucket)" "bs_ReclaimPolicy (fsb_Spec bucket) \<noteq> ReclaimDelete"
      "h' = (h @ ?pre) @ [BUpdate (bucket\<lparr>fsb_Finalizers := fl_Remove (be_Finalizers R) bucketFinalizer (fsb_Finalizers bucket)\<rparr>)]"
    with deleting(1,4) ops show ?thesis by (auto simp: Let_def)
  qed (use deleting(1,4) ops quiet in \<open>fastforce simp: Let_def\<close>)+
next
  case failed
  have "BUpdate b \<in> set cs \<Longrightarrow> bucketFinalizer \<in> set (fsb_Finalizers b)" for b
    using failed(4) [of b] finalizer_ops.add [OF assms(3)] by auto
  with failed show ?thesis by (auto simp: Let_def)
next
  case (live gs stored cl effective cond requeue rest)
  have "BUpdate b \<in> set gs \<Longrightarrow> bucketFinalizer \<in> set (fsb_Finalizers b)" for b
    using live(6) [of b] finalizer_ops.add [OF assms(3)] by auto
  moreover have "BUpdate b \<in> set cs \<Longrightarrow> BUpdate b \<in> set gs" "BRemoveBucket n \<notin> set cs" for b n using live(2,3,5) by auto
  ultimately show ?thesis using live(8) by (auto simp: Let_def)
qed

theorem bucket_reclaim_honoured_witness:
  "\<exists>res cs. bucket_Reconcile (bucket_world (sample_bucket ReclaimDelete (Some 3)) fs_cluster True (Some (S3Error ''BucketNotEmpty'')))
       ''storage'' ''data'' [] = Some (res, cs) \<and> BRemoveBucket ''data'' \<in> set cs
     \<and> (\<forall>b. BUpdate b \<in> set cs \<longrightarrow> bucketFinalizer \<in> set (fsb_Finalizers b))"
proof -
  let ?b = "sample_bucket ReclaimDelete (Some 3)"
  let ?R = "bucket_world ?b fs_cluster True (Some (S3Error ''BucketNotEmpty''))"
  have b: "fsb_DeletionTimestamp ?b \<noteq> None" "fsb_Finalizers ?b = [bucketFinalizer]" "bs_ReclaimPolicy (fsb_Spec ?b) = ReclaimDelete"
    "bucket_name ?b = ''data''" by (simp_all add: sample_bucket_def bucket_name_def)
  obtain s3 where s3: "s3For ?R fs_cluster h = (Inr (s3 h), h @ [BGetSecret (fsc_Namespace fs_cluster) (RootCredentialsSource fs_cluster)])" for h
    using world_s3For [of ?b True "Some (S3Error ''BucketNotEmpty'')"] by metis
  have "\<exists>result err cs. bucket_Reconcile ?R ''storage'' ''data'' [] = Some ((result, err), [] @ cs)"
    using b(1) by (simp add: bucket_Reconcile_def bucket_reconcile_def bucket_finalize_def b(2-4) s3 list_finalizers_def isBucketNotFound_def
        isBucketNotEmpty_def bucket_report_def bucket_event_def Let_def)
  then obtain result err cs where run: "bucket_Reconcile ?R ''storage'' ''data'' [] = Some ((result, err), [] @ cs)" by blast
  from bucket_reclaim_honoured [OF run _ _ _ s3, of ?b] b
  have "BRemoveBucket ''data'' \<in> set cs" "\<And>b. BUpdate b \<in> set cs \<Longrightarrow> bucketFinalizer \<in> set (fsb_Finalizers b)"
    by (auto simp: listed_finalizers.finalizer_ops_axioms Let_def isBucketNotFound_def isBucketNotEmpty_def)
  with run show ?thesis by auto
qed

text \<open>
  C27. What a bucket's status says is what happened. Ready=True is reported only when, in this
  pass, the referenced cluster was read, the bucket was found or created through the S3 client of that
  cluster, and its scheme is in effect: the one the admin API of the cluster's first node answered to the call made in
  this pass, which the status then names, or no override on a single-node cluster. Every other report is Ready=False, and
  comes back after ten seconds, except for a rejected scheme, which only a change of the spec can mend.
\<close>

theorem bucket_status_sound:
  assumes "bucket_Reconcile R ns name h = Some ((result, err), h @ cs)" and "be_GetBucket R h ns name = Inr bucket"
    and "condition_setter (be_SetStatusCondition R)" and "BPatchStatus b \<in> set cs" and "bucket_ready b = Some c"
  shows "if cond_Status c = ConditionTrue
    then let start = h @ [BGetBucket ns name, BGetCluster (fsb_Namespace bucket) (bs_ClusterRef (fsb_Spec bucket))]
      in \<exists>cluster effective.
        be_GetCluster R (h @ [BGetBucket ns name]) (fsb_Namespace bucket) (bs_ClusterRef (fsb_Spec bucket)) = Inr cluster
        \<and> bucket_there R cluster (bucket_name bucket) start (h @ cs)
        \<and> scheme_in_effect R cluster (bucket_name bucket) (bs_Scheme (fsb_Spec b)) start (h @ cs) effective
        \<and> (effective \<noteq> [] \<longrightarrow> bst_Scheme (fsb_Status b) = effective)
    else cond_Status c = ConditionFalse
      \<and> (err = None \<longrightarrow> res_RequeueAfter result = (if cond_Reason c = ReasonSchemeRejected then 0 else requeueAfterPending))"
  using assms(1,2)
proof (cases rule: bucket_Reconcile_cases)
  case (deleting h' cluster)
  let ?h2 = "h @ [BGetBucket ns name, BGetCluster (fsb_Namespace bucket) (bs_ClusterRef (fsb_Spec bucket))]"
  from bucket_finalize_calls [of R bucket ?h2 "bucket_name bucket" cluster] deleting(2) obtain ds where
    ds: "h' = ?h2 @ ds" "BPatchStatus b \<in> set ds \<Longrightarrow> \<exists>g cond. bucket_report R bucket [] cond True g = ((result, err), h')
        \<and> b = bucket_reported R bucket [] cond \<and> rc_status cond = ConditionFalse \<and> rc_reason cond \<noteq> ReasonSchemeRejected"
    by (auto simp: finalized_def)
  from deleting(4) ds(1) assms(4) have "BPatchStatus b \<in> set ds" by auto
  with ds(2) obtain g cond where "bucket_report R bucket [] cond True g = ((result, err), h')"
    "b = bucket_reported R bucket [] cond" "rc_status cond = ConditionFalse" "rc_reason cond \<noteq> ReasonSchemeRejected" by blast
  with assms(3,5) bucket_report_result [of R bucket "[]" cond True g result] show ?thesis
    by (auto simp: bucket_ready_reported)
next
  case failed
  with assms(4) show ?thesis by blast
next
  case (live gs stored cluster effective cond requeue rest)
  then have b: "b = bucket_reported R stored effective cond" using assms(4) by auto
  with assms(3,5) have c: "c = ready_condition (fsb_Generation stored) cond" by (simp add: bucket_ready_reported)
  show ?thesis
  proof (cases "rc_status cond = ConditionTrue")
    case True
    with live(9) live(1) obtain cl where cl: "be_GetCluster R (h @ [BGetBucket ns name]) (fsb_Namespace bucket) (bs_ClusterRef (fsb_Spec bucket)) = Inr cl"
      "bucket_there R cl (bucket_name bucket) (h @ [BGetBucket ns name, BGetCluster (fsb_Namespace bucket) (bs_ClusterRef (fsb_Spec bucket))]) (h @ cs)"
      "scheme_in_effect R cl (bucket_name bucket) (bs_Scheme (fsb_Spec stored))
         (h @ [BGetBucket ns name, BGetCluster (fsb_Namespace bucket) (bs_ClusterRef (fsb_Spec bucket))]) (h @ cs) effective" by (auto simp: sound_report_def)
    moreover have "effective \<noteq> [] \<Longrightarrow> bst_Scheme (fsb_Status b) = effective" "fsb_Spec b = fsb_Spec stored" by (simp_all add: b)
    ultimately show ?thesis using True by (simp add: c Let_def) blast
  next
    case False
    with live(7,9) show ?thesis by (auto simp: c sound_report_def dest: bucket_report_result)
  qed
qed

theorem bucket_status_sound_witness:
  "\<exists>result cs b. bucket_Reconcile (bucket_world (sample_bucket ReclaimDelete None) fs_cluster False None) ''storage'' ''data'' []
       = Some ((result, None), cs) \<and> BPatchStatus b \<in> set cs \<and> bucket_ready b \<noteq> None
     \<and> bucket_there (bucket_world (sample_bucket ReclaimDelete None) fs_cluster False None) fs_cluster ''data'' [] cs
     \<and> scheme_in_effect (bucket_world (sample_bucket ReclaimDelete None) fs_cluster False None) fs_cluster ''data'' ''ec:2,1'' [] cs ''ec:2,1''
     \<and> bst_Scheme (fsb_Status b) = ''ec:2,1''"
proof -
  let ?b = "sample_bucket ReclaimDelete None"
  let ?R = "bucket_world ?b fs_cluster False None"
  have b: "fsb_DeletionTimestamp ?b = None" "fsb_Finalizers ?b = [bucketFinalizer]" "bs_Scheme (fsb_Spec ?b) = ''ec:2,1''"
    "bucket_name ?b = ''data''" by (simp_all add: sample_bucket_def bucket_name_def)
  have sn: "\<not> SingleNode (fsc_Spec fs_cluster)"
    by (simp add: SingleNode_def TotalNodes_def sample_cluster_def sample_spec_def three_nodes_def)
  obtain s3 where s3: "s3For ?R fs_cluster h = (Inr (s3 h), h @ [BGetSecret (fsc_Namespace fs_cluster) (RootCredentialsSource fs_cluster)])" for h
    using world_s3For [of ?b False None] by metis
  let ?cond = "trueCondition ReasonBucketReady (msg fmt_bucket_ready)"
  have "\<exists>h'. reconcileScheme ?R fs_cluster ''data'' ''ec:2,1'' h = Some ((''ec:2,1'', None, False), h')" for h
    by (simp add: reconcileScheme_def sn clusterAdmin_def fs_cluster_nodes quiet_secret_def gm_str_def AdminTokenKey_def
        ClusterSecretKey_def bucket_adminClient_def fsclient_New_def client_SetBucketScheme_def Let_def)
  then obtain g where g: "reconcileScheme ?R fs_cluster ''data'' ''ec:2,1'' h = Some ((''ec:2,1'', None, False), g h)" for h by metis
  let ?b' = "bucket_reported ?R ?b ''ec:2,1'' ?cond"
  have "\<exists>result cs. bucket_Reconcile ?R ''storage'' ''data'' [] = Some ((result, None), [] @ cs) \<and> BPatchStatus ?b' \<in> set cs"
    by (simp add: bucket_Reconcile_def bucket_reconcile_def add_bucket_finalizer_def list_finalizers_def bucket_live_def b s3 ensure_bucket_def
        bucket_event_def g bucket_report_def Let_def)
  then obtain result cs where run: "bucket_Reconcile ?R ''storage'' ''data'' [] = Some ((result, None), [] @ cs)" "BPatchStatus ?b' \<in> set cs" by blast
  have c: "bucket_ready ?b' = Some (ready_condition (fsb_Generation ?b) ?cond)"
    by (simp add: bucket_ready_reported replacing.condition_setter_axioms)
  let ?g = "[BGetBucket ''storage'' ''data'', BGetCluster (fsb_Namespace ?b) (bs_ClusterRef (fsb_Spec ?b))]"
  from bucket_status_sound [OF run(1) _ _ run(2) c, of ?b]
  obtain e where "bucket_there ?R fs_cluster ''data'' ?g cs" "scheme_in_effect ?R fs_cluster ''data'' ''ec:2,1'' ?g cs e"
    "e \<noteq> [] \<longrightarrow> bst_Scheme (fsb_Status ?b') = e"
    by (auto simp: replacing.condition_setter_axioms b Let_def)
  moreover from this(2) have "e = ''ec:2,1''" by (auto simp: scheme_in_effect_def sn)
  ultimately have "bucket_there ?R fs_cluster ''data'' [] cs" "scheme_in_effect ?R fs_cluster ''data'' ''ec:2,1'' [] cs ''ec:2,1''"
    "bst_Scheme (fsb_Status ?b') = ''ec:2,1''"
    by (auto intro: bucket_there_mono [of _ _ _ ?g cs] scheme_in_effect_mono [of _ _ _ _ ?g cs])
  with run c show ?thesis by auto
qed

end
