(* ===== verification/Watches.thy ===== *)
theory Watches
  imports Controller Bucket_Controller
begin

text \<open>
  What wakes the controllers: \<open>SetupWithManager\<close> of the three of them, as the requests an object's
  change enqueues, and how a rotated credential travels through them to the configuration of every node.
\<close>

section \<open>Watches\<close>

text \<open>
  A changed object, as far as the watches look at it. Owned objects carry the kind and name of
  their controller.
\<close>

type_synonym owner_ref = "(string \<times> string) option"
type_synonym request = "string \<times> string"

datatype api_object =
    OCluster FSCluster
  | OKey FSAccessKey
  | OBucket FSBucket
  | OSet StatefulSet owner_ref
  | OSecret Secret owner_ref
  | OService Service owner_ref

text \<open>
  What \<open>Owns\<close> of controller-runtime enqueues for an owned object is a parameter: from the kind a
  controller is for, the namespace of the object and its controlling owner it makes requests.
\<close>

type_synonym owns = "string \<Rightarrow> string \<Rightarrow> owner_ref \<Rightarrow> request list"

fun cluster_SetupWithManager :: "owns \<Rightarrow> api_object \<Rightarrow> request list" where
  "cluster_SetupWithManager owns (OCluster c) = [(fsc_Namespace c, fsc_Name c)]"
| "cluster_SetupWithManager owns (OSet s owner) = owns ''FSCluster'' (set_Namespace s) owner"
| "cluster_SetupWithManager owns (OSecret s owner) = owns ''FSCluster'' (sec_Namespace s) owner"
| "cluster_SetupWithManager owns (OService s owner) = owns ''FSCluster'' (ser_Namespace s) owner"
| "cluster_SetupWithManager owns (OKey key) = accessKeyToCluster key"
| "cluster_SetupWithManager owns (OBucket b) = []"

text \<open>The FSAccessKey controller watches Secrets twice: those it owns, and all, for the imported ones.\<close>

fun key_SetupWithManager :: "owns \<Rightarrow> FSAccessKeyReconciler \<Rightarrow> api_object \<Rightarrow> key_history \<Rightarrow> request list \<times> key_history" where
  "key_SetupWithManager owns R (OKey key) h = ([(ak_Namespace key, ak_Name key)], h)"
| "key_SetupWithManager owns R (OSecret s owner) h =
     (case importedSecretToKeys R (sec_Namespace s) (sec_Name s) h of
        (reqs, h') \<Rightarrow> (owns ''FSAccessKey'' (sec_Namespace s) owner @ reqs, h'))"
| "key_SetupWithManager owns R other h = ([], h)"

fun bucket_SetupWithManager :: "api_object \<Rightarrow> request list" where
  "bucket_SetupWithManager (OBucket b) = [(fsb_Namespace b, fsb_Name b)]"
| "bucket_SetupWithManager other = []"

section \<open>The two readings of a Secret agree\<close>

text \<open>
  The FSAccessKey controller resolves an imported Secret to a credential exactly when the FSCluster
  controller renders one from it, and to the same one.
\<close>

definition credential_of :: "Secret \<Rightarrow> (string \<times> string) option" where
  "credential_of s =
     (let access = gm_str (sec_Data s) AccessKeyKey; secretKey = gm_str (sec_Data s) SecretKeyKey
      in if access = [] \<or> length secretKey < MinSecretKeyLength then None else Some (access, secretKey))"

lemma key_of_credential:
  "key_of ak s = map_option (\<lambda>(a, k). \<lparr>key_AccessKey = a, key_SecretKey = k,
     key_Grants = GrantsToConfig (aks_Grants (ak_Spec ak))\<rparr>) (credential_of s)"
  by (simp add: key_of_def credential_of_def Let_def)

lemma readImported_credential:
  assumes "ke_GetSecret R h (ak_Namespace key) name = Inr s"
  shows "(case credential_of s of
      Some c \<Rightarrow> readImported R key name h = (Inr c, h @ [KGetSecret (ak_Namespace key) name])
    | None \<Rightarrow> \<exists>cond. readImported R key name h = (Inl cond, h @ [KGetSecret (ak_Namespace key) name]))"
  using assms by (auto simp: readImported_def credential_of_def MinSecretKeyLength_def Let_def)

text \<open>
  Of a generated Secret that somebody has shortened they do not agree: the FSAccessKey controller
  still resolves it, and only the FSCluster controller leaves it out.
\<close>

lemma generated_short_unrendered:
  assumes "ke_GetSecret R h (ak_Namespace key) (AccessKeySecretName key) = Inr s"
    "gm_str (sec_Data s) AccessKeyKey \<noteq> []" "gm_str (sec_Data s) SecretKeyKey \<noteq> []"
    "length (gm_str (sec_Data s) SecretKeyKey) < MinSecretKeyLength"
  shows "fst (ensureGenerated R key h) = Inr (gm_str (sec_Data s) AccessKeyKey, gm_str (sec_Data s) SecretKeyKey)
    \<and> key_of key s = None"
  using assms by (simp add: ensureGenerated_def key_of_def Let_def)

section \<open>A rotation on its way\<close>

definition stamped :: "FSAccessKey \<Rightarrow> string \<times> string \<Rightarrow> FSAccessKey" where
  "stamped key c = key\<lparr>ak_Annotations :=
     gm_put credentialHashAnnotation (credentialHash (fst c) (snd c)) (ak_Annotations key)\<rparr>"

lemma stamped_simps [simp]:
  "ak_Namespace (stamped key c) = ak_Namespace key" "ak_Name (stamped key c) = ak_Name key"
  "ak_Spec (stamped key c) = ak_Spec key" "ak_DeletionTimestamp (stamped key c) = ak_DeletionTimestamp key"
  by (simp_all add: stamped_def)

text \<open>A pass over a live key whose credential differs from its fingerprint patches the key.\<close>

lemma key_live_patches:
  assumes "key_live R key h = Some (res, h')" "resolveCredential R key h = (Inr c, h1)"
    "gm_str (ak_Annotations key) credentialHashAnnotation \<noteq> credentialHash (fst c) (snd c)"
  shows "\<exists>cs. h' = h1 @ KPatch (stamped key c) # cs"
proof -
  obtain access secret where c: "c = (access, secret)" by (cases c)
  let ?h2 = "h1 @ [KPatch (stamped key c)]"
  obtain r where st: "stampCredentialHash R key (credentialHash access secret) h1 = (r, ?h2)"
    using assms(3) by (auto simp: stampCredentialHash_def stamped_def c Let_def)
  have "\<exists>cs. g = ?h2 @ cs" if "verifyAccepted R k access ?h2 = Some ((cond, requeue), g)" for k cond requeue g
    using verifyAccepted_cases [OF that] by (auto simp: emits_def)
  then have "\<exists>cs. snd (key_report R k access cond g) = ?h2 @ cs"
    if "verifyAccepted R k access ?h2 = Some ((cond, requeue), g)" for k cond requeue g
    using that by (fastforce simp: key_report_def Let_def)
  with assms(1,2) st show ?thesis
    by (fastforce simp: key_live_def c split: sum.splits option.splits prod.splits)
qed

lemma key_Reconcile_patches:
  assumes "key_Reconcile R ns name h = Some (res, h')" "ke_GetKey R h ns name = Inr key"
    "ak_DeletionTimestamp key = None" "fl_Contains (ke_Finalizers R) (ak_Finalizers key) accessKeyFinalizer"
    "resolveCredential R key (h @ [KGetKey ns name]) = (Inr c, h1)"
    "gm_str (ak_Annotations key) credentialHashAnnotation \<noteq> credentialHash (fst c) (snd c)"
  shows "\<exists>cs. h' = h1 @ KPatch (stamped key c) # cs"
proof -
  from assms(1-4) obtain res' g where g: "key_live R key (h @ [KGetKey ns name]) = Some (res', g)"
    and h': "\<exists>cs. h' = g @ cs"
    by (auto simp: key_Reconcile_def key_reconcile_def add_key_finalizer_def split: option.splits if_splits)
  from key_live_patches [OF g assms(5,6)] h' show ?thesis by auto
qed

text \<open>The FSCluster controller then renders the credential.\<close>

lemma collects_credential:
  assumes "key_sort (e_SortKeys R)" "collectAccessKeys R cluster h = (Inr keys, h')"
    "e_ListKeys R h (fsc_Namespace cluster) = Inr items" "key \<in> set (own_keys cluster items)"
    "\<And>g. e_GetSecret R g (fsc_Namespace cluster) (AccessKeySecretSource key) = Inr s" "credential_of s = Some c"
  shows "\<exists>k \<in> set keys. key_AccessKey k = fst c \<and> key_SecretKey k = snd c
    \<and> key_Grants k = GrantsToConfig (aks_Grants (ak_Spec key))"
proof -
  from assms(1) have m: "mset (e_SortKeys R ks) = mset ks" for ks by (auto simp: key_sort_def)
  from collected_answers [OF assms(2,3)] obtain answers ks where
    a: "list_all2 (secret_answer R cluster) (own_keys cluster items) answers"
      "ks = concat (map2 contribution (own_keys cluster items) answers)" and ks: "keys = e_SortKeys R ks" by auto
  from assms(4) obtain i where i: "i < length (own_keys cluster items)" "own_keys cluster items ! i = key"
    by (auto simp: in_set_conv_nth)
  with a(1) have "secret_answer R cluster key (answers ! i)" and l: "i < length answers"
    by (auto simp: list_all2_conv_all_nth)
  with assms(5) have "answers ! i = Inr s" by (auto simp: secret_answer_def)
  with i l have "contribution key (Inr s) \<in> set (map2 contribution (own_keys cluster items) answers)"
    by (auto simp: set_conv_nth intro!: exI [of _ i])
  moreover let ?k = "\<lparr>key_AccessKey = fst c, key_SecretKey = snd c, key_Grants = GrantsToConfig (aks_Grants (ak_Spec key))\<rparr>"
  have "key_of key s = Some ?k" by (cases c) (simp add: key_of_credential assms(6))
  then have "?k \<in> set (contribution key (Inr s))" by (simp add: contribution_def)
  ultimately have "?k \<in> set ks" unfolding a(2) set_concat by blast
  then have "?k \<in> set keys" using m [of ks] ks by (metis set_mset_mset)
  then show ?thesis by (intro bexI [of _ ?k]) simp_all
qed

section \<open>Property\<close>

text \<open>
  C24. The rotation of an imported credential reaches the configuration. When a Secret changes that
  a live key imports, the change of the Secret enqueues the key; the reconcile of the key patches
  the fingerprint of the new credential onto it; that patched key is the one change that
  enqueues exactly the key's cluster; and a pass of that cluster that reads the keys renders the new
  credential with the key's grants. The two controllers agree on what a credential is: the Secret
  that the key's reconcile resolves is the Secret the cluster's pass renders.
\<close>

theorem rotation_propagates:
  assumes refers: "aks_ExistingSecretRef (ak_Spec key) = Some (sec_Name s)" "sec_Name s \<noteq> []"
      "ak_Namespace key = sec_Namespace s" "aks_ClusterRef (ak_Spec key) \<noteq> []"
    and listed: "ke_ListKeys K g (sec_Namespace s) = Inr items" "key \<in> set items"
    and live: "ke_GetKey K h (ak_Namespace key) (ak_Name key) = Inr key" "ak_DeletionTimestamp key = None"
      "fl_Contains (ke_Finalizers K) (ak_Finalizers key) accessKeyFinalizer"
    and read: "\<And>h. ke_GetSecret K h (sec_Namespace s) (sec_Name s) = Inr s" "credential_of s = Some c"
    and rotated: "gm_str (ak_Annotations key) credentialHashAnnotation \<noteq> credentialHash (fst c) (snd c)"
    and run: "key_Reconcile K (ak_Namespace key) (ak_Name key) h = Some (res, h')"
  shows "(ak_Namespace key, ak_Name key) \<in> set (fst (key_SetupWithManager owns K (OSecret s owner) g))
    \<and> (\<exists>as bs. h' = h @ as @ KPatch (stamped key c) # bs)
    \<and> cluster_SetupWithManager owns (OKey (stamped key c)) = [(ak_Namespace key, aks_ClusterRef (ak_Spec key))]
    \<and> (\<forall>R cluster f items' keys f'. key_sort (e_SortKeys R) \<and> fsc_Namespace cluster = ak_Namespace key
         \<and> fsc_Name cluster = aks_ClusterRef (ak_Spec key)
         \<and> e_ListKeys R f (ak_Namespace key) = Inr items' \<and> stamped key c \<in> set items'
         \<and> (\<forall>f. e_GetSecret R f (ak_Namespace key) (sec_Name s) = Inr s)
         \<and> collectAccessKeys R cluster f = (Inr keys, f')
         \<longrightarrow> (\<exists>k \<in> set keys. key_AccessKey k = fst c \<and> key_SecretKey k = snd c
               \<and> key_Grants k = GrantsToConfig (aks_Grants (ak_Spec key))))"
proof (intro conjI allI impI)
  show "(ak_Namespace key, ak_Name key) \<in> set (fst (key_SetupWithManager owns K (OSecret s owner) g))"
  proof -
    have "key \<in> set (filter (\<lambda>k. aks_ExistingSecretRef (ak_Spec k) = Some (sec_Name s)) items)"
      using refers(1) listed(2) by simp
    from imageI [OF this, of "\<lambda>k. (ak_Namespace k, ak_Name k)"] listed(1) show ?thesis
      by (simp add: importedSecretToKeys_def)
  qed
  let ?h = "h @ [KGetKey (ak_Namespace key) (ak_Name key)]"
  have "readImported K key (sec_Name s) ?h = (Inr c, ?h @ [KGetSecret (ak_Namespace key) (sec_Name s)])"
    using readImported_credential [of K ?h key "sec_Name s" s] read refers(3) by simp
  then have "resolveCredential K key ?h = (Inr c, ?h @ [KGetSecret (ak_Namespace key) (sec_Name s)])"
    by (simp add: resolveCredential_def refers)
  from key_Reconcile_patches [OF run live this rotated] show "\<exists>as bs. h' = h @ as @ KPatch (stamped key c) # bs"
    by (metis append.assoc)
  show "cluster_SetupWithManager owns (OKey (stamped key c)) = [(ak_Namespace key, aks_ClusterRef (ak_Spec key))]"
    using refers(4) by (simp add: accessKeyToCluster_def)
next
  fix R cluster f items' keys f'
  assume a: "key_sort (e_SortKeys R) \<and> fsc_Namespace cluster = ak_Namespace key
    \<and> fsc_Name cluster = aks_ClusterRef (ak_Spec key)
    \<and> e_ListKeys R f (ak_Namespace key) = Inr items' \<and> stamped key c \<in> set items'
    \<and> (\<forall>f. e_GetSecret R f (ak_Namespace key) (sec_Name s) = Inr s)
    \<and> collectAccessKeys R cluster f = (Inr keys, f')"
  then have "stamped key c \<in> set (own_keys cluster items')" using live(2) by (simp add: own_keys_def)
  moreover have "e_GetSecret R f (fsc_Namespace cluster) (AccessKeySecretSource (stamped key c)) = Inr s" for f
    using a refers by (simp add: AccessKeySecretSource_def)
  ultimately show "\<exists>k \<in> set keys. key_AccessKey k = fst c \<and> key_SecretKey k = snd c
      \<and> key_Grants k = GrantsToConfig (aks_Grants (ak_Spec key))"
    using collects_credential [of R cluster f keys f' items' "stamped key c" s c] a read(2) by simp
qed

text \<open>A key that imports a Secret and still carries the fingerprint of an older credential.\<close>

definition importing_key :: FSAccessKey where
  "importing_key = fs_key\<lparr>ak_Namespace := ''storage'', ak_Annotations := [(credentialHashAnnotation, ''old'')],
     ak_Spec := (ak_Spec fs_key)\<lparr>aks_ExistingSecretRef := Some ''rotating''\<rparr>\<rparr>"

definition rotation_world :: FSAccessKeyReconciler where
  "rotation_world = key_world importing_key fs_cluster (\<lambda>n. Inr (quiet_secret ''storage'' n)) [''AK'']"

lemma key_live_total: "(\<And>k a h. verifyAccepted R k a h \<noteq> None) \<Longrightarrow> key_live R key h \<noteq> None"
  by (simp add: key_live_def del: not_None_eq split: prod.split sum.split option.split)

lemma key_Reconcile_total:
  assumes "\<And>k a h. verifyAccepted R k a h \<noteq> None" "ke_GetKey R h ns name = Inr key" "ak_DeletionTimestamp key = None"
  shows "key_Reconcile R ns name h \<noteq> None"
  using key_live_total [of R] assms
  by (simp add: key_Reconcile_def key_reconcile_def Let_def del: not_None_eq split: prod.split sum.split option.split)

lemma rotation_reconciles: "\<exists>res h'. key_Reconcile rotation_world ''storage'' ''app'' [] = Some (res, h')"
proof -
  have "verifyAccepted rotation_world k a h \<noteq> None" for k a h
    using fs_listings [of importing_key "[''AK'']" k h]
    by (auto simp: rotation_world_def verifyAccepted_def Let_def)
  moreover have "ke_GetKey rotation_world [] ''storage'' ''app'' = Inr importing_key" "ak_DeletionTimestamp importing_key = None"
    by (simp_all add: rotation_world_def key_world_def importing_key_def fs_key_def sample_key_def)
  ultimately show ?thesis using key_Reconcile_total by (metis not_None_eq surj_pair)
qed

theorem rotation_propagates_witness:
  "\<exists>res h'. key_Reconcile rotation_world ''storage'' ''app'' [] = Some (res, h')
     \<and> (''storage'', ''app'') \<in> set (fst (key_SetupWithManager (\<lambda>k ns owner. []) rotation_world (OSecret (quiet_secret ''storage'' ''rotating'') None) []))
     \<and> KPatch (stamped importing_key (''AK'', ''0123456789abcdef'')) \<in> set h'
     \<and> cluster_SetupWithManager (\<lambda>k ns owner. []) (OKey (stamped importing_key (''AK'', ''0123456789abcdef''))) = [(''storage'', ''fs'')]"
proof -
  let ?s = "quiet_secret ''storage'' ''rotating''"
  let ?c = "(''AK'', ''0123456789abcdef'')"
  have sel: "ak_Namespace importing_key = ''storage''" "ak_Name importing_key = ''app''"
    "aks_ExistingSecretRef (ak_Spec importing_key) = Some ''rotating''" "aks_ClusterRef (ak_Spec importing_key) = ''fs''"
    "ak_DeletionTimestamp importing_key = None" "ak_Finalizers importing_key = [accessKeyFinalizer]"
    "gm_str (ak_Annotations importing_key) credentialHashAnnotation = ''old''"
    by (simp_all add: importing_key_def fs_key_def sample_key_def gm_str_def)
  have s: "sec_Name ?s = ''rotating''" "sec_Namespace ?s = ''storage''" "credential_of ?s = Some ?c"
    by (simp_all add: quiet_secret_def credential_of_def gm_str_def Let_def AccessKeyKey_def SecretKeyKey_def
        ClusterSecretKey_def AdminTokenKey_def MinSecretKeyLength_def)
  have "length (credentialHash (fst ?c) (snd ?c)) \<noteq> length ''old''" by simp
  then have old: "gm_str (ak_Annotations importing_key) credentialHashAnnotation \<noteq> credentialHash (fst ?c) (snd ?c)"
    unfolding sel by metis
  obtain res h' where run: "key_Reconcile rotation_world ''storage'' ''app'' [] = Some (res, h')"
    using rotation_reconciles by blast
  have w: "ke_ListKeys rotation_world g n = Inr [importing_key]" "ke_GetKey rotation_world g n m = Inr importing_key"
    "ke_GetSecret rotation_world g n ''rotating'' = Inr ?s" "ke_Finalizers rotation_world = list_finalizers" for g n m
    by (simp_all add: rotation_world_def key_world_def)
  have fin: "fl_Contains (ke_Finalizers rotation_world) [accessKeyFinalizer] accessKeyFinalizer"
    by (simp add: w list_finalizers_def)
  note rot = rotation_propagates [where K = rotation_world and key = importing_key and s = ?s and c = ?c and g = "[]" and h = "[]"
      and owns = "\<lambda>k ns owner. []" and owner = None and items = "[importing_key]" and res = res and h' = h', unfolded sel s]
  have "''rotating'' \<noteq> []" "''fs'' \<noteq> []" "importing_key \<in> set [importing_key]" by simp_all
  note all = rot [OF refl this(1) refl this(2) w(1) this(3) w(2) refl fin w(3) refl old [unfolded sel] run]
  then have p: "(''storage'', ''app'') \<in> set (fst (key_SetupWithManager (\<lambda>k ns owner. []) rotation_world (OSecret ?s None) []))"
    "\<exists>as bs. h' = [] @ as @ KPatch (stamped importing_key ?c) # bs"
    "cluster_SetupWithManager (\<lambda>k ns owner. []) (OKey (stamped importing_key ?c)) = [(''storage'', ''fs'')]"
    by - (elim conjE, assumption)+
  from p(2) have "KPatch (stamped importing_key ?c) \<in> set h'" by auto
  with run p(1,3) show ?thesis by (intro exI [of _ res] exI [of _ h'] conjI)
qed

end
