(* ===== verification/Key_Life.thy ===== *)
theory Key_Life
  imports Watches
begin

text \<open>
  The life of a declared credential across the two controllers: once the nodes run what the
  FSCluster controller renders, the FSAccessKey controller reports the key Ready; once they run what is
  rendered without it, the key's finalizer goes. \<open>serving_cluster\<close> states what the FSAccessKey
  controller meets while the nodes are up.
\<close>

section \<open>A cluster whose nodes answer\<close>

locale serving_cluster =
  fixes K :: FSAccessKeyReconciler
    and cluster :: FSCluster
    and accepted :: "string \<Rightarrow> string list"
  assumes found: "ke_GetCluster K h (fsc_Namespace cluster) (fsc_Name cluster) = Inr cluster"
    and has_nodes: "\<exists>node nodes. Nodes cluster = Some (node # nodes)"
    and has_token: "\<exists>s. (\<forall>h. ke_GetSecret K h (fsc_Namespace cluster) (AdminTokenSecretName (fsc_Name cluster)) = Inr s)
      \<and> gm_str (sec_Data s) AdminTokenKey \<noteq> []"
    and connects: "ke_NewClient K u = None"
    and answers: "Nodes cluster = Some nodes \<Longrightarrow> node \<in> set nodes \<Longrightarrow>
      ke_AccessKeys K h (node_url cluster (node_Name node)) token = Inr (accepted (node_Name node))"
begin

lemma loop_listings:
  "(\<And>node h. node \<in> set nodes \<Longrightarrow> ke_AccessKeys K h (node_url cluster (node_Name node)) token = Inr (accepted (node_Name node)))
   \<Longrightarrow> \<exists>h'. node_keys_loop K cluster token nodes ls h
     = (Inr (fold (\<lambda>node. gm_put (node_Name node) (Some (accepted (node_Name node)))) nodes ls), h')"
proof (induction nodes arbitrary: ls h)
  case (Cons node nodes)
  have "ke_AccessKeys K h (node_url cluster (node_Name node)) token = Inr (accepted (node_Name node))"
    by (rule Cons.prems) simp
  then show ?case
    using Cons.IH [OF Cons.prems, of "gm_put (node_Name node) (Some (accepted (node_Name node))) ls"]
    by (simp add: Let_def key_adminClient_def fsclient_New_def connects admin_AccessKeys_def client_AccessKeys_def gm_put_put)
qed simp

lemma listing_entries:
  "(n, v) \<in> set (fold (\<lambda>node. gm_put (node_Name node) (Some (accepted (node_Name node)))) nodes ls)
   \<Longrightarrow> (n, v) \<in> set ls \<or> n \<in> node_Name ` set nodes \<and> v = Some (accepted n)"
proof (induction nodes arbitrary: ls)
  case (Cons node nodes)
  from Cons.IH [of "gm_put (node_Name node) (Some (accepted (node_Name node))) ls"] Cons.prems
  consider "(n, v) \<in> set (gm_put (node_Name node) (Some (accepted (node_Name node))) ls)"
    | "n \<in> node_Name ` set nodes" "v = Some (accepted n)" by auto
  then show ?case by cases (auto dest: gm_put_entry)
qed simp

text \<open>Asked about any key of the cluster, every node answers what it accepts.\<close>

lemma nodeKeys_answers:
  assumes "ak_Namespace key = fsc_Namespace cluster" "aks_ClusterRef (ak_Spec key) = fsc_Name cluster"
  shows "\<exists>nodes ls h'. Nodes cluster = Some nodes \<and> nodeKeys K key h = Some (Inr ls, h')
    \<and> (\<forall>(n, v) \<in> set ls. n \<in> node_Name ` set nodes \<and> v = Some (accepted n))"
proof -
  from has_nodes obtain nodes where n: "Nodes cluster = Some nodes" "nodes \<noteq> []" by auto
  from has_token obtain s where s: "\<And>h. ke_GetSecret K h (fsc_Namespace cluster) (AdminTokenSecretName (fsc_Name cluster)) = Inr s"
    "gm_str (sec_Data s) AdminTokenKey \<noteq> []" by blast
  let ?t = "gm_str (sec_Data s) AdminTokenKey"
  let ?ls = "fold (\<lambda>node. gm_put (node_Name node) (Some (accepted (node_Name node)))) nodes []"
  have "\<exists>h2. key_adminToken K cluster (h @ [KGetCluster (fsc_Namespace cluster) (fsc_Name cluster)]) = (Inr ?t, h2)"
    using s by (simp add: key_adminToken_def Let_def)
  moreover have "\<exists>h'. node_keys_loop K cluster ?t nodes [] g = (Inr ?ls, h')" for g
    by (rule loop_listings) (rule answers [OF n(1)])
  ultimately have "\<exists>h'. nodeKeys K key h = Some (Inr ?ls, h')"
    using n assms by (auto simp: nodeKeys_def Let_def found)
  then obtain h' where "nodeKeys K key h = Some (Inr ?ls, h')" by blast
  moreover have "\<forall>(n, v) \<in> set ?ls. n \<in> node_Name ` set nodes \<and> v = Some (accepted n)"
    by (auto dest: listing_entries)
  ultimately show ?thesis using n(1) by blast
qed

lemma verifyAccepted_ready:
  assumes "ak_Namespace key = fsc_Namespace cluster" "aks_ClusterRef (ak_Spec key) = fsc_Name cluster"
    and "\<And>nodes node. Nodes cluster = Some nodes \<Longrightarrow> node \<in> set nodes \<Longrightarrow> access \<in> set (accepted (node_Name node))"
  shows "\<exists>h'. verifyAccepted K key access h = Some ((trueCondition ReasonKeyAccepted (msg fmt_accepted), False), h')"
proof -
  from nodeKeys_answers [OF assms(1,2), of h] obtain nodes ls h' where
    l: "Nodes cluster = Some nodes" "nodeKeys K key h = Some (Inr ls, h')"
      "\<forall>(n, v) \<in> set ls. n \<in> node_Name ` set nodes \<and> v = Some (accepted n)" by blast
  then have "concat (map (missing_entry access) ls) = []"
    using assms(3) by (fastforce simp: missing_entry_def)
  with l(2) show ?thesis by (simp add: verifyAccepted_def)
qed

end

section \<open>What is rendered\<close>

text \<open>The rendered file of a node is its header and a marshalled configuration with the collected keys.\<close>

definition file_keys :: "yaml_codec \<Rightarrow> FSCluster \<Rightarrow> string \<Rightarrow> string \<Rightarrow> Key list \<Rightarrow> bool" where
  "file_keys y cluster node data keys \<longleftrightarrow> (\<exists>n cfg base. node_Name n = node \<and> data = configHeader cluster n @ base
     \<and> Marshal y cfg = Inr base \<and> au_Keys (cfg_Auth cfg) = keys)"

lemma RenderNodeConfig_keys:
  "RenderNodeConfig y cluster node opts = Inr rc \<Longrightarrow> file_keys y cluster (node_Name node) (rc_Data rc) (ro_Keys opts)"
  by (fastforce simp: RenderNodeConfig_def nodeConfig_def file_keys_def Let_def split: sum.splits if_splits)

lemma render_loop_keys:
  "render_loop y cluster opts nodes configs = Inr m \<Longrightarrow> (\<And>n rc. gm_get configs n = Some rc \<Longrightarrow> file_keys y cluster n (rc_Data rc) (ro_Keys opts))
   \<Longrightarrow> (\<forall>n rc. gm_get m n = Some rc \<longrightarrow> file_keys y cluster n (rc_Data rc) (ro_Keys opts))
     \<and> (\<forall>n. n \<in> node_Name ` set nodes \<or> gm_get configs n \<noteq> None \<longrightarrow> gm_get m n \<noteq> None)"
proof (induction nodes arbitrary: configs)
  case (Cons node nodes)
  then obtain rc where rc: "RenderNodeConfig y cluster node opts = Inr rc"
    and l: "render_loop y cluster opts nodes (gm_put (node_Name node) rc configs) = Inr m" by (auto split: sum.splits)
  have "gm_get (gm_put (node_Name node) rc configs) n = Some r \<Longrightarrow> file_keys y cluster n (rc_Data r) (ro_Keys opts)" for n r
    using RenderNodeConfig_keys [OF rc] Cons.prems(2) by (auto split: if_splits)
  from Cons.IH [OF l this] show ?case by (auto split: if_splits)
qed auto

lemma render_keys:
  assumes "render R p h = (Inr out, p', h')"
  shows "\<exists>keys configs. collectAccessKeys R (p_cluster p) h = (Inr keys, h') \<and> p_configs p' = Some configs
    \<and> (\<forall>n rc. gm_get configs n = Some rc \<longrightarrow> file_keys (e_Yaml R) (p_cluster p) n (rc_Data rc) keys)
    \<and> (\<forall>node \<in> set (p_nodes p). gm_get configs (node_Name node) \<noteq> None)"
proof -
  from assms obtain keys configs where k: "collectAccessKeys R (p_cluster p) h = (Inr keys, h')"
    "render_loop (e_Yaml R) (p_cluster p) \<lparr>ro_Keys = keys\<rparr> (p_nodes p) [] = Inr configs" "p_configs p' = Some configs"
    by (auto simp: render_def RenderNodeConfigs_def Let_def split: prod.splits sum.splits)
  from render_loop_keys [OF k(2)] k(1,3) show ?thesis by fastforce
qed

text \<open>
  A file that was rendered, and a node that runs it: the node accepts the keys of every
  configuration that the file can be read as.
\<close>

definition serves_file :: "yaml_codec \<Rightarrow> FSCluster \<Rightarrow> string \<Rightarrow> RenderedConfig \<Rightarrow> string list \<Rightarrow> bool" where
  "serves_file y cluster node rc accepted \<longleftrightarrow>
     (\<forall>keys. file_keys y cluster node (rc_Data rc) keys \<longrightarrow> accepted = map key_AccessKey keys)"

text \<open>A pass over the cluster as far as it renders: the nodes, then those being removed, then their files.\<close>

definition rendered_by :: "Reconciler \<Rightarrow> FSCluster \<Rightarrow> history \<Rightarrow> history \<Rightarrow> pass \<Rightarrow> bool" where
  "rendered_by R cluster f f' p' \<longleftrightarrow> (\<exists>p0 o1 p o2 f2. newPass cluster (r_FSImageRegistry R) = Some p0
     \<and> planDecommission R p0 f = (Inr o1, p, f') \<and> render R p f' = (Inr o2, p', f2))"

text \<open>Every node runs the file rendered for it.\<close>

definition in_effect :: "Reconciler \<Rightarrow> pass \<Rightarrow> (string \<Rightarrow> string list) \<Rightarrow> bool" where
  "in_effect R p accepted \<longleftrightarrow> (case p_configs p of None \<Rightarrow> False | Some configs \<Rightarrow>
     (\<forall>node rc. gm_get configs node = Some rc \<longrightarrow> serves_file (e_Yaml R) (p_cluster p) node rc (accepted node)))"

lemma newPass_nodes: "newPass object reg = Some p \<Longrightarrow> Nodes object = Some (p_nodes p)"
  by (auto simp: newPass_def Nodes_def WithDefaults_def TotalNodes_def Let_def split: option.splits if_splits)

lemma planDecommission_nodes:
  "planDecommission R p h = (out, p', h') \<Longrightarrow> set (p_nodes p) \<subseteq> set (p_nodes p') \<and> p_cluster p' = p_cluster p"
proof -
  assume "planDecommission R p h = (out, p', h')"
  then have "p' = p \<or> (\<exists>ss. p' = fold (plan_set (map node_Name (p_nodes p))) ss p)"
    by (auto simp: planDecommission_def Let_def split: prod.splits sum.splits)
  then show ?thesis using plan_fold_nodes [of "map node_Name (p_nodes p)" _ p] by (metis Un_upper1 order_refl set_append)
qed

lemma render_cluster: "render R p h = (out, p', h') \<Longrightarrow> p_cluster p' = p_cluster p"
  by (auto simp: render_def Let_def split: prod.splits sum.splits)

text \<open>Nodes that run what was rendered all accept exactly the credentials that were collected.\<close>

lemma accepted_collected:
  assumes "rendered_by R cluster f f' p" "in_effect R p accepted" "Nodes cluster = Some nodes"
  shows "\<exists>c keys f2. fsc_Name c = fsc_Name cluster \<and> fsc_Namespace c = fsc_Namespace cluster
    \<and> collectAccessKeys R c f' = (Inr keys, f2)
    \<and> (\<forall>node \<in> set nodes. accepted (node_Name node) = map key_AccessKey keys)"
proof -
  from assms(1) obtain p0 o1 q o2 f2 where r: "newPass cluster (r_FSImageRegistry R) = Some p0"
    "planDecommission R p0 f = (Inr o1, q, f')" "render R q f' = (Inr o2, p, f2)" by (auto simp: rendered_by_def)
  have nodes: "set nodes \<subseteq> set (p_nodes q)" and c: "p_cluster q = p_cluster p0" "p_cluster p = p_cluster q"
    using newPass_nodes [OF r(1)] planDecommission_nodes [OF r(2)] render_cluster [OF r(3)] assms(3) by auto
  from render_keys [OF r(3)] obtain keys configs where k: "collectAccessKeys R (p_cluster q) f' = (Inr keys, f2)" "p_configs p = Some configs"
    "\<forall>n rc. gm_get configs n = Some rc \<longrightarrow> file_keys (e_Yaml R) (p_cluster q) n (rc_Data rc) keys"
    "\<forall>node \<in> set (p_nodes q). gm_get configs (node_Name node) \<noteq> None" by blast
  have "accepted (node_Name node) = map key_AccessKey keys" if "node \<in> set nodes" for node
  proof -
    from k(4) nodes that obtain rc where "gm_get configs (node_Name node) = Some rc" by blast
    with k(2,3) assms(2) c(2) show ?thesis by (auto simp: in_effect_def serves_file_def)
  qed
  with k(1) newPass_cluster [OF r(1)] c(1) show ?thesis by (intro exI [of _ "p_cluster q"]) auto
qed

section \<open>Becoming ready\<close>

lemma resolveCredential_found:
  assumes "ke_GetSecret K h (ak_Namespace key) (AccessKeySecretSource key) = Inr s" "credential_of s = Some c"
  shows "\<exists>h'. resolveCredential K key h = (Inr c, h @ h')"
proof -
  from assms(2) have "c = (gm_str (sec_Data s) AccessKeyKey, gm_str (sec_Data s) SecretKeyKey)" "gm_str (sec_Data s) AccessKeyKey \<noteq> []"
    "gm_str (sec_Data s) SecretKeyKey \<noteq> []" "\<not> length (gm_str (sec_Data s) SecretKeyKey) < MinSecretKeyLength"
    by (auto simp: credential_of_def MinSecretKeyLength_def Let_def split: if_splits)
  with assms(1) show ?thesis
    by (auto simp: resolveCredential_def AccessKeySecretSource_def readImported_def ensureGenerated_def Let_def split: option.splits if_splits)
qed

lemma stamp_stored:
  assumes "\<And>h k. ke_Patch K h k = Inr k"
  shows "\<exists>key' h'. stampCredentialHash K key want h = (Inr key', h @ h') \<and> ak_Namespace key' = ak_Namespace key
    \<and> ak_Spec key' = ak_Spec key \<and> ak_Status key' = ak_Status key \<and> ak_Generation key' = ak_Generation key"
  using assms by (simp add: stampCredentialHash_def Let_def)

lemma credential_accepted:
  assumes "rendered_by R cluster f f' p" "in_effect R p accepted" "Nodes cluster = Some nodes" "node \<in> set nodes"
    and "key_sort (e_SortKeys R)" "e_ListKeys R f' (ak_Namespace key) = Inr items" "key \<in> set items" "ak_DeletionTimestamp key = None"
    and "ak_Namespace key = fsc_Namespace cluster" "aks_ClusterRef (ak_Spec key) = fsc_Name cluster"
    and "\<And>f. e_GetSecret R f (ak_Namespace key) (AccessKeySecretSource key) = Inr s" "credential_of s = Some c"
  shows "fst c \<in> set (accepted (node_Name node))"
proof -
  from accepted_collected [OF assms(1-3)] assms(4) obtain cl keys f2 where
    k: "fsc_Name cl = fsc_Name cluster" "fsc_Namespace cl = fsc_Namespace cluster" "collectAccessKeys R cl f' = (Inr keys, f2)"
      "accepted (node_Name node) = map key_AccessKey keys" by blast
  have "key \<in> set (own_keys cl items)" using assms(7,8,10) k(1) by (simp add: own_keys_def)
  from collects_credential [OF assms(5) k(3) _ this _ assms(12)] assms(6,9,11) k(2,4) show ?thesis by force
qed

section \<open>Going away\<close>

text \<open>Whatever is collected was read from the Secret of a live key of the cluster.\<close>

lemma collected_from:
  assumes "key_sort (e_SortKeys R)" "collectAccessKeys R cluster h = (Inr keys, h')"
    "e_ListKeys R h (fsc_Namespace cluster) = Inr items" "k \<in> set keys"
  shows "\<exists>ak g s c. ak \<in> set (own_keys cluster items) \<and> e_GetSecret R g (fsc_Namespace cluster) (AccessKeySecretSource ak) = Inr s
    \<and> credential_of s = Some c \<and> key_AccessKey k = fst c"
proof -
  from assms(1) have m: "mset (e_SortKeys R ks) = mset ks" for ks by (auto simp: key_sort_def)
  from collected_answers [OF assms(2,3)] obtain answers ks where
    a: "list_all2 (secret_answer R cluster) (own_keys cluster items) answers"
      "ks = concat (map2 contribution (own_keys cluster items) answers)" and ks: "keys = e_SortKeys R ks" by auto
  have "k \<in> set ks" using m [of ks] ks assms(4) by (metis set_mset_mset)
  then obtain ak answer where z: "(ak, answer) \<in> set (zip (own_keys cluster items) answers)" "k \<in> set (contribution ak answer)"
    unfolding a(2) by auto
  then obtain s where s: "answer = Inr s" "key_of ak s = Some k"
    by (auto simp: contribution_def split: sum.splits option.splits)
  from a(1) z(1) have "secret_answer R cluster ak answer" by (auto simp: list_all2_iff)
  then obtain g where "e_GetSecret R g (fsc_Namespace cluster) (AccessKeySecretSource ak) = Inr s"
    using s(1) by (auto simp: secret_answer_def)
  moreover have "ak \<in> set (own_keys cluster items)" using z(1) by (rule set_zip_leftD)
  moreover obtain c where "credential_of s = Some c" "key_AccessKey k = fst c" using s(2) by (auto simp: key_of_credential)
  ultimately show ?thesis by blast
qed

lemma key_event_append: "\<exists>cs. key_event R t reason m h = h @ cs"
  by (simp add: key_event_def exI [of _ "[]"])

section \<open>A world where keys are served\<close>

text \<open>A cluster of three nodes with the keys \<open>items\<close>; its codec tells whether there is the one key or none.\<close>

definition keyed_yaml :: yaml_codec where
  "keyed_yaml = \<lparr>yaml_Encode = (\<lambda>c. Inr (let ks = map key_AccessKey (au_Keys (cfg_Auth c))
     in if ks = [] then [] else if ks = [''AK''] then ''one'' else ''many'')),
     yaml_Close = (\<lambda>c. None), yaml_Decode = (\<lambda>s. Inl (NewError s []))\<rparr>"

definition keyed :: "FSAccessKey list \<Rightarrow> Reconciler" where
  "keyed items = (quiet [] (quiet_layout []) [])\<lparr>e_ListKeys := (\<lambda>h n. Inr items), e_Yaml := keyed_yaml\<rparr>"

lemma keyed_simps [simp]:
  "e_ListKeys (keyed items) = (\<lambda>h n. Inr items)" "e_Yaml (keyed items) = keyed_yaml"
  "e_GetSecret (keyed items) = (\<lambda>h n name. Inr (quiet_secret n name))" "e_ListSets (keyed items) = (\<lambda>h n sel. Inr [])"
  "e_SortKeys (keyed items) = slices_SortFunc key_AccessKey" "r_FSImageRegistry (keyed items) = []"
  by (simp_all add: keyed_def quiet_def)

lemma keyed_encodes: "encodes (keyed items)"
  by (simp add: encodes_def Marshal_def keyed_yaml_def) (simp add: keyed_def)

lemma keyed_file:
  "file_keys keyed_yaml c n d keys \<Longrightarrow> file_keys keyed_yaml c n d keys' \<Longrightarrow> map key_AccessKey keys \<in> {[], [''AK'']}
   \<Longrightarrow> map key_AccessKey keys' = map key_AccessKey keys"
  by (auto simp: file_keys_def configHeader_def Marshal_def keyed_yaml_def Let_def split: if_splits)

interpretation key_world_serves: serving_cluster "key_world key fs_cluster (\<lambda>n. Inr (quiet_secret ''storage'' n)) acc" fs_cluster "\<lambda>n. acc"
  for key acc
proof
  show "\<exists>node nodes. Nodes fs_cluster = Some (node # nodes)" by (simp add: fs_cluster_nodes)
qed (auto simp: quiet_secret_def gm_str_def AdminTokenKey_def ClusterSecretKey_def)

lemma keyed_rendered:
  assumes "\<And>c h. fsc_Name c = ''fs'' \<Longrightarrow> fsc_Namespace c = ''storage'' \<Longrightarrow> \<exists>h'. collectAccessKeys (keyed items) c h = (Inr keys, h')"
    and "map key_AccessKey keys \<in> {[], [''AK'']}"
  shows "\<exists>f p. rendered_by (keyed items) fs_cluster [] f p \<and> in_effect (keyed items) p (\<lambda>n. map key_AccessKey keys)"
proof -
  let ?R = "keyed items"
  have "newPass fs_cluster [] \<noteq> None"
    using fs_cluster_nodes by (auto simp: newPass_def Nodes_def WithDefaults_def Let_def sample_cluster_def sample_spec_def three_nodes_def)
  then obtain p0 where 0: "newPass fs_cluster [] = Some p0" by blast
  note c = newPass_cluster [OF 0]
  have n: "p_nodes p0 = map (flat_node ''fs'') [0, 1, 2]" using newPass_nodes [OF 0] fs_cluster_nodes by simp
  have nm: "fsc_Name (p_cluster p0) = ''fs''" "fsc_Namespace (p_cluster p0) = ''storage''" using c by (simp_all add: sample_cluster_def)
  have "\<exists>f. planDecommission ?R p0 [] = (Inr zero_outcome, p0, f)"
    by (simp add: planDecommission_def nodeSets_def c decommission_active_def Continue_def)
  then obtain f where 1: "planDecommission ?R p0 [] = (Inr zero_outcome, p0, f)" by blast
  obtain f2 where k: "collectAccessKeys ?R (p_cluster p0) f = (Inr keys, f2)" using assms(1) [OF nm] by blast
  have "\<forall>node \<in> set (p_nodes p0). node_Name node \<noteq> []" by (simp add: n flat_node_def NodeName_def)
  with render_succeeds [OF keyed_encodes _ _ _ k] nm obtain p where 2: "render ?R p0 f = (Inr zero_outcome, p, f2)" by auto
  from render_keys [OF 2] k obtain configs where "p_configs p = Some configs"
    "\<forall>n rc. gm_get configs n = Some rc \<longrightarrow> file_keys keyed_yaml (p_cluster p0) n (rc_Data rc) keys" by auto
  then have "in_effect ?R p (\<lambda>n. map key_AccessKey keys)"
    using keyed_file assms(2) render_cluster [OF 2] by (fastforce simp: in_effect_def serves_file_def)
  moreover have "rendered_by ?R fs_cluster [] f p" unfolding rendered_by_def using 0 1 2 by (intro exI conjI) simp_all
  ultimately show ?thesis by blast
qed

lemma sample_cluster_names [simp]: "fsc_Name (sample_cluster spec) = ''fs''" "fsc_Namespace (sample_cluster spec) = ''storage''"
  by (simp_all add: sample_cluster_def)

definition storage_key :: FSAccessKey where
  "storage_key = fs_key\<lparr>ak_Namespace := ''storage''\<rparr>"

definition parting_key :: FSAccessKey where
  "parting_key = storage_key\<lparr>ak_DeletionTimestamp := Some 5, ak_Status := (ak_Status fs_key)\<lparr>akst_AccessKey := ''AK''\<rparr>\<rparr>"

lemma storage_key_simps [simp]:
  "ak_Namespace storage_key = ''storage''" "ak_Name storage_key = ''app''" "ak_DeletionTimestamp storage_key = None"
  "ak_Finalizers storage_key = [accessKeyFinalizer]" "aks_ClusterRef (ak_Spec storage_key) = ''fs''" "ak_Generation storage_key = 1"
  "AccessKeySecretSource storage_key = ''app-credentials''" "aks_Grants (ak_Spec storage_key) = []"
  by (simp_all add: storage_key_def fs_key_def sample_key_def AccessKeySecretSource_def AccessKeySecretName_def)

lemma parting_key_simps [simp]:
  "ak_Namespace parting_key = ''storage''" "ak_Name parting_key = ''app''" "ak_DeletionTimestamp parting_key = Some 5"
  "ak_Finalizers parting_key = [accessKeyFinalizer]" "aks_ClusterRef (ak_Spec parting_key) = ''fs''"
  "akst_AccessKey (ak_Status parting_key) = ''AK''"
  by (simp_all add: parting_key_def)

lemma quiet_credential: "credential_of (quiet_secret ns n) = Some (''AK'', ''0123456789abcdef'')"
  by (simp add: quiet_secret_def credential_of_def gm_str_def Let_def AccessKeyKey_def SecretKeyKey_def
      ClusterSecretKey_def AdminTokenKey_def MinSecretKeyLength_def)

lemma keyed_collects:
  assumes "fsc_Name c = ''fs''" "fsc_Namespace c = ''storage''"
  shows "\<exists>h'. collectAccessKeys (keyed [storage_key]) c h
      = (Inr [\<lparr>key_AccessKey = ''AK'', key_SecretKey = ''0123456789abcdef'', key_Grants = GrantsToConfig []\<rparr>], h')"
    and "\<exists>h'. collectAccessKeys (keyed [parting_key]) c h = (Inr [], h')"
  by (simp_all add: collectAccessKeys_def get_secret_def assms key_of_credential quiet_credential Let_def)

section \<open>Properties\<close>

text \<open>
  C21. A declared credential becomes ready. Let the Secret of a live key hold a usable credential, let
  a pass over its cluster have listed the key and rendered the configuration, and let the nodes
  serve what was rendered for them. Then the next reconcile of the key publishes Ready=True with
  KeyAccepted and the access key of the credential, and unless the API server refuses that status
  it neither fails nor asks to come back. This holds for generated and for imported credentials.
\<close>

theorem key_becomes_ready:
  assumes "serving_cluster K cluster accepted" "condition_setter (ke_SetStatusCondition K)" "key_sort (e_SortKeys R)"
    and live: "ke_GetKey K h (ak_Namespace key) (ak_Name key) = Inr key" "ak_DeletionTimestamp key = None"
      "fl_Contains (ke_Finalizers K) (ak_Finalizers key) accessKeyFinalizer" "\<And>h k. ke_Patch K h k = Inr k"
    and of_cluster: "ak_Namespace key = fsc_Namespace cluster" "aks_ClusterRef (ak_Spec key) = fsc_Name cluster"
    and secret: "\<And>h. ke_GetSecret K h (ak_Namespace key) (AccessKeySecretSource key) = Inr s" "credential_of s = Some c"
      "\<And>f. e_GetSecret R f (ak_Namespace key) (AccessKeySecretSource key) = Inr s"
    and rendered: "rendered_by R cluster f f' p" "e_ListKeys R f' (ak_Namespace key) = Inr items" "key \<in> set items"
      "in_effect R p accepted"
  shows "\<exists>result err as k bs. key_Reconcile K (ak_Namespace key) (ak_Name key) h = Some ((result, err), h @ as @ KPatchStatus k # bs)
    \<and> key_ready k = Some (ready_condition (ak_Generation key) (trueCondition ReasonKeyAccepted (msg fmt_accepted)))
    \<and> akst_AccessKey (ak_Status k) = fst c
    \<and> (ke_PatchStatus K (h @ as) k = None \<longrightarrow> result = no_result \<and> err = None)"
proof -
  obtain access secret where c: "c = (access, secret)" by (cases c)
  let ?h = "h @ [KGetKey (ak_Namespace key) (ak_Name key)]"
  have a: "access \<noteq> []" using secret(2) c by (auto simp: credential_of_def Let_def split: if_splits)
  have acc: "access \<in> set (accepted (node_Name node))" if "Nodes cluster = Some nodes" "node \<in> set nodes" for nodes node
    using credential_accepted [OF rendered(1,4) that assms(3) rendered(2,3) live(2) of_cluster secret(3,2)] c by simp
  from resolveCredential_found [OF secret(1,2), of ?h] obtain h1 where 1: "resolveCredential K key ?h = (Inr c, ?h @ h1)" by blast
  from stamp_stored [OF live(4), of key "credentialHash access secret" "?h @ h1"] obtain key' h2 where
    2: "stampCredentialHash K key (credentialHash access secret) (?h @ h1) = (Inr key', (?h @ h1) @ h2)" "ak_Namespace key' = ak_Namespace key"
      "ak_Spec key' = ak_Spec key" "ak_Generation key' = ak_Generation key" by blast
  from serving_cluster.verifyAccepted_ready [OF assms(1), of key' access "(?h @ h1) @ h2"] acc 2 of_cluster obtain h3 where
    3: "verifyAccepted K key' access ((?h @ h1) @ h2) = Some ((trueCondition ReasonKeyAccepted (msg fmt_accepted), False), h3)" by auto
  from verifyAccepted_cases [OF 3] obtain cs where cs: "h3 = ((?h @ h1) @ h2) @ cs" by (auto simp: emits_def)
  let ?k = "key_reported K key' access (trueCondition ReasonKeyAccepted (msg fmt_accepted))"
  let ?as = "KGetKey (ak_Namespace key) (ak_Name key) # h1 @ h2 @ cs"
  have "\<exists>result err bs. key_Reconcile K (ak_Namespace key) (ak_Name key) h = Some ((result, err), h @ ?as @ KPatchStatus ?k # bs)
      \<and> (ke_PatchStatus K (h @ ?as) ?k = None \<longrightarrow> result = no_result \<and> err = None)"
    using 1 2(1) 3 live(1-3) cs
    by (simp add: key_Reconcile_def key_reconcile_def add_key_finalizer_def key_live_def c key_report_def Let_def no_result_def)
  then obtain result err bs where "key_Reconcile K (ak_Namespace key) (ak_Name key) h = Some ((result, err), h @ ?as @ KPatchStatus ?k # bs)"
    "ke_PatchStatus K (h @ ?as) ?k = None \<longrightarrow> result = no_result \<and> err = None" by (elim exE conjE)
  moreover have "key_ready ?k = Some (ready_condition (ak_Generation key) (trueCondition ReasonKeyAccepted (msg fmt_accepted)))"
    "akst_AccessKey (ak_Status ?k) = fst c"
    using a c by (simp_all add: key_ready_reported [OF assms(2)] 2(4))
  ultimately show ?thesis by (intro exI [of _ ?as] exI [of _ ?k] exI conjI)
qed

theorem key_becomes_ready_witness:
  "\<exists>as k bs. key_Reconcile (key_world storage_key fs_cluster (\<lambda>n. Inr (quiet_secret ''storage'' n)) [''AK'']) ''storage'' ''app'' []
       = Some ((no_result, None), as @ KPatchStatus k # bs)
     \<and> key_ready k = Some (ready_condition 1 (trueCondition ReasonKeyAccepted (msg fmt_accepted)))
     \<and> akst_AccessKey (ak_Status k) = ''AK''"
proof -
  let ?K = "key_world storage_key fs_cluster (\<lambda>n. Inr (quiet_secret ''storage'' n)) [''AK'']"
  obtain f p where r: "rendered_by (keyed [storage_key]) fs_cluster [] f p" "in_effect (keyed [storage_key]) p (\<lambda>n. [''AK''])"
    using keyed_rendered [OF keyed_collects(1)] by auto
  note ready = key_becomes_ready [OF key_world_serves.serving_cluster_axioms [of storage_key "[''AK'']"], where R = "keyed [storage_key]" and key = storage_key and s = "quiet_secret ''storage'' ''app-credentials''" and h = "[]"
      and items = "[storage_key]", OF _ _ _ _ _ _ _ _ _ quiet_credential _ r(1) _ _ r(2)]
  have "\<exists>result err as k bs. key_Reconcile ?K ''storage'' ''app'' [] = Some ((result, err), [] @ as @ KPatchStatus k # bs)
      \<and> key_ready k = Some (ready_condition 1 (trueCondition ReasonKeyAccepted (msg fmt_accepted)))
      \<and> akst_AccessKey (ak_Status k) = ''AK''
      \<and> (ke_PatchStatus ?K ([] @ as) k = None \<longrightarrow> result = no_result \<and> err = None)"
    using ready by (simp add: replacing.condition_setter_axioms stable_sort.key_sort_axioms list_finalizers_def)
  then show ?thesis by auto
qed

text \<open>
  C23. A deleted credential is released. Let a key be on its way out, let a pass over its cluster have
  listed the keys and rendered the configuration, let no other live key of the cluster share its access
  key, and let the nodes serve what was rendered for them. Then the next reconcile of the key takes its
  finalizer off, and unless the API server refuses that update it neither fails nor asks to come back.
  With the key being deleted, the configuration is rendered without it: the two
  controllers never wait for one another.
\<close>

theorem deleted_key_released:
  assumes "serving_cluster K cluster accepted" "key_sort (e_SortKeys R)"
    and leaving: "ke_GetKey K h (ak_Namespace key) (ak_Name key) = Inr key" "ak_DeletionTimestamp key \<noteq> None"
      "fl_Contains (ke_Finalizers K) (ak_Finalizers key) accessKeyFinalizer"
    and of_cluster: "ak_Namespace key = fsc_Namespace cluster" "aks_ClusterRef (ak_Spec key) = fsc_Name cluster"
    and rendered: "rendered_by R cluster f f' p" "e_ListKeys R f' (ak_Namespace key) = Inr items" "in_effect R p accepted"
    and unshared: "\<And>other g s c. other \<in> set items \<Longrightarrow> ak_DeletionTimestamp other = None \<Longrightarrow>
      e_GetSecret R g (ak_Namespace key) (AccessKeySecretSource other) = Inr s \<Longrightarrow> credential_of s = Some c \<Longrightarrow>
      fst c \<noteq> akst_AccessKey (ak_Status key)"
  shows "\<exists>result err as k bs. key_Reconcile K (ak_Namespace key) (ak_Name key) h = Some ((result, err), h @ as @ KUpdate k # bs)
    \<and> ak_Finalizers k = fl_Remove (ke_Finalizers K) accessKeyFinalizer (ak_Finalizers key)
    \<and> (\<forall>stored. ke_Update K (h @ as) k = Inr stored \<longrightarrow> result = no_result \<and> err = None)"
proof -
  let ?a = "akst_AccessKey (ak_Status key)" and ?h = "h @ [KGetKey (ak_Namespace key) (ak_Name key)]"
  have "\<exists>cs. key_finalize K key ?h = Some (remove_key_finalizer K key (?h @ cs))"
  proof (cases "?a = []")
    case True
    with leaving(3) show ?thesis by (simp add: key_finalize_def exI [of _ "[]"])
  next
    case False
    from serving_cluster.nodeKeys_answers [OF assms(1) of_cluster, of ?h] obtain nodes ls h' where
      l: "Nodes cluster = Some nodes" "nodeKeys K key ?h = Some (Inr ls, h')"
        "\<forall>(n, v) \<in> set ls. n \<in> node_Name ` set nodes \<and> v = Some (accepted n)" by blast
    from accepted_collected [OF rendered(1,3) l(1)] obtain cl keys f2 where
      k: "fsc_Name cl = fsc_Name cluster" "fsc_Namespace cl = fsc_Namespace cluster" "collectAccessKeys R cl f' = (Inr keys, f2)"
        "\<And>node. node \<in> set nodes \<Longrightarrow> accepted (node_Name node) = map key_AccessKey keys" by blast
    have "?a \<notin> key_AccessKey ` set keys"
      using collected_from [OF assms(2) k(3), of items] rendered(2) unshared of_cluster(1) k(2) by (fastforce simp: own_keys_def)
    with l(3) k(4) have "\<not> list_ex (\<lambda>(node, keys). case keys of None \<Rightarrow> False | Some ks \<Rightarrow> slices_Contains ks ?a) ls"
      by (fastforce simp: list_ex_iff)
    then have "key_finalize K key ?h = Some (remove_key_finalizer K key
        (key_event K Normal ''KeyDeleted'' (Sprintf fmt_revoked [AS ?a]) h'))"
      using False leaving(3) l(2) by (simp add: key_finalize_def Let_def del: slices_Contains_iff)
    moreover obtain cs where "h' = ?h @ cs" using emits_nodeKeys [OF l(2)] by (auto simp: emits_def)
    ultimately show ?thesis by (metis key_event_append append.assoc)
  qed
  then obtain cs where f: "key_finalize K key ?h = Some (remove_key_finalizer K key (?h @ cs))" by blast
  let ?as = "KGetKey (ak_Namespace key) (ak_Name key) # cs"
  let ?k = "key\<lparr>ak_Finalizers := fl_Remove (ke_Finalizers K) accessKeyFinalizer (ak_Finalizers key)\<rparr>"
  have "\<exists>result err bs. key_Reconcile K (ak_Namespace key) (ak_Name key) h = Some ((result, err), h @ ?as @ KUpdate ?k # bs)
      \<and> (\<forall>stored. ke_Update K (h @ ?as) ?k = Inr stored \<longrightarrow> result = no_result \<and> err = None)"
    using leaving(1,2) f by (auto simp: key_Reconcile_def key_reconcile_def remove_key_finalizer_def Let_def split: sum.split)
  then show ?thesis by (elim exE conjE) (intro exI [of _ ?as] exI [of _ ?k] exI conjI, simp_all)
qed

theorem deleted_key_released_witness:
  "\<exists>as k bs. key_Reconcile (key_world parting_key fs_cluster (\<lambda>n. Inr (quiet_secret ''storage'' n)) []) ''storage'' ''app'' []
       = Some ((no_result, None), as @ KUpdate k # bs) \<and> ak_Finalizers k = []"
proof -
  let ?K = "key_world parting_key fs_cluster (\<lambda>n. Inr (quiet_secret ''storage'' n)) []"
  obtain f p where r: "rendered_by (keyed [parting_key]) fs_cluster [] f p" "in_effect (keyed [parting_key]) p (\<lambda>n. [])"
    using keyed_rendered [OF keyed_collects(2)] by auto
  note released = deleted_key_released [OF key_world_serves.serving_cluster_axioms [of parting_key "[]"], where R = "keyed [parting_key]" and key = parting_key and h = "[]" and items = "[parting_key]", OF _ _ _ _ _ _ r(1) _ r(2)]
  have "\<exists>result err as k bs. key_Reconcile ?K ''storage'' ''app'' [] = Some ((result, err), [] @ as @ KUpdate k # bs)
      \<and> ak_Finalizers k = fl_Remove list_finalizers accessKeyFinalizer [accessKeyFinalizer]
      \<and> (\<forall>stored. ke_Update ?K ([] @ as) k = Inr stored \<longrightarrow> result = no_result \<and> err = None)"
    using released by (simp add: stable_sort.key_sort_axioms list_finalizers_def)
  then show ?thesis by (auto simp: list_finalizers_def)
qed

end
