(* ===== verification/Secret_Flow.thy ===== *)
theory Secret_Flow
  imports Resource_Steps Convergence Bucket_Controller
begin

text \<open>
  How generated secrets get from the FSCluster controller, which mints them, to everything that reads
  them: its own later steps, the FSAccessKey and FSBucket controllers, and the environment of the
  pods. \<open>secret_server\<close> states what the API server does with a Secret that is created.
\<close>

section \<open>A server of Secrets\<close>

fun writes_secret :: "call \<Rightarrow> bool" where
  "writes_secret (CCreate owner obj) = (kind_of obj = KindSecret)"
| "writes_secret (CApply owner obj) = (kind_of obj = KindSecret)"
| "writes_secret (CDelete k ns n orphan) = (k = KindSecret)"
| "writes_secret c = False"

section \<open>What is wanted\<close>

text \<open>The Secrets a cluster needs and the keys in them, and whether one may be absent because it is minted.\<close>

definition wanted :: "FSCluster \<Rightarrow> (string \<times> string list \<times> bool) list" where
  "wanted c =
     [(ClusterSecretSource c, [ClusterSecretKey], spec_ClusterSecretRef (fsc_Spec c) = None),
      (RootCredentialsSource c, [AccessKeyKey, SecretKeyKey], auth_RootCredentialsSecretRef (spec_Auth (fsc_Spec c)) = None),
      (AdminTokenSecretName (fsc_Name c), [AdminTokenKey], True)]"

definition complete :: "string list \<Rightarrow> Secret \<Rightarrow> bool" where
  "complete keys s \<longleftrightarrow> (\<forall>k \<in> set keys. gm_str (sec_Data s) k \<noteq> [])"

text \<open>Every Secret that is wanted is complete, or absent and minted.\<close>

definition obtainable :: "FSCluster \<Rightarrow> (string \<Rightarrow> string \<Rightarrow> Secret option) \<Rightarrow> bool" where
  "obtainable c st \<longleftrightarrow> (\<forall>(name, keys, minted) \<in> set (wanted c).
     case st (fsc_Namespace c) name of None \<Rightarrow> minted | Some s \<Rightarrow> complete keys s)"

definition obtained :: "FSCluster \<Rightarrow> (string \<Rightarrow> string \<Rightarrow> Secret option) \<Rightarrow> bool" where
  "obtained c st \<longleftrightarrow> (\<forall>(name, keys, minted) \<in> set (wanted c). \<exists>s. st (fsc_Namespace c) name = Some s \<and> complete keys s)"

text \<open>A store that has everything another has.\<close>

definition extends :: "(string \<Rightarrow> string \<Rightarrow> Secret option) \<Rightarrow> (string \<Rightarrow> string \<Rightarrow> Secret option) \<Rightarrow> bool" where
  "extends st st' \<longleftrightarrow> (\<forall>ns n s. st ns n = Some s \<longrightarrow> st' ns n = Some s)"

text \<open>A store with one more Secret, where there was none of that name.\<close>

definition adds :: "(string \<Rightarrow> string \<Rightarrow> Secret option) \<Rightarrow> string \<Rightarrow> string \<Rightarrow> string list \<Rightarrow> (string \<Rightarrow> string \<Rightarrow> Secret option) \<Rightarrow> bool" where
  "adds st ns name keys st' \<longleftrightarrow> (\<exists>s. complete keys s
     \<and> st' = (\<lambda>ns' n. if st ns' n = None \<and> ns' = ns \<and> n = name then Some s else st ns' n))"

lemma adds_extends: "adds st ns name keys st' \<Longrightarrow> extends st st'"
  by (auto simp: adds_def extends_def)

lemma extends_trans: "extends st st' \<Longrightarrow> extends st' st'' \<Longrightarrow> extends st st''"
  by (auto simp: extends_def)

lemma extends_refl [simp]: "extends st st"
  by (simp add: extends_def)

text \<open>A wanted Secret that was there stays; one that was absent is there once it has been added.\<close>

lemma obtained_by:
  assumes "case st ns src of None \<Rightarrow> minted | Some s \<Rightarrow> complete keys s" "extends st st'"
    and "minted \<Longrightarrow> st ns src = None \<Longrightarrow> before ns src = None \<and> adds before ns src keys after \<and> extends after st'"
  shows "\<exists>s. st' ns src = Some s \<and> complete keys s"
proof (cases "st ns src")
  case None
  with assms(1,3) show ?thesis by (auto simp: adds_def extends_def)
next
  case (Some s)
  with assms(1,2) show ?thesis by (auto simp: extends_def)
qed

lemma adds_other: "adds st ns name keys st' \<Longrightarrow> n \<noteq> name \<Longrightarrow> st' ns n = st ns n"
  by (auto simp: adds_def)

lemma generated_distinct:
  "ClusterSecretName c \<noteq> RootCredentialsSecretName c" "ClusterSecretName c \<noteq> AdminTokenSecretName c"
  "RootCredentialsSecretName c \<noteq> AdminTokenSecretName c"
  by (simp_all add: ClusterSecretName_def RootCredentialsSecretName_def AdminTokenSecretName_def)

text \<open>A builder that mints a complete Secret of a name.\<close>

definition mints :: "Reconciler \<Rightarrow> FSCluster \<Rightarrow> secret_builder \<Rightarrow> string \<Rightarrow> string list \<Rightarrow> bool" where
  "mints R c build name keys \<longleftrightarrow> (\<forall>h. \<exists>s cs. build R c h = (Inr s, h @ cs) \<and> list_all (\<lambda>x. \<not> writes_secret x) cs
     \<and> sec_Namespace s = fsc_Namespace c \<and> sec_Name s = name \<and> complete keys (stored_secret s))"

locale secret_server =
  fixes R :: Reconciler
    and store :: "history \<Rightarrow> string \<Rightarrow> string \<Rightarrow> Secret option"
  assumes reads: "e_GetSecret R h ns n = (case store h ns n of None \<Rightarrow> Inl (ApiError NotFound) | Some s \<Rightarrow> Inr s)"
    and creates: "e_Create R h (KSecret s)
      = (if store h (sec_Namespace s) (sec_Name s) = None then None else Some (ApiError AlreadyExists))"
    and created: "store (h @ [CCreate owner (KSecret s)]) ns n
      = (if store h ns n = None \<and> ns = sec_Namespace s \<and> n = sec_Name s then Some (stored_secret s) else store h ns n)"
    and kept: "\<not> writes_secret c \<Longrightarrow> store (h @ [c]) = store h"
    and owns: "e_SetOwner R cluster (KSecret s) = None"
    and random: "\<exists>bs. e_Random R h k = Inr bs \<and> length bs = k"
begin

text \<open>Creating leaves what is there and otherwise stores.\<close>

lemma createOnce_stores:
  "createOnce R c (KSecret s) h = (None, h @ [CCreate (fsc_Name c) (KSecret s)])"
  by (auto simp: createOnce_def owns creates isAlreadyExists_def)

lemma kept_all: "list_all (\<lambda>x. \<not> writes_secret x) cs \<Longrightarrow> store (h @ cs) = store h"
proof (induction cs arbitrary: h)
  case (Cons c cs)
  then show ?case using kept [of c h] Cons.IH [of "h @ [c]"] by simp
qed simp

lemma token_minted: "\<exists>t. keygen_Token (random_bytes R h) = Inr t \<and> t \<noteq> []"
proof -
  obtain bs where b: "e_Random R h tokenBytes = Inr bs" "length bs = tokenBytes" using random by blast
  have "length (base64_RawURL bs) = 43" using b(2) by (simp add: base64_RawURL_def b64_groups_length tokenBytes_def)
  then have "base64_RawURL bs \<noteq> []" by auto
  with b show ?thesis by (simp add: keygen_Token_def random_bytes_def)
qed

lemma access_minted: "\<exists>k. keygen_AccessKey (random_bytes R h) = Inr k \<and> k \<noteq> []"
proof -
  obtain bs where "e_Random R h accessKeyBytes = Inr bs" using random by blast
  then show ?thesis by (simp add: keygen_AccessKey_def random_bytes_def accessKeyPrefix_def)
qed

lemma mints_cluster: "mints R c build_cluster_secret (ClusterSecretName (fsc_Name c)) [ClusterSecretKey]"
  unfolding mints_def
proof
  fix h
  obtain t where "keygen_Token (random_bytes R h) = Inr t" "t \<noteq> []" using token_minted by blast
  then show "\<exists>s cs. build_cluster_secret R c h = (Inr s, h @ cs) \<and> list_all (\<lambda>x. \<not> writes_secret x) cs
     \<and> sec_Namespace s = fsc_Namespace c \<and> sec_Name s = ClusterSecretName (fsc_Name c) \<and> complete [ClusterSecretKey] (stored_secret s)"
    by (simp add: build_cluster_secret_def NewClusterSecret_def newSecret_def complete_def stored_secret_def gm_copy_def gm_put_def gm_str_def)
qed

lemma mints_admin: "mints R c build_admin_secret (AdminTokenSecretName (fsc_Name c)) [AdminTokenKey]"
  unfolding mints_def
proof
  fix h
  obtain t where "keygen_Token (random_bytes R h) = Inr t" "t \<noteq> []" using token_minted by blast
  then show "\<exists>s cs. build_admin_secret R c h = (Inr s, h @ cs) \<and> list_all (\<lambda>x. \<not> writes_secret x) cs
     \<and> sec_Namespace s = fsc_Namespace c \<and> sec_Name s = AdminTokenSecretName (fsc_Name c) \<and> complete [AdminTokenKey] (stored_secret s)"
    by (simp add: build_admin_secret_def NewAdminTokenSecret_def newSecret_def complete_def stored_secret_def gm_copy_def gm_put_def gm_str_def)
qed

lemma mints_root: "mints R c build_root_secret (RootCredentialsSecretName (fsc_Name c)) [AccessKeyKey, SecretKeyKey]"
  unfolding mints_def
proof
  fix h
  obtain k where "keygen_AccessKey (random_bytes R h) = Inr k" "k \<noteq> []" using access_minted by blast
  moreover obtain t where "keygen_Token (random_bytes R (h @ [CRandom accessKeyBytes])) = Inr t" "t \<noteq> []" using token_minted by blast
  ultimately show "\<exists>s cs. build_root_secret R c h = (Inr s, h @ cs) \<and> list_all (\<lambda>x. \<not> writes_secret x) cs
     \<and> sec_Namespace s = fsc_Namespace c \<and> sec_Name s = RootCredentialsSecretName (fsc_Name c)
     \<and> complete [AccessKeyKey, SecretKeyKey] (stored_secret s)"
    by (simp add: build_root_secret_def NewRootCredentialsSecret_def newSecret_def complete_def stored_secret_def gm_copy_def
        gm_put_def gm_str_def Let_def AccessKeyKey_def SecretKeyKey_def)
qed

lemma generate_adds:
  assumes "mints R c build name keys"
  shows "\<exists>h1. generate_secret R c (False, build) h = (None, h1) \<and> adds (store h) (fsc_Namespace c) name keys (store h1)"
proof -
  from assms obtain s cs where b: "build R c h = (Inr s, h @ cs)" "list_all (\<lambda>x. \<not> writes_secret x) cs"
    "sec_Namespace s = fsc_Namespace c" "sec_Name s = name" "complete keys (stored_secret s)" unfolding mints_def by blast
  have "store (h @ cs @ [CCreate (fsc_Name c) (KSecret s)]) = (\<lambda>ns' n.
      if store h ns' n = None \<and> ns' = fsc_Namespace c \<and> n = name then Some (stored_secret s) else store h ns' n)"
    using created [of "h @ cs"] b kept_all [OF b(2), of h] by (intro ext) auto
  with b show ?thesis by (auto simp: generate_secret_def createOnce_stores adds_def)
qed

lemma generate_extends:
  assumes "mints R c build name keys"
  shows "\<exists>h1. generate_secret R c (skip, build) h = (None, h1) \<and> extends (store h) (store h1)
    \<and> (\<not> skip \<longrightarrow> adds (store h) (fsc_Namespace c) name keys (store h1)) \<and> (skip \<longrightarrow> h1 = h)"
proof (cases skip)
  case False
  with generate_adds [OF assms, of h] adds_extends show ?thesis by auto
qed (simp add: generate_secret_def)

text \<open>What a wanted Secret becomes: one that is there stays, one that is absent is minted.\<close>

lemma each_generated:
  assumes "obtainable c (store h)"
  shows "\<exists>h1. each (generate_secret R c) (generated c) h = (None, h1) \<and> extends (store h) (store h1) \<and> obtained c (store h1)"
proof -
  let ?ns = "fsc_Namespace c"
  let ?s1 = "spec_ClusterSecretRef (fsc_Spec c) \<noteq> None" and ?s2 = "auth_RootCredentialsSecretRef (spec_Auth (fsc_Spec c)) \<noteq> None"
  obtain h1 where 1: "generate_secret R c (?s1, build_cluster_secret) h = (None, h1)" "extends (store h) (store h1)"
    "\<not> ?s1 \<Longrightarrow> adds (store h) ?ns (ClusterSecretName (fsc_Name c)) [ClusterSecretKey] (store h1)" "?s1 \<Longrightarrow> h1 = h"
    using generate_extends [OF mints_cluster] by blast
  obtain h2 where 2: "generate_secret R c (?s2, build_root_secret) h1 = (None, h2)" "extends (store h1) (store h2)"
    "\<not> ?s2 \<Longrightarrow> adds (store h1) ?ns (RootCredentialsSecretName (fsc_Name c)) [AccessKeyKey, SecretKeyKey] (store h2)" "?s2 \<Longrightarrow> h2 = h1"
    using generate_extends [OF mints_root] by blast
  obtain h3 where 3: "generate_secret R c (False, build_admin_secret) h2 = (None, h3)" "extends (store h2) (store h3)"
    "adds (store h2) ?ns (AdminTokenSecretName (fsc_Name c)) [AdminTokenKey] (store h3)"
    using generate_extends [OF mints_admin, where skip = False] by blast
  have run: "each (generate_secret R c) (generated c) h = (None, h3)" by (simp add: generated_def 1(1) 2(1) 3(1) del: not_None_eq)
  have ext: "extends (store h) (store h3)" using 1(2) 2(2) 3(2) extends_trans by blast
  have 12: "store h1 ?ns n = store h ?ns n" if "n \<noteq> ClusterSecretName (fsc_Name c)" for n
    using 1(3,4) adds_other that by (cases ?s1) blast+
  have 23: "store h2 ?ns n = store h1 ?ns n" if "n \<noteq> RootCredentialsSecretName (fsc_Name c)" for n
    using 2(3,4) adds_other that by (cases ?s2) blast+
  note distinct = generated_distinct [of "fsc_Name c"]
  have w: "(ClusterSecretSource c, [ClusterSecretKey], \<not> ?s1) \<in> set (wanted c)"
    "(RootCredentialsSource c, [AccessKeyKey, SecretKeyKey], \<not> ?s2) \<in> set (wanted c)"
    "(AdminTokenSecretName (fsc_Name c), [AdminTokenKey], True) \<in> set (wanted c)" by (simp_all add: wanted_def)
  have want: "case store h ?ns src of None \<Rightarrow> minted | Some s \<Rightarrow> complete keys s" if "(src, keys, minted) \<in> set (wanted c)" for src keys minted
    using assms that by (auto simp: obtainable_def)
  have "\<exists>s. store h3 ?ns (ClusterSecretSource c) = Some s \<and> complete [ClusterSecretKey] s"
    by (rule obtained_by [OF want [OF w(1)] ext, where before = "store h" and after = "store h1"])
      (use 1(3) 2(2) 3(2) extends_trans in \<open>auto simp: ClusterSecretSource_def\<close>)
  moreover have "\<exists>s. store h3 ?ns (RootCredentialsSource c) = Some s \<and> complete [AccessKeyKey, SecretKeyKey] s"
    by (rule obtained_by [OF want [OF w(2)] ext, where before = "store h1" and after = "store h2"])
      (use 2(3) 3(2) 12 distinct in \<open>auto simp: RootCredentialsSource_def\<close>)
  moreover have "\<exists>s. store h3 ?ns (AdminTokenSecretName (fsc_Name c)) = Some s \<and> complete [AdminTokenKey] s"
    by (rule obtained_by [OF want [OF w(3)] ext, where before = "store h2" and after = "store h3"])
      (use 3(3) 12 23 distinct in \<open>auto\<close>)
  ultimately have "obtained c (store h3)" by (simp add: obtained_def wanted_def)
  with run ext show ?thesis by blast
qed

lemma require_complete:
  assumes "\<forall>(name, keys) \<in> set refs. \<exists>s. store h (fsc_Namespace (p_cluster p)) name = Some s \<and> complete keys s"
  shows "\<exists>cs. require_loop R refs p h = (Continue, p, h @ cs) \<and> store (h @ cs) = store h"
  using assms
proof (induction refs arbitrary: h)
  case Nil
  then show ?case by (simp add: exI [of _ "[]"])
next
  case (Cons ref refs)
  obtain name keys where r: "ref = (name, keys)" by (cases ref)
  let ?c = "CGetSecret (fsc_Namespace (p_cluster p)) name"
  from Cons.prems r obtain s where s: "store h (fsc_Namespace (p_cluster p)) name = Some s" "complete keys s" by auto
  then have "find (\<lambda>k. length (gm_str (sec_Data s) k) = 0) keys = None" by (auto simp: find_None_iff complete_def)
  with s have one: "requireSecret R name keys p h = (Continue, p, h @ [?c])"
    by (simp add: requireSecret_def get_secret_def reads)
  have k: "store (h @ [?c]) = store h" by (rule kept) simp
  with Cons.IH [of "h @ [?c]"] Cons.prems obtain cs where "require_loop R refs p (h @ [?c]) = (Continue, p, (h @ [?c]) @ cs)"
    "store ((h @ [?c]) @ cs) = store (h @ [?c])" by auto
  with one k r show ?case by (intro exI [of _ "?c # cs"]) (simp add: Continue_def zero_outcome_def)
qed

lemma secrets_step:
  assumes "obtainable (p_cluster p) (store h)"
  shows "\<exists>h'. reconcileSecrets R p h = (Continue, p, h') \<and> extends (store h) (store h') \<and> obtained (p_cluster p) (store h')"
proof -
  obtain h1 where 1: "each (generate_secret R (p_cluster p)) (generated (p_cluster p)) h = (None, h1)"
    "extends (store h) (store h1)" "obtained (p_cluster p) (store h1)" using each_generated [OF assms] by blast
  have "\<exists>cs. require_loop R (required (p_cluster p)) p h1 = (Continue, p, h1 @ cs) \<and> store (h1 @ cs) = store h1"
    using 1(3) by (intro require_complete) (auto simp: obtained_def wanted_def required_def)
  then obtain cs where "require_loop R (required (p_cluster p)) p h1 = (Continue, p, h1 @ cs)" "store (h1 @ cs) = store h1" by blast
  with 1 show ?thesis by (simp add: reconcileSecrets_def)
qed

end

section \<open>The readers\<close>

text \<open>The other controllers read the same store.\<close>

definition key_reads :: "(string \<Rightarrow> string \<Rightarrow> Secret option) \<Rightarrow> FSAccessKeyReconciler \<Rightarrow> bool" where
  "key_reads st K \<longleftrightarrow> (\<forall>g ns n s. st ns n = Some s \<longrightarrow> ke_GetSecret K g ns n = Inr s)"

definition bucket_reads :: "(string \<Rightarrow> string \<Rightarrow> Secret option) \<Rightarrow> FSBucketReconciler \<Rightarrow> bool" where
  "bucket_reads st B \<longleftrightarrow> (\<forall>g ns n s. st ns n = Some s \<longrightarrow> be_GetSecret B g ns n = Inr s)"

text \<open>The Secret keys that environment variables refer to.\<close>

definition env_refs :: "EnvVar list \<Rightarrow> (string \<times> string) list" where
  "env_refs vars = concat (map (\<lambda>v. case env_ValueFrom v of Some (SecretKeyRef n k) \<Rightarrow> [(n, k)] | other \<Rightarrow> []) vars)"

text \<open>
  A variable that is set once among some, from the key of a Secret with a value. What the user
  appends (\<open>pt_ExtraEnv\<close>) comes after the variables of the operator and may set one again.
\<close>

definition set_from :: "(string \<Rightarrow> string \<Rightarrow> string) \<Rightarrow> EnvVar list \<Rightarrow> string \<Rightarrow> string \<Rightarrow> bool" where
  "set_from value vars var x \<longleftrightarrow> (\<exists>v name key. [w \<leftarrow> vars. env_Name w = var] = [v]
     \<and> env_ValueFrom v = Some (SecretKeyRef name key) \<and> value name key = x)"

text \<open>The variables of the operator itself.\<close>

definition own_env :: "FSCluster \<Rightarrow> Node \<Rightarrow> EnvVar list" where
  "own_env c node =
     [secretEnv envClusterSecret (ClusterSecretSource c) ClusterSecretKey,
      secretEnv envAdminToken (AdminTokenSecretName (fsc_Name c)) AdminTokenKey,
      secretEnv envRootAccessKey (RootCredentialsSource c) AccessKeyKey,
      secretEnv envRootSecretKey (RootCredentialsSource c) SecretKeyKey,
      valueEnv envLogLevel (obs_LogLevel (spec_Observability (fsc_Spec c))),
      valueEnv envResourceAttrs (resourceAttributes c node)]
     @ telemetryEnv (spec_Observability (fsc_Spec c))
     @ (if pprofEnabled c then [valueEnv envPprofAddr (listenAddr PprofPort)] else [])"

lemma own_env_vars: "env_vars c node = own_env c node @ pt_ExtraEnv (spec_PodTemplate (fsc_Spec c))"
  by (simp add: own_env_def env_vars_def Let_def)

lemma plain_env [simp]:
  "env_ValueFrom (valueEnv n v) = None" "env_ValueFrom (signalEndpoint n e x) = None" "env_ValueFrom (signalProtocol n e x) = None"
  by (simp_all add: valueEnv_def signalEndpoint_def signalProtocol_def)

lemma telemetry_no_refs: "v \<in> set (telemetryEnv spec) \<Longrightarrow> env_ValueFrom v = None"
  unfolding telemetryEnv_def Let_def set_append set_filter by (elim UnE) (auto split: if_splits)

lemma signal_heads:
  "hd n \<noteq> c \<Longrightarrow> env_Name (signalEndpoint n e x) = [] \<or> hd (env_Name (signalEndpoint n e x)) \<noteq> c"
  "hd n \<noteq> c \<Longrightarrow> env_Name (signalProtocol n e x) = [] \<or> hd (env_Name (signalProtocol n e x)) \<noteq> c"
  by (simp_all add: signalEndpoint_def signalProtocol_def valueEnv_def)

lemma list_all_filter: "list_all P (filter Q xs) = list_all (\<lambda>x. \<not> Q x \<or> P x) xs"
  by (auto simp: list_all_iff)

lemma telemetry_names: "list_all (\<lambda>v. hd (env_Name v) \<noteq> CHR ''F'') (telemetryEnv spec)"
  unfolding telemetryEnv_def Let_def list_all_append list_all_filter
  by (intro conjI) (simp_all add: signal_heads valueEnv_def)

lemma telemetry_others: "hd var = CHR ''F'' \<Longrightarrow> [w \<leftarrow> telemetryEnv spec. env_Name w = var] = []"
  using telemetry_names [of spec] by (auto simp: filter_empty_conv list_all_iff)

lemma own_env_set:
  "set_from value (own_env c node) envClusterSecret (value (ClusterSecretSource c) ClusterSecretKey)"
  "set_from value (own_env c node) envAdminToken (value (AdminTokenSecretName (fsc_Name c)) AdminTokenKey)"
  "set_from value (own_env c node) envRootAccessKey (value (RootCredentialsSource c) AccessKeyKey)"
  "set_from value (own_env c node) envRootSecretKey (value (RootCredentialsSource c) SecretKeyKey)"
  by (simp_all add: set_from_def own_env_def telemetry_others secretEnv_def valueEnv_def)

lemma env_refs_wanted:
  "set (env_refs (own_env c node)) = {(ClusterSecretSource c, ClusterSecretKey), (AdminTokenSecretName (fsc_Name c), AdminTokenKey),
     (RootCredentialsSource c, AccessKeyKey), (RootCredentialsSource c, SecretKeyKey)}"
proof -
  have "env_refs (telemetryEnv spec) = []" for spec
    by (auto simp: env_refs_def dest: telemetry_no_refs)
  then show ?thesis
    by (auto simp: env_refs_def own_env_def secretEnv_def simp del: concat_eq_Nil_conv)
qed

text \<open>What a pod is started with: the value a Secret key has in a store.\<close>

definition secret_value :: "(string \<Rightarrow> string \<Rightarrow> Secret option) \<Rightarrow> string \<Rightarrow> string \<Rightarrow> string \<Rightarrow> string" where
  "secret_value st ns name key = (case st ns name of None \<Rightarrow> [] | Some s \<Rightarrow> gm_str (sec_Data s) key)"

lemma obtained_values:
  assumes "obtained c st"
  shows "secret_value st (fsc_Namespace c) (ClusterSecretSource c) ClusterSecretKey \<noteq> []"
    and "secret_value st (fsc_Namespace c) (AdminTokenSecretName (fsc_Name c)) AdminTokenKey \<noteq> []"
    and "secret_value st (fsc_Namespace c) (RootCredentialsSource c) AccessKeyKey \<noteq> []"
    and "secret_value st (fsc_Namespace c) (RootCredentialsSource c) SecretKeyKey \<noteq> []"
  using assms by (auto simp: obtained_def wanted_def complete_def secret_value_def)

lemma secret_value_some: "secret_value st ns name key \<noteq> [] \<Longrightarrow> \<exists>s. st ns name = Some s \<and> gm_str (sec_Data s) key = secret_value st ns name key"
  by (auto simp: secret_value_def split: option.splits)

lemma key_token_read:
  assumes "key_reads st K" "secret_value st (fsc_Namespace c) (AdminTokenSecretName (fsc_Name c)) AdminTokenKey = token" "token \<noteq> []"
  shows "fst (key_adminToken K c g) = Inr token"
proof -
  from secret_value_some [of st "fsc_Namespace c" "AdminTokenSecretName (fsc_Name c)" AdminTokenKey] assms(2,3)
  obtain s where "st (fsc_Namespace c) (AdminTokenSecretName (fsc_Name c)) = Some s" "gm_str (sec_Data s) AdminTokenKey = token" by auto
  with assms(1,3) show ?thesis by (simp add: key_reads_def key_adminToken_def Let_def)
qed

lemma bucket_token_read:
  assumes "bucket_reads st B" "secret_value st (fsc_Namespace c) (AdminTokenSecretName (fsc_Name c)) AdminTokenKey = token" "token \<noteq> []"
    "Nodes c = Some (node # nodes)"
  shows "map_option fst (clusterAdmin B c g)
    = Some (fsclient_New (be_NewClient B) (AdminURL (fsc_Name c) (fsc_Namespace c) (node_Name node)) token DefaultTimeout)"
proof -
  from secret_value_some [of st "fsc_Namespace c" "AdminTokenSecretName (fsc_Name c)" AdminTokenKey] assms(2,3)
  obtain s where "st (fsc_Namespace c) (AdminTokenSecretName (fsc_Name c)) = Some s" "gm_str (sec_Data s) AdminTokenKey = token" by auto
  with assms(1,3,4) show ?thesis by (simp add: bucket_reads_def clusterAdmin_def bucket_adminClient_def Let_def)
qed

lemma bucket_root_read:
  assumes "bucket_reads st B" "secret_value st (fsc_Namespace c) (RootCredentialsSource c) AccessKeyKey = access" "access \<noteq> []"
    "secret_value st (fsc_Namespace c) (RootCredentialsSource c) SecretKeyKey = secretKey" "secretKey \<noteq> []"
  shows "fst (s3For B c g) = newMinioClient B
    (ClientServiceName (fsc_Name c) @ ''.'' @ fsc_Namespace c @ ''.svc:'' @ itoa S3Port) access secretKey
    (tls_SecretName (s3_TLS (spec_S3 (fsc_Spec c))) \<noteq> [])"
proof -
  obtain s where "st (fsc_Namespace c) (RootCredentialsSource c) = Some s" "gm_str (sec_Data s) AccessKeyKey = access"
    "gm_str (sec_Data s) SecretKeyKey = secretKey"
    using assms(2-5) by (auto simp: secret_value_def split: option.splits)
  with assms(1,3,5) show ?thesis by (simp add: bucket_reads_def s3For_def Let_def)
qed

lemma adminToken_nonempty: "fst (adminToken R p h) = Inr token \<Longrightarrow> token \<noteq> []"
  by (auto simp: adminToken_def get_secret_def Let_def split: sum.splits if_splits)

section \<open>A server that remembers what was created\<close>

text \<open>The Secrets after a history: what is created where there was none of the name is kept.\<close>

fun note_call :: "call \<Rightarrow> (string \<Rightarrow> string \<Rightarrow> Secret option) \<Rightarrow> string \<Rightarrow> string \<Rightarrow> Secret option" where
  "note_call (CCreate owner (KSecret s)) st = (\<lambda>ns n.
     if st ns n = None \<and> ns = sec_Namespace s \<and> n = sec_Name s then Some (stored_secret s) else st ns n)"
| "note_call c st = st"

definition created_in :: "history \<Rightarrow> string \<Rightarrow> string \<Rightarrow> Secret option" where
  "created_in h = fold note_call h (\<lambda>ns n. None)"

definition remembering :: Reconciler where
  "remembering = (quiet [] (quiet_layout []) [])\<lparr>
     e_GetSecret := \<lambda>h ns n. case created_in h ns n of None \<Rightarrow> Inl (ApiError NotFound) | Some s \<Rightarrow> Inr s,
     e_Create := \<lambda>h obj. case obj of
         KSecret s \<Rightarrow> if created_in h (sec_Namespace s) (sec_Name s) = None then None else Some (ApiError AlreadyExists)
       | other \<Rightarrow> None\<rparr>"

lemma note_other: "\<not> writes_secret c \<Longrightarrow> note_call c st = st"
  by (cases "(c, st)" rule: note_call.cases) simp_all

interpretation remembering: secret_server remembering created_in
proof
  show "\<exists>bs. e_Random remembering h k = Inr bs \<and> length bs = k" for h k by (simp add: remembering_def quiet_def)
qed (auto simp: remembering_def created_in_def note_other)

section \<open>Property\<close>

text \<open>
  C12. What the operator mints is what everything reads. On a server that keeps the Secrets created
  on it, let each Secret the cluster needs be there with its keys or be absent and left to the
  operator. Then the secrets step goes on, no Secret that was there has changed, and afterwards the
  operator's own steps, the FSAccessKey controller and the FSBucket controller all read one and the
  same admin token, and the FSBucket controller speaks S3 with one pair of root credentials. The
  container of every node gets exactly these: among the variables the operator gives it, which
  come before what the user appends, FS_ADMIN_TOKEN is set once, from a Secret key that holds this
  token, FS_ROOT_ACCESS_KEY and FS_ROOT_SECRET_KEY once, from Secret keys that hold these
  credentials, and FS_CLUSTER_SECRET once, from the cluster secret; none of them is empty, and no
  other Secret key is referred to that has no value.
\<close>

theorem minted_secrets_reach_readers:
  assumes "secret_server R store" and "obtainable (p_cluster p) (store h)"
  shows "\<exists>h'. reconcileSecrets R p h = (Continue, p, h') \<and> extends (store h) (store h')
    \<and> (let c = p_cluster p; value = secret_value (store h') (fsc_Namespace c);
          token = value (AdminTokenSecretName (fsc_Name c)) AdminTokenKey;
          access = value (RootCredentialsSource c) AccessKeyKey; secretKey = value (RootCredentialsSource c) SecretKeyKey
        in (\<forall>node. \<exists>own. con_Env (fsContainer c node) = own @ pt_ExtraEnv (spec_PodTemplate (fsc_Spec c))
                \<and> set_from value own envClusterSecret (value (ClusterSecretSource c) ClusterSecretKey)
                \<and> set_from value own envAdminToken token
                \<and> set_from value own envRootAccessKey access \<and> set_from value own envRootSecretKey secretKey
                \<and> (\<forall>(name, key) \<in> set (env_refs own). value name key \<noteq> []))
           \<and> fst (adminToken R p h') = Inr token
           \<and> (\<forall>K g. key_reads (store h') K \<longrightarrow> fst (key_adminToken K c g) = Inr token)
           \<and> (\<forall>B g node nodes. bucket_reads (store h') B \<and> Nodes c = Some (node # nodes) \<longrightarrow>
                map_option fst (clusterAdmin B c g) = Some (fsclient_New (be_NewClient B)
                  (AdminURL (fsc_Name c) (fsc_Namespace c) (node_Name node)) token DefaultTimeout))
           \<and> (\<forall>B g. bucket_reads (store h') B \<longrightarrow> fst (s3For B c g) = newMinioClient B
                (ClientServiceName (fsc_Name c) @ ''.'' @ fsc_Namespace c @ ''.svc:'' @ itoa S3Port) access secretKey
                (tls_SecretName (s3_TLS (spec_S3 (fsc_Spec c))) \<noteq> [])))"
proof -
  let ?c = "p_cluster p"
  from secret_server.secrets_step [OF assms] obtain h' where run: "reconcileSecrets R p h = (Continue, p, h')"
    "extends (store h) (store h')" and got: "obtained ?c (store h')" by blast
  let ?v = "secret_value (store h') (fsc_Namespace ?c)"
  note vals = obtained_values [OF got]
  from secret_value_some [OF vals(2)] obtain s where
    s: "store h' (fsc_Namespace ?c) (AdminTokenSecretName (fsc_Name ?c)) = Some s"
      "gm_str (sec_Data s) AdminTokenKey = ?v (AdminTokenSecretName (fsc_Name ?c)) AdminTokenKey" by blast
  have own: "fst (adminToken R p h') = Inr (?v (AdminTokenSecretName (fsc_Name ?c)) AdminTokenKey)"
    using s vals(2) by (simp add: adminToken_def get_secret_def secret_server.reads [OF assms(1)] Let_def)
  have "\<forall>(name, key) \<in> set (env_refs (own_env ?c node)). ?v name key \<noteq> []" for node
    using vals by (auto simp: env_refs_wanted)
  then have pods: "\<exists>own. con_Env (fsContainer ?c node) = own @ pt_ExtraEnv (spec_PodTemplate (fsc_Spec ?c))
      \<and> set_from ?v own envClusterSecret (?v (ClusterSecretSource ?c) ClusterSecretKey)
      \<and> set_from ?v own envAdminToken (?v (AdminTokenSecretName (fsc_Name ?c)) AdminTokenKey)
      \<and> set_from ?v own envRootAccessKey (?v (RootCredentialsSource ?c) AccessKeyKey)
      \<and> set_from ?v own envRootSecretKey (?v (RootCredentialsSource ?c) SecretKeyKey)
      \<and> (\<forall>(name, key) \<in> set (env_refs own). ?v name key \<noteq> [])" for node
    using own_env_set [of ?v ?c node] own_env_vars [of ?c node]
    by (intro exI [of _ "own_env ?c node"]) (simp add: fsContainer_def Let_def del: envClusterSecret_def envAdminToken_def envRootAccessKey_def envRootSecretKey_def)
  show ?thesis unfolding Let_def
    by (intro exI [of _ h'] conjI allI impI run own pods)
      (use key_token_read [OF _ refl vals(2)] bucket_token_read [OF _ refl vals(2)]
        bucket_root_read [OF _ refl vals(3) refl vals(4)] in auto)
qed

theorem minted_secrets_reach_readers_witness:
  "\<exists>h' token. reconcileSecrets remembering (two_nodes_pass (config_cluster [] two_racks)) [] = (Continue, two_nodes_pass (config_cluster [] two_racks), h')
     \<and> token \<noteq> [] \<and> fst (adminToken remembering (two_nodes_pass (config_cluster [] two_racks)) h') = Inr token
     \<and> (\<exists>v \<in> set (con_Env (fsContainer (config_cluster [] two_racks) (flat_node ''fs'' 0))). \<exists>name key. env_Name v = ''FS_ADMIN_TOKEN''
          \<and> env_ValueFrom v = Some (SecretKeyRef name key) \<and> secret_value (created_in h') ''storage'' name key = token)"
proof -
  let ?c = "config_cluster [] two_racks"
  let ?p = "two_nodes_pass ?c" and ?v = "\<lambda>h'. secret_value (created_in h') (fsc_Namespace (p_cluster (two_nodes_pass (config_cluster [] two_racks))))"
  have "obtainable (p_cluster ?p) (created_in [])"
    by (simp add: obtainable_def wanted_def created_in_def two_nodes_pass_def config_cluster_def sample_spec_def)
  from minted_secrets_reach_readers [OF remembering.secret_server_axioms this] obtain h' where
    run: "reconcileSecrets remembering ?p [] = (Continue, ?p, h')" and
    pods: "\<forall>node. \<exists>own. con_Env (fsContainer (p_cluster ?p) node) = own @ pt_ExtraEnv (spec_PodTemplate (fsc_Spec (p_cluster ?p)))
      \<and> set_from (?v h') own envClusterSecret (?v h' (ClusterSecretSource (p_cluster ?p)) ClusterSecretKey)
      \<and> set_from (?v h') own envAdminToken (?v h' (AdminTokenSecretName (fsc_Name (p_cluster ?p))) AdminTokenKey)
      \<and> set_from (?v h') own envRootAccessKey (?v h' (RootCredentialsSource (p_cluster ?p)) AccessKeyKey)
      \<and> set_from (?v h') own envRootSecretKey (?v h' (RootCredentialsSource (p_cluster ?p)) SecretKeyKey)
      \<and> (\<forall>(name, key) \<in> set (env_refs own). ?v h' name key \<noteq> [])" and
    t: "fst (adminToken remembering ?p h') = Inr (?v h' (AdminTokenSecretName (fsc_Name (p_cluster ?p))) AdminTokenKey)"
    unfolding Let_def by (elim exE conjE)
  have c: "p_cluster ?p = ?c" "fsc_Namespace ?c = ''storage''" by (simp_all add: two_nodes_pass_def config_cluster_def)
  from pods obtain own where own: "con_Env (fsContainer ?c (flat_node ''fs'' 0)) = own @ pt_ExtraEnv (spec_PodTemplate (fsc_Spec ?c))"
    "set_from (?v h') own envAdminToken (?v h' (AdminTokenSecretName (fsc_Name ?c)) AdminTokenKey)" unfolding c by blast
  from own(2) obtain v name key where v: "[w \<leftarrow> own. env_Name w = ''FS_ADMIN_TOKEN''] = [v]" "env_ValueFrom v = Some (SecretKeyRef name key)"
    "?v h' name key = ?v h' (AdminTokenSecretName (fsc_Name ?c)) AdminTokenKey" by (auto simp: set_from_def)
  from v(1) have "v \<in> set [w \<leftarrow> own. env_Name w = ''FS_ADMIN_TOKEN'']" by simp
  then have "v \<in> set (con_Env (fsContainer ?c (flat_node ''fs'' 0)))" "env_Name v = ''FS_ADMIN_TOKEN''" by (simp_all add: own(1))
  with v adminToken_nonempty [OF t] run t show ?thesis unfolding c by blast
qed

end
