(* ===== verification/Op_Metrics.thy ===== *)
theory Op_Metrics
  imports Controller
begin

text \<open>
  \<open>internal/metrics/metrics.go\<close>: the operator's own Prometheus series. The vectors of the Prometheus
  client are not part of the repository; the locale \<open>metric_vec\<close> states what its documentation
  promises of a vector (a series per combination of label values, \<open>WithLabelValues\<close> and
  \<open>DeletePartialMatch\<close>), and the operations here are written over any such vectors.

  The metrics are global variables of the process. The FSCluster controller's calls on them are
  part of a history (\<open>CRecordCluster\<close>, \<open>CUpdateFinished\<close>, \<open>CReconcileError\<close>, \<open>CForget\<close>), so the
  metrics after a pass are a fold over the calls it made (\<open>metrics_after\<close>).
\<close>

section \<open>Vectors of series\<close>

text \<open>
  \<open>vl_With labels f\<close> is \<open>WithLabelValues(labels)\<close> followed by an update of the series; the series is
  created when it is not there. \<open>vl_Get\<close> is what is exported.
\<close>

record ('v, 'x) vec_lib =
  vl_With :: "string list \<Rightarrow> ('x option \<Rightarrow> 'x) \<Rightarrow> 'v \<Rightarrow> 'v"
  vl_DeletePartialMatch :: "string list \<Rightarrow> (string, string) gomap \<Rightarrow> 'v \<Rightarrow> 'v"
  vl_Get :: "'v \<Rightarrow> string list \<Rightarrow> 'x option"

definition partial_match :: "string list \<Rightarrow> (string, string) gomap \<Rightarrow> string list \<Rightarrow> bool" where
  "partial_match names labels values \<longleftrightarrow> list_all (\<lambda>l. l \<in> set (zip names values)) labels"

locale metric_vec =
  fixes lib :: "('v, 'x) vec_lib"
  assumes get_with: "vl_Get lib (vl_With lib ls f v) ls' = (if ls' = ls then Some (f (vl_Get lib v ls)) else vl_Get lib v ls')"
    and get_delete: "vl_Get lib (vl_DeletePartialMatch lib names labels v) ls
      = (if partial_match names labels ls then None else vl_Get lib v ls)"
begin

lemma with_other: "ls' \<noteq> ls \<Longrightarrow> vl_Get lib (vl_With lib ls f v) ls' = vl_Get lib v ls'"
  by (simp add: get_with)

lemma deleted_stays: "vl_Get lib v ls = None \<Longrightarrow> vl_Get lib (vl_DeletePartialMatch lib names labels v) ls = None"
  by (simp add: get_delete)

end

text \<open>A vector as a map from label values to series.\<close>

definition map_vec :: "((string list, 'x) gomap, 'x) vec_lib" where
  "map_vec = \<lparr>vl_With = (\<lambda>ls f v. gm_put ls (f (gm_get v ls)) v),
     vl_DeletePartialMatch = (\<lambda>names labels v. filter (\<lambda>(ls, x). \<not> partial_match names labels ls) v),
     vl_Get = gm_get\<rparr>"

interpretation mapped_vec: metric_vec map_vec
proof
  fix ls ls' :: "string list" and f and v :: "(string list, 'x) gomap" and names labels
  show "vl_Get map_vec (vl_With map_vec ls f v) ls' = (if ls' = ls then Some (f (vl_Get map_vec v ls)) else vl_Get map_vec v ls')"
    by (simp add: map_vec_def)
  have "map_of (filter (\<lambda>(ls, x). \<not> partial_match names labels ls) v) ls = (if partial_match names labels ls then None else map_of v ls)"
    by (induction v) auto
  then show "vl_Get map_vec (vl_DeletePartialMatch map_vec names labels v) ls = (if partial_match names labels ls then None else vl_Get map_vec v ls)"
    by (simp add: map_vec_def gm_get_def)
qed

section \<open>The metrics\<close>

definition labelNamespace :: string where "labelNamespace = ''namespace''"
definition labelCluster :: string where "labelCluster = ''cluster''"
definition labelState :: string where "labelState = ''state''"
definition labelPhase :: string where "labelPhase = ''phase''"

definition NodeStateDeclared :: string where "NodeStateDeclared = ''declared''"
definition NodeStateReady :: string where "NodeStateReady = ''ready''"
definition NodeStateUp :: string where "NodeStateUp = ''up''"

text \<open>
  Every value the operator sets is an integer, so a gauge is an \<open>int\<close>; the histogram is the list of
  its observations, the counter a \<open>nat\<close>.
\<close>

record ('g, 'd, 'c) metrics =
  m_clusterReady :: 'g
  m_clusterNodes :: 'g
  m_updatePhase :: 'g
  m_updateDuration :: 'd
  m_layoutRetained :: 'g
  m_reconcileErrors :: 'c

record ('g, 'd, 'c) metric_libs =
  ml_gauge :: "('g, int) vec_lib"
  ml_histogram :: "('d, Duration list) vec_lib"
  ml_counter :: "('c, nat) vec_lib"

definition allPhases :: "string list" where
  "allPhases = [UpdatePhasePreflight, UpdatePhaseRollingNodes, UpdatePhaseDraining]"

definition boolValue :: "bool \<Rightarrow> int" where
  "boolValue b = (if b then 1 else 0)"

definition metrics_ready :: "FSCluster \<Rightarrow> bool" where
  "metrics_ready cluster = (case find (\<lambda>c. cond_Type c = ConditionReady) (st_Conditions (fsc_Status cluster)) of
      Some c \<Rightarrow> cond_Status c = ConditionTrue
    | None \<Rightarrow> False)"

text \<open>\<open>WithLabelValues(...).Set(x)\<close>.\<close>

definition set_gauge :: "('g, int) vec_lib \<Rightarrow> string list \<Rightarrow> int \<Rightarrow> 'g \<Rightarrow> 'g" where
  "set_gauge lib ls x = vl_With lib ls (\<lambda>_. x)"

definition RecordCluster :: "('g, 'd, 'c) metric_libs \<Rightarrow> FSCluster \<Rightarrow> ('g, 'd, 'c) metrics \<Rightarrow> ('g, 'd, 'c) metrics" where
  "RecordCluster L cluster m =
     (let ns = fsc_Namespace cluster; name = fsc_Name cluster; status = fsc_Status cluster; G = ml_gauge L;
          retained = (case st_Layout status of None \<Rightarrow> 0 | Some l \<Rightarrow> int (length (ls_RetainedVersions l)));
          current = (case st_Update status of None \<Rightarrow> [] | Some u \<Rightarrow> us_Phase u)
      in m\<lparr>m_clusterReady := set_gauge G [ns, name] (boolValue (metrics_ready cluster)) (m_clusterReady m),
           m_clusterNodes := set_gauge G [ns, name, NodeStateUp] (st_UpNodes status)
             (set_gauge G [ns, name, NodeStateReady] (st_ReadyNodes status)
               (set_gauge G [ns, name, NodeStateDeclared] (st_Nodes status) (m_clusterNodes m))),
           m_layoutRetained := set_gauge G [ns, name] retained (m_layoutRetained m),
           m_updatePhase := fold (\<lambda>phase. set_gauge G [ns, name, phase] (boolValue (phase = current))) allPhases (m_updatePhase m)\<rparr>)"

text \<open>The duration is what \<open>time.Since\<close> gave.\<close>

definition RecordUpdateFinished ::
    "('g, 'd, 'c) metric_libs \<Rightarrow> FSCluster \<Rightarrow> Duration \<Rightarrow> ('g, 'd, 'c) metrics \<Rightarrow> ('g, 'd, 'c) metrics" where
  "RecordUpdateFinished L cluster since m = m\<lparr>m_updateDuration :=
     vl_With (ml_histogram L) [fsc_Namespace cluster, fsc_Name cluster]
       (\<lambda>x. (case x of None \<Rightarrow> [] | Some ds \<Rightarrow> ds) @ [since]) (m_updateDuration m)\<rparr>"

definition RecordReconcileError :: "('g, 'd, 'c) metric_libs \<Rightarrow> string \<Rightarrow> ('g, 'd, 'c) metrics \<Rightarrow> ('g, 'd, 'c) metrics" where
  "RecordReconcileError L controller m = m\<lparr>m_reconcileErrors :=
     vl_With (ml_counter L) [controller] (\<lambda>x. (case x of None \<Rightarrow> 0 | Some n \<Rightarrow> n) + 1) (m_reconcileErrors m)\<rparr>"

definition Forget :: "('g, 'd, 'c) metric_libs \<Rightarrow> string \<Rightarrow> string \<Rightarrow> ('g, 'd, 'c) metrics \<Rightarrow> ('g, 'd, 'c) metrics" where
  "Forget L namespace name m =
     (let labels = [(labelNamespace, namespace), (labelCluster, name)]; G = ml_gauge L
      in m\<lparr>m_clusterReady := vl_DeletePartialMatch G [labelNamespace, labelCluster] labels (m_clusterReady m),
           m_clusterNodes := vl_DeletePartialMatch G [labelNamespace, labelCluster, labelState] labels (m_clusterNodes m),
           m_layoutRetained := vl_DeletePartialMatch G [labelNamespace, labelCluster] labels (m_layoutRetained m),
           m_updatePhase := vl_DeletePartialMatch G [labelNamespace, labelCluster, labelPhase] labels (m_updatePhase m),
           m_updateDuration := vl_DeletePartialMatch (ml_histogram L) [labelNamespace, labelCluster] labels (m_updateDuration m)\<rparr>)"

section \<open>The metrics after a pass\<close>

fun metrics_call :: "('g, 'd, 'c) metric_libs \<Rightarrow> call \<Rightarrow> ('g, 'd, 'c) metrics \<Rightarrow> ('g, 'd, 'c) metrics" where
  "metrics_call L (CRecordCluster c) m = RecordCluster L c m"
| "metrics_call L (CUpdateFinished c d) m = RecordUpdateFinished L c d m"
| "metrics_call L (CReconcileError s) m = RecordReconcileError L s m"
| "metrics_call L (CForget ns n) m = Forget L ns n m"
| "metrics_call L c m = m"

definition metrics_after :: "('g, 'd, 'c) metric_libs \<Rightarrow> call list \<Rightarrow> ('g, 'd, 'c) metrics \<Rightarrow> ('g, 'd, 'c) metrics" where
  "metrics_after L cs m = fold (metrics_call L) cs m"

lemma metrics_after_simps [simp]:
  "metrics_after L [] m = m" "metrics_after L (c # cs) m = metrics_after L cs (metrics_call L c m)"
  "metrics_after L (cs @ ds) m = metrics_after L ds (metrics_after L cs m)"
  by (simp_all add: metrics_after_def)

locale metric_vecs =
  fixes L :: "('g, 'd, 'c) metric_libs"
  assumes gauge: "metric_vec (ml_gauge L)" and histogram: "metric_vec (ml_histogram L)" and counter: "metric_vec (ml_counter L)"
begin

lemma get_set_gauge:
  "vl_Get (ml_gauge L) (set_gauge (ml_gauge L) ls x v) ls' = (if ls' = ls then Some x else vl_Get (ml_gauge L) v ls')"
  using metric_vec.get_with [OF gauge] by (simp add: set_gauge_def)

end

text \<open>
  The series of a cluster: whether it has any, in the vectors keyed by cluster, and that they are
  the same in two states.
\<close>

definition no_series :: "('g, 'd, 'c) metric_libs \<Rightarrow> string \<Rightarrow> string \<Rightarrow> ('g, 'd, 'c) metrics \<Rightarrow> bool" where
  "no_series L ns n m \<longleftrightarrow> vl_Get (ml_gauge L) (m_clusterReady m) [ns, n] = None
     \<and> (\<forall>x. vl_Get (ml_gauge L) (m_clusterNodes m) [ns, n, x] = None)
     \<and> (\<forall>x. vl_Get (ml_gauge L) (m_updatePhase m) [ns, n, x] = None)
     \<and> vl_Get (ml_histogram L) (m_updateDuration m) [ns, n] = None
     \<and> vl_Get (ml_gauge L) (m_layoutRetained m) [ns, n] = None"

definition same_series :: "('g, 'd, 'c) metric_libs \<Rightarrow> string \<Rightarrow> string \<Rightarrow> ('g, 'd, 'c) metrics \<Rightarrow> ('g, 'd, 'c) metrics \<Rightarrow> bool" where
  "same_series L ns n m m' \<longleftrightarrow> vl_Get (ml_gauge L) (m_clusterReady m') [ns, n] = vl_Get (ml_gauge L) (m_clusterReady m) [ns, n]
     \<and> (\<forall>x. vl_Get (ml_gauge L) (m_clusterNodes m') [ns, n, x] = vl_Get (ml_gauge L) (m_clusterNodes m) [ns, n, x])
     \<and> (\<forall>x. vl_Get (ml_gauge L) (m_updatePhase m') [ns, n, x] = vl_Get (ml_gauge L) (m_updatePhase m) [ns, n, x])
     \<and> vl_Get (ml_histogram L) (m_updateDuration m') [ns, n] = vl_Get (ml_histogram L) (m_updateDuration m) [ns, n]
     \<and> vl_Get (ml_gauge L) (m_layoutRetained m') [ns, n] = vl_Get (ml_gauge L) (m_layoutRetained m) [ns, n]"

lemma same_series_trans: "same_series L ns n a b \<Longrightarrow> same_series L ns n b c \<Longrightarrow> same_series L ns n a c"
  by (simp add: same_series_def)

lemma same_series_refl [simp]: "same_series L ns n m m"
  by (simp add: same_series_def)

context metric_vecs
begin

lemma match_labels:
  "partial_match [labelNamespace, labelCluster] [(labelNamespace, ns), (labelCluster, n)] [ns', n'] \<longleftrightarrow> ns' = ns \<and> n' = n"
  "partial_match [labelNamespace, labelCluster, labelState] [(labelNamespace, ns), (labelCluster, n)] [ns', n', x] \<longleftrightarrow> ns' = ns \<and> n' = n"
  "partial_match [labelNamespace, labelCluster, labelPhase] [(labelNamespace, ns), (labelCluster, n)] [ns', n', x] \<longleftrightarrow> ns' = ns \<and> n' = n"
  by (auto simp: partial_match_def labelNamespace_def labelCluster_def labelState_def labelPhase_def)

lemma Forget_series: "no_series L ns n (Forget L ns n m)"
  "(ns', n') \<noteq> (ns, n) \<Longrightarrow> same_series L ns' n' m (Forget L ns n m)"
  by (auto simp: no_series_def same_series_def Forget_def metric_vec.get_delete [OF gauge] metric_vec.get_delete [OF histogram]
      match_labels Let_def)

lemma RecordCluster_ready:
  "vl_Get (ml_gauge L) (m_clusterReady (RecordCluster L c m)) [fsc_Namespace c, fsc_Name c] = Some (boolValue (metrics_ready c))"
  by (simp add: RecordCluster_def get_set_gauge Let_def)

lemma RecordCluster_nodes:
  "vl_Get (ml_gauge L) (m_clusterNodes (RecordCluster L c m)) [fsc_Namespace c, fsc_Name c, NodeStateDeclared] = Some (st_Nodes (fsc_Status c))"
  "vl_Get (ml_gauge L) (m_clusterNodes (RecordCluster L c m)) [fsc_Namespace c, fsc_Name c, NodeStateReady] = Some (st_ReadyNodes (fsc_Status c))"
  "vl_Get (ml_gauge L) (m_clusterNodes (RecordCluster L c m)) [fsc_Namespace c, fsc_Name c, NodeStateUp] = Some (st_UpNodes (fsc_Status c))"
  by (simp_all add: RecordCluster_def get_set_gauge Let_def NodeStateDeclared_def NodeStateReady_def NodeStateUp_def)

lemma RecordCluster_phase:
  assumes "phase \<in> set allPhases"
  shows "vl_Get (ml_gauge L) (m_updatePhase (RecordCluster L c m)) [fsc_Namespace c, fsc_Name c, phase]
    = Some (boolValue (case st_Update (fsc_Status c) of None \<Rightarrow> False | Some u \<Rightarrow> us_Phase u = phase))"
proof -
  have fold: "vl_Get (ml_gauge L) (fold (\<lambda>phase. set_gauge (ml_gauge L) [a, b, phase] (f phase)) ps v) [a, b, p]
      = (if p \<in> set ps then Some (f p) else vl_Get (ml_gauge L) v [a, b, p])" for a b f ps v p
    by (induction ps arbitrary: v) (auto simp: get_set_gauge)
  have "phase \<noteq> []" using assms by (auto simp: allPhases_def UpdatePhasePreflight_def UpdatePhaseRollingNodes_def UpdatePhaseDraining_def)
  with assms show ?thesis
    by (cases "st_Update (fsc_Status c)") (auto simp: RecordCluster_def fold Let_def intro!: arg_cong [of _ _ boolValue])
qed

lemma RecordCluster_other:
  assumes "(ns, n) \<noteq> (fsc_Namespace c, fsc_Name c)"
  shows "same_series L ns n m (RecordCluster L c m)"
proof -
  have "vl_Get (ml_gauge L) (fold (\<lambda>phase. set_gauge (ml_gauge L) [fsc_Namespace c, fsc_Name c, phase] (f phase)) ps v) [ns, n, x]
      = vl_Get (ml_gauge L) v [ns, n, x]" for f ps v x
    using assms by (induction ps arbitrary: v) (auto simp: get_set_gauge)
  with assms show ?thesis by (auto simp: same_series_def RecordCluster_def get_set_gauge Let_def)
qed

lemma Finished_other:
  "(ns, n) \<noteq> (fsc_Namespace c, fsc_Name c) \<Longrightarrow> same_series L ns n m (RecordUpdateFinished L c d m)"
  by (auto simp: same_series_def RecordUpdateFinished_def metric_vec.get_with [OF histogram])

lemma Error_series: "same_series L ns n m (RecordReconcileError L s m)"
  by (simp add: same_series_def RecordReconcileError_def)

end

interpretation mapped_vecs: metric_vecs "\<lparr>ml_gauge = map_vec, ml_histogram = map_vec, ml_counter = map_vec\<rparr>"
  by (rule metric_vecs.intro) (simp_all add: mapped_vec.metric_vec_axioms)

section \<open>The status step is the last word\<close>

lemma pipeline_last: "pipeline R = butlast (pipeline R) @ [mk_step ''status'' True (reconcileStatus R)]"
  by (simp add: pipeline_def)

text \<open>Every pass ends with the status step, whatever stopped it before.\<close>

lemma pipeline_ends_with_status:
  assumes "pipeline_Run record_pass (pipeline R) (p, h) = (res, (p', h'))"
  shows "\<exists>q g. prefix h g \<and> h' = snd (snd (reconcileStatus R q g))"
proof -
  obtain v q g where b: "run_steps record_pass (butlast (pipeline R)) (run_init, (p, h)) = (v, (q, g))"
    by (metis surj_pair)
  have "pass_rel (p, h) (q, g)"
    using controller.run_steps_rel [of "butlast (pipeline R)" R "(p, h)" run_init] b by (simp add: in_set_butlastD subsetI)
  then have "prefix h g" by (auto simp: pass_rel_def emits_def prefix_def)
  obtain r2 p2 h2 where st: "reconcileStatus R q g = (r2, p2, h2)" by (cases "reconcileStatus R q g")
  have "snd (snd (run_steps record_pass (butlast (pipeline R) @ [mk_step ''status'' True (reconcileStatus R)]) (run_init, (p, h)))) = h2"
    unfolding run_steps_append b
    using st by (cases r2) (auto simp: mk_step_def run_step_def step_of_def record_pass_def)
  then have "snd (snd (pipeline_Run record_pass (pipeline R) (p, h))) = h2"
    unfolding pipeline_state pipeline_last [symmetric] .
  with assms st \<open>prefix h g\<close> show ?thesis by (intro exI [of _ q] exI [of _ g]) auto
qed

definition gauge_status :: "('g, 'd, 'c) metric_libs \<Rightarrow> FSCluster \<Rightarrow> ('g, 'd, 'c) metrics \<Rightarrow> bool" where
  "gauge_status L c m \<longleftrightarrow>
     vl_Get (ml_gauge L) (m_clusterReady m) [fsc_Namespace c, fsc_Name c] = Some (boolValue (metrics_ready c))
     \<and> vl_Get (ml_gauge L) (m_clusterNodes m) [fsc_Namespace c, fsc_Name c, NodeStateDeclared] = Some (st_Nodes (fsc_Status c))
     \<and> vl_Get (ml_gauge L) (m_clusterNodes m) [fsc_Namespace c, fsc_Name c, NodeStateReady] = Some (st_ReadyNodes (fsc_Status c))
     \<and> vl_Get (ml_gauge L) (m_clusterNodes m) [fsc_Namespace c, fsc_Name c, NodeStateUp] = Some (st_UpNodes (fsc_Status c))
     \<and> (\<forall>phase \<in> set allPhases. vl_Get (ml_gauge L) (m_updatePhase m) [fsc_Namespace c, fsc_Name c, phase]
          = Some (boolValue (case st_Update (fsc_Status c) of None \<Rightarrow> False | Some u \<Rightarrow> us_Phase u = phase)))"

lemma gauge_status_kept:
  "gauge_status L c m \<Longrightarrow> gauge_status L c (RecordUpdateFinished L c' d m)"
  "gauge_status L c m \<Longrightarrow> gauge_status L c (RecordReconcileError L s m)"
  by (simp_all add: gauge_status_def RecordUpdateFinished_def RecordReconcileError_def)

lemma status_metrics:
  assumes "metric_vecs L"
  shows "\<exists>c rest. snd (snd (reconcileStatus R q g)) = g @ CPatchStatus c # rest \<and> (\<forall>c'. CPatchStatus c' \<notin> set rest)
    \<and> (\<forall>stored. e_PatchStatus R g c = Inr stored \<longrightarrow> gauge_status L stored (metrics_after L (CPatchStatus c # rest) m))"
proof (cases "e_PatchStatus R g (p_object (status_pass R q))")
  case (Inl e)
  then show ?thesis by (intro exI [of _ "p_object (status_pass R q)"] exI [of _ "[]"]) (simp add: reconcileStatus_def status_pass_def Let_def)
next
  case (Inr stored)
  let ?c = "p_object (status_pass R q)" and ?p = "(status_pass R q)\<lparr>p_object := stored\<rparr>"
  let ?g = "g @ [CPatchStatus ?c, CRecordCluster stored]"
  have rec: "gauge_status L stored (RecordCluster L stored m)"
    using metric_vecs.RecordCluster_ready [OF assms] metric_vecs.RecordCluster_nodes [OF assms] metric_vecs.RecordCluster_phase [OF assms]
    by (simp add: gauge_status_def)
  have "\<exists>us. update_finished R (p_object q) ?p ?g = ?g @ us \<and> (\<forall>c'. CPatchStatus c' \<notin> set us)
      \<and> gauge_status L stored (metrics_after L us (RecordCluster L stored m))"
    using rec by (simp add: update_finished_def now_def gauge_status_kept split: option.split)
  then obtain us where us: "update_finished R (p_object q) ?p ?g = ?g @ us" "\<forall>c'. CPatchStatus c' \<notin> set us"
    "gauge_status L stored (metrics_after L us (RecordCluster L stored m))" by blast
  define vs where "vs = us @ (if p_failure ?p \<noteq> None then [CReconcileError ''fscluster''] else [])"
  have "snd (snd (reconcileStatus R q g)) = g @ CPatchStatus ?c # CRecordCluster stored # vs"
    using Inr us(1) by (simp add: reconcileStatus_def status_pass_def vs_def Let_def)
  moreover have "\<forall>c'. CPatchStatus c' \<notin> set vs" "gauge_status L stored (metrics_after L vs (RecordCluster L stored m))"
    using us(2,3) by (simp_all add: vs_def gauge_status_kept)
  ultimately show ?thesis using Inr by (intro exI [of _ ?c] exI [of _ "CRecordCluster stored # vs"]) simp
qed

section \<open>Properties\<close>

text \<open>
  C28. The operator's series tell the truth about the clusters. After a pass over a cluster that
  is gone, or being deleted, the operator exports no series for it any more, and the series of
  every other cluster are as they were. After any other pass whose status was written, the
  exported readiness is the Ready condition of exactly the status the API server answered it stored,
  the node counts are its counts, and of the update phases exactly the current one, if any, is 1.
\<close>

theorem metrics_follow_status:
  assumes "metric_vecs L" and "Reconcile R ns name h = Some (res, h @ cs)"
  shows "case e_GetCluster R h ns name of
      Inl e \<Rightarrow> isNotFound e \<longrightarrow> no_series L ns name (metrics_after L cs m)
        \<and> ((ns', name') \<noteq> (ns, name) \<longrightarrow> same_series L ns' name' m (metrics_after L cs m))
    | Inr object \<Rightarrow>
        if fsc_DeletionTimestamp object \<noteq> None
        then no_series L (fsc_Namespace object) (fsc_Name object) (metrics_after L cs m)
          \<and> ((ns', name') \<noteq> (fsc_Namespace object, fsc_Name object) \<longrightarrow> same_series L ns' name' m (metrics_after L cs m))
        else \<exists>as c bs. cs = as @ CPatchStatus c # bs \<and> (\<forall>c'. CPatchStatus c' \<notin> set bs)
          \<and> (\<forall>stored. e_PatchStatus R (h @ as) c = Inr stored \<longrightarrow> gauge_status L stored (metrics_after L cs m))"
proof (cases "e_GetCluster R h ns name")
  case (Inl e)
  with assms metric_vecs.Forget_series [OF assms(1)] show ?thesis by (auto simp: Reconcile_def)
next
  case (Inr object)
  show ?thesis
  proof (cases "fsc_DeletionTimestamp object")
    case (Some t)
    with Inr assms metric_vecs.Forget_series [OF assms(1)] show ?thesis by (auto simp: Reconcile_def)
  next
    case None
    let ?h = "h @ [CGetCluster ns name]"
    obtain p r e p' where run: "pipeline_Run record_pass (pipeline R) (p, ?h) = ((r, e), (p', h @ cs))"
      by (rule Reconcile_ran [OF assms(2) Inr None])
    from pipeline_ends_with_status [OF run] obtain q g where g: "prefix ?h g" "h @ cs = snd (snd (reconcileStatus R q g))" by auto
    from g(1) obtain as where as: "g = h @ as" by (auto simp: prefix_def)
    from status_metrics [OF assms(1), of R q g "metrics_after L as m"] obtain c rest where
      "snd (snd (reconcileStatus R q g)) = g @ CPatchStatus c # rest" "\<forall>c'. CPatchStatus c' \<notin> set rest"
      "\<forall>stored. e_PatchStatus R g c = Inr stored \<longrightarrow> gauge_status L stored (metrics_after L (CPatchStatus c # rest) (metrics_after L as m))" by (elim exE conjE)
    with g(2) as have "cs = as @ CPatchStatus c # rest \<and> (\<forall>c'. CPatchStatus c' \<notin> set rest)
        \<and> (\<forall>stored. e_PatchStatus R (h @ as) c = Inr stored \<longrightarrow> gauge_status L stored (metrics_after L cs m))"
      by auto
    then have "\<exists>as c bs. cs = as @ CPatchStatus c # bs \<and> (\<forall>c'. CPatchStatus c' \<notin> set bs)
        \<and> (\<forall>stored. e_PatchStatus R (h @ as) c = Inr stored \<longrightarrow> gauge_status L stored (metrics_after L cs m))" by (intro exI)
    then show ?thesis using Inr None by (simp only: sum.case simp_thms if_False)
  qed
qed

definition leaving_cluster :: FSCluster where
  "leaving_cluster = (sample_cluster (sample_spec three_nodes 1000))\<lparr>fsc_DeletionTimestamp := Some 7\<rparr>"

definition stale_metrics :: "((string list, int) gomap, (string list, Duration list) gomap, (string list, nat) gomap) metrics" where
  "stale_metrics = \<lparr>m_clusterReady = [([''storage'', ''fs''], 0), ([''storage'', ''other''], 1)], m_clusterNodes = [], m_updatePhase = [],
     m_updateDuration = [], m_layoutRetained = [], m_reconcileErrors = []\<rparr>"

theorem metrics_follow_status_witness:
  "\<exists>res cs. Reconcile (storing leaving_cluster) ''storage'' ''fs'' [] = Some (res, cs)
     \<and> no_series \<lparr>ml_gauge = map_vec, ml_histogram = map_vec, ml_counter = map_vec\<rparr> ''storage'' ''fs''
         (metrics_after \<lparr>ml_gauge = map_vec, ml_histogram = map_vec, ml_counter = map_vec\<rparr> cs stale_metrics)
     \<and> gm_get (m_clusterReady (metrics_after \<lparr>ml_gauge = map_vec, ml_histogram = map_vec, ml_counter = map_vec\<rparr> cs stale_metrics))
         [''storage'', ''other''] = Some 1"
proof -
  let ?L = "\<lparr>ml_gauge = map_vec, ml_histogram = map_vec, ml_counter = map_vec\<rparr>
    :: ((string list, int) gomap, (string list, Duration list) gomap, (string list, nat) gomap) metric_libs"
  have d: "fsc_DeletionTimestamp leaving_cluster \<noteq> None" "fsc_Namespace leaving_cluster = ''storage''" "fsc_Name leaving_cluster = ''fs''"
    by (simp_all add: leaving_cluster_def sample_cluster_def)
  then have "\<exists>res cs. Reconcile (storing leaving_cluster) ''storage'' ''fs'' [] = Some (res, [] @ cs)"
    by (simp add: Reconcile_def storing_simps)
  then obtain res cs where run: "Reconcile (storing leaving_cluster) ''storage'' ''fs'' [] = Some (res, [] @ cs)" by blast
  have "no_series ?L ''storage'' ''fs'' (metrics_after ?L cs stale_metrics)
      \<and> same_series ?L ''storage'' ''other'' stale_metrics (metrics_after ?L cs stale_metrics)"
    using metrics_follow_status [OF mapped_vecs.metric_vecs_axioms run, of stale_metrics "''storage''" "''other''"] d
    by (simp add: storing_simps)
  moreover have "gm_get (m_clusterReady stale_metrics) [''storage'', ''other''] = Some 1" by (simp add: stale_metrics_def)
  moreover have "vl_Get (ml_gauge ?L) = gm_get" by (simp add: map_vec_def)
  ultimately show ?thesis using run by (simp add: same_series_def)
qed

end
