(* ===== verification/Go_Memory.thy ===== *)
theory Go_Memory
  imports Main "HOL-Library.AList"
begin

text \<open>
  Memory as far as copying looks at it. A pointer, a slice or a map is a reference to a cell; a
  struct holds its fields by value, references among them. \<open>snap\<close> reads a value of a type with everything
  it refers to, and tells which cells that takes; \<open>deep\<close> is the contract of a copying function: an equal
  value in cells of its own. The statements of \<open>DeepCopyInto\<close> are functions here that keep this
  contract.
\<close>

named_theorems copies

section \<open>Memory\<close>

datatype gval =
    Text string
  | Number int
  | Flag bool
  | Ref "nat option"
  | Struct "(string \<times> gval) list"

text \<open>The cell of a pointer holds one value, that of a slice its elements, that of a map its entries.\<close>

datatype cell = Cells "gval list" | Entries "(string \<times> gval) list"

record mem =
  cell :: "nat \<Rightarrow> cell"
  lim :: nat

definition new_cell :: "cell \<Rightarrow> mem \<Rightarrow> gval \<times> mem" where
  "new_cell c m = (Ref (Some (lim m)), m\<lparr>cell := (cell m)(lim m := c), lim := lim m + 1\<rparr>)"

text \<open>One memory extends another: nothing that was there has changed.\<close>

definition grows :: "mem \<Rightarrow> mem \<Rightarrow> bool" where
  "grows m m' \<longleftrightarrow> lim m \<le> lim m' \<and> (\<forall>a < lim m. cell m' a = cell m a)"

lemma grows_refl [simp]: "grows m m"
  by (simp add: grows_def)

lemma grows_trans: "grows m m' \<Longrightarrow> grows m' m'' \<Longrightarrow> grows m m''"
  by (auto simp: grows_def)

lemma grows_new: "new_cell c m = (v, m') \<Longrightarrow> grows m m'"
  by (auto simp: new_cell_def grows_def)

section \<open>Types and values\<close>

datatype gtype =
    TScalar
  | TPtr gtype
  | TSlice gtype
  | TMap gtype
  | TStruct "(string \<times> gtype) list"

fun scalar :: "gval \<Rightarrow> bool" where
  "scalar (Text s) = True"
| "scalar (Number i) = True"
| "scalar (Flag b) = True"
| "scalar v = False"

datatype dval =
    DScalar gval
  | DNil
  | DPtr dval
  | DSlice "dval list"
  | DMap "(string \<times> dval) list"
  | DStruct "(string \<times> dval) list"

text \<open>Reading a list of things one by one, with the cells they take.\<close>

fun gather :: "('a \<Rightarrow> ('b \<times> nat set) option) \<Rightarrow> 'a list \<Rightarrow> ('b list \<times> nat set) option" where
  "gather f [] = Some ([], {})"
| "gather f (x # xs) = (case f x of None \<Rightarrow> None | Some (d, A) \<Rightarrow>
     (case gather f xs of None \<Rightarrow> None | Some (ds, B) \<Rightarrow> Some (d # ds, A \<union> B)))"

lemma gather_cong [fundef_cong]:
  "xs = ys \<Longrightarrow> (\<And>x. x \<in> set ys \<Longrightarrow> f x = g x) \<Longrightarrow> gather f xs = gather g ys"
  by (induction xs arbitrary: ys) (auto split: option.split)

text \<open>
  The value of a type that a memory holds, and the cells it is made of: \<open>None\<close> for a value that is not of the
  type, or that refers to memory that is not there.
\<close>

fun snap :: "mem \<Rightarrow> gtype \<Rightarrow> gval \<Rightarrow> (dval \<times> nat set) option"
  and snap_fields :: "mem \<Rightarrow> (string \<times> gtype) list \<Rightarrow> (string \<times> gval) list \<Rightarrow> ((string \<times> dval) list \<times> nat set) option" where
  "snap m TScalar v = (if scalar v then Some (DScalar v, {}) else None)"
| "snap m (TPtr T) v = (case v of
      Ref None \<Rightarrow> Some (DNil, {})
    | Ref (Some a) \<Rightarrow> (if a < lim m then (case cell m a of
          Cells [w] \<Rightarrow> map_option (\<lambda>(d, A). (DPtr d, insert a A)) (snap m T w)
        | other \<Rightarrow> None) else None)
    | other \<Rightarrow> None)"
| "snap m (TSlice T) v = (case v of
      Ref None \<Rightarrow> Some (DNil, {})
    | Ref (Some a) \<Rightarrow> (if a < lim m then (case cell m a of
          Cells ws \<Rightarrow> map_option (\<lambda>(ds, A). (DSlice ds, insert a A)) (gather (\<lambda>w. snap m T w) ws)
        | other \<Rightarrow> None) else None)
    | other \<Rightarrow> None)"
| "snap m (TMap T) v = (case v of
      Ref None \<Rightarrow> Some (DNil, {})
    | Ref (Some a) \<Rightarrow> (if a < lim m then (case cell m a of
          Entries es \<Rightarrow> (if distinct (map fst es)
            then map_option (\<lambda>(ds, A). (DMap (zip (map fst es) ds), insert a A)) (gather (\<lambda>w. snap m T w) (map snd es)) else None)
        | other \<Rightarrow> None) else None)
    | other \<Rightarrow> None)"
| "snap m (TStruct fs) v = (case v of
      Struct vs \<Rightarrow> map_option (\<lambda>(ds, A). (DStruct ds, A)) (snap_fields m fs vs)
    | other \<Rightarrow> None)"
| "snap_fields m [] vs = (case vs of [] \<Rightarrow> Some ([], {}) | w # ws \<Rightarrow> None)"
| "snap_fields m ((f, T) # fs) vs = (case vs of
      [] \<Rightarrow> None
    | (g, v) # ws \<Rightarrow> (if f = g then (case snap m T v of None \<Rightarrow> None | Some (d, A) \<Rightarrow>
        (case snap_fields m fs ws of None \<Rightarrow> None | Some (ds, B) \<Rightarrow> Some ((f, d) # ds, A \<union> B))) else None))"

lemma gather_frame:
  "gather f xs = Some (ds, A) \<Longrightarrow> (\<And>x d B. x \<in> set xs \<Longrightarrow> f x = Some (d, B) \<Longrightarrow> B \<subseteq> A \<Longrightarrow> g x = Some (d, B)) \<Longrightarrow> gather g xs = Some (ds, A)"
proof (induction xs arbitrary: ds A)
  case (Cons x xs)
  from Cons.prems(1) obtain d B ds' C where x: "f x = Some (d, B)" "gather f xs = Some (ds', C)" "ds = d # ds'" "A = B \<union> C"
    by (auto split: option.splits)
  then have "g x = Some (d, B)" using Cons.prems(2) by auto
  moreover have "gather g xs = Some (ds', C)" using x Cons.prems(2) by (intro Cons.IH [OF x(2)]) auto
  ultimately show ?case using x by simp
qed simp

text \<open>The shapes a value of a reference type can have.\<close>

lemma snap_ptr_cases:
  assumes "snap m (TPtr T) v = Some (d, A)"
  obtains "v = Ref None" "d = DNil" "A = {}"
  | a w d' B where "v = Ref (Some a)" "a < lim m" "cell m a = Cells [w]" "snap m T w = Some (d', B)" "d = DPtr d'" "A = insert a B"
  using assms by (auto split: gval.splits option.splits if_splits cell.splits list.splits)

lemma snap_slice_cases:
  assumes "snap m (TSlice T) v = Some (d, A)"
  obtains "v = Ref None" "d = DNil" "A = {}"
  | a ws ds B where "v = Ref (Some a)" "a < lim m" "cell m a = Cells ws" "gather (\<lambda>w. snap m T w) ws = Some (ds, B)" "d = DSlice ds"
      "A = insert a B"
  using assms by (auto split: gval.splits option.splits if_splits cell.splits)

lemma snap_map_cases:
  assumes "snap m (TMap T) v = Some (d, A)"
  obtains "v = Ref None" "d = DNil" "A = {}"
  | a es ds B where "v = Ref (Some a)" "a < lim m" "cell m a = Entries es" "distinct (map fst es)"
      "gather (\<lambda>w. snap m T w) (map snd es) = Some (ds, B)" "d = DMap (zip (map fst es) ds)" "A = insert a B"
  using assms by (auto split: gval.splits option.splits if_splits cell.splits)

lemma snap_struct_cases:
  assumes "snap m (TStruct fs) v = Some (d, A)"
  obtains vs ds where "v = Struct vs" "snap_fields m fs vs = Some (ds, A)" "d = DStruct ds"
  using assms by (auto split: gval.splits)

lemma snap_fields_Cons:
  assumes "snap_fields m ((f, T) # fs) vs = Some (ds, A)"
  obtains v ws d B es C where "vs = (f, v) # ws" "snap m T v = Some (d, B)" "snap_fields m fs ws = Some (es, C)"
    "ds = (f, d) # es" "A = B \<union> C"
  using assms by (auto split: list.splits option.splits if_splits)

lemma snap_fields_Nil: "snap_fields m [] vs = Some (ds, A) \<Longrightarrow> vs = [] \<and> ds = [] \<and> A = {}"
  by (auto split: list.splits)

text \<open>Memory outside the cells of a value does not matter to it.\<close>

definition same_at :: "nat set \<Rightarrow> mem \<Rightarrow> mem \<Rightarrow> bool" where
  "same_at A m m' \<longleftrightarrow> lim m \<le> lim m' \<and> (\<forall>a \<in> A. cell m' a = cell m a)"

lemma same_at_mono: "same_at A m m' \<Longrightarrow> B \<subseteq> A \<Longrightarrow> same_at B m m'"
  by (auto simp: same_at_def)

lemma snap_frame:
  "snap m T v = Some (d, A) \<Longrightarrow> same_at A m m' \<Longrightarrow> snap m' T v = Some (d, A)"
  "snap_fields m fs vs = Some (ds, A) \<Longrightarrow> same_at A m m' \<Longrightarrow> snap_fields m' fs vs = Some (ds, A)"
proof (induction m T v and m fs vs arbitrary: d A and ds A rule: snap_snap_fields.induct)
  case (2 m T v)
  from "2.prems"(1) show ?case
  proof (cases rule: snap_ptr_cases)
    case (2 a w d' B)
    with "2.prems"(2) have c: "cell m' a = Cells [w]" "a < lim m'" by (auto simp: same_at_def)
    from 2 "2.prems"(2) have "snap m' T w = Some (d', B)" by (intro "2.IH") (auto intro: same_at_mono)
    with 2 c show ?thesis by simp
  qed simp
next
  case (3 m T v)
  from "3.prems"(1) show ?case
  proof (cases rule: snap_slice_cases)
    case (2 a ws ds B)
    with "3.prems"(2) have c: "cell m' a = Cells ws" "a < lim m'" by (auto simp: same_at_def)
    from 2 "3.prems"(2) have "gather (\<lambda>w. snap m' T w) ws = Some (ds, B)"
      by (intro gather_frame [OF 2(4)] "3.IH") (auto intro: same_at_mono)
    with 2 c show ?thesis by simp
  qed simp
next
  case (4 m T v)
  from "4.prems"(1) show ?case
  proof (cases rule: snap_map_cases)
    case (2 a es ds B)
    with "4.prems"(2) have c: "cell m' a = Entries es" "a < lim m'" by (auto simp: same_at_def)
    from 2 "4.prems"(2) have "gather (\<lambda>w. snap m' T w) (map snd es) = Some (ds, B)"
      by (intro gather_frame [OF 2(5)] "4.IH") (auto intro: same_at_mono)
    with 2 c show ?thesis by simp
  qed simp
next
  case (5 m fs v)
  from "5.prems"(1) show ?case
  proof (cases rule: snap_struct_cases)
    case (1 vs ds)
    with "5.IH" [OF 1(1,2)] "5.prems"(2) show ?thesis by simp
  qed
next
  case (7 m f T fs vs)
  from "7.prems"(1) show ?case
  proof (cases rule: snap_fields_Cons)
    case (1 v ws d B es C)
    from "7.prems"(2) 1 have s: "same_at B m m'" "same_at C m m'" by (auto intro: same_at_mono)
    from 1 s "7.IH"(1) "7.IH"(2) show ?thesis by simp
  qed
qed (auto split: if_splits list.splits)

lemma gather_bound: "gather f xs = Some (ds, A) \<Longrightarrow> (\<And>x d B. x \<in> set xs \<Longrightarrow> f x = Some (d, B) \<Longrightarrow> B \<subseteq> C) \<Longrightarrow> A \<subseteq> C"
proof (induction xs arbitrary: ds A)
  case (Cons x xs)
  from Cons.prems(1) obtain d B ds' D where x: "f x = Some (d, B)" "gather f xs = Some (ds', D)" "A = B \<union> D"
    by (auto split: option.splits)
  have "B \<subseteq> C" by (rule Cons.prems(2) [OF _ x(1)]) simp
  moreover have "D \<subseteq> C" by (rule Cons.IH [OF x(2)]) (rule Cons.prems(2), auto)
  ultimately show ?case using x(3) by simp
qed simp

lemma snap_bound:
  "snap m T v = Some (d, A) \<Longrightarrow> A \<subseteq> {..<lim m}"
  "snap_fields m fs vs = Some (ds, A) \<Longrightarrow> A \<subseteq> {..<lim m}"
proof (induction m T v and m fs vs arbitrary: d A and ds A rule: snap_snap_fields.induct)
  case (2 m T v)
  from "2.prems" show ?case by (cases rule: snap_ptr_cases) (use "2.IH" in auto)
next
  case (3 m T v)
  from "3.prems" show ?case
  proof (cases rule: snap_slice_cases)
    case (2 a ws ds B)
    have "B \<subseteq> {..<lim m}" by (rule gather_bound [OF 2(4)]) (rule "3.IH" [OF 2(1) refl 2(2,3)])
    with 2 show ?thesis by simp
  qed simp
next
  case (4 m T v)
  from "4.prems" show ?case
  proof (cases rule: snap_map_cases)
    case (2 a es ds B)
    have "B \<subseteq> {..<lim m}" by (rule gather_bound [OF 2(5)]) (rule "4.IH" [OF 2(1) refl 2(2,3,4)])
    with 2 show ?thesis by simp
  qed simp
next
  case (5 m fs v)
  from "5.prems" show ?case by (cases rule: snap_struct_cases) (use "5.IH" in auto)
next
  case (7 m f T fs vs)
  from "7.prems" show ?case by (cases rule: snap_fields_Cons) (use "7.IH" in auto)
qed (auto split: if_splits list.splits)

lemma grows_same_at: "grows m m' \<Longrightarrow> A \<subseteq> {..<lim m} \<Longrightarrow> same_at A m m'"
  by (auto simp: grows_def same_at_def)

lemma snap_grows: "snap m T v = Some (d, A) \<Longrightarrow> grows m m' \<Longrightarrow> snap m' T v = Some (d, A)"
  by (rule snap_frame(1) [OF _ grows_same_at]) (assumption | rule snap_bound(1))+

section \<open>Copying\<close>

type_synonym copier = "gval \<Rightarrow> mem \<Rightarrow> gval \<times> mem"

text \<open>
  The contract of a copier: whatever value of the type it is given, it gives one that reads the same,
  all of it in cells that were not there before, and changes no cell that was.
\<close>

definition deep :: "gtype \<Rightarrow> copier \<Rightarrow> bool" where
  "deep T c \<longleftrightarrow> (\<forall>m v d A. snap m T v = Some (d, A) \<longrightarrow> (\<exists>v' m' A'. c v m = (v', m') \<and> grows m m'
     \<and> snap m' T v' = Some (d, A') \<and> A' \<inter> {..<lim m} = {}))"

lemma deepE:
  assumes "deep T c" "snap m T v = Some (d, A)"
  obtains v' m' A' where "c v m = (v', m')" "grows m m'" "snap m' T v' = Some (d, A')" "A' \<inter> {..<lim m} = {}"
  using assms unfolding deep_def by blast

text \<open>\<open>*out = *in\<close> and \<open>out.X = in.X\<close>.\<close>

definition shallow :: copier where
  "shallow v m = (v, m)"

text \<open>
  \<open>*out = new(T)\<close> followed by \<open>**out = **in\<close> or \<open>(*in).DeepCopyInto(*out)\<close>, when the pointer is not nil. Here as
  below, the new cell is filled once its contents are complete; nothing reads it before that.
\<close>

definition copy_ptr :: "copier \<Rightarrow> copier" where
  "copy_ptr c v m = (case v of
      Ref (Some a) \<Rightarrow> (case cell m a of
          Cells [w] \<Rightarrow> (case c w m of (w', m') \<Rightarrow> new_cell (Cells [w']) m')
        | other \<Rightarrow> (v, m))
    | other \<Rightarrow> (v, m))"

text \<open>\<open>*out = make([]T, len(*in))\<close> followed by \<open>copy(*out, *in)\<close> or by the loop of \<open>DeepCopyInto\<close> over the elements.\<close>

fun copy_all :: "copier \<Rightarrow> gval list \<Rightarrow> mem \<Rightarrow> gval list \<times> mem" where
  "copy_all c [] m = ([], m)"
| "copy_all c (v # vs) m = (case c v m of (v', m') \<Rightarrow> (case copy_all c vs m' of (vs', m'') \<Rightarrow> (v' # vs', m'')))"

definition copy_slice :: "copier \<Rightarrow> copier" where
  "copy_slice c v m = (case v of
      Ref (Some a) \<Rightarrow> (case cell m a of
          Cells ws \<Rightarrow> (case copy_all c ws m of (ws', m') \<Rightarrow> new_cell (Cells ws') m')
        | other \<Rightarrow> (v, m))
    | other \<Rightarrow> (v, m))"

text \<open>\<open>*out = make(map[string]T, len(*in))\<close> and the loop that sets every key.\<close>

definition copy_map :: copier where
  "copy_map v m = (case v of
      Ref (Some a) \<Rightarrow> (case cell m a of
          Entries es \<Rightarrow> new_cell (Entries (fold (\<lambda>(k, w) out. AList.update k w out) es [])) m
        | other \<Rightarrow> (v, m))
    | other \<Rightarrow> (v, m))"

text \<open>A struct: \<open>*out = *in\<close>, and then the statements for single fields, in order.\<close>

fun copy_fields :: "(string \<times> copier) list \<Rightarrow> (string \<times> gval) list \<Rightarrow> mem \<Rightarrow> (string \<times> gval) list \<times> mem" where
  "copy_fields [] vs m = (vs, m)"
| "copy_fields ((f, c) # cs) vs m = (case map_of vs f of
      None \<Rightarrow> copy_fields cs vs m
    | Some v \<Rightarrow> (case c v m of (v', m') \<Rightarrow> copy_fields cs (AList.update f v' vs) m'))"

definition copy_into :: "(string \<times> copier) list \<Rightarrow> copier" where
  "copy_into cs v m = (case v of
      Struct vs \<Rightarrow> (case copy_fields cs vs m of (vs', m') \<Rightarrow> (Struct vs', m'))
    | other \<Rightarrow> (v, m))"

section \<open>The contract is kept\<close>

text \<open>A type without references is copied by copying its value.\<close>

fun flat :: "gtype \<Rightarrow> bool" and flat_fields :: "(string \<times> gtype) list \<Rightarrow> bool" where
  "flat TScalar = True"
| "flat (TPtr T) = False"
| "flat (TSlice T) = False"
| "flat (TMap T) = False"
| "flat (TStruct fs) = flat_fields fs"
| "flat_fields [] = True"
| "flat_fields ((f, T) # fs) = (flat T \<and> flat_fields fs)"

lemma snap_flat:
  "snap m T v = Some (d, A) \<Longrightarrow> flat T \<Longrightarrow> A = {}"
  "snap_fields m fs vs = Some (ds, A) \<Longrightarrow> flat_fields fs \<Longrightarrow> A = {}"
proof (induction m T v and m fs vs arbitrary: d A and ds A rule: snap_snap_fields.induct)
  case (7 m f T fs vs)
  from "7.prems"(1) show ?case by (cases rule: snap_fields_Cons) (use "7.IH" "7.prems"(2) in auto)
qed (auto split: if_splits list.splits gval.splits)

lemma deep_shallow [copies]: "flat T \<Longrightarrow> deep T shallow"
  unfolding deep_def shallow_def using snap_flat(1) by fastforce

lemma new_cell_fresh:
  "new_cell c m = (v, m') \<longleftrightarrow> v = Ref (Some (lim m)) \<and> m' = m\<lparr>cell := (cell m)(lim m := c), lim := lim m + 1\<rparr>"
  by (auto simp: new_cell_def)

lemma deep_copy_ptr [copies]:
  assumes "deep T c"
  shows "deep (TPtr T) (copy_ptr c)"
  unfolding deep_def
proof (intro allI impI)
  fix m v d A
  assume "snap m (TPtr T) v = Some (d, A)"
  then show "\<exists>v' m' A'. copy_ptr c v m = (v', m') \<and> grows m m' \<and> snap m' (TPtr T) v' = Some (d, A') \<and> A' \<inter> {..<lim m} = {}"
  proof (cases rule: snap_ptr_cases)
    case (2 a w d' B)
    from assms 2(4) obtain w' m1 B' where w: "c w m = (w', m1)" "grows m m1" "snap m1 T w' = Some (d', B')" "B' \<inter> {..<lim m} = {}"
      by (rule deepE)
    obtain v' m2 where n: "new_cell (Cells [w']) m1 = (v', m2)" by (cases "new_cell (Cells [w']) m1")
    have "snap m2 T w' = Some (d', B')" by (rule snap_grows [OF w(3) grows_new [OF n]])
    with n have "snap m2 (TPtr T) v' = Some (DPtr d', insert (lim m1) B')" by (auto simp: new_cell_fresh)
    moreover have "insert (lim m1) B' \<inter> {..<lim m} = {}" using w(2,4) by (auto simp: grows_def)
    moreover have "grows m m2" using grows_trans [OF w(2) grows_new [OF n]] .
    ultimately show ?thesis using 2 w(1) n by (simp add: copy_ptr_def)
  qed (simp add: copy_ptr_def)
qed

lemma copy_all_deep:
  assumes "deep T c"
  shows "gather (\<lambda>w. snap m T w) ws = Some (ds, A) \<Longrightarrow> \<exists>ws' m' A'. copy_all c ws m = (ws', m') \<and> grows m m'
    \<and> gather (\<lambda>w. snap m' T w) ws' = Some (ds, A') \<and> A' \<inter> {..<lim m} = {}"
proof (induction ws arbitrary: m ds A)
  case (Cons w ws)
  from Cons.prems obtain d B es C where w: "snap m T w = Some (d, B)" "gather (\<lambda>w. snap m T w) ws = Some (es, C)" "ds = d # es"
    by (auto split: option.splits)
  from assms w(1) obtain w' m1 B' where 1: "c w m = (w', m1)" "grows m m1" "snap m1 T w' = Some (d, B')" "B' \<inter> {..<lim m} = {}"
    by (rule deepE)
  have "gather (\<lambda>w. snap m1 T w) ws = Some (es, C)" by (rule gather_frame [OF w(2)]) (rule snap_grows [OF _ 1(2)])
  from Cons.IH [OF this] obtain ws' m2 C' where 2: "copy_all c ws m1 = (ws', m2)" "grows m1 m2"
    "gather (\<lambda>w. snap m2 T w) ws' = Some (es, C')" "C' \<inter> {..<lim m1} = {}" by blast
  have "snap m2 T w' = Some (d, B')" by (rule snap_grows [OF 1(3) 2(2)])
  moreover have "(B' \<union> C') \<inter> {..<lim m} = {}" using 1(2,4) 2(4) by (auto simp: grows_def)
  ultimately show ?case using 1 2 w(3) grows_trans [OF 1(2) 2(2)] by auto
qed simp

lemma deep_copy_slice [copies]:
  assumes "deep T c"
  shows "deep (TSlice T) (copy_slice c)"
  unfolding deep_def
proof (intro allI impI)
  fix m v d A
  assume "snap m (TSlice T) v = Some (d, A)"
  then show "\<exists>v' m' A'. copy_slice c v m = (v', m') \<and> grows m m' \<and> snap m' (TSlice T) v' = Some (d, A') \<and> A' \<inter> {..<lim m} = {}"
  proof (cases rule: snap_slice_cases)
    case (2 a ws ds B)
    from copy_all_deep [OF assms 2(4)] obtain ws' m1 B' where w: "copy_all c ws m = (ws', m1)" "grows m m1"
      "gather (\<lambda>w. snap m1 T w) ws' = Some (ds, B')" "B' \<inter> {..<lim m} = {}" by blast
    obtain v' m2 where n: "new_cell (Cells ws') m1 = (v', m2)" by (cases "new_cell (Cells ws') m1")
    have "gather (\<lambda>w. snap m2 T w) ws' = Some (ds, B')" by (rule gather_frame [OF w(3)]) (rule snap_grows [OF _ grows_new [OF n]])
    with n have "snap m2 (TSlice T) v' = Some (DSlice ds, insert (lim m1) B')" by (auto simp: new_cell_fresh)
    moreover have "insert (lim m1) B' \<inter> {..<lim m} = {}" using w(2,4) by (auto simp: grows_def)
    moreover have "grows m m2" using grows_trans [OF w(2) grows_new [OF n]] .
    ultimately show ?thesis using 2 w(1) n by (simp add: copy_slice_def)
  qed (simp add: copy_slice_def)
qed

lemma update_new: "k \<notin> fst ` set out \<Longrightarrow> AList.update k w out = out @ [(k, w)]"
  by (induction out) auto

lemma fold_update_distinct:
  "distinct (map fst es) \<Longrightarrow> fst ` set es \<inter> fst ` set out = {} \<Longrightarrow> fold (\<lambda>(k, w) out. AList.update k w out) es out = out @ es"
proof (induction es arbitrary: out)
  case (Cons e es)
  obtain k w where e: "e = (k, w)" by (cases e)
  have "AList.update k w out = out @ [(k, w)]" using Cons.prems(2) e by (intro update_new) auto
  moreover have "fst ` set es \<inter> fst ` set (out @ [(k, w)]) = {}" using Cons.prems e by auto
  ultimately show ?case using Cons.IH [of "out @ [(k, w)]"] Cons.prems(1) e by simp
qed simp

lemma deep_copy_map [copies]:
  assumes "flat T"
  shows "deep (TMap T) copy_map"
  unfolding deep_def
proof (intro allI impI)
  fix m v d A
  assume "snap m (TMap T) v = Some (d, A)"
  then show "\<exists>v' m' A'. copy_map v m = (v', m') \<and> grows m m' \<and> snap m' (TMap T) v' = Some (d, A') \<and> A' \<inter> {..<lim m} = {}"
  proof (cases rule: snap_map_cases)
    case (2 a es ds B)
    obtain v' m' where n: "new_cell (Entries es) m = (v', m')" by (cases "new_cell (Entries es) m")
    have "gather (\<lambda>w. snap m' T w) (map snd es) = Some (ds, B)" by (rule gather_frame [OF 2(5)]) (rule snap_grows [OF _ grows_new [OF n]])
    with n 2(4) have "snap m' (TMap T) v' = Some (d, insert (lim m) B)" using 2(6) by (auto simp: new_cell_fresh)
    moreover have "B \<subseteq> {}" by (rule gather_bound [OF 2(5)]) (simp add: snap_flat(1) [OF _ assms])
    moreover have "copy_map v m = (v', m')" using 2 n by (simp add: copy_map_def fold_update_distinct)
    ultimately show ?thesis using grows_new [OF n] by auto
  qed (simp add: copy_map_def)
qed

text \<open>A struct field by field: what each field reads and the cells it takes.\<close>

definition snaps :: "mem \<Rightarrow> (string \<times> gtype) list \<Rightarrow> (string \<times> gval) list \<Rightarrow> (string \<Rightarrow> dval) \<Rightarrow> (string \<Rightarrow> nat set) \<Rightarrow> bool" where
  "snaps m fs vs D A \<longleftrightarrow> map fst vs = map fst fs
     \<and> (\<forall>f T. map_of fs f = Some T \<longrightarrow> (\<exists>v. map_of vs f = Some v \<and> snap m T v = Some (D f, A f)))"

lemma snap_fields_snaps:
  "snap_fields m fs vs = Some (ds, A) \<Longrightarrow> distinct (map fst fs) \<Longrightarrow>
   \<exists>D B. snaps m fs vs D B \<and> ds = map (\<lambda>f. (f, D f)) (map fst fs) \<and> A = \<Union> (B ` set (map fst fs))"
proof (induction fs arbitrary: vs ds A)
  case Nil
  from snap_fields_Nil [OF Nil(1)] show ?case by (simp add: snaps_def)
next
  case (Cons p fs)
  obtain f T where p: "p = (f, T)" by (cases p)
  from Cons.prems(1) p obtain v ws d B es C where 1: "vs = (f, v) # ws" "snap m T v = Some (d, B)" "snap_fields m fs ws = Some (es, C)"
    "ds = (f, d) # es" "A = B \<union> C" by (blast elim: snap_fields_Cons)
  from Cons.IH [OF 1(3)] Cons.prems(2) obtain D E where 2: "snaps m fs ws D E" "es = map (\<lambda>f. (f, D f)) (map fst fs)" "C = \<Union> (E ` set (map fst fs))"
    by auto
  have f: "f \<notin> set (map fst fs)" using Cons.prems(2) p by simp
  have "snaps m (p # fs) vs (D(f := d)) (E(f := B))"
    using 1 2(1) f p by (auto simp: snaps_def map_of_eq_None_iff dest: map_of_SomeD)
  moreover have "ds = map (\<lambda>g. (g, (D(f := d)) g)) (map fst (p # fs))" using 1(4) 2(2) f p by auto
  moreover have "A = \<Union> ((E(f := B)) ` set (map fst (p # fs)))" using 1(5) 2(3) f p by auto
  ultimately show ?case by blast
qed

lemma snaps_snap_fields:
  "snaps m fs vs D B \<Longrightarrow> distinct (map fst fs) \<Longrightarrow>
   snap_fields m fs vs = Some (map (\<lambda>f. (f, D f)) (map fst fs), \<Union> (B ` set (map fst fs)))"
proof (induction fs arbitrary: vs)
  case Nil
  then show ?case by (simp add: snaps_def)
next
  case (Cons p fs)
  obtain f T where p: "p = (f, T)" by (cases p)
  from Cons.prems(1) p obtain v ws where v: "vs = (f, v) # ws" "map fst ws = map fst fs" by (auto simp: snaps_def)
  have f: "f \<notin> fst ` set fs" using Cons.prems(2) p by simp
  have "map_of (p # fs) f = Some T" by (simp add: p)
  with Cons.prems(1) have "snap m T v = Some (D f, B f)" unfolding snaps_def using v(1) by fastforce
  moreover have "\<exists>w. map_of ws g = Some w \<and> snap m U w = Some (D g, B g)" if g: "map_of fs g = Some U" for g U
  proof -
    have "g \<noteq> f" using f g by (force dest: map_of_SomeD)
    then have "map_of (p # fs) g = Some U" "map_of vs g = map_of ws g" using g p v(1) by simp_all
    with Cons.prems(1) show ?thesis unfolding snaps_def by metis
  qed
  then have "snaps m fs ws D B" using v(2) unfolding snaps_def by blast
  then have "snap_fields m fs ws = Some (map (\<lambda>f. (f, D f)) (map fst fs), \<Union> (B ` set (map fst fs)))"
    using Cons.IH Cons.prems(2) by simp
  ultimately show ?case using v p by simp
qed

lemma snaps_grows: "snaps m fs vs D A \<Longrightarrow> grows m m' \<Longrightarrow> snaps m' fs vs D A"
  unfolding snaps_def by (blast intro: snap_grows)

lemma snaps_update:
  assumes "snaps m fs vs D A" "map_of fs f = Some T" "snap m T v = Some (D f, B)"
  shows "snaps m fs (AList.update f v vs) D (A(f := B))"
proof -
  have "f \<in> set (map fst fs)" using map_of_SomeD [OF assms(2)] by force
  then have "map fst (AList.update f v vs) = map fst fs" using assms(1) by (simp add: update_keys snaps_def)
  then show ?thesis using assms by (auto simp: snaps_def update_conv')
qed

lemma copy_fields_deep:
  "snaps m fs vs D A \<Longrightarrow> distinct (map fst cs) \<Longrightarrow> \<forall>f c T. (f, c) \<in> set cs \<longrightarrow> map_of fs f = Some T \<longrightarrow> deep T c \<Longrightarrow>
   \<exists>vs' m' A'. copy_fields cs vs m = (vs', m') \<and> grows m m' \<and> snaps m' fs vs' D A'
     \<and> (\<forall>f. f \<notin> fst ` set cs \<longrightarrow> A' f = A f) \<and> (\<forall>f \<in> fst ` set cs. f \<in> fst ` set fs \<longrightarrow> A' f \<inter> {..<lim m} = {})"
proof (induction cs arbitrary: vs m A)
  case (Cons q cs)
  obtain f c where q: "q = (f, c)" by (cases q)
  have fresh: "f \<notin> fst ` set cs" and dist: "distinct (map fst cs)" using Cons.prems(2) q by auto
  have cs: "\<forall>g b T. (g, b) \<in> set cs \<longrightarrow> map_of fs g = Some T \<longrightarrow> deep T b" using Cons.prems(3) by simp
  show ?case
  proof (cases "map_of fs f")
    case None
    then have "f \<notin> fst ` set fs" by (simp add: map_of_eq_None_iff)
    moreover from this Cons.prems(1) have "map_of vs f = None" unfolding snaps_def map_of_eq_None_iff by (metis list.set_map)
    moreover from Cons.IH [OF Cons.prems(1) dist cs] obtain vs' m' A' where 2: "copy_fields cs vs m = (vs', m')" "grows m m'" "snaps m' fs vs' D A'"
      "\<forall>g. g \<notin> fst ` set cs \<longrightarrow> A' g = A g" "\<forall>g \<in> fst ` set cs. g \<in> fst ` set fs \<longrightarrow> A' g \<inter> {..<lim m} = {}"
      by blast
    ultimately have "copy_fields (q # cs) vs m = (vs', m')" "\<forall>g. g \<notin> fst ` set (q # cs) \<longrightarrow> A' g = A g"
      "\<forall>g \<in> fst ` set (q # cs). g \<in> fst ` set fs \<longrightarrow> A' g \<inter> {..<lim m} = {}" using q by simp_all
    with 2(2,3) show ?thesis by blast
  next
    case (Some T)
    with Cons.prems(1) obtain v where v: "map_of vs f = Some v" "snap m T v = Some (D f, A f)" by (auto simp: snaps_def)
    have "deep T c" using Cons.prems(3) Some q by simp
    from this v(2) obtain v' m1 B where 1: "c v m = (v', m1)" "grows m m1" "snap m1 T v' = Some (D f, B)" "B \<inter> {..<lim m} = {}"
      by (rule deepE)
    from Cons.IH [OF snaps_update [OF snaps_grows [OF Cons.prems(1) 1(2)] Some 1(3)] dist cs]
    obtain vs' m' A' where 2: "copy_fields cs (AList.update f v' vs) m1 = (vs', m')" "grows m1 m'" "snaps m' fs vs' D A'"
      "\<forall>g. g \<notin> fst ` set cs \<longrightarrow> A' g = (A(f := B)) g" "\<forall>g \<in> fst ` set cs. g \<in> fst ` set fs \<longrightarrow> A' g \<inter> {..<lim m1} = {}"
      by blast
    have "copy_fields (q # cs) vs m = (vs', m')" using q v(1) 1(1) 2(1) by simp
    moreover have "A' g = A g" if "g \<notin> fst ` set (q # cs)" for g using that 2(4) [rule_format, of g] q by auto
    moreover have "A' g \<inter> {..<lim m} = {}" if "g \<in> fst ` set (q # cs)" "g \<in> fst ` set fs" for g
      using that 2(4) [rule_format, of f] 2(5) [rule_format, of g] 1(2,4) fresh q by (cases "g = f") (auto simp: grows_def)
    ultimately show ?thesis using grows_trans [OF 1(2) 2(2)] 2(3) by blast
  qed
qed auto

text \<open>
  A struct is copied when each field that is treated has a copier of its type, and every other field
  holds no reference.
\<close>

lemma deep_copy_into:
  assumes "distinct (map fst fs)" "distinct (map fst cs)"
    and copied: "\<forall>f c T. (f, c) \<in> set cs \<longrightarrow> map_of fs f = Some T \<longrightarrow> deep T c"
    and rest: "\<forall>f T. (f, T) \<in> set fs \<longrightarrow> f \<notin> fst ` set cs \<longrightarrow> flat T"
  shows "deep (TStruct fs) (copy_into cs)"
  unfolding deep_def
proof (intro allI impI)
  fix m v d A
  assume "snap m (TStruct fs) v = Some (d, A)"
  then obtain vs ds where v: "v = Struct vs" "snap_fields m fs vs = Some (ds, A)" "d = DStruct ds" by (rule snap_struct_cases)
  from snap_fields_snaps [OF v(2) assms(1)] obtain D B where s: "snaps m fs vs D B" "ds = map (\<lambda>f. (f, D f)) (map fst fs)" by blast
  from copy_fields_deep [OF s(1) assms(2) copied] obtain vs' m' B' where
    1: "copy_fields cs vs m = (vs', m')" "grows m m'" "snaps m' fs vs' D B'"
      "\<forall>f. f \<notin> fst ` set cs \<longrightarrow> B' f = B f" "\<forall>f \<in> fst ` set cs. f \<in> fst ` set fs \<longrightarrow> B' f \<inter> {..<lim m} = {}"
    by blast
  have "B' f \<inter> {..<lim m} = {}" if "f \<in> fst ` set fs" for f
  proof (cases "f \<in> fst ` set cs")
    case False
    from that assms(1) obtain T where T: "(f, T) \<in> set fs" "map_of fs f = Some T" by force
    from s(1) T(2) obtain w where "snap m T w = Some (D f, B f)" unfolding snaps_def by blast
    from snap_flat(1) [OF this rest [rule_format, OF T(1) False]] show ?thesis using 1(4) [rule_format, OF False] by simp
  qed (use 1(5) that in blast)
  then have "\<Union> (B' ` set (map fst fs)) \<inter> {..<lim m} = {}" by auto
  then show "\<exists>v' m' A'. copy_into cs v m = (v', m') \<and> grows m m' \<and> snap m' (TStruct fs) v' = Some (d, A') \<and> A' \<inter> {..<lim m} = {}"
    using v s(2) 1(1,2) snaps_snap_fields [OF 1(3) assms(1)] by (simp add: copy_into_def)
qed

lemma deep_fields:
  assumes "distinct (map fst fs)" "distinct (map fst cs)"
    and "list_all (\<lambda>(f, c). case map_of fs f of None \<Rightarrow> True | Some T \<Rightarrow> deep T c) cs"
    and "list_all (\<lambda>(f, T). f \<in> set (map fst cs) \<or> flat T) fs"
  shows "deep (TStruct fs) (copy_into cs)"
  by (rule deep_copy_into) (use assms in \<open>fastforce simp: list_all_iff\<close>)+

text \<open>What the contract is for: the copy and the original read the same, and a write to either is not seen through the other.\<close>

definition write_cell :: "nat \<Rightarrow> cell \<Rightarrow> mem \<Rightarrow> mem" where
  "write_cell a x m = m\<lparr>cell := (cell m)(a := x)\<rparr>"

lemma snap_write: "snap m T v = Some (d, A) \<Longrightarrow> a \<notin> A \<Longrightarrow> snap (write_cell a x m) T v = Some (d, A)"
  by (rule snap_frame(1)) (auto simp: same_at_def write_cell_def)

definition writes :: "(nat \<times> cell) list \<Rightarrow> mem \<Rightarrow> mem" where
  "writes ws m = fold (\<lambda>(a, x). write_cell a x) ws m"

lemma snap_writes: "snap m T v = Some (d, A) \<Longrightarrow> fst ` set ws \<inter> A = {} \<Longrightarrow> snap (writes ws m) T v = Some (d, A)"
proof (induction ws arbitrary: m)
  case (Cons w ws)
  obtain a x where w: "w = (a, x)" by (cases w)
  have "snap (write_cell a x m) T v = Some (d, A)" by (rule snap_write [OF Cons.prems(1)]) (use Cons.prems(2) w in auto)
  from Cons.IH [OF this] Cons.prems(2) w show ?case by (simp add: writes_def)
qed (simp add: writes_def)

lemma deep_separate:
  assumes "deep T c" "snap m T v = Some (d, A)"
  shows "\<exists>v' m' A'. c v m = (v', m') \<and> snap m' T v = Some (d, A) \<and> snap m' T v' = Some (d, A') \<and> A \<inter> A' = {}
    \<and> (\<forall>ws. fst ` set ws \<subseteq> A' \<longrightarrow> snap (writes ws m') T v = Some (d, A))
    \<and> (\<forall>ws. fst ` set ws \<subseteq> A \<longrightarrow> snap (writes ws m') T v' = Some (d, A'))"
proof -
  from assms obtain v' m' A' where c: "c v m = (v', m')" "grows m m'" "snap m' T v' = Some (d, A')" "A' \<inter> {..<lim m} = {}" by (rule deepE)
  have o: "snap m' T v = Some (d, A)" by (rule snap_grows [OF assms(2) c(2)])
  have e: "A \<inter> A' = {}" using snap_bound(1) [OF assms(2)] c(4) by blast
  have 1: "\<forall>ws. fst ` set ws \<subseteq> A' \<longrightarrow> snap (writes ws m') T v = Some (d, A)" using e by (intro allI impI snap_writes [OF o]) auto
  have 2: "\<forall>ws. fst ` set ws \<subseteq> A \<longrightarrow> snap (writes ws m') T v' = Some (d, A')" using e by (intro allI impI snap_writes [OF c(3)]) auto
  from c(1,3) o e 1 2 show ?thesis by blast
qed

section \<open>A copier for every type\<close>

text \<open>
  The copier that follows the type, references and all, keeps the contract for every type whose
  structs name each field once: it stands for the copying functions of other packages.
\<close>

definition copy_entries :: "copier \<Rightarrow> copier" where
  "copy_entries c v m = (case v of
      Ref (Some a) \<Rightarrow> (case cell m a of
          Entries es \<Rightarrow> (case copy_all c (map snd es) m of (ws, m') \<Rightarrow> new_cell (Entries (zip (map fst es) ws)) m')
        | other \<Rightarrow> (v, m))
    | other \<Rightarrow> (v, m))"

fun copy_of :: "gtype \<Rightarrow> copier" and copiers_of :: "(string \<times> gtype) list \<Rightarrow> (string \<times> copier) list" where
  "copy_of TScalar = shallow"
| "copy_of (TPtr T) = copy_ptr (copy_of T)"
| "copy_of (TSlice T) = copy_slice (copy_of T)"
| "copy_of (TMap T) = copy_entries (copy_of T)"
| "copy_of (TStruct fs) = copy_into (copiers_of fs)"
| "copiers_of [] = []"
| "copiers_of ((f, T) # fs) = (f, copy_of T) # copiers_of fs"

fun named_once :: "gtype \<Rightarrow> bool" and all_named_once :: "(string \<times> gtype) list \<Rightarrow> bool" where
  "named_once TScalar = True"
| "named_once (TPtr T) = named_once T"
| "named_once (TSlice T) = named_once T"
| "named_once (TMap T) = named_once T"
| "named_once (TStruct fs) = (distinct (map fst fs) \<and> all_named_once fs)"
| "all_named_once [] = True"
| "all_named_once ((f, T) # fs) = (named_once T \<and> all_named_once fs)"

lemma copy_all_length: "copy_all c vs m = (vs', m') \<Longrightarrow> length vs' = length vs"
  by (induction vs arbitrary: m vs' m') (auto split: prod.splits)

lemma deep_copy_entries:
  assumes "deep T c"
  shows "deep (TMap T) (copy_entries c)"
  unfolding deep_def
proof (intro allI impI)
  fix m v d A
  assume "snap m (TMap T) v = Some (d, A)"
  then show "\<exists>v' m' A'. copy_entries c v m = (v', m') \<and> grows m m' \<and> snap m' (TMap T) v' = Some (d, A') \<and> A' \<inter> {..<lim m} = {}"
  proof (cases rule: snap_map_cases)
    case (2 a es ds B)
    from copy_all_deep [OF assms 2(5)] obtain ws m1 B' where w: "copy_all c (map snd es) m = (ws, m1)" "grows m m1"
      "gather (\<lambda>w. snap m1 T w) ws = Some (ds, B')" "B' \<inter> {..<lim m} = {}" by blast
    have l: "length ws = length es" using copy_all_length [OF w(1)] by simp
    obtain v' m2 where n: "new_cell (Entries (zip (map fst es) ws)) m1 = (v', m2)" by (cases "new_cell (Entries (zip (map fst es) ws)) m1")
    have "gather (\<lambda>w. snap m2 T w) ws = Some (ds, B')" by (rule gather_frame [OF w(3)]) (rule snap_grows [OF _ grows_new [OF n]])
    with n l 2(4,6) have "snap m2 (TMap T) v' = Some (d, insert (lim m1) B')" by (auto simp: new_cell_fresh)
    moreover have "insert (lim m1) B' \<inter> {..<lim m} = {}" using w(2,4) by (auto simp: grows_def)
    moreover have "grows m m2" using grows_trans [OF w(2) grows_new [OF n]] .
    ultimately show ?thesis using 2 w(1) n by (simp add: copy_entries_def)
  qed (simp add: copy_entries_def)
qed

lemma copiers_of_names: "map fst (copiers_of fs) = map fst fs"
  by (induction fs) auto

lemma copy_of_deep:
  "named_once T \<Longrightarrow> deep T (copy_of T)"
  "all_named_once fs \<Longrightarrow> distinct (map fst fs) \<Longrightarrow> \<forall>f c T. (f, c) \<in> set (copiers_of fs) \<longrightarrow> map_of fs f = Some T \<longrightarrow> deep T c"
proof (induction T and fs rule: copy_of_copiers_of.induct)
  case (5 fs)
  have "fst ` set (copiers_of fs) = fst ` set fs" using copiers_of_names [of fs] by (metis list.set_map)
  then show ?case using 5 copiers_of_names [of fs] by (auto intro!: deep_copy_into simp: rev_image_eqI)
next
  case (7 f T fs)
  have "f \<notin> fst ` set (copiers_of fs)" using 7 copiers_of_names [of fs] by (metis distinct.simps(2) fst_conv list.set_map list.simps(9))
  with 7 show ?case by (auto simp: rev_image_eqI)
qed (simp_all add: deep_shallow deep_copy_ptr deep_copy_slice deep_copy_entries)

end
