(* ===== verification/Deep_Copies.thy ===== *)
theory Deep_Copies
  imports Go_Memory
begin

text \<open>
  The deep copies of the API types: zz_generated.deepcopy.go, with the structs of the three type files.
  The types and the copying functions of Kubernetes itself are parameters: \<open>E\<close> gives the type of each one
  and \<open>C\<close> its \<open>DeepCopyInto\<close> (or \<open>DeepCopy\<close>). The interface \<open>external_types\<close> says what is relied on: those
  functions keep the contract of a copier, and the types that the code copies by plain assignment hold
  no references. A time is a value: the time zone it points to is never written. A slice here owns its elements; the code shares no backing array between two slices of one object.
\<close>

datatype ext =
    TypeMeta_t
  | ObjectMeta_t
  | ListMeta_t
  | Condition_t
  | ResourceRequirements_t
  | Toleration_t
  | EnvVar_t
  | Quantity_t
  | Time_t
  | LocalObjectReference_t
  | Duration_t

section \<open>The types\<close>

text \<open>The structs of the API, field by field. A string, a number or a flag is a scalar, whatever name its type has.\<close>

definition T_AuthSpec :: "(ext \<Rightarrow> gtype) \<Rightarrow> gtype" where
  "T_AuthSpec E = TStruct [(''RootCredentialsSecretRef'', TPtr (E LocalObjectReference_t)), (''PublicReadBuckets'', TSlice TScalar)]"

definition T_ClusterReference :: gtype where
  "T_ClusterReference = TStruct [(''Name'', TScalar)]"

definition T_EndpointsStatus :: gtype where
  "T_EndpointsStatus = TStruct [(''S3'', TScalar)]"

definition T_GrantSpec :: gtype where
  "T_GrantSpec = TStruct [(''Bucket'', TScalar), (''Permission'', TScalar)]"

definition T_FSAccessKeySpec :: "(ext \<Rightarrow> gtype) \<Rightarrow> gtype" where
  "T_FSAccessKeySpec E = TStruct [(''ClusterRef'', T_ClusterReference), (''SecretName'', TScalar),
    (''ExistingSecretRef'', TPtr (E LocalObjectReference_t)), (''Grants'', TSlice T_GrantSpec)]"

definition T_FSAccessKeyStatus :: "(ext \<Rightarrow> gtype) \<Rightarrow> gtype" where
  "T_FSAccessKeyStatus E = TStruct [(''ObservedGeneration'', TScalar), (''AccessKey'', TScalar), (''Conditions'', TSlice (E Condition_t))]"

definition T_FSAccessKey :: "(ext \<Rightarrow> gtype) \<Rightarrow> gtype" where
  "T_FSAccessKey E = TStruct [(''TypeMeta'', E TypeMeta_t), (''ObjectMeta'', E ObjectMeta_t), (''Spec'', T_FSAccessKeySpec E),
    (''Status'', T_FSAccessKeyStatus E)]"

definition T_FSAccessKeyList :: "(ext \<Rightarrow> gtype) \<Rightarrow> gtype" where
  "T_FSAccessKeyList E = TStruct [(''TypeMeta'', E TypeMeta_t), (''ListMeta'', E ListMeta_t), (''Items'', TSlice (T_FSAccessKey E))]"

definition T_FSBucketSpec :: gtype where
  "T_FSBucketSpec = TStruct [(''ClusterRef'', T_ClusterReference), (''BucketName'', TScalar), (''Scheme'', TScalar),
    (''ReclaimPolicy'', TScalar)]"

definition T_FSBucketStatus :: "(ext \<Rightarrow> gtype) \<Rightarrow> gtype" where
  "T_FSBucketStatus E = TStruct [(''ObservedGeneration'', TScalar), (''Scheme'', TScalar), (''Conditions'', TSlice (E Condition_t))]"

definition T_FSBucket :: "(ext \<Rightarrow> gtype) \<Rightarrow> gtype" where
  "T_FSBucket E = TStruct [(''TypeMeta'', E TypeMeta_t), (''ObjectMeta'', E ObjectMeta_t), (''Spec'', T_FSBucketSpec),
    (''Status'', T_FSBucketStatus E)]"

definition T_FSBucketList :: "(ext \<Rightarrow> gtype) \<Rightarrow> gtype" where
  "T_FSBucketList E = TStruct [(''TypeMeta'', E TypeMeta_t), (''ListMeta'', E ListMeta_t), (''Items'', TSlice (T_FSBucket E))]"

definition T_ImageSpec :: "(ext \<Rightarrow> gtype) \<Rightarrow> gtype" where
  "T_ImageSpec E = TStruct [(''Repository'', TScalar), (''Tag'', TScalar), (''Digest'', TScalar), (''PullPolicy'', TScalar),
    (''PullSecrets'', TSlice (E LocalObjectReference_t))]"

definition T_RackSpec :: gtype where
  "T_RackSpec = TStruct [(''Name'', TScalar), (''Nodes'', TScalar), (''Zone'', TScalar), (''NodeSelector'', TMap TScalar)]"

definition T_TopologySpec :: gtype where
  "T_TopologySpec = TStruct [(''Nodes'', TPtr TScalar), (''Racks'', TSlice T_RackSpec), (''PodAntiAffinity'', TScalar)]"

definition T_StorageSpec :: "(ext \<Rightarrow> gtype) \<Rightarrow> gtype" where
  "T_StorageSpec E = TStruct [(''Size'', E Quantity_t), (''StorageClass'', TScalar), (''ReclaimPolicy'', TScalar)]"

definition T_LayoutSpec :: gtype where
  "T_LayoutSpec = TStruct [(''Widths'', TSlice TScalar)]"

definition T_S3ServiceSpec :: gtype where
  "T_S3ServiceSpec = TStruct [(''Type'', TScalar), (''Port'', TScalar), (''Annotations'', TMap TScalar)]"

definition T_S3TLSSpec :: gtype where
  "T_S3TLSSpec = TStruct [(''SecretName'', TScalar)]"

definition T_S3Spec :: gtype where
  "T_S3Spec = TStruct [(''Service'', T_S3ServiceSpec), (''TLS'', T_S3TLSSpec)]"

definition T_UpdatePolicySpec :: "(ext \<Rightarrow> gtype) \<Rightarrow> gtype" where
  "T_UpdatePolicySpec E = TStruct [(''ConvergenceTimeout'', TPtr (E Duration_t))]"

definition T_OTLPSpec :: gtype where
  "T_OTLPSpec = TStruct [(''Endpoint'', TScalar), (''Protocol'', TScalar)]"

definition T_SignalSpec :: gtype where
  "T_SignalSpec = TStruct [(''Exporter'', TScalar), (''Endpoint'', TScalar), (''Protocol'', TScalar)]"

definition T_MetricsSpec :: gtype where
  "T_MetricsSpec = TStruct [(''Exporter'', TScalar), (''Endpoint'', TScalar), (''Protocol'', TScalar)]"

definition T_ObservabilitySpec :: gtype where
  "T_ObservabilitySpec = TStruct [(''OTLP'', T_OTLPSpec), (''Traces'', T_SignalSpec), (''Logs'', T_SignalSpec), (''Metrics'', T_MetricsSpec),
    (''LogLevel'', TScalar), (''PodMonitor'', TScalar), (''Pprof'', TPtr TScalar),
    (''ResourceAttributes'', TMap TScalar)]"

definition T_PodTemplate :: "(ext \<Rightarrow> gtype) \<Rightarrow> gtype" where
  "T_PodTemplate E = TStruct [(''Resources'', E ResourceRequirements_t), (''NodeSelector'', TMap TScalar),
    (''Tolerations'', TSlice (E Toleration_t)), (''PriorityClassName'', TScalar),
    (''Annotations'', TMap TScalar), (''Labels'', TMap TScalar), (''ExtraEnv'', TSlice (E EnvVar_t))]"

definition T_FSClusterSpec :: "(ext \<Rightarrow> gtype) \<Rightarrow> gtype" where
  "T_FSClusterSpec E = TStruct [(''Image'', T_ImageSpec E), (''Topology'', T_TopologySpec), (''Storage'', T_StorageSpec E),
    (''Layout'', T_LayoutSpec), (''ClusterSecretRef'', TPtr (E LocalObjectReference_t)),
    (''Auth'', T_AuthSpec E), (''S3'', T_S3Spec), (''UpdatePolicy'', T_UpdatePolicySpec E),
    (''Observability'', T_ObservabilitySpec), (''NetworkPolicy'', TScalar), (''PodTemplate'', T_PodTemplate E)]"

definition T_LayoutStatus :: gtype where
  "T_LayoutStatus = TStruct [(''Version'', TScalar), (''Members'', TScalar), (''Widths'', TSlice TScalar),
    (''RetainedVersions'', TSlice TScalar)]"

definition T_UpdateStatus :: "(ext \<Rightarrow> gtype) \<Rightarrow> gtype" where
  "T_UpdateStatus E = TStruct [(''Phase'', TScalar), (''Node'', TScalar), (''StartedAt'', TPtr (E Time_t))]"

definition T_FSClusterStatus :: "(ext \<Rightarrow> gtype) \<Rightarrow> gtype" where
  "T_FSClusterStatus E = TStruct [(''ObservedGeneration'', TScalar), (''Nodes'', TScalar), (''ReadyNodes'', TScalar), (''UpNodes'', TScalar),
    (''ConfigurationRevision'', TScalar), (''StatefulSetRevision'', TScalar), (''CurrentRevision'', TScalar),
    (''UpdateRevision'', TScalar), (''Layout'', TPtr T_LayoutStatus), (''Update'', TPtr (T_UpdateStatus E)),
    (''Endpoints'', TPtr T_EndpointsStatus), (''Conditions'', TSlice (E Condition_t))]"

definition T_FSCluster :: "(ext \<Rightarrow> gtype) \<Rightarrow> gtype" where
  "T_FSCluster E = TStruct [(''TypeMeta'', E TypeMeta_t), (''ObjectMeta'', E ObjectMeta_t), (''Spec'', T_FSClusterSpec E),
    (''Status'', T_FSClusterStatus E)]"

definition T_FSClusterList :: "(ext \<Rightarrow> gtype) \<Rightarrow> gtype" where
  "T_FSClusterList E = TStruct [(''TypeMeta'', E TypeMeta_t), (''ListMeta'', E ListMeta_t), (''Items'', TSlice (T_FSCluster E))]"

section \<open>The copying functions\<close>

text \<open>\<open>DeepCopyInto\<close> of each type: \<open>*out = *in\<close>, and then one entry for every statement about a field.\<close>

definition DeepCopyInto_AuthSpec :: copier where
  "DeepCopyInto_AuthSpec = copy_into [(''RootCredentialsSecretRef'', copy_ptr shallow), (''PublicReadBuckets'', copy_slice shallow)]"

definition DeepCopyInto_ClusterReference :: copier where
  "DeepCopyInto_ClusterReference = copy_into []"

definition DeepCopyInto_EndpointsStatus :: copier where
  "DeepCopyInto_EndpointsStatus = copy_into []"

definition DeepCopyInto_GrantSpec :: copier where
  "DeepCopyInto_GrantSpec = copy_into []"

definition DeepCopyInto_FSAccessKeySpec :: copier where
  "DeepCopyInto_FSAccessKeySpec = copy_into [(''ClusterRef'', shallow), (''ExistingSecretRef'', copy_ptr shallow), (''Grants'', copy_slice shallow)]"

definition DeepCopyInto_FSAccessKeyStatus :: "(ext \<Rightarrow> copier) \<Rightarrow> copier" where
  "DeepCopyInto_FSAccessKeyStatus C = copy_into [(''Conditions'', copy_slice (C Condition_t))]"

definition DeepCopyInto_FSAccessKey :: "(ext \<Rightarrow> copier) \<Rightarrow> copier" where
  "DeepCopyInto_FSAccessKey C = copy_into [(''TypeMeta'', shallow), (''ObjectMeta'', C ObjectMeta_t), (''Spec'', DeepCopyInto_FSAccessKeySpec),
    (''Status'', DeepCopyInto_FSAccessKeyStatus C)]"

definition DeepCopyInto_FSAccessKeyList :: "(ext \<Rightarrow> copier) \<Rightarrow> copier" where
  "DeepCopyInto_FSAccessKeyList C = copy_into [(''TypeMeta'', shallow), (''ListMeta'', C ListMeta_t), (''Items'', copy_slice (DeepCopyInto_FSAccessKey C))]"

definition DeepCopyInto_FSBucketSpec :: copier where
  "DeepCopyInto_FSBucketSpec = copy_into [(''ClusterRef'', shallow)]"

definition DeepCopyInto_FSBucketStatus :: "(ext \<Rightarrow> copier) \<Rightarrow> copier" where
  "DeepCopyInto_FSBucketStatus C = copy_into [(''Conditions'', copy_slice (C Condition_t))]"

definition DeepCopyInto_FSBucket :: "(ext \<Rightarrow> copier) \<Rightarrow> copier" where
  "DeepCopyInto_FSBucket C = copy_into [(''TypeMeta'', shallow), (''ObjectMeta'', C ObjectMeta_t), (''Spec'', shallow),
    (''Status'', DeepCopyInto_FSBucketStatus C)]"

definition DeepCopyInto_FSBucketList :: "(ext \<Rightarrow> copier) \<Rightarrow> copier" where
  "DeepCopyInto_FSBucketList C = copy_into [(''TypeMeta'', shallow), (''ListMeta'', C ListMeta_t), (''Items'', copy_slice (DeepCopyInto_FSBucket C))]"

definition DeepCopyInto_ImageSpec :: copier where
  "DeepCopyInto_ImageSpec = copy_into [(''PullSecrets'', copy_slice shallow)]"

definition DeepCopyInto_RackSpec :: copier where
  "DeepCopyInto_RackSpec = copy_into [(''NodeSelector'', copy_map)]"

definition DeepCopyInto_TopologySpec :: copier where
  "DeepCopyInto_TopologySpec = copy_into [(''Nodes'', copy_ptr shallow), (''Racks'', copy_slice DeepCopyInto_RackSpec)]"

definition DeepCopyInto_StorageSpec :: "(ext \<Rightarrow> copier) \<Rightarrow> copier" where
  "DeepCopyInto_StorageSpec C = copy_into [(''Size'', C Quantity_t)]"

definition DeepCopyInto_LayoutSpec :: copier where
  "DeepCopyInto_LayoutSpec = copy_into [(''Widths'', copy_slice shallow)]"

definition DeepCopyInto_S3ServiceSpec :: copier where
  "DeepCopyInto_S3ServiceSpec = copy_into [(''Annotations'', copy_map)]"

definition DeepCopyInto_S3TLSSpec :: copier where
  "DeepCopyInto_S3TLSSpec = copy_into []"

definition DeepCopyInto_S3Spec :: copier where
  "DeepCopyInto_S3Spec = copy_into [(''Service'', DeepCopyInto_S3ServiceSpec), (''TLS'', shallow)]"

definition DeepCopyInto_UpdatePolicySpec :: copier where
  "DeepCopyInto_UpdatePolicySpec = copy_into [(''ConvergenceTimeout'', copy_ptr shallow)]"

definition DeepCopyInto_OTLPSpec :: copier where
  "DeepCopyInto_OTLPSpec = copy_into []"

definition DeepCopyInto_SignalSpec :: copier where
  "DeepCopyInto_SignalSpec = copy_into []"

definition DeepCopyInto_MetricsSpec :: copier where
  "DeepCopyInto_MetricsSpec = copy_into []"

definition DeepCopyInto_ObservabilitySpec :: copier where
  "DeepCopyInto_ObservabilitySpec = copy_into [(''OTLP'', shallow), (''Traces'', shallow), (''Logs'', shallow), (''Metrics'', shallow),
    (''Pprof'', copy_ptr shallow), (''ResourceAttributes'', copy_map)]"

definition DeepCopyInto_PodTemplate :: "(ext \<Rightarrow> copier) \<Rightarrow> copier" where
  "DeepCopyInto_PodTemplate C = copy_into [(''Resources'', C ResourceRequirements_t), (''NodeSelector'', copy_map),
    (''Tolerations'', copy_slice (C Toleration_t)), (''Annotations'', copy_map), (''Labels'', copy_map),
    (''ExtraEnv'', copy_slice (C EnvVar_t))]"

definition DeepCopyInto_FSClusterSpec :: "(ext \<Rightarrow> copier) \<Rightarrow> copier" where
  "DeepCopyInto_FSClusterSpec C = copy_into [(''Image'', DeepCopyInto_ImageSpec), (''Topology'', DeepCopyInto_TopologySpec),
    (''Storage'', DeepCopyInto_StorageSpec C), (''Layout'', DeepCopyInto_LayoutSpec),
    (''ClusterSecretRef'', copy_ptr shallow), (''Auth'', DeepCopyInto_AuthSpec), (''S3'', DeepCopyInto_S3Spec),
    (''UpdatePolicy'', DeepCopyInto_UpdatePolicySpec), (''Observability'', DeepCopyInto_ObservabilitySpec),
    (''PodTemplate'', DeepCopyInto_PodTemplate C)]"

definition DeepCopyInto_LayoutStatus :: copier where
  "DeepCopyInto_LayoutStatus = copy_into [(''Widths'', copy_slice shallow), (''RetainedVersions'', copy_slice shallow)]"

definition DeepCopyInto_UpdateStatus :: "(ext \<Rightarrow> copier) \<Rightarrow> copier" where
  "DeepCopyInto_UpdateStatus C = copy_into [(''StartedAt'', copy_ptr (C Time_t))]"

definition DeepCopyInto_FSClusterStatus :: "(ext \<Rightarrow> copier) \<Rightarrow> copier" where
  "DeepCopyInto_FSClusterStatus C = copy_into [(''Layout'', copy_ptr DeepCopyInto_LayoutStatus), (''Update'', copy_ptr (DeepCopyInto_UpdateStatus C)),
    (''Endpoints'', copy_ptr shallow), (''Conditions'', copy_slice (C Condition_t))]"

definition DeepCopyInto_FSCluster :: "(ext \<Rightarrow> copier) \<Rightarrow> copier" where
  "DeepCopyInto_FSCluster C = copy_into [(''TypeMeta'', shallow), (''ObjectMeta'', C ObjectMeta_t), (''Spec'', DeepCopyInto_FSClusterSpec C),
    (''Status'', DeepCopyInto_FSClusterStatus C)]"

definition DeepCopyInto_FSClusterList :: "(ext \<Rightarrow> copier) \<Rightarrow> copier" where
  "DeepCopyInto_FSClusterList C = copy_into [(''TypeMeta'', shallow), (''ListMeta'', C ListMeta_t), (''Items'', copy_slice (DeepCopyInto_FSCluster C))]"

text \<open>\<open>DeepCopy\<close>: nil for nil, otherwise a new cell that \<open>DeepCopyInto\<close> fills.\<close>

definition DeepCopy_AuthSpec :: copier where
  "DeepCopy_AuthSpec = copy_ptr DeepCopyInto_AuthSpec"

definition DeepCopy_ClusterReference :: copier where
  "DeepCopy_ClusterReference = copy_ptr DeepCopyInto_ClusterReference"

definition DeepCopy_EndpointsStatus :: copier where
  "DeepCopy_EndpointsStatus = copy_ptr DeepCopyInto_EndpointsStatus"

definition DeepCopy_GrantSpec :: copier where
  "DeepCopy_GrantSpec = copy_ptr DeepCopyInto_GrantSpec"

definition DeepCopy_FSAccessKeySpec :: copier where
  "DeepCopy_FSAccessKeySpec = copy_ptr DeepCopyInto_FSAccessKeySpec"

definition DeepCopy_FSAccessKeyStatus :: "(ext \<Rightarrow> copier) \<Rightarrow> copier" where
  "DeepCopy_FSAccessKeyStatus C = copy_ptr (DeepCopyInto_FSAccessKeyStatus C)"

definition DeepCopy_FSAccessKey :: "(ext \<Rightarrow> copier) \<Rightarrow> copier" where
  "DeepCopy_FSAccessKey C = copy_ptr (DeepCopyInto_FSAccessKey C)"

definition DeepCopy_FSAccessKeyList :: "(ext \<Rightarrow> copier) \<Rightarrow> copier" where
  "DeepCopy_FSAccessKeyList C = copy_ptr (DeepCopyInto_FSAccessKeyList C)"

definition DeepCopy_FSBucketSpec :: copier where
  "DeepCopy_FSBucketSpec = copy_ptr DeepCopyInto_FSBucketSpec"

definition DeepCopy_FSBucketStatus :: "(ext \<Rightarrow> copier) \<Rightarrow> copier" where
  "DeepCopy_FSBucketStatus C = copy_ptr (DeepCopyInto_FSBucketStatus C)"

definition DeepCopy_FSBucket :: "(ext \<Rightarrow> copier) \<Rightarrow> copier" where
  "DeepCopy_FSBucket C = copy_ptr (DeepCopyInto_FSBucket C)"

definition DeepCopy_FSBucketList :: "(ext \<Rightarrow> copier) \<Rightarrow> copier" where
  "DeepCopy_FSBucketList C = copy_ptr (DeepCopyInto_FSBucketList C)"

definition DeepCopy_ImageSpec :: copier where
  "DeepCopy_ImageSpec = copy_ptr DeepCopyInto_ImageSpec"

definition DeepCopy_RackSpec :: copier where
  "DeepCopy_RackSpec = copy_ptr DeepCopyInto_RackSpec"

definition DeepCopy_TopologySpec :: copier where
  "DeepCopy_TopologySpec = copy_ptr DeepCopyInto_TopologySpec"

definition DeepCopy_StorageSpec :: "(ext \<Rightarrow> copier) \<Rightarrow> copier" where
  "DeepCopy_StorageSpec C = copy_ptr (DeepCopyInto_StorageSpec C)"

definition DeepCopy_LayoutSpec :: copier where
  "DeepCopy_LayoutSpec = copy_ptr DeepCopyInto_LayoutSpec"

definition DeepCopy_S3ServiceSpec :: copier where
  "DeepCopy_S3ServiceSpec = copy_ptr DeepCopyInto_S3ServiceSpec"

definition DeepCopy_S3TLSSpec :: copier where
  "DeepCopy_S3TLSSpec = copy_ptr DeepCopyInto_S3TLSSpec"

definition DeepCopy_S3Spec :: copier where
  "DeepCopy_S3Spec = copy_ptr DeepCopyInto_S3Spec"

definition DeepCopy_UpdatePolicySpec :: copier where
  "DeepCopy_UpdatePolicySpec = copy_ptr DeepCopyInto_UpdatePolicySpec"

definition DeepCopy_OTLPSpec :: copier where
  "DeepCopy_OTLPSpec = copy_ptr DeepCopyInto_OTLPSpec"

definition DeepCopy_SignalSpec :: copier where
  "DeepCopy_SignalSpec = copy_ptr DeepCopyInto_SignalSpec"

definition DeepCopy_MetricsSpec :: copier where
  "DeepCopy_MetricsSpec = copy_ptr DeepCopyInto_MetricsSpec"

definition DeepCopy_ObservabilitySpec :: copier where
  "DeepCopy_ObservabilitySpec = copy_ptr DeepCopyInto_ObservabilitySpec"

definition DeepCopy_PodTemplate :: "(ext \<Rightarrow> copier) \<Rightarrow> copier" where
  "DeepCopy_PodTemplate C = copy_ptr (DeepCopyInto_PodTemplate C)"

definition DeepCopy_FSClusterSpec :: "(ext \<Rightarrow> copier) \<Rightarrow> copier" where
  "DeepCopy_FSClusterSpec C = copy_ptr (DeepCopyInto_FSClusterSpec C)"

definition DeepCopy_LayoutStatus :: copier where
  "DeepCopy_LayoutStatus = copy_ptr DeepCopyInto_LayoutStatus"

definition DeepCopy_UpdateStatus :: "(ext \<Rightarrow> copier) \<Rightarrow> copier" where
  "DeepCopy_UpdateStatus C = copy_ptr (DeepCopyInto_UpdateStatus C)"

definition DeepCopy_FSClusterStatus :: "(ext \<Rightarrow> copier) \<Rightarrow> copier" where
  "DeepCopy_FSClusterStatus C = copy_ptr (DeepCopyInto_FSClusterStatus C)"

definition DeepCopy_FSCluster :: "(ext \<Rightarrow> copier) \<Rightarrow> copier" where
  "DeepCopy_FSCluster C = copy_ptr (DeepCopyInto_FSCluster C)"

definition DeepCopy_FSClusterList :: "(ext \<Rightarrow> copier) \<Rightarrow> copier" where
  "DeepCopy_FSClusterList C = copy_ptr (DeepCopyInto_FSClusterList C)"

text \<open>
  \<open>DeepCopyObject\<close> gives the copy as an interface value: a nil pointer becomes the nil interface
  (\<open>None\<close>), not an interface that holds a nil pointer.
\<close>

definition as_object :: "gval \<times> mem \<Rightarrow> gval option \<times> mem" where
  "as_object r = (case r of (c, m) \<Rightarrow> ((if c \<noteq> Ref None then Some c else None), m))"

definition DeepCopyObject_FSAccessKey :: "(ext \<Rightarrow> copier) \<Rightarrow> gval \<Rightarrow> mem \<Rightarrow> gval option \<times> mem" where
  "DeepCopyObject_FSAccessKey C v m = as_object (DeepCopy_FSAccessKey C v m)"

definition DeepCopyObject_FSAccessKeyList :: "(ext \<Rightarrow> copier) \<Rightarrow> gval \<Rightarrow> mem \<Rightarrow> gval option \<times> mem" where
  "DeepCopyObject_FSAccessKeyList C v m = as_object (DeepCopy_FSAccessKeyList C v m)"

definition DeepCopyObject_FSBucket :: "(ext \<Rightarrow> copier) \<Rightarrow> gval \<Rightarrow> mem \<Rightarrow> gval option \<times> mem" where
  "DeepCopyObject_FSBucket C v m = as_object (DeepCopy_FSBucket C v m)"

definition DeepCopyObject_FSBucketList :: "(ext \<Rightarrow> copier) \<Rightarrow> gval \<Rightarrow> mem \<Rightarrow> gval option \<times> mem" where
  "DeepCopyObject_FSBucketList C v m = as_object (DeepCopy_FSBucketList C v m)"

definition DeepCopyObject_FSCluster :: "(ext \<Rightarrow> copier) \<Rightarrow> gval \<Rightarrow> mem \<Rightarrow> gval option \<times> mem" where
  "DeepCopyObject_FSCluster C v m = as_object (DeepCopy_FSCluster C v m)"

definition DeepCopyObject_FSClusterList :: "(ext \<Rightarrow> copier) \<Rightarrow> gval \<Rightarrow> mem \<Rightarrow> gval option \<times> mem" where
  "DeepCopyObject_FSClusterList C v m = as_object (DeepCopy_FSClusterList C v m)"

text \<open>Every type of the API with its \<open>DeepCopy\<close>.\<close>

definition api_copies :: "(ext \<Rightarrow> gtype) \<Rightarrow> (ext \<Rightarrow> copier) \<Rightarrow> (gtype \<times> copier) list" where
  "api_copies E C = [(T_AuthSpec E, DeepCopy_AuthSpec), (T_ClusterReference, DeepCopy_ClusterReference),
    (T_EndpointsStatus, DeepCopy_EndpointsStatus), (T_GrantSpec, DeepCopy_GrantSpec),
    (T_FSAccessKeySpec E, DeepCopy_FSAccessKeySpec), (T_FSAccessKeyStatus E, DeepCopy_FSAccessKeyStatus C),
    (T_FSAccessKey E, DeepCopy_FSAccessKey C), (T_FSAccessKeyList E, DeepCopy_FSAccessKeyList C),
    (T_FSBucketSpec, DeepCopy_FSBucketSpec), (T_FSBucketStatus E, DeepCopy_FSBucketStatus C),
    (T_FSBucket E, DeepCopy_FSBucket C), (T_FSBucketList E, DeepCopy_FSBucketList C),
    (T_ImageSpec E, DeepCopy_ImageSpec), (T_RackSpec, DeepCopy_RackSpec),
    (T_TopologySpec, DeepCopy_TopologySpec), (T_StorageSpec E, DeepCopy_StorageSpec C),
    (T_LayoutSpec, DeepCopy_LayoutSpec), (T_S3ServiceSpec, DeepCopy_S3ServiceSpec),
    (T_S3TLSSpec, DeepCopy_S3TLSSpec), (T_S3Spec, DeepCopy_S3Spec),
    (T_UpdatePolicySpec E, DeepCopy_UpdatePolicySpec), (T_OTLPSpec, DeepCopy_OTLPSpec),
    (T_SignalSpec, DeepCopy_SignalSpec), (T_MetricsSpec, DeepCopy_MetricsSpec),
    (T_ObservabilitySpec, DeepCopy_ObservabilitySpec), (T_PodTemplate E, DeepCopy_PodTemplate C),
    (T_FSClusterSpec E, DeepCopy_FSClusterSpec C), (T_LayoutStatus, DeepCopy_LayoutStatus),
    (T_UpdateStatus E, DeepCopy_UpdateStatus C), (T_FSClusterStatus E, DeepCopy_FSClusterStatus C),
    (T_FSCluster E, DeepCopy_FSCluster C), (T_FSClusterList E, DeepCopy_FSClusterList C)]"

section \<open>The contract of the packages the types come from\<close>

locale external_types =
  fixes E :: "ext \<Rightarrow> gtype" and C :: "ext \<Rightarrow> copier"
  assumes copied: "deep (E x) (C x)"
    and assigned: "x \<in> {TypeMeta_t, LocalObjectReference_t, Duration_t} \<Longrightarrow> flat (E x)"
begin

lemmas assigned_types [simp] = assigned [of TypeMeta_t, simplified] assigned [of LocalObjectReference_t, simplified] assigned [of Duration_t, simplified]

declare copied [copies]

lemmas flat_types = T_ClusterReference_def T_EndpointsStatus_def T_GrantSpec_def T_FSBucketSpec_def T_S3TLSSpec_def T_OTLPSpec_def T_SignalSpec_def T_MetricsSpec_def

lemma deep_AuthSpec [copies]: "deep (T_AuthSpec E) DeepCopyInto_AuthSpec"
  unfolding T_AuthSpec_def DeepCopyInto_AuthSpec_def by (rule deep_fields) (simp_all add: copies flat_types)

lemma deep_ClusterReference [copies]: "deep (T_ClusterReference) DeepCopyInto_ClusterReference"
  unfolding T_ClusterReference_def DeepCopyInto_ClusterReference_def by (rule deep_fields) (simp_all add: copies flat_types)

lemma deep_EndpointsStatus [copies]: "deep (T_EndpointsStatus) DeepCopyInto_EndpointsStatus"
  unfolding T_EndpointsStatus_def DeepCopyInto_EndpointsStatus_def by (rule deep_fields) (simp_all add: copies flat_types)

lemma deep_GrantSpec [copies]: "deep (T_GrantSpec) DeepCopyInto_GrantSpec"
  unfolding T_GrantSpec_def DeepCopyInto_GrantSpec_def by (rule deep_fields) (simp_all add: copies flat_types)

lemma deep_FSAccessKeySpec [copies]: "deep (T_FSAccessKeySpec E) DeepCopyInto_FSAccessKeySpec"
  unfolding T_FSAccessKeySpec_def DeepCopyInto_FSAccessKeySpec_def by (rule deep_fields) (simp_all add: copies flat_types)

lemma deep_FSAccessKeyStatus [copies]: "deep (T_FSAccessKeyStatus E) (DeepCopyInto_FSAccessKeyStatus C)"
  unfolding T_FSAccessKeyStatus_def DeepCopyInto_FSAccessKeyStatus_def by (rule deep_fields) (simp_all add: copies flat_types)

lemma deep_FSAccessKey [copies]: "deep (T_FSAccessKey E) (DeepCopyInto_FSAccessKey C)"
  unfolding T_FSAccessKey_def DeepCopyInto_FSAccessKey_def by (rule deep_fields) (simp_all add: copies flat_types)

lemma deep_FSAccessKeyList [copies]: "deep (T_FSAccessKeyList E) (DeepCopyInto_FSAccessKeyList C)"
  unfolding T_FSAccessKeyList_def DeepCopyInto_FSAccessKeyList_def by (rule deep_fields) (simp_all add: copies flat_types)

lemma deep_FSBucketSpec [copies]: "deep (T_FSBucketSpec) DeepCopyInto_FSBucketSpec"
  unfolding T_FSBucketSpec_def DeepCopyInto_FSBucketSpec_def by (rule deep_fields) (simp_all add: copies flat_types)

lemma deep_FSBucketStatus [copies]: "deep (T_FSBucketStatus E) (DeepCopyInto_FSBucketStatus C)"
  unfolding T_FSBucketStatus_def DeepCopyInto_FSBucketStatus_def by (rule deep_fields) (simp_all add: copies flat_types)

lemma deep_FSBucket [copies]: "deep (T_FSBucket E) (DeepCopyInto_FSBucket C)"
  unfolding T_FSBucket_def DeepCopyInto_FSBucket_def by (rule deep_fields) (simp_all add: copies flat_types)

lemma deep_FSBucketList [copies]: "deep (T_FSBucketList E) (DeepCopyInto_FSBucketList C)"
  unfolding T_FSBucketList_def DeepCopyInto_FSBucketList_def by (rule deep_fields) (simp_all add: copies flat_types)

lemma deep_ImageSpec [copies]: "deep (T_ImageSpec E) DeepCopyInto_ImageSpec"
  unfolding T_ImageSpec_def DeepCopyInto_ImageSpec_def by (rule deep_fields) (simp_all add: copies flat_types)

lemma deep_RackSpec [copies]: "deep (T_RackSpec) DeepCopyInto_RackSpec"
  unfolding T_RackSpec_def DeepCopyInto_RackSpec_def by (rule deep_fields) (simp_all add: copies flat_types)

lemma deep_TopologySpec [copies]: "deep (T_TopologySpec) DeepCopyInto_TopologySpec"
  unfolding T_TopologySpec_def DeepCopyInto_TopologySpec_def by (rule deep_fields) (simp_all add: copies flat_types)

lemma deep_StorageSpec [copies]: "deep (T_StorageSpec E) (DeepCopyInto_StorageSpec C)"
  unfolding T_StorageSpec_def DeepCopyInto_StorageSpec_def by (rule deep_fields) (simp_all add: copies flat_types)

lemma deep_LayoutSpec [copies]: "deep (T_LayoutSpec) DeepCopyInto_LayoutSpec"
  unfolding T_LayoutSpec_def DeepCopyInto_LayoutSpec_def by (rule deep_fields) (simp_all add: copies flat_types)

lemma deep_S3ServiceSpec [copies]: "deep (T_S3ServiceSpec) DeepCopyInto_S3ServiceSpec"
  unfolding T_S3ServiceSpec_def DeepCopyInto_S3ServiceSpec_def by (rule deep_fields) (simp_all add: copies flat_types)

lemma deep_S3TLSSpec [copies]: "deep (T_S3TLSSpec) DeepCopyInto_S3TLSSpec"
  unfolding T_S3TLSSpec_def DeepCopyInto_S3TLSSpec_def by (rule deep_fields) (simp_all add: copies flat_types)

lemma deep_S3Spec [copies]: "deep (T_S3Spec) DeepCopyInto_S3Spec"
  unfolding T_S3Spec_def DeepCopyInto_S3Spec_def by (rule deep_fields) (simp_all add: copies flat_types)

lemma deep_UpdatePolicySpec [copies]: "deep (T_UpdatePolicySpec E) DeepCopyInto_UpdatePolicySpec"
  unfolding T_UpdatePolicySpec_def DeepCopyInto_UpdatePolicySpec_def by (rule deep_fields) (simp_all add: copies flat_types)

lemma deep_OTLPSpec [copies]: "deep (T_OTLPSpec) DeepCopyInto_OTLPSpec"
  unfolding T_OTLPSpec_def DeepCopyInto_OTLPSpec_def by (rule deep_fields) (simp_all add: copies flat_types)

lemma deep_SignalSpec [copies]: "deep (T_SignalSpec) DeepCopyInto_SignalSpec"
  unfolding T_SignalSpec_def DeepCopyInto_SignalSpec_def by (rule deep_fields) (simp_all add: copies flat_types)

lemma deep_MetricsSpec [copies]: "deep (T_MetricsSpec) DeepCopyInto_MetricsSpec"
  unfolding T_MetricsSpec_def DeepCopyInto_MetricsSpec_def by (rule deep_fields) (simp_all add: copies flat_types)

lemma deep_ObservabilitySpec [copies]: "deep (T_ObservabilitySpec) DeepCopyInto_ObservabilitySpec"
  unfolding T_ObservabilitySpec_def DeepCopyInto_ObservabilitySpec_def by (rule deep_fields) (simp_all add: copies flat_types)

lemma deep_PodTemplate [copies]: "deep (T_PodTemplate E) (DeepCopyInto_PodTemplate C)"
  unfolding T_PodTemplate_def DeepCopyInto_PodTemplate_def by (rule deep_fields) (simp_all add: copies flat_types)

lemma deep_FSClusterSpec [copies]: "deep (T_FSClusterSpec E) (DeepCopyInto_FSClusterSpec C)"
  unfolding T_FSClusterSpec_def DeepCopyInto_FSClusterSpec_def by (rule deep_fields) (simp_all add: copies flat_types)

lemma deep_LayoutStatus [copies]: "deep (T_LayoutStatus) DeepCopyInto_LayoutStatus"
  unfolding T_LayoutStatus_def DeepCopyInto_LayoutStatus_def by (rule deep_fields) (simp_all add: copies flat_types)

lemma deep_UpdateStatus [copies]: "deep (T_UpdateStatus E) (DeepCopyInto_UpdateStatus C)"
  unfolding T_UpdateStatus_def DeepCopyInto_UpdateStatus_def by (rule deep_fields) (simp_all add: copies flat_types)

lemma deep_FSClusterStatus [copies]: "deep (T_FSClusterStatus E) (DeepCopyInto_FSClusterStatus C)"
  unfolding T_FSClusterStatus_def DeepCopyInto_FSClusterStatus_def by (rule deep_fields) (simp_all add: copies flat_types)

lemma deep_FSCluster [copies]: "deep (T_FSCluster E) (DeepCopyInto_FSCluster C)"
  unfolding T_FSCluster_def DeepCopyInto_FSCluster_def by (rule deep_fields) (simp_all add: copies flat_types)

lemma deep_FSClusterList [copies]: "deep (T_FSClusterList E) (DeepCopyInto_FSClusterList C)"
  unfolding T_FSClusterList_def DeepCopyInto_FSClusterList_def by (rule deep_fields) (simp_all add: copies flat_types)

lemma api_copies_deep: "(T, c) \<in> set (api_copies E C) \<Longrightarrow> deep (TPtr T) c"
  by (auto simp: api_copies_def copies DeepCopy_AuthSpec_def DeepCopy_ClusterReference_def DeepCopy_EndpointsStatus_def DeepCopy_GrantSpec_def DeepCopy_FSAccessKeySpec_def DeepCopy_FSAccessKeyStatus_def DeepCopy_FSAccessKey_def DeepCopy_FSAccessKeyList_def DeepCopy_FSBucketSpec_def DeepCopy_FSBucketStatus_def DeepCopy_FSBucket_def DeepCopy_FSBucketList_def DeepCopy_ImageSpec_def DeepCopy_RackSpec_def DeepCopy_TopologySpec_def DeepCopy_StorageSpec_def DeepCopy_LayoutSpec_def DeepCopy_S3ServiceSpec_def DeepCopy_S3TLSSpec_def DeepCopy_S3Spec_def DeepCopy_UpdatePolicySpec_def DeepCopy_OTLPSpec_def DeepCopy_SignalSpec_def DeepCopy_MetricsSpec_def DeepCopy_ObservabilitySpec_def DeepCopy_PodTemplate_def DeepCopy_FSClusterSpec_def DeepCopy_LayoutStatus_def DeepCopy_UpdateStatus_def DeepCopy_FSClusterStatus_def DeepCopy_FSCluster_def DeepCopy_FSClusterList_def)

end

section \<open>The published types\<close>

text \<open>The interface holds for the fields that the Kubernetes API publishes, each copied along its type.\<close>

definition std_Quantity :: gtype where
  "std_Quantity = TStruct [(''value'', TScalar), (''scale'', TScalar), (''Dec'', TPtr TScalar), (''s'', TScalar), (''Format'', TScalar)]"

definition std_KeySelector :: gtype where
  "std_KeySelector = TStruct [(''Name'', TScalar), (''Key'', TScalar), (''Optional'', TPtr TScalar)]"

definition std_OwnerReference :: gtype where
  "std_OwnerReference = TStruct [(''APIVersion'', TScalar), (''Kind'', TScalar), (''Name'', TScalar), (''UID'', TScalar),
    (''Controller'', TPtr TScalar), (''BlockOwnerDeletion'', TPtr TScalar)]"

fun std_type :: "ext \<Rightarrow> gtype" where
  "std_type TypeMeta_t = TStruct [(''Kind'', TScalar), (''APIVersion'', TScalar)]"
| "std_type ObjectMeta_t = TStruct [(''Name'', TScalar), (''Namespace'', TScalar), (''UID'', TScalar), (''ResourceVersion'', TScalar),
    (''Generation'', TScalar), (''CreationTimestamp'', TScalar), (''DeletionTimestamp'', TPtr TScalar),
    (''DeletionGracePeriodSeconds'', TPtr TScalar), (''Labels'', TMap TScalar), (''Annotations'', TMap TScalar),
    (''OwnerReferences'', TSlice std_OwnerReference), (''Finalizers'', TSlice TScalar)]"
| "std_type ListMeta_t = TStruct [(''ResourceVersion'', TScalar), (''Continue'', TScalar), (''RemainingItemCount'', TPtr TScalar)]"
| "std_type Condition_t = TStruct [(''Type'', TScalar), (''Status'', TScalar), (''ObservedGeneration'', TScalar),
    (''LastTransitionTime'', TScalar), (''Reason'', TScalar), (''Message'', TScalar)]"
| "std_type ResourceRequirements_t = TStruct [(''Limits'', TMap std_Quantity), (''Requests'', TMap std_Quantity),
    (''Claims'', TSlice (TStruct [(''Name'', TScalar), (''Request'', TScalar)]))]"
| "std_type Toleration_t = TStruct [(''Key'', TScalar), (''Operator'', TScalar), (''Value'', TScalar), (''Effect'', TScalar),
    (''TolerationSeconds'', TPtr TScalar)]"
| "std_type EnvVar_t = TStruct [(''Name'', TScalar), (''Value'', TScalar), (''ValueFrom'', TPtr (TStruct [
    (''FieldRef'', TPtr (TStruct [(''APIVersion'', TScalar), (''FieldPath'', TScalar)])),
    (''ResourceFieldRef'', TPtr (TStruct [(''ContainerName'', TScalar), (''Resource'', TScalar), (''Divisor'', std_Quantity)])),
    (''ConfigMapKeyRef'', TPtr std_KeySelector), (''SecretKeyRef'', TPtr std_KeySelector)]))]"
| "std_type Quantity_t = std_Quantity"
| "std_type Time_t = TScalar"
| "std_type LocalObjectReference_t = TStruct [(''Name'', TScalar)]"
| "std_type Duration_t = TScalar"

definition std_copy :: "ext \<Rightarrow> copier" where
  "std_copy x = copy_of (std_type x)"

interpretation std: external_types std_type std_copy
proof
  fix x
  have "named_once (std_type x)" by (cases x) (simp_all add: std_Quantity_def std_KeySelector_def std_OwnerReference_def)
  then show "deep (std_type x) (std_copy x)" unfolding std_copy_def by (rule copy_of_deep)
qed auto

section \<open>Copies are independent\<close>

text \<open>
  C30. A copy of an object of the API shares nothing with it. For every type of the API and every object of
  it, \<open>DeepCopy\<close> gives an object that reads the same, made of other memory: whatever is written to the
  memory of the copy, the original still reads as before, and whatever is written to the memory of
  the original, so does the copy. The reconcilers rely on this: \<open>newPass\<close> defaults a copy of the cached
  object, and every status patch is computed against a copy taken before the status is set.
\<close>

theorem deep_copies_independent:
  assumes "external_types E C" "(T, DeepCopy) \<in> set (api_copies E C)" "snap m (TPtr T) object = Some (d, A)"
  shows "\<exists>copy m' A'. DeepCopy object m = (copy, m')
    \<and> snap m' (TPtr T) object = Some (d, A) \<and> snap m' (TPtr T) copy = Some (d, A') \<and> A \<inter> A' = {}
    \<and> (\<forall>ws. fst ` set ws \<subseteq> A' \<longrightarrow> snap (writes ws m') (TPtr T) object = Some (d, A))
    \<and> (\<forall>ws. fst ` set ws \<subseteq> A \<longrightarrow> snap (writes ws m') (TPtr T) copy = Some (d, A'))"
  by (rule deep_separate [OF external_types.api_copies_deep [OF assms(1,2)] assms(3)])

text \<open>A topology of one rack with a node selector.\<close>

definition topology_mem :: mem where
  "topology_mem = \<lparr>cell = (\<lambda>a. if a = 0 then Entries [(''disk'', Text ''ssd'')]
     else if a = 1 then Cells [Struct [(''Name'', Text ''a''), (''Nodes'', Number 3), (''Zone'', Text ''z''), (''NodeSelector'', Ref (Some 0))]]
     else Cells [Struct [(''Nodes'', Ref None), (''Racks'', Ref (Some 1)), (''PodAntiAffinity'', Text ''Required'')]]), lim = 3\<rparr>"

definition topology_read :: dval where
  "topology_read = DPtr (DStruct [(''Nodes'', DNil), (''Racks'', DSlice [DStruct [(''Name'', DScalar (Text ''a'')), (''Nodes'', DScalar (Number 3)),
     (''Zone'', DScalar (Text ''z'')), (''NodeSelector'', DMap [(''disk'', DScalar (Text ''ssd''))])]]), (''PodAntiAffinity'', DScalar (Text ''Required''))])"

lemma topology_snap: "snap topology_mem (TPtr T_TopologySpec) (Ref (Some 2)) = Some (topology_read, {0, 1, 2})"
  by (auto simp: topology_mem_def topology_read_def T_TopologySpec_def T_RackSpec_def)

lemma topology_listed: "(T_TopologySpec, DeepCopy_TopologySpec) \<in> set (api_copies E C)"
  by (simp add: api_copies_def)

theorem deep_copies_independent_witness:
  "\<exists>copy m' A'. DeepCopy_TopologySpec (Ref (Some 2)) topology_mem = (copy, m')
    \<and> snap m' (TPtr T_TopologySpec) copy = Some (topology_read, A') \<and> {0, 1, 2} \<inter> A' = {}
    \<and> snap (writes [(0, Entries [])] m') (TPtr T_TopologySpec) copy = Some (topology_read, A')"
proof -
  have w: "fst ` set [(0::nat, Entries [])] \<subseteq> {0, 1, 2}" by simp
  from deep_copies_independent [OF std.external_types_axioms topology_listed topology_snap] w show ?thesis by blast
qed

text \<open>\<open>DeepCopyObject\<close> of nothing is nothing, and of an object the copy that \<open>DeepCopy\<close> makes.\<close>

lemma DeepCopyObject_nil: "DeepCopyObject_FSCluster C (Ref None) m = (None, m)"
  by (simp add: DeepCopyObject_FSCluster_def as_object_def DeepCopy_FSCluster_def copy_ptr_def)

lemma DeepCopyObject_copy:
  assumes "snap m (TPtr T) (Ref (Some a)) = Some (d, A)" "DeepCopy_FSCluster C (Ref (Some a)) m = (p, m')"
  shows "DeepCopyObject_FSCluster C (Ref (Some a)) m = (Some p, m')"
  using assms
  by (auto simp: DeepCopyObject_FSCluster_def as_object_def DeepCopy_FSCluster_def copy_ptr_def new_cell_def
      split: cell.splits list.splits prod.splits if_splits)

end
