(* ===== verification/Op_Main.thy ===== *)
theory Op_Main
  imports Go_Errors
begin

text \<open>
  The operator's process, \<open>cmd/main.go\<close>: its flags, the options it gives the manager, which
  namespaces it watches and the order it wires its parts in. The flag package and the manager of
  controller-runtime are not part of the repository: \<open>Parse\<close> is an argument that turns the
  defaults of the flags into their values, and the outcome of every call on the manager is an
  answer of the environment. Loggers and the scheme are not modelled.
\<close>

section \<open>Strings\<close>

fun strings_SplitSeq :: "string \<Rightarrow> char \<Rightarrow> string list" where
  "strings_SplitSeq [] sep = [[]]"
| "strings_SplitSeq (c # s) sep =
     (if c = sep then [] # strings_SplitSeq s sep
      else case strings_SplitSeq s sep of [] \<Rightarrow> [[c]] | part # parts \<Rightarrow> (c # part) # parts)"

text \<open>
  \<open>strings.TrimSpace\<close> cuts what Unicode calls white space, here in its UTF-8 encodings: every one
  starts with a leading byte, so an encoding at the end of a string is its last rune.
\<close>

definition white_spaces :: "string list" where
  "white_spaces =
     map (\<lambda>b. [char_of (b :: nat)]) [9, 10, 11, 12, 13, 32]
     @ map (map char_of) ([[194, 133], [194, 160], [225, 154, 128]]
       @ map (\<lambda>b. [226, 128, b]) [128, 129, 130, 131, 132, 133, 134, 135, 136, 137, 138, 168, 169, 175]
       @ [[226, 129, 159], [227, 128, 128 :: nat]])"

function trim_front :: "string list \<Rightarrow> string \<Rightarrow> string" where
  "trim_front spaces s = (case find (\<lambda>sp. sp \<noteq> [] \<and> prefix sp s) spaces of
      None \<Rightarrow> s
    | Some sp \<Rightarrow> trim_front spaces (drop (length sp) s))"
  by pat_completeness auto

termination trim_front
proof (relation "measure (\<lambda>(spaces, s). length s)")
  fix spaces s sp assume "find (\<lambda>sp. sp \<noteq> [] \<and> prefix sp s) spaces = Some sp"
  then have "sp \<noteq> [] \<and> prefix sp s" by (auto simp: find_Some_iff)
  then show "((spaces, drop (length sp) s), (spaces, s)) \<in> measure (\<lambda>(spaces, s). length s)"
    by (auto simp: prefix_def)
qed simp

declare trim_front.simps [simp del]

definition strings_TrimSpace :: "string \<Rightarrow> string" where
  "strings_TrimSpace s = rev (trim_front (map rev white_spaces) (rev (trim_front white_spaces s)))"

section \<open>Namespaces\<close>

definition parseNamespaces :: "string \<Rightarrow> string list" where
  "parseNamespaces lst =
     remdups_adj (slices_Sort (filter (\<lambda>name. name \<noteq> []) (map strings_TrimSpace (strings_SplitSeq lst (CHR '','')))))"

text \<open>The namespaces a cache is restricted to; the zero options restrict it to none.\<close>

record cache_Options =
  co_DefaultNamespaces :: "(string, unit) gomap option"

definition namespaceCache :: "string list \<Rightarrow> cache_Options" where
  "namespaceCache namespaces =
     (if length namespaces = 0 then \<lparr>co_DefaultNamespaces = None\<rparr>
      else \<lparr>co_DefaultNamespaces = Some (fold (\<lambda>name m. gm_put name () m) namespaces [])\<rparr>)"

text \<open>What the documentation of the cache says it watches.\<close>

definition cache_watches :: "cache_Options \<Rightarrow> string \<Rightarrow> bool" where
  "cache_watches opts ns = (case co_DefaultNamespaces opts of None \<Rightarrow> True | Some m \<Rightarrow> gm_get m ns \<noteq> None)"

section \<open>Flags and options\<close>

record main_flags =
  fl_metricsAddr :: string
  fl_probeAddr :: string
  fl_enableLeaderElection :: bool
  fl_secureMetrics :: bool
  fl_webhookCertPath :: string
  fl_webhookCertName :: string
  fl_webhookCertKey :: string
  fl_metricsCertPath :: string
  fl_metricsCertName :: string
  fl_metricsCertKey :: string
  fl_enableHTTP2 :: bool
  fl_fsImageRegistry :: string
  fl_watchNamespaces :: string

definition flag_defaults :: "(string \<Rightarrow> string) \<Rightarrow> main_flags" where
  "flag_defaults Getenv =
     \<lparr>fl_metricsAddr = ''0'', fl_probeAddr = '':8081'', fl_enableLeaderElection = False, fl_secureMetrics = True,
      fl_webhookCertPath = [], fl_webhookCertName = ''tls.crt'', fl_webhookCertKey = ''tls.key'',
      fl_metricsCertPath = [], fl_metricsCertName = ''tls.crt'', fl_metricsCertKey = ''tls.key'',
      fl_enableHTTP2 = False, fl_fsImageRegistry = Getenv ''FS_IMAGE_REGISTRY'',
      fl_watchNamespaces = Getenv ''WATCH_NAMESPACES''\<rparr>"

record tls_Config =
  tls_NextProtos :: "string list"

definition disableHTTP2 :: "tls_Config \<Rightarrow> tls_Config" where
  "disableHTTP2 c = c\<lparr>tls_NextProtos := [''http/1.1'']\<rparr>"

definition tlsOpts :: "main_flags \<Rightarrow> (tls_Config \<Rightarrow> tls_Config) list" where
  "tlsOpts fl = (if fl_enableHTTP2 fl then [] else [disableHTTP2])"

record server_Options =
  so_TLSOpts :: "(tls_Config \<Rightarrow> tls_Config) list"
  so_CertDir :: string
  so_CertName :: string
  so_KeyName :: string

record metrics_Options = server_Options +
  so_BindAddress :: string
  so_SecureServing :: bool
  so_Filtered :: bool

definition webhookServerOptions :: "main_flags \<Rightarrow> server_Options" where
  "webhookServerOptions fl =
     (let opts = \<lparr>so_TLSOpts = tlsOpts fl, so_CertDir = [], so_CertName = [], so_KeyName = []\<rparr>
      in if 0 < length (fl_webhookCertPath fl)
         then opts\<lparr>so_CertDir := fl_webhookCertPath fl, so_CertName := fl_webhookCertName fl,
                so_KeyName := fl_webhookCertKey fl\<rparr>
         else opts)"

text \<open>\<open>so_Filtered\<close>: the endpoint asks for authentication and authorization.\<close>

definition metricsServerOptions :: "main_flags \<Rightarrow> metrics_Options" where
  "metricsServerOptions fl =
     (let opts = \<lparr>so_TLSOpts = tlsOpts fl, so_CertDir = [], so_CertName = [], so_KeyName = [],
                so_BindAddress = fl_metricsAddr fl, so_SecureServing = fl_secureMetrics fl, so_Filtered = False\<rparr>;
          opts' = (if fl_secureMetrics fl then opts\<lparr>so_Filtered := True\<rparr> else opts)
      in if 0 < length (fl_metricsCertPath fl)
         then opts'\<lparr>so_CertDir := fl_metricsCertPath fl, so_CertName := fl_metricsCertName fl,
                so_KeyName := fl_metricsCertKey fl\<rparr>
         else opts')"

record manager_Options =
  mo_Cache :: cache_Options
  mo_Metrics :: metrics_Options
  mo_WebhookServer :: server_Options
  mo_HealthProbeBindAddress :: string
  mo_LeaderElection :: bool
  mo_LeaderElectionID :: string

definition managerOptions :: "main_flags \<Rightarrow> manager_Options" where
  "managerOptions fl =
     \<lparr>mo_Cache = namespaceCache (parseNamespaces (fl_watchNamespaces fl)), mo_Metrics = metricsServerOptions fl,
      mo_WebhookServer = webhookServerOptions fl, mo_HealthProbeBindAddress = fl_probeAddr fl,
      mo_LeaderElection = fl_enableLeaderElection fl, mo_LeaderElectionID = ''ff8720af.go-faster.org''\<rparr>"

section \<open>Wiring\<close>

datatype setup_call =
    NewManager manager_Options
  | SetupFSCluster string string
  | SetupFSBucket
  | SetupFSAccessKey
  | SetupWebhook
  | AddHealthz string
  | AddReadyz string
  | Start

definition webhookEnabled :: "(string \<Rightarrow> string) \<Rightarrow> main_flags \<Rightarrow> bool" where
  "webhookEnabled Getenv fl \<longleftrightarrow> 0 < length (fl_webhookCertPath fl) \<and> Getenv ''ENABLE_WEBHOOKS'' \<noteq> ''false''"

text \<open>The calls of \<open>main\<close> on the manager, in order; the arguments of \<open>SetupFSCluster\<close> are the
  operator's namespace and the registry override.\<close>

definition wiring :: "(string \<Rightarrow> string) \<Rightarrow> main_flags \<Rightarrow> setup_call list" where
  "wiring Getenv fl =
     [NewManager (managerOptions fl),
      SetupFSCluster (Getenv ''POD_NAMESPACE'') (fl_fsImageRegistry fl), SetupFSBucket, SetupFSAccessKey]
     @ (if webhookEnabled Getenv fl then [SetupWebhook] else [])
     @ [AddHealthz ''healthz'', AddReadyz ''readyz'']
     @ (if webhookEnabled Getenv fl then [AddReadyz ''webhook''] else [])
     @ [Start]"

text \<open>Every call that fails ends the process with status 1.\<close>

fun run_calls :: "(setup_call list \<Rightarrow> setup_call \<Rightarrow> error option) \<Rightarrow> setup_call list \<Rightarrow> setup_call list \<Rightarrow> int \<times> setup_call list" where
  "run_calls answer [] h = (0, h)"
| "run_calls answer (c # cs) h = (case answer h c of
      Some e \<Rightarrow> (1, h @ [c])
    | None \<Rightarrow> run_calls answer cs (h @ [c]))"

definition main ::
    "(string \<Rightarrow> string) \<Rightarrow> (main_flags \<Rightarrow> main_flags) \<Rightarrow> (setup_call list \<Rightarrow> setup_call \<Rightarrow> error option)
     \<Rightarrow> int \<times> setup_call list" where
  "main Getenv Parse answer = run_calls answer (wiring Getenv (Parse (flag_defaults Getenv))) []"

section \<open>Facts\<close>

subsection \<open>Splitting and trimming\<close>

lemma split_not_nil [simp]: "strings_SplitSeq s sep \<noteq> []"
  by (induction s) (auto split: list.split)

lemma split_no_sep: "part \<in> set (strings_SplitSeq s sep) \<Longrightarrow> sep \<notin> set part"
proof (induction s arbitrary: part)
  case (Cons c s)
  then show ?case by (cases "strings_SplitSeq s sep") (auto split: if_splits)
qed simp

lemma split_one: "sep \<notin> set part \<Longrightarrow> strings_SplitSeq part sep = [part]"
  by (induction part) auto

lemma split_append: "sep \<notin> set part \<Longrightarrow> strings_SplitSeq (part @ sep # s) sep = part # strings_SplitSeq s sep"
  by (induction part) auto

lemma split_join:
  "parts \<noteq> [] \<Longrightarrow> \<forall>part \<in> set parts. sep \<notin> set part \<Longrightarrow> strings_SplitSeq (strings_Join parts [sep]) sep = parts"
proof (induction parts)
  case (Cons part parts)
  then show ?case by (cases parts) (simp_all add: split_one split_append)
qed simp

text \<open>Trimming cuts a prefix off, and what is left starts with no white space.\<close>

lemma trim_front_suffix: "suffix (trim_front spaces s) s"
proof (induction spaces s rule: trim_front.induct)
  case (1 spaces s)
  show ?case
  proof (cases "find (\<lambda>sp. sp \<noteq> [] \<and> prefix sp s) spaces")
    case None
    then show ?thesis by (simp add: trim_front.simps [of spaces s])
  next
    case (Some sp)
    with 1 [OF Some] show ?thesis
      by (simp add: trim_front.simps [of spaces s]) (metis suffix_drop suffix_order.trans)
  qed
qed

lemma trim_front_none: "find (\<lambda>sp. sp \<noteq> [] \<and> prefix sp (trim_front spaces s)) spaces = None"
proof (induction spaces s rule: trim_front.induct)
  case (1 spaces s)
  show ?case
  proof (cases "find (\<lambda>sp. sp \<noteq> [] \<and> prefix sp s) spaces")
    case None
    then show ?thesis by (simp add: trim_front.simps [of spaces s])
  next
    case (Some sp)
    with 1 [OF Some] show ?thesis by (simp add: trim_front.simps [of spaces s])
  qed
qed

lemma trim_front_fix: "find (\<lambda>sp. sp \<noteq> [] \<and> prefix sp s) spaces = None \<Longrightarrow> trim_front spaces s = s"
  by (simp add: trim_front.simps [of spaces s])

text \<open>What is trimmed on both sides stays as it is: the end of a string without leading white space
  can be cut, and no white space comes to its front.\<close>

lemma TrimSpace_idem: "strings_TrimSpace (strings_TrimSpace s) = strings_TrimSpace s"
proof -
  define t where "t = trim_front white_spaces s"
  define u where "u = trim_front (map rev white_spaces) (rev t)"
  have u: "strings_TrimSpace s = rev u" by (simp add: strings_TrimSpace_def t_def u_def)
  have "prefix (rev u) t" using trim_front_suffix [of "map rev white_spaces" "rev t"] by (simp add: u_def suffix_to_prefix)
  then have "find (\<lambda>sp. sp \<noteq> [] \<and> prefix sp (rev u)) white_spaces = None"
    using trim_front_none [of white_spaces s] prefix_order.trans
    by (auto simp: find_None_iff t_def [symmetric])
  then have "trim_front white_spaces (rev u) = rev u" by (rule trim_front_fix)
  moreover have "trim_front (map rev white_spaces) u = u"
    unfolding u_def by (rule trim_front_fix) (rule trim_front_none)
  ultimately show ?thesis unfolding u by (simp add: strings_TrimSpace_def)
qed

lemma TrimSpace_subset: "set (strings_TrimSpace s) \<subseteq> set s"
  using set_mono_suffix [OF trim_front_suffix [of "map rev white_spaces" "rev (trim_front white_spaces s)"]]
    set_mono_suffix [OF trim_front_suffix [of white_spaces s]]
  by (auto simp: strings_TrimSpace_def)

subsection \<open>Namespaces\<close>

lemma remdups_adj_strict: "sorted xs \<Longrightarrow> sorted_wrt (<) (remdups_adj (xs :: 'a::linorder list))"
  by (induction xs rule: remdups_adj.induct) (auto simp: less_le)

lemma parseNamespaces_set:
  "set (parseNamespaces s) = strings_TrimSpace ` set (strings_SplitSeq s (CHR '','')) - {[]}"
  by (auto simp: parseNamespaces_def)

lemma parseNamespaces_strict: "sorted_wrt (<) (parseNamespaces s)"
  unfolding parseNamespaces_def by (rule remdups_adj_strict) simp

text \<open>The list is the ascending listing of a set of names, so the set decides it.\<close>

lemma parseNamespaces_cong: "set (parseNamespaces s) = set (parseNamespaces t) \<Longrightarrow> parseNamespaces s = parseNamespaces t"
  using strict_sorted_equal parseNamespaces_strict by blast

lemma namespaceCache_watches:
  "cache_watches (namespaceCache ns) n \<longleftrightarrow> ns = [] \<or> n \<in> set ns"
proof -
  have "gm_get (fold (\<lambda>name m. gm_put name () m) ns m) n \<noteq> None \<longleftrightarrow> n \<in> set ns \<or> gm_get m n \<noteq> None" for m
    by (induction ns arbitrary: m) auto
  then show ?thesis by (simp add: cache_watches_def namespaceCache_def del: not_None_eq)
qed

lemma parse_join: "parseNamespaces (strings_Join (parseNamespaces s) '','') = parseNamespaces s"
proof (cases "parseNamespaces s = []")
  case True
  have "strings_TrimSpace [] = []" using TrimSpace_subset [of "[]"] by simp
  with True show ?thesis by (simp add: parseNamespaces_def)
next
  case False
  let ?ns = "parseNamespaces s"
  have "CHR '','' \<notin> set n \<and> n \<noteq> [] \<and> strings_TrimSpace n = n" if "n \<in> set ?ns" for n
    using that split_no_sep TrimSpace_subset TrimSpace_idem by (fastforce simp: parseNamespaces_set)
  then have "strings_SplitSeq (strings_Join ?ns '','') (CHR '','') = ?ns" and "strings_TrimSpace ` set ?ns - {[]} = set ?ns"
    using split_join [OF False, of "CHR '',''"] by (auto simp: image_iff)
  then have "set (parseNamespaces (strings_Join ?ns '','')) = set ?ns"
    using parseNamespaces_set [of "strings_Join ?ns '',''"] by simp
  then show ?thesis by (rule parseNamespaces_cong)
qed

subsection \<open>Wiring\<close>

text \<open>The calls made are those of the plan up to the first that fails.\<close>

lemma run_calls_prefix:
  "\<exists>k \<le> length cs. snd (run_calls answer cs h) = h @ take k cs
     \<and> (fst (run_calls answer cs h) = 0 \<longleftrightarrow> (\<forall>i < length cs. answer (h @ take i cs) (cs ! i) = None))
     \<and> (\<forall>i. Suc i < k \<longrightarrow> answer (h @ take i cs) (cs ! i) = None)"
proof (induction cs arbitrary: h)
  case (Cons c cs)
  show ?case
  proof (cases "answer h c")
    case (Some e)
    then show ?thesis by (intro exI [of _ 1]) auto
  next
    case None
    from Cons.IH [of "h @ [c]"] obtain k where k: "k \<le> length cs" "snd (run_calls answer cs (h @ [c])) = (h @ [c]) @ take k cs"
      "fst (run_calls answer cs (h @ [c])) = 0 \<longleftrightarrow> (\<forall>i < length cs. answer ((h @ [c]) @ take i cs) (cs ! i) = None)"
      "\<forall>i. Suc i < k \<longrightarrow> answer ((h @ [c]) @ take i cs) (cs ! i) = None" by blast
    have "answer (h @ take i (c # cs)) ((c # cs) ! i) = None" if "Suc i < Suc k" for i
      using that None k(4) by (cases i) auto
    moreover have "(\<forall>i < length (c # cs). answer (h @ take i (c # cs)) ((c # cs) ! i) = None)
        \<longleftrightarrow> (\<forall>i < length cs. answer ((h @ [c]) @ take i cs) (cs ! i) = None)"
      using None by (auto simp: nth_Cons take_Cons split: nat.split)
    ultimately show ?thesis using None k(1,2,3) by (intro exI [of _ "Suc k"]) auto
  qed
qed simp

lemma wiring_distinct: "distinct (wiring Getenv fl)" "last (wiring Getenv fl) = Start" "wiring Getenv fl \<noteq> []"
  by (simp_all add: wiring_def)

section \<open>Properties\<close>

text \<open>
  The manager starts only when everything is in place: all three controllers are set up on a
  manager whose cache watches exactly the namespaces asked for, the admission webhook is
  registered exactly when there is a certificate and it is not turned off, and then readiness
  waits for its server. Unless HTTP/2 is enabled both servers offer HTTP/1.1 only.
\<close>

theorem started_in_place:
  assumes "main Getenv Parse answer = (code, calls)" and "Start \<in> set calls" and "fl = Parse (flag_defaults Getenv)"
  shows "calls = wiring Getenv fl \<and> (\<forall>i. Suc i < length calls \<longrightarrow> answer (take i calls) (calls ! i) = None)
    \<and> (SetupWebhook \<in> set calls \<longleftrightarrow> fl_webhookCertPath fl \<noteq> [] \<and> Getenv ''ENABLE_WEBHOOKS'' \<noteq> ''false'')
    \<and> (SetupWebhook \<in> set calls \<longleftrightarrow> AddReadyz ''webhook'' \<in> set calls)
    \<and> (\<not> fl_enableHTTP2 fl \<longrightarrow> (\<forall>c. tls_NextProtos (fold (\<lambda>f. f) (so_TLSOpts (webhookServerOptions fl)) c) = [''http/1.1'']
         \<and> tls_NextProtos (fold (\<lambda>f. f) (so_TLSOpts (metricsServerOptions fl)) c) = [''http/1.1'']))"
proof -
  let ?w = "wiring Getenv fl"
  from run_calls_prefix [of ?w answer "[]"] assms obtain k where k: "k \<le> length ?w" "calls = take k ?w"
    "\<forall>i. Suc i < k \<longrightarrow> answer (take i ?w) (?w ! i) = None" by (auto simp: main_def)
  have "k = length ?w"
  proof (rule ccontr)
    assume "k \<noteq> length ?w"
    with k(1) have "take k ?w = take k (butlast ?w)" by (simp add: take_butlast)
    with assms(2) k(2) have "Start \<in> set (butlast ?w)" using in_set_takeD by metis
    then show False by (auto simp: wiring_def butlast_append split: if_splits)
  qed
  with k have calls: "calls = ?w" "\<forall>i. Suc i < length calls \<longrightarrow> answer (take i calls) (calls ! i) = None" by auto
  moreover have "tls_NextProtos (fold (\<lambda>f. f) (so_TLSOpts (webhookServerOptions fl)) c) = [''http/1.1'']
         \<and> tls_NextProtos (fold (\<lambda>f. f) (so_TLSOpts (metricsServerOptions fl)) c) = [''http/1.1'']" if "\<not> fl_enableHTTP2 fl" for c
    using that by (simp add: webhookServerOptions_def metricsServerOptions_def Let_def tlsOpts_def disableHTTP2_def)
  ultimately show ?thesis by (auto simp: wiring_def webhookEnabled_def)
qed

text \<open>
  The list of namespaces is read as the set it stands for. Spaces around the names, empty
  entries, repeats and their order make no difference: the parsed list is strictly ascending
  and holds exactly the non-empty trimmed entries, so two lists with the same entries parse to
  the same; parsing what is printed gives the list back. The manager's cache watches every
  namespace when the list names none, and exactly those named otherwise.
\<close>

theorem namespaces_canonical:
  "sorted_wrt (<) (parseNamespaces s)
   \<and> set (parseNamespaces s) = strings_TrimSpace ` set (strings_SplitSeq s (CHR '','')) - {[]}
   \<and> parseNamespaces (strings_Join (parseNamespaces s) '','') = parseNamespaces s
   \<and> (parseNamespaces s = parseNamespaces t \<longleftrightarrow> set (parseNamespaces s) = set (parseNamespaces t))
   \<and> (cache_watches (mo_Cache (managerOptions (fl\<lparr>fl_watchNamespaces := s\<rparr>))) n
        \<longleftrightarrow> parseNamespaces s = [] \<or> n \<in> set (parseNamespaces s))"
proof (intro conjI)
  show "parseNamespaces s = parseNamespaces t \<longleftrightarrow> set (parseNamespaces s) = set (parseNamespaces t)"
    using parseNamespaces_cong by metis
  show "cache_watches (mo_Cache (managerOptions (fl\<lparr>fl_watchNamespaces := s\<rparr>))) n
        \<longleftrightarrow> parseNamespaces s = [] \<or> n \<in> set (parseNamespaces s)"
    by (simp add: managerOptions_def namespaceCache_watches)
qed (rule parseNamespaces_strict parseNamespaces_set parse_join)+

end
