(* ===== verification/Scheme.thy ===== *)
theory Scheme
  imports Deep_Copies Op_Main
begin

text \<open>
  Which Go type stands for which kind of object: \<open>groupversion_info.go\<close>, the \<open>init\<close> functions of the
  three type files and that of \<open>cmd/main.go\<close>, which fill the scheme the manager works with. A scheme itself is
  apimachinery's; the interface \<open>schemes\<close> has what its documentation says of the two calls made on it.
  A \<open>SchemeBuilder\<close> is the list of the functions registered with it, applied in order until one fails.
\<close>

record GroupVersion =
  gv_Group :: string
  gv_Version :: string

definition SchemeGroupVersion :: GroupVersion where
  "SchemeGroupVersion = \<lparr>gv_Group = ''fs.go-faster.org'', gv_Version = ''v1alpha1''\<rparr>"

definition webhook_groupKind :: "string \<times> string" where
  "webhook_groupKind = (gv_Group SchemeGroupVersion, ''FSCluster'')"

section \<open>The builder\<close>

type_synonym 's builder = "('s \<Rightarrow> 's result) list"

definition Register :: "('s \<Rightarrow> 's result) \<Rightarrow> 's builder \<Rightarrow> 's builder" where
  "Register f b = b @ [f]"

fun builder_AddToScheme :: "'s builder \<Rightarrow> 's \<Rightarrow> 's result" where
  "builder_AddToScheme [] s = Inr s"
| "builder_AddToScheme (f # fs) s = (case f s of Inl e \<Rightarrow> Inl e | Inr s' \<Rightarrow> builder_AddToScheme fs s')"

text \<open>The package variable, and the three \<open>init\<close> functions, which Go runs in the order of the file names.\<close>

definition SchemeBuilder :: "('s \<Rightarrow> GroupVersion \<Rightarrow> 's) \<Rightarrow> 's builder" where
  "SchemeBuilder AddToGroupVersion = [\<lambda>scheme. Inr (AddToGroupVersion scheme SchemeGroupVersion)]"

definition init_FSAccessKey :: "('s \<Rightarrow> GroupVersion \<Rightarrow> string list \<Rightarrow> 's) \<Rightarrow> 's builder \<Rightarrow> 's builder" where
  "init_FSAccessKey AddKnownTypes = Register (\<lambda>s. Inr (AddKnownTypes s SchemeGroupVersion [''FSAccessKey'', ''FSAccessKeyList'']))"

definition init_FSBucket :: "('s \<Rightarrow> GroupVersion \<Rightarrow> string list \<Rightarrow> 's) \<Rightarrow> 's builder \<Rightarrow> 's builder" where
  "init_FSBucket AddKnownTypes = Register (\<lambda>s. Inr (AddKnownTypes s SchemeGroupVersion [''FSBucket'', ''FSBucketList'']))"

definition init_FSCluster :: "('s \<Rightarrow> GroupVersion \<Rightarrow> string list \<Rightarrow> 's) \<Rightarrow> 's builder \<Rightarrow> 's builder" where
  "init_FSCluster AddKnownTypes = Register (\<lambda>s. Inr (AddKnownTypes s SchemeGroupVersion [''FSCluster'', ''FSClusterList'']))"

definition AddToScheme :: "('s \<Rightarrow> GroupVersion \<Rightarrow> string list \<Rightarrow> 's) \<Rightarrow> ('s \<Rightarrow> GroupVersion \<Rightarrow> 's) \<Rightarrow> 's \<Rightarrow> 's result" where
  "AddToScheme AddKnownTypes AddToGroupVersion = builder_AddToScheme
     (init_FSCluster AddKnownTypes (init_FSBucket AddKnownTypes (init_FSAccessKey AddKnownTypes (SchemeBuilder AddToGroupVersion))))"

text \<open>
  \<open>init\<close> of \<open>cmd/main.go\<close>: the types of client-go, then those of the API; \<open>utilruntime.Must\<close> panics
  (\<open>None\<close>) on an error.
\<close>

definition main_init ::
    "('s \<Rightarrow> GroupVersion \<Rightarrow> string list \<Rightarrow> 's) \<Rightarrow> ('s \<Rightarrow> GroupVersion \<Rightarrow> 's) \<Rightarrow> ('s \<Rightarrow> 's result) \<Rightarrow> 's \<Rightarrow> 's option" where
  "main_init AddKnownTypes AddToGroupVersion clientgo scheme = (case clientgo scheme of
      Inl e \<Rightarrow> None
    | Inr s \<Rightarrow> (case AddToScheme AddKnownTypes AddToGroupVersion s of Inl e \<Rightarrow> None | Inr s' \<Rightarrow> Some s'))"

text \<open>The kinds whose types can be objects: those with a \<open>DeepCopyObject\<close>.\<close>

definition object_copies :: "(ext \<Rightarrow> copier) \<Rightarrow> (string \<times> (gval \<Rightarrow> mem \<Rightarrow> gval option \<times> mem)) list" where
  "object_copies C =
     [(''FSAccessKey'', DeepCopyObject_FSAccessKey C), (''FSAccessKeyList'', DeepCopyObject_FSAccessKeyList C),
      (''FSBucket'', DeepCopyObject_FSBucket C), (''FSBucketList'', DeepCopyObject_FSBucketList C),
      (''FSCluster'', DeepCopyObject_FSCluster C), (''FSClusterList'', DeepCopyObject_FSClusterList C)]"

section \<open>Schemes\<close>

locale schemes =
  fixes Recognizes :: "'s \<Rightarrow> GroupVersion \<Rightarrow> string \<Rightarrow> bool"
    and AddKnownTypes :: "'s \<Rightarrow> GroupVersion \<Rightarrow> string list \<Rightarrow> 's"
    and AddToGroupVersion :: "'s \<Rightarrow> GroupVersion \<Rightarrow> 's"
  assumes known: "Recognizes (AddKnownTypes s gv kinds) g k \<longleftrightarrow> g = gv \<and> k \<in> set kinds \<or> Recognizes s g k"
    and kept: "Recognizes s g k \<Longrightarrow> Recognizes (AddToGroupVersion s gv) g k"
begin

lemma api_scheme:
  "AddToScheme AddKnownTypes AddToGroupVersion s = Inr s' \<Longrightarrow>
   Recognizes s' g k \<longleftrightarrow> g = SchemeGroupVersion \<and> k \<in> fst ` set (object_copies C) \<or> Recognizes (AddToGroupVersion s SchemeGroupVersion) g k"
  by (auto simp: AddToScheme_def init_FSCluster_def init_FSBucket_def init_FSAccessKey_def SchemeBuilder_def Register_def known object_copies_def)

lemma api_scheme_total: "\<exists>s'. AddToScheme AddKnownTypes AddToGroupVersion s = Inr s'"
  by (simp add: AddToScheme_def init_FSCluster_def init_FSBucket_def init_FSAccessKey_def SchemeBuilder_def Register_def)

lemma main_scheme:
  assumes "clientgo scheme = Inr s"
  shows "\<exists>s'. main_init AddKnownTypes AddToGroupVersion clientgo scheme = Some s'
    \<and> (\<forall>k \<in> fst ` set (object_copies C). Recognizes s' SchemeGroupVersion k) \<and> (\<forall>g k. Recognizes s g k \<longrightarrow> Recognizes s' g k)"
proof -
  from api_scheme_total obtain s' where s': "AddToScheme AddKnownTypes AddToGroupVersion s = Inr s'" by blast
  from api_scheme [OF s', of _ _ C] s' assms kept [of s] show ?thesis by (auto simp: main_init_def)
qed

end

text \<open>A scheme as the set of the kinds it knows.\<close>

interpretation kind_set: schemes
  "\<lambda>s g k. (g, k) \<in> s" "\<lambda>s gv kinds. s \<union> Pair gv ` set kinds" "\<lambda>s gv. s \<union> {(gv, ''WatchEvent''), (gv, ''ListOptions'')}"
  by unfold_locales auto

section \<open>The scheme of the operator\<close>

text \<open>
  Every kind of the API is known before \<open>main\<close> runs: unless client-go's own registration fails, \<open>init\<close> does
  not panic, and the scheme then knows every type that has a \<open>DeepCopyObject\<close>, with its list, under the
  group and version of the API, and still everything client-go registered.
\<close>

theorem scheme_knows_api:
  assumes "schemes Recognizes AddKnownTypes AddToGroupVersion" "clientgo scheme = Inr s"
  shows "\<exists>s'. main_init AddKnownTypes AddToGroupVersion clientgo scheme = Some s'
    \<and> (\<forall>k \<in> fst ` set (object_copies C). Recognizes s' SchemeGroupVersion k) \<and> (\<forall>g k. Recognizes s g k \<longrightarrow> Recognizes s' g k)"
  using schemes.main_scheme [OF assms(1), of clientgo scheme s C] assms(2) by blast

text \<open>The kind a rejection by the webhook names is one of them.\<close>

lemma webhook_kind_known:
  assumes "schemes Recognizes AddKnownTypes AddToGroupVersion" "AddToScheme AddKnownTypes AddToGroupVersion s = Inr s'"
  shows "Recognizes s' \<lparr>gv_Group = fst webhook_groupKind, gv_Version = gv_Version SchemeGroupVersion\<rparr> (snd webhook_groupKind)"
  using schemes.api_scheme [OF assms] by (simp add: webhook_groupKind_def object_copies_def)

end
