(* ===== verification/Client_Pool.thy ===== *)
theory Client_Pool
  imports Fs_Client
begin

text \<open>
  \<open>internal/fsclient\<close> below the calls: how a client of the admin API is configured and over which transport
  its requests go, \<open>pool.go\<close> and the first part of \<open>client.go\<close>. \<open>Fs_Client\<close> has the pool without the
  transports; here it is shown that forgetting them gives that pool.

  A round tripper is known by its identity: an \<open>*http.Transport\<close>, which can be cloned, or any other.
  \<open>http.DefaultTransport\<close> is the argument \<open>dflt\<close>, and \<open>fresh\<close> the identity of a clone of it.
\<close>

datatype RoundTripper = Http_Transport nat | Other_Tripper nat

section \<open>Options of a client\<close>

record client_config =
  cfg_transport :: RoundTripper
  cfg_timeout :: Duration

type_synonym Option = "client_config \<Rightarrow> client_config"

definition WithTransport :: "RoundTripper \<Rightarrow> Option" where
  "WithTransport rt = (\<lambda>c. c\<lparr>cfg_transport := rt\<rparr>)"

definition WithTimeout :: "Duration \<Rightarrow> Option" where
  "WithTimeout d = (\<lambda>c. c\<lparr>cfg_timeout := d\<rparr>)"

record bearerTransport =
  bt_token :: string
  bt_base :: RoundTripper

record http_Client =
  hc_Transport :: bearerTransport
  hc_Timeout :: Duration

text \<open>The generated client is its base URL and the HTTP client it sends with.\<close>

record api_Client =
  ac_baseURL :: string
  ac_http :: http_Client

record node_Client =
  nc_api :: api_Client
  nc_timeout :: Duration

definition client_New :: "(string \<Rightarrow> error option) \<Rightarrow> RoundTripper \<Rightarrow> string \<Rightarrow> string \<Rightarrow> Option list \<Rightarrow> node_Client result" where
  "client_New build dflt baseURL token opts =
     (let cfg = fold (\<lambda>opt c. opt c) opts \<lparr>cfg_transport = dflt, cfg_timeout = DefaultTimeout\<rparr>;
          httpClient = \<lparr>hc_Transport = \<lparr>bt_token = token, bt_base = cfg_transport cfg\<rparr>, hc_Timeout = cfg_timeout cfg\<rparr>
      in case build baseURL of
           Some e \<Rightarrow> Inl (Wrap e fmt_build_admin_client [])
         | None \<Rightarrow> Inr \<lparr>nc_api = \<lparr>ac_baseURL = baseURL, ac_http = httpClient\<rparr>, nc_timeout = cfg_timeout cfg\<rparr>)"

text \<open>What a request leaves through, and with which header.\<close>

definition bearer_RoundTrip :: "bearerTransport \<Rightarrow> (string, string) gomap \<Rightarrow> RoundTripper \<times> (string, string) gomap" where
  "bearer_RoundTrip t header = (bt_base t, RoundTrip (bt_token t) header)"

definition sent :: "node_Client \<Rightarrow> (string, string) gomap \<Rightarrow> RoundTripper \<times> (string, string) gomap" where
  "sent c header = bearer_RoundTrip (hc_Transport (ac_http (nc_api c))) header"

section \<open>The pool\<close>

record clientKey =
  ck_baseURL :: string
  ck_token :: string

record node_Pool =
  np_transport :: RoundTripper
  np_timeout :: Duration
  np_clients :: "(clientKey, node_Client) gomap"

type_synonym PoolOption = "node_Pool \<Rightarrow> node_Pool"

definition WithPoolTimeout :: "Duration \<Rightarrow> PoolOption" where
  "WithPoolTimeout d = (\<lambda>p. p\<lparr>np_timeout := d\<rparr>)"

definition cloneDefaultTransport :: "RoundTripper \<Rightarrow> nat \<Rightarrow> RoundTripper" where
  "cloneDefaultTransport dflt fresh = (case dflt of Http_Transport n \<Rightarrow> Http_Transport fresh | Other_Tripper n \<Rightarrow> dflt)"

definition node_NewPool :: "RoundTripper \<Rightarrow> nat \<Rightarrow> PoolOption list \<Rightarrow> node_Pool" where
  "node_NewPool dflt fresh opts = fold (\<lambda>opt p. opt p) opts
     \<lparr>np_transport = cloneDefaultTransport dflt fresh, np_timeout = DefaultTimeout, np_clients = []\<rparr>"

definition node_Pool_Client ::
    "(string \<Rightarrow> error option) \<Rightarrow> RoundTripper \<Rightarrow> node_Pool \<Rightarrow> string \<Rightarrow> string \<Rightarrow> node_Client result \<times> node_Pool" where
  "node_Pool_Client build dflt p baseURL token =
     (let key = \<lparr>ck_baseURL = baseURL, ck_token = token\<rparr>
      in case gm_get (np_clients p) key of
           Some c \<Rightarrow> (Inr c, p)
         | None \<Rightarrow> (case client_New build dflt baseURL token [WithTransport (np_transport p), WithTimeout (np_timeout p)] of
             Inl e \<Rightarrow> (Inl e, p)
           | Inr c \<Rightarrow> (Inr c, p\<lparr>np_clients := gm_put key c (np_clients p)\<rparr>)))"

section \<open>Forgetting the transports\<close>

definition client_abs :: "node_Client \<Rightarrow> Client" where
  "client_abs c = \<lparr>cl_baseURL = ac_baseURL (nc_api c), cl_token = bt_token (hc_Transport (ac_http (nc_api c))), cl_timeout = nc_timeout c\<rparr>"

definition key_abs :: "clientKey \<Rightarrow> string \<times> string" where
  "key_abs k = (ck_baseURL k, ck_token k)"

definition pool_abs :: "node_Pool \<Rightarrow> Pool" where
  "pool_abs p = \<lparr>pool_timeout = np_timeout p, pool_clients = map (map_prod key_abs client_abs) (np_clients p)\<rparr>"

lemma key_abs_inj [simp]: "key_abs k = key_abs k' \<longleftrightarrow> k = k'"
  by (cases k, cases k') (simp add: key_abs_def)

lemma gm_get_abs: "gm_get (map (map_prod key_abs f) m) (key_abs k) = map_option f (gm_get m k)"
  by (induction m) auto

lemma gm_put_abs: "gm_put (key_abs k) (f v) (map (map_prod key_abs f) m) = map (map_prod key_abs f) (gm_put k v m)"
  by (induction m) (auto simp: gm_put_def)

lemma client_New_abs:
  "map_sum id client_abs (client_New build dflt u t [WithTransport rt, WithTimeout d]) = fsclient_New build u t d"
  by (simp add: client_New_def fsclient_New_def client_abs_def WithTransport_def WithTimeout_def split: option.split)

lemma Pool_Client_abs:
  "map_prod (map_sum id client_abs) pool_abs (node_Pool_Client build dflt p u t) = Pool_Client build (pool_abs p) u t"
proof -
  let ?k = "\<lparr>ck_baseURL = u, ck_token = t\<rparr>"
  have k: "(u, t) = key_abs ?k" by (simp add: key_abs_def)
  show ?thesis
    using client_New_abs [of build dflt u t "np_transport p" "np_timeout p"]
    by (auto simp: node_Pool_Client_def Pool_Client_def pool_abs_def k gm_get_abs gm_put_abs Let_def split: option.split sum.split)
qed

section \<open>The clients of a pool\<close>

text \<open>The clients of a pool send over its transport, wait as long as it says, and are filed under what they use.\<close>

definition node_pool_ok :: "node_Pool \<Rightarrow> bool" where
  "node_pool_ok p \<longleftrightarrow> (\<forall>k c. gm_get (np_clients p) k = Some c \<longrightarrow>
     client_New (\<lambda>u. None) (np_transport p) (ck_baseURL k) (ck_token k) [WithTimeout (np_timeout p)] = Inr c)"

definition node_pool_run ::
    "(string \<Rightarrow> error option) \<Rightarrow> RoundTripper \<Rightarrow> (string \<times> string) list \<Rightarrow> node_Pool \<Rightarrow> node_Pool" where
  "node_pool_run build dflt reqs p = fold (\<lambda>(u, t) p. snd (node_Pool_Client build dflt p u t)) reqs p"

lemma client_New_built:
  "client_New build dflt u t [WithTransport rt, WithTimeout d] = Inr c \<Longrightarrow> client_New (\<lambda>u. None) rt u t [WithTimeout d] = Inr c"
  by (simp add: client_New_def WithTransport_def WithTimeout_def Let_def split: option.splits)

lemma node_Pool_Client_keeps:
  assumes "node_pool_ok p" "node_Pool_Client build dflt p u t = (r, p')"
  shows "node_pool_ok p' \<and> np_transport p' = np_transport p \<and> np_timeout p' = np_timeout p"
proof (cases "gm_get (np_clients p) \<lparr>ck_baseURL = u, ck_token = t\<rparr>")
  case None
  show ?thesis
  proof (cases "client_New build dflt u t [WithTransport (np_transport p), WithTimeout (np_timeout p)]")
    case (Inr c)
    from client_New_built [OF this] assms None Inr show ?thesis by (auto simp: node_Pool_Client_def node_pool_ok_def split: if_splits)
  qed (use assms None in \<open>simp add: node_Pool_Client_def\<close>)
qed (use assms in \<open>simp add: node_Pool_Client_def\<close>)

lemma node_pool_run_keeps:
  "node_pool_ok p \<Longrightarrow> node_pool_ok (node_pool_run build dflt reqs p) \<and> np_transport (node_pool_run build dflt reqs p) = np_transport p
     \<and> np_timeout (node_pool_run build dflt reqs p) = np_timeout p"
proof (induction reqs arbitrary: p)
  case (Cons q reqs)
  obtain u t where q: "q = (u, t)" by (cases q)
  obtain r p' where c: "node_Pool_Client build dflt p u t = (r, p')" by (cases "node_Pool_Client build dflt p u t")
  from node_Pool_Client_keeps [OF Cons.prems c] Cons.IH [of p'] q c show ?case by (simp add: node_pool_run_def)
qed (simp add: node_pool_run_def)

lemma node_pool_run_abs: "pool_abs (node_pool_run build dflt reqs p) = fold (\<lambda>(u, t) p. snd (Pool_Client build p u t)) reqs (pool_abs p)"
proof (induction reqs arbitrary: p)
  case (Cons q reqs)
  obtain u t where q: "q = (u, t)" by (cases q)
  have "snd (Pool_Client build (pool_abs p) u t) = pool_abs (snd (node_Pool_Client build dflt p u t))"
    using Pool_Client_abs [of build dflt p u t] by (metis snd_map_prod)
  with Cons.IH q show ?case by (simp add: node_pool_run_def)
qed (simp add: node_pool_run_def)

text \<open>Options only ever set the timeout, and the last one counts.\<close>

lemma NewPool_timeouts:
  "node_NewPool dflt fresh (map WithPoolTimeout ds) =
     \<lparr>np_transport = cloneDefaultTransport dflt fresh, np_timeout = last (DefaultTimeout # ds), np_clients = []\<rparr>"
proof (induction ds rule: rev_induct)
  case (snoc d ds)
  then show ?case by (simp add: node_NewPool_def WithPoolTimeout_def)
qed (simp add: node_NewPool_def)

lemma NewPool_abs: "pool_abs (node_NewPool dflt fresh []) = NewPool"
  by (simp add: node_NewPool_def pool_abs_def NewPool_def)

text \<open>
  The clients of a pool are independent of its history and of the rest of the process. However the pool
  was used before, a client it hands out sends to the endpoint asked for, with the token asked for as bearer
  token, over the one transport of the pool (never the process-wide \<open>http.DefaultTransport\<close> when that can be
  cloned) and within the last timeout the pool was given. Forgetting the transports, the pool with no options
  answers every request as the plain pool the controllers are verified against does.
\<close>

theorem pool_clients_refine:
  assumes "node_Pool_Client build dflt (node_pool_run build dflt reqs (node_NewPool dflt fresh (map WithPoolTimeout ds))) u t = (r, p)"
  shows "(\<forall>c header. r = Inr c \<longrightarrow> ac_baseURL (nc_api c) = u \<and> sent c header = (cloneDefaultTransport dflt fresh, RoundTrip t header)
      \<and> hc_Timeout (ac_http (nc_api c)) = last (DefaultTimeout # ds) \<and> nc_timeout c = last (DefaultTimeout # ds))
    \<and> (dflt \<noteq> Http_Transport fresh \<longrightarrow> (\<exists>n. dflt = Http_Transport n) \<longrightarrow> cloneDefaultTransport dflt fresh \<noteq> dflt)
    \<and> (ds = [] \<longrightarrow> map_sum id client_abs r = fst (Pool_Client build (pool_run build reqs) u t))"
proof (intro conjI allI impI)
  let ?new = "node_NewPool dflt fresh (map WithPoolTimeout ds)"
  have "node_pool_ok ?new" by (simp add: NewPool_timeouts node_pool_ok_def)
  then have run: "node_pool_ok (node_pool_run build dflt reqs ?new)" "np_transport (node_pool_run build dflt reqs ?new) = np_transport ?new"
    "np_timeout (node_pool_run build dflt reqs ?new) = np_timeout ?new" using node_pool_run_keeps by blast+
  from node_Pool_Client_keeps [OF run(1) assms] run(2,3)
  have ok: "node_pool_ok p" "np_transport p = cloneDefaultTransport dflt fresh" "np_timeout p = last (DefaultTimeout # ds)"
    unfolding NewPool_timeouts by simp_all
  fix c header assume r: "r = Inr c"
  with assms have "gm_get (np_clients p) \<lparr>ck_baseURL = u, ck_token = t\<rparr> = Some c"
    by (auto simp: node_Pool_Client_def Let_def split: option.splits sum.splits)
  with ok(1) have "client_New (\<lambda>u. None) (np_transport p) u t [WithTimeout (np_timeout p)] = Inr c" by (fastforce simp: node_pool_ok_def)
  with ok show "ac_baseURL (nc_api c) = u" "sent c header = (cloneDefaultTransport dflt fresh, RoundTrip t header)"
    "hc_Timeout (ac_http (nc_api c)) = last (DefaultTimeout # ds)" "nc_timeout c = last (DefaultTimeout # ds)"
    by (auto simp: client_New_def WithTimeout_def sent_def bearer_RoundTrip_def Let_def)
next
  assume "ds = []"
  then show "map_sum id client_abs r = fst (Pool_Client build (pool_run build reqs) u t)"
    using Pool_Client_abs [of build dflt "node_pool_run build dflt reqs (node_NewPool dflt fresh [])" u t] assms
    by (simp add: node_pool_run_abs NewPool_abs pool_run_def [symmetric]) (metis fst_conv fst_map_prod)
qed (auto simp: cloneDefaultTransport_def)

theorem pool_clients_refine_witness:
  "\<exists>c p. node_Pool_Client (\<lambda>u. None) (Http_Transport 0)
      (node_pool_run (\<lambda>u. None) (Http_Transport 0) [(''http://a'', ''old'')] (node_NewPool (Http_Transport 0) 1 (map WithPoolTimeout [5]))) ''http://a'' ''new''
      = (Inr c, p)
    \<and> sent c [] = (Http_Transport 1, RoundTrip ''new'' []) \<and> nc_timeout c = 5"
proof -
  obtain c p where e: "node_Pool_Client (\<lambda>u. None) (Http_Transport 0)
      (node_pool_run (\<lambda>u. None) (Http_Transport 0) [(''http://a'', ''old'')] (node_NewPool (Http_Transport 0) 1 (map WithPoolTimeout [5]))) ''http://a'' ''new''
      = (Inr c, p)"
    by (simp add: node_Pool_Client_def node_pool_run_def node_NewPool_def client_New_def WithPoolTimeout_def Let_def)
  from pool_clients_refine [OF this] e show ?thesis by (simp add: cloneDefaultTransport_def)
qed

end
