(* ===== verification/Telemetry.thy ===== *)
theory Telemetry
  imports Validation Builders
begin

text \<open>
  From the spec over admission and the rendered environment to where the nodes send. How Kubernetes
  makes the environment of a process of a container's variables and what the telemetry SDK of fs
  makes of that environment is not part of the repository: both are parameters, with the laws that
  the comments of \<open>fscluster_types.go\<close>, \<open>statefulset.go\<close> and \<open>cluster.go\<close> (validation) state and
  rely on.
\<close>

primrec exporter_var :: "signal \<Rightarrow> string" where
  "exporter_var Traces = envTracesExporter"
| "exporter_var Logs = envLogsExporter"
| "exporter_var Metrics = envMetricsExport"

primrec endpoint_var :: "signal \<Rightarrow> string" where
  "endpoint_var Traces = envOTLPTracesEndpoint"
| "endpoint_var Logs = envOTLPLogsEndpoint"
| "endpoint_var Metrics = envOTLPMetricsEndpoint"

primrec protocol_var :: "signal \<Rightarrow> string" where
  "protocol_var Traces = envOTLPTracesProto"
| "protocol_var Logs = envOTLPLogsProto"
| "protocol_var Metrics = envOTLPMetricsProto"

definition signals :: "signal list" where
  "signals = [Traces, Logs, Metrics]"

definition telemetry_vars :: "string list" where
  "telemetry_vars = [envOTLPEndpoint, envOTLPProtocol] @ map exporter_var signals @ map endpoint_var signals @ map protocol_var signals"

section \<open>What the SDK makes of an environment\<close>

text \<open>
  Where a signal is sent: an endpoint of its own is used exactly as written, to the shared one the
  SDK adds the path of the signal.
\<close>

datatype destination = Exactly string | Under string

text \<open>
  A variable that is set, if more than once then to the same value, has that value; the endpoint
  of a signal wins over the shared one; the shared protocol wins over that of a signal, and
  without either the SDK has a default.
\<close>

locale telemetry_sdk =
  fixes lookup :: "EnvVar list \<Rightarrow> string \<Rightarrow> string option"
    and destination :: "(string \<Rightarrow> string option) \<Rightarrow> signal \<Rightarrow> destination"
    and transport :: "(string \<Rightarrow> string option) \<Rightarrow> signal \<Rightarrow> string"
  assumes is_set: "v \<in> set vars \<Longrightarrow> \<forall>w \<in> set vars. env_Name w = env_Name v \<longrightarrow> w = v \<Longrightarrow> env_ValueFrom v = None \<Longrightarrow>
      lookup vars (env_Name v) = Some (env_Value v)"
    and is_unset: "\<forall>w \<in> set vars. env_Name w \<noteq> n \<Longrightarrow> lookup vars n = None"
    and own_endpoint: "env (endpoint_var g) = Some url \<Longrightarrow> url \<noteq> [] \<Longrightarrow> destination env g = Exactly url"
    and shared_endpoint: "env (endpoint_var g) = None \<Longrightarrow> env envOTLPEndpoint = Some url \<Longrightarrow> url \<noteq> [] \<Longrightarrow> destination env g = Under url"
    and shared_protocol: "env envOTLPProtocol = Some p \<Longrightarrow> p \<noteq> [] \<Longrightarrow> transport env g = p"
    and own_protocol: "env envOTLPProtocol = None \<Longrightarrow> env (protocol_var g) = Some p \<Longrightarrow> p \<noteq> [] \<Longrightarrow> transport env g = p"
    and default_protocol: "env envOTLPProtocol = None \<Longrightarrow> env (protocol_var g) = None \<Longrightarrow> transport env g = SDKDefaultOTLPProtocol"

section \<open>What the spec declares\<close>

text \<open>What is said for a signal counts, then what is said for all of them, then the default.\<close>

definition declared_destination :: "ObservabilitySpec \<Rightarrow> signal \<Rightarrow> destination" where
  "declared_destination s g =
     (if signal_endpoint s g \<noteq> [] then Exactly (signal_endpoint s g) else Under (otlp_Endpoint (obs_OTLP s)))"

definition declared_protocol :: "ObservabilitySpec \<Rightarrow> signal \<Rightarrow> string" where
  "declared_protocol s g =
     (if signal_protocol s g \<noteq> [] then signal_protocol s g
      else if otlp_Protocol (obs_OTLP s) \<noteq> [] then otlp_Protocol (obs_OTLP s)
      else SDKDefaultOTLPProtocol)"

section \<open>The rendered variables\<close>

lemma env_names [simp]:
  "env_Name (valueEnv n x) = n" "env_Value (valueEnv n x) = x" "env_Name (secretEnv n a b) = n" "env_Value (secretEnv n a b) = []"
  by (simp_all add: valueEnv_def secretEnv_def)

lemma telemetry_only:
  assumes "v \<in> set (env_vars cluster node)" "env_Name v \<in> set telemetry_vars"
    "\<forall>v \<in> set (pt_ExtraEnv (spec_PodTemplate (fsc_Spec cluster))). env_Name v \<notin> set telemetry_vars"
  shows "v \<in> set (telemetryEnv (spec_Observability (fsc_Spec cluster)))"
  using assms by (auto simp: env_vars_def Let_def telemetry_vars_def signals_def split: if_splits)

lemma signal_var:
  "v = signalEndpoint n e x \<and> env_Name v \<noteq> [] \<longleftrightarrow> e = ExporterOTLP \<and> x \<noteq> [] \<and> n \<noteq> [] \<and> v = valueEnv n x"
  "v = signalProtocol n e x \<and> env_Name v \<noteq> [] \<longleftrightarrow> e = ExporterOTLP \<and> x \<noteq> [] \<and> n \<noteq> [] \<and> v = valueEnv n x"
  by (auto simp: signalEndpoint_def signalProtocol_def)

definition signal_vars :: "ObservabilitySpec \<Rightarrow> signal \<Rightarrow> EnvVar \<Rightarrow> bool" where
  "signal_vars s g v \<longleftrightarrow> v = valueEnv (exporter_var g) (signal_exporter s g)
     \<or> signal_exporter s g = ExporterOTLP \<and> (signal_endpoint s g \<noteq> [] \<and> v = valueEnv (endpoint_var g) (signal_endpoint s g)
         \<or> signal_protocol s g \<noteq> [] \<and> v = valueEnv (protocol_var g) (signal_protocol s g))"

lemma telemetry_mem:
  "v \<in> set (telemetryEnv s) \<longleftrightarrow> (\<exists>g. signal_vars s g v)
     \<or> met_Exporter (obs_Metrics s) = ExporterPrometheus \<and> v = valueEnv envMetricsAddr (listenAddr MetricsPort)
     \<or> otlp_Endpoint (obs_OTLP s) \<noteq> [] \<and> v = valueEnv envOTLPEndpoint (otlp_Endpoint (obs_OTLP s))
     \<or> otlp_Protocol (obs_OTLP s) \<noteq> [] \<and> v = valueEnv envOTLPProtocol (otlp_Protocol (obs_OTLP s))"
proof -
  have all: "(\<exists>g. P g) \<longleftrightarrow> P Traces \<or> P Logs \<or> P Metrics" for P by (metis signal.exhaust)
  have mem: "v \<in> set (filter (\<lambda>v. env_Name v \<noteq> []) xs) \<longleftrightarrow> (\<exists>x \<in> set xs. v = x \<and> env_Name v \<noteq> [])" for xs by auto
  show ?thesis unfolding telemetryEnv_def Let_def set_append Un_iff mem all signal_vars_def
    by (simp add: signal_var conj_disj_distribR conj_disj_distribL) argo
qed

text \<open>The variables of the signals, and those they share, have different names.\<close>

lemma signal_names:
  "exporter_var g = exporter_var h \<longleftrightarrow> g = h" "endpoint_var g = endpoint_var h \<longleftrightarrow> g = h" "protocol_var g = protocol_var h \<longleftrightarrow> g = h"
  "exporter_var g \<noteq> endpoint_var h" "exporter_var g \<noteq> protocol_var h" "endpoint_var g \<noteq> protocol_var h"
  by (cases g; cases h; simp)+

lemma shared_names:
  "exporter_var g \<notin> {envOTLPEndpoint, envOTLPProtocol, envMetricsAddr}" "endpoint_var g \<notin> {envOTLPEndpoint, envOTLPProtocol, envMetricsAddr}"
  "protocol_var g \<notin> {envOTLPEndpoint, envOTLPProtocol, envMetricsAddr}"
  by (cases g; simp)+

lemmas var_names = signal_names signal_names(4-6) [symmetric] shared_names [simplified] shared_names [simplified, unfolded eq_commute [of "exporter_var _"]
  eq_commute [of "endpoint_var _"] eq_commute [of "protocol_var _"]]

lemma signal_listed [simp]: "exporter_var g \<in> set telemetry_vars" "endpoint_var g \<in> set telemetry_vars" "protocol_var g \<in> set telemetry_vars"
  by (cases g; simp add: telemetry_vars_def signals_def)+

lemma shared_listed [simp]: "envOTLPEndpoint \<in> set telemetry_vars" "envOTLPProtocol \<in> set telemetry_vars"
  by (simp_all add: telemetry_vars_def)

context telemetry_sdk
begin

lemma rendered_var:
  assumes "\<forall>v \<in> set (pt_ExtraEnv (spec_PodTemplate (fsc_Spec cluster))). env_Name v \<notin> set telemetry_vars"
    and "s = spec_Observability (fsc_Spec cluster)" "n \<in> set telemetry_vars"
    and "\<And>v. v \<in> set (telemetryEnv s) \<Longrightarrow> env_Name v = n \<Longrightarrow> P \<and> v = valueEnv n x" "P \<Longrightarrow> valueEnv n x \<in> set (telemetryEnv s)"
  shows "lookup (env_vars cluster node) n = (if P then Some x else None)"
proof -
  have only: "P \<and> v = valueEnv n x" if "v \<in> set (env_vars cluster node)" "env_Name v = n" for v
    using telemetry_only [OF that(1) _ assms(1)] assms(2-4) that(2) by simp
  show ?thesis
  proof (cases P)
    case True
    then have "valueEnv n x \<in> set (env_vars cluster node)" using assms(2,5) by (simp add: env_vars_def Let_def)
    from is_set [OF this] only True show ?thesis by (auto simp: valueEnv_def)
  next
    case False
    with only have "\<forall>w \<in> set (env_vars cluster node). env_Name w \<noteq> n" by blast
    with False show ?thesis by (simp add: is_unset)
  qed
qed

lemma rendered_vars:
  assumes "\<forall>v \<in> set (pt_ExtraEnv (spec_PodTemplate (fsc_Spec cluster))). env_Name v \<notin> set telemetry_vars"
    and "s = spec_Observability (fsc_Spec cluster)"
  shows "lookup (env_vars cluster node) (exporter_var g) = Some (signal_exporter s g)"
    "lookup (env_vars cluster node) (endpoint_var g)
      = (if signal_exporter s g = ExporterOTLP \<and> signal_endpoint s g \<noteq> [] then Some (signal_endpoint s g) else None)"
    "lookup (env_vars cluster node) (protocol_var g)
      = (if signal_exporter s g = ExporterOTLP \<and> signal_protocol s g \<noteq> [] then Some (signal_protocol s g) else None)"
    "lookup (env_vars cluster node) envOTLPEndpoint = (if otlp_Endpoint (obs_OTLP s) \<noteq> [] then Some (otlp_Endpoint (obs_OTLP s)) else None)"
    "lookup (env_vars cluster node) envOTLPProtocol = (if otlp_Protocol (obs_OTLP s) \<noteq> [] then Some (otlp_Protocol (obs_OTLP s)) else None)"
proof -
  note get = rendered_var [OF assms]
  note mem = telemetry_mem signal_vars_def var_names
  show "lookup (env_vars cluster node) (exporter_var g) = Some (signal_exporter s g)"
    using get [of "exporter_var g" True "signal_exporter s g" node] by (force simp: mem)
  show "lookup (env_vars cluster node) (endpoint_var g)
      = (if signal_exporter s g = ExporterOTLP \<and> signal_endpoint s g \<noteq> [] then Some (signal_endpoint s g) else None)"
    by (rule get) (force simp: mem)+
  show "lookup (env_vars cluster node) (protocol_var g)
      = (if signal_exporter s g = ExporterOTLP \<and> signal_protocol s g \<noteq> [] then Some (signal_protocol s g) else None)"
    by (rule get) (force simp: mem)+
  show "lookup (env_vars cluster node) envOTLPEndpoint = (if otlp_Endpoint (obs_OTLP s) \<noteq> [] then Some (otlp_Endpoint (obs_OTLP s)) else None)"
    by (rule get [OF shared_listed(1)]) (force simp: mem)+
  show "lookup (env_vars cluster node) envOTLPProtocol = (if otlp_Protocol (obs_OTLP s) \<noteq> [] then Some (otlp_Protocol (obs_OTLP s)) else None)"
    by (rule get [OF shared_listed(2)]) (force simp: mem)+
qed

text \<open>A spec without a protocol in both places and with a destination for the signal is followed.\<close>

lemma followed:
  assumes "\<forall>v \<in> set (pt_ExtraEnv (spec_PodTemplate (fsc_Spec cluster))). env_Name v \<notin> set telemetry_vars"
    and "s = spec_Observability (fsc_Spec cluster)" "signal_exporter s g = ExporterOTLP"
    and "signal_endpoint s g \<noteq> [] \<or> otlp_Endpoint (obs_OTLP s) \<noteq> []" "otlp_Protocol (obs_OTLP s) \<noteq> [] \<longrightarrow> signal_protocol s g = []"
  shows "destination (lookup (env_vars cluster node)) g = declared_destination s g"
    "transport (lookup (env_vars cluster node)) g = declared_protocol s g"
proof -
  note vars = rendered_vars [OF assms(1,2), of node]
  show "destination (lookup (env_vars cluster node)) g = declared_destination s g"
    using vars(2) [of g] vars(4) assms(3,4) own_endpoint [of _ g] shared_endpoint [of _ g]
    by (cases "signal_endpoint s g = []") (auto simp: declared_destination_def)
  show "transport (lookup (env_vars cluster node)) g = declared_protocol s g"
    using vars(3) [of g] vars(5) assms(3,5) shared_protocol [of _ _ g] own_protocol [of _ g] default_protocol [of _ g]
    by (cases "signal_protocol s g = []"; cases "otlp_Protocol (obs_OTLP s) = []") (auto simp: declared_protocol_def)
qed

end

section \<open>An SDK\<close>

text \<open>The last variable of a name counts, and the SDK looks at the variables in the order of the laws.\<close>

definition last_value :: "EnvVar list \<Rightarrow> string \<Rightarrow> string option" where
  "last_value vars n = map_option env_Value (find (\<lambda>v. env_Name v = n) (rev vars))"

definition sent_to :: "(string \<Rightarrow> string option) \<Rightarrow> signal \<Rightarrow> destination" where
  "sent_to env g = (case env (endpoint_var g) of Some url \<Rightarrow> Exactly url
     | None \<Rightarrow> Under (case env envOTLPEndpoint of Some url \<Rightarrow> url | None \<Rightarrow> ''http://localhost:4318''))"

definition sent_over :: "(string \<Rightarrow> string option) \<Rightarrow> signal \<Rightarrow> string" where
  "sent_over env g = (case env envOTLPProtocol of Some p \<Rightarrow> p
     | None \<Rightarrow> (case env (protocol_var g) of Some p \<Rightarrow> p | None \<Rightarrow> SDKDefaultOTLPProtocol))"

lemma find_member: "find P xs = Some v \<Longrightarrow> v \<in> set xs \<and> P v"
  by (induction xs) (auto split: if_splits)

interpretation ordered_sdk: telemetry_sdk last_value sent_to sent_over
proof
  fix v :: EnvVar and vars
  assume v: "v \<in> set vars" "\<forall>w \<in> set vars. env_Name w = env_Name v \<longrightarrow> w = v"
  then have "find (\<lambda>u. env_Name u = env_Name v) (rev vars) \<noteq> None" by (auto simp: find_None_iff)
  then obtain w where w: "find (\<lambda>u. env_Name u = env_Name v) (rev vars) = Some w" by blast
  from find_member [OF w] have "w \<in> set vars" "env_Name w = env_Name v" by simp_all
  with v(2) have "w = v" by blast
  with w show "last_value vars (env_Name v) = Some (env_Value v)" by (simp add: last_value_def)
qed (auto simp: last_value_def sent_to_def sent_over_def find_None_iff)

section \<open>Property\<close>

lemma admitted_observability:
  assumes "signal_order ord1" "signal_order ord2" "snd (ValidateCreate ord1 ord2 cluster) = None"
  shows "observability_ok (spec_Observability (defaulted cluster))"
  using assms by (simp add: ValidateCreate_def Let_def validation_Cluster_None spec_ok_def)

lemma ok_signal:
  assumes "observability_ok s"
  shows "signal_exporter s g = ExporterOTLP \<Longrightarrow> signal_endpoint s g \<noteq> [] \<or> otlp_Endpoint (obs_OTLP s) \<noteq> []"
    "otlp_Protocol (obs_OTLP s) \<noteq> [] \<longrightarrow> signal_protocol s g = []"
  using assms by (cases g; auto simp: observability_ok_def nowhere_to_send_def split: if_splits)+

text \<open>
  C31. Telemetry goes where the spec says. Take any SDK that reads its variables the way the repository
  documents: an endpoint of a signal wins over the shared one, but the shared protocol wins over
  that of a signal. Let the webhook have admitted a cluster whose own variables do not touch the telemetry
  ones. In the container rendered for every node each signal has the exporter of the defaulted
  spec, and a signal exported over OTLP is sent exactly to the endpoint the spec declares for it, or
  else under the shared one, over the protocol declared for it, the shared one, or the SDK's
  default: admission refuses the specs that would send to nowhere or whose protocol the SDK would
  ignore. With a shared endpoint the configuration file switches tracing on as well, so the traces are
  really sent; about traces of a cluster without one, for which it does not, nothing is claimed.
\<close>

theorem telemetry_as_declared:
  assumes "telemetry_sdk lookup destination transport"
    and "signal_order ord1" "signal_order ord2" "snd (ValidateCreate ord1 ord2 cluster) = None"
    and "fsc_Spec rendered = defaulted cluster"
    and "\<forall>v \<in> set (pt_ExtraEnv (spec_PodTemplate (defaulted cluster))). env_Name v \<notin> set telemetry_vars"
    and "g = Traces \<longrightarrow> otlp_Endpoint (obs_OTLP (spec_Observability (defaulted cluster))) \<noteq> []"
  shows "let s = spec_Observability (defaulted cluster); env = lookup (con_Env (fsContainer rendered node))
    in env (exporter_var g) = Some (signal_exporter s g)
      \<and> (signal_exporter s g = ExporterOTLP \<longrightarrow>
           destination env g = declared_destination s g \<and> transport env g = declared_protocol s g)
      \<and> (g = Traces \<longrightarrow> ob_EnableTracing (observabilityConfig rendered))"
proof -
  let ?s = "spec_Observability (defaulted cluster)"
  note ok = ok_signal [OF admitted_observability [OF assms(2-4)], of g]
  note extra = assms(6) [folded assms(5)] and s = arg_cong [OF assms(5) [symmetric], of spec_Observability]
  note vars = telemetry_sdk.rendered_vars(1) [OF assms(1) extra s, of node g]
    telemetry_sdk.followed [OF assms(1) extra s _ ok, of node]
  show ?thesis unfolding Let_def using vars assms(5,7) by (auto simp: fsContainer_def observabilityConfig_def Let_def)
qed

text \<open>Traces with an endpoint and a protocol of their own beside a shared endpoint.\<close>

definition traced_cluster :: FSCluster where
  "traced_cluster = sample_cluster ((sample_spec three_nodes 1000)\<lparr>spec_Observability :=
     (spec_Observability (sample_spec three_nodes 1000))\<lparr>obs_OTLP := \<lparr>otlp_Endpoint = ''http://otel:4318'', otlp_Protocol = []\<rparr>,
       obs_Traces := \<lparr>sig_Exporter = [], sig_Endpoint = ''http://tempo:4318/v1/traces'', sig_Protocol = ''http/protobuf''\<rparr>\<rparr>\<rparr>)"

lemma traced_ok: "spec_ok (fsc_Spec traced_cluster)"
  by (simp add: traced_cluster_def sample_cluster_def spec_ok_def sample_spec_def three_nodes_def TotalNodes_def MaxWidth_def
      DefaultLayoutWidth_def observability_ok_def nowhere_to_send_def ExporterOTLP_def)

lemma traced_admitted: "snd (ValidateCreate [Traces, Logs, Metrics] [Metrics, Traces, Logs] traced_cluster) = None"
  by (simp add: ValidateCreate_def Let_def validation_Cluster_None sample_orders defaulted_def spec_ok_WithDefaults traced_ok)

lemma traced_facts:
  "pt_ExtraEnv (spec_PodTemplate (defaulted traced_cluster)) = []"
  "otlp_Endpoint (obs_OTLP (spec_Observability (defaulted traced_cluster))) \<noteq> []"
  "signal_exporter (spec_Observability (defaulted traced_cluster)) Traces = ExporterOTLP"
  "declared_destination (spec_Observability (defaulted traced_cluster)) Traces = Exactly ''http://tempo:4318/v1/traces''"
  "declared_protocol (spec_Observability (defaulted traced_cluster)) Traces = ''http/protobuf''"
  by (simp_all add: traced_cluster_def sample_cluster_def sample_spec_def defaulted_def WithDefaults_def withSignalDefaults_def
      declared_destination_def declared_protocol_def Let_def)

theorem telemetry_as_declared_witness:
  "let env = last_value (con_Env (fsContainer (traced_cluster\<lparr>fsc_Spec := defaulted traced_cluster\<rparr>) (flat_node ''fs'' 0)))
   in sent_to env Traces = Exactly ''http://tempo:4318/v1/traces'' \<and> sent_over env Traces = ''http/protobuf''"
  using telemetry_as_declared [OF ordered_sdk.telemetry_sdk_axioms sample_orders traced_admitted,
      of "traced_cluster\<lparr>fsc_Spec := defaulted traced_cluster\<rparr>" Traces "flat_node ''fs'' 0"]
  by (simp add: traced_facts Let_def del: signal_exporter.simps)

end
