(* ===== verification/Spec2Isabelle.thy ===== *)
theory Spec2Isabelle
  imports Steady_Pass Rollout_Rounds Storage_Rounds Removal_Rounds Reporting Key_Life Watches Secret_Flow Op_Metrics Scheme Client_Pool Telemetry
begin

text \<open>
  A verification development for \<open>go-faster/fs-operator\<close>, the Kubernetes operator that runs
  clusters of the S3 server \<open>go-faster/fs\<close>. Paths below are relative to \<open>src/\<close>.

  \<^bold>\<open>The program.\<close> Three controllers watch three custom resources (\<open>api/v1alpha1\<close>). The FSCluster
  controller (\<open>internal/controller/fscluster\<close>) turns a spec into one StatefulSet per fs node and keeps
  the running cluster in line with it: a pass (\<open>Reconcile\<close>) runs a fixed pipeline of seventeen
  steps over a shared \<open>pass\<close> value. The FSAccessKey and FSBucket controllers
  (\<open>internal/controller\<close>) manage credentials and buckets of a cluster. They interact through the API
  server and the nodes only: the key controller writes a credential Secret, the cluster controller
  renders it into every node's configuration and reloads the nodes, and the key controller asks
  the nodes whether they accept it. A validating webhook runs the checks the controller runs
  again itself. \<open>cmd/main.go\<close> puts the parts together.

  \<^bold>\<open>The model.\<close> A Go function is a HOL function; errors are the left of a sum (\<open>'a result\<close>); a panic
  is \<open>None\<close>: of a step it is marked in the history (\<open>CPanic\<close>), and \<open>Reconcile\<close> is then \<open>None\<close> too. Whatever a function reads from outside (the API
  server, the admin API of the nodes, S3, the clock, random bytes) is an answer of the
  environment, given to it as functions in the record of its receiver (\<open>Reconciler\<close>,
  \<open>FSAccessKeyReconciler\<close>, \<open>FSBucketReconciler\<close>). Whatever it does to the outside is a call appended to
  the history, in order; an answer may depend on the whole history, so properties that quantify
  over the record hold for every behaviour of the environment, failures between any two calls
  included. Code the repository only calls is a parameter with its documented laws: the YAML and
  JSON codecs, \<open>meta.SetStatusCondition\<close> (locale \<open>condition_setter\<close>), the finalizer helpers
  (\<open>finalizer_ops\<close>), \<open>slices.SortFunc\<close> on access keys (\<open>key_sort\<close>), Prometheus vectors (\<open>metric_vec\<close>),
  the copying functions of the Kubernetes types (\<open>external_types\<close>), \<open>runtime.Scheme\<close> (\<open>schemes\<close>), how a
  container's variables and the telemetry SDK are read (\<open>telemetry_sdk\<close>), what \<open>Owns\<close> of controller-runtime
  enqueues.
  Every locale is interpreted on definitions of the development.

  \<^bold>\<open>Theories.\<close>
  \<^item> \<open>Go_Prelude\<close>, \<open>Go_Errors\<close>, \<open>Go_Crypto\<close>: what the code uses of Go: integers at their width, maps, strings,
    slices, wrapped errors and messages, SHA-256, hex and base64; \<open>emits\<close>, the calculus of what an
    operation adds to a history; \<open>internal/keygen\<close>.
  \<^item> \<open>Api_Types\<close>, \<open>Api_Defaults\<close>, \<open>Validation\<close>: \<open>api/v1alpha1\<close>, \<open>internal/validation\<close>, \<open>internal/webhook\<close>.
    Defaulting is idempotent, node names are unique under the schema's bounds, the webhook's verdict
    is characterised, and admitted updates keep what cannot change.
  \<^item> \<open>Kube_Objects\<close>, \<open>Cluster_Nodes\<close>, \<open>Fs_Config\<close>, \<open>Builders\<close>: \<open>names.go\<close>, \<open>nodes.go\<close>, \<open>config.go\<close>, \<open>builders.go\<close>,
    \<open>statefulset.go\<close> and \<open>internal/fsconfig\<close>. Rendered configurations are valid, revisions change exactly
    with what they stand for, selectors pick the right pods, and the NetworkPolicy fits the ports the
    pods serve when the S3 Service is on the port of the nodes.
  \<^item> \<open>Go_Memory\<close>, \<open>Deep_Copies\<close>: \<open>zz_generated.deepcopy.go\<close> over a memory of cells that pointers, slices and maps
    refer to. Every copying function gives an equal value in cells of its own, so writes to the copy
    and to the original are not seen through the other. Everywhere else values are immutable, which this justifies.
    \<open>Scheme\<close>: \<open>groupversion_info.go\<close> and the \<open>init\<close> functions; the scheme knows every kind that can be copied.
  \<^item> \<open>Telemetry\<close>: admission and rendering together, for any SDK with the documented order of its variables:
    a signal is sent where the spec says.
  \<^item> \<open>Fs_Client\<close>: \<open>internal/fsclient\<close>, the mapping of the admin API and the client pool. \<open>Client_Pool\<close>: the options and
    transports below it, and that forgetting them gives the pool of \<open>Fs_Client\<close>.
  \<^item> \<open>Pipeline\<close>: \<open>internal/controller/pipeline\<close>, and two interfaces for its clients: \<open>step_relation\<close> for what
    every step keeps, \<open>staged_pipeline\<close> for what depends on the order of the steps.
  \<^item> \<open>Operator_Env\<close>, \<open>Pass\<close>: the calls of the FSCluster controller, the state of a pass, \<open>observe\<close>.
  \<^item> The steps, each with what it may do and under which gate: \<open>Resource_Steps\<close> (validate, secrets,
    services, configs, budget, network policy, pod monitor), \<open>Access_Keys\<close> (render), \<open>Convergence\<close>,
    \<open>Rollout\<close> (nodes), \<open>Layout_Step\<close>, \<open>Decommission\<close> (plan and drain), \<open>Storage\<close>, \<open>Reload\<close>, \<open>Status\<close>.
    One serving node is replaced at a time and only in a converged cluster; a layout is applied only
    when the last one has settled; a node is deleted only once no layout needs it; volumes only grow;
    a node counts as up to date only on its own word; Ready means a quorum can be written, and the
    numbers of the status are those of the cluster. A rollout goes through the failure domains in
    turn, so that spread nodes of one domain are never back to back.
  \<^item> \<open>Step_Calls\<close>, \<open>Controller\<close>: \<open>controller.go\<close>. What every step leaves of the pass, and what holds of a whole
    reconcile: a refused spec touches nothing, secrets are created once and never rewritten, a live
    cluster is always looked at again.
  \<^item> \<open>Whole_Pass\<close>: the abstract specification \<open>drain_run\<close> of removing nodes; every reconcile refines it, and
    no reconcile panics as long as claims carry resource requests, which growing one writes into
    (\<open>claims_have_requests\<close>; the validation of the API server demands them). \<open>Reporting\<close>: every pass over a live
    object publishes a status, and its ReconcileSucceeded condition names the error returned.
  \<^item> \<open>Rollout_Rounds\<close>: passes one after another, against a server that keeps the StatefulSets applied to
    it (interface \<open>set_server_laws\<close>): a rollout finishes after as many healthy passes as nodes were
    missing or outdated. \<open>Storage_Rounds\<close>: the same for growing volumes, which deletes, recreates and restarts
    (interface \<open>grow_server_laws\<close>): three healthy passes per node. \<open>Removal_Rounds\<close>: two passes with a settled layout before each remove the nodes the
    spec no longer declares, whatever layout fs (interface \<open>layout_service\<close>) starts from; the removal step
    trusts the layout of the one node it asked (\<open>lagging_view_removes\<close>). \<open>Steady_Pass\<close>: a cluster that runs what its spec asks for is left alone.
  \<^item> \<open>Conditions\<close>, \<open>Key_Controller\<close>, \<open>Bucket_Controller\<close>: the other two controllers. A key is Ready only when
    every node accepts it, its finalizer goes only when no node that answers still does, a
    credential is minted once; the reclaim policy of a bucket is honoured when its cluster could be
    read and reached, and its status is sound.
  \<^item> \<open>Watches\<close>: the three \<open>SetupWithManager\<close>, which object enqueues which reconcile, and how the rotation of
    an imported credential travels from its Secret over the key to the configuration of the nodes.
    \<open>Key_Life\<close>: with nodes that serve what was rendered for them (interface \<open>serving_cluster\<close>) a declared key
    becomes Ready and a deleted one loses its finalizer.
    \<open>Secret_Flow\<close>: the Secrets the cluster controller mints, on a server that keeps them (interface
    \<open>secret_server\<close>), are what the pods and all three controllers read.
  \<^item> \<open>Op_Metrics\<close>: \<open>internal/metrics\<close>. The series follow the status and go with the cluster.
  \<^item> \<open>Op_Main\<close>: \<open>cmd/main.go\<close>. The namespaces watched, the options and the order of the wiring.

  \<^bold>\<open>Termination and bounds.\<close> Every definition is a total HOL function: the loops of the code are
  structural recursion over the list they range over, \<open>roll_loop\<close> (the only loop with a condition, in
  \<open>rollOrder\<close>) takes the number of sets as fuel, which is enough because every round orders at
  least one more (\<open>rollOrder_transpose\<close>), and
  \<open>trim_front\<close> has a measure. Integers of the API are \<open>int\<close> with the conversions of the code written
  out (\<open>i32\<close>, \<open>i64\<close>), layout versions are \<open>64 word\<close>.

  \<^bold>\<open>Not modelled.\<close> Logging; contexts and cancellation (a cancelled call is an error answer); the
  work queue behind the watches (rate limits, deduplication, resync); concurrency between
  controllers (each pass is a sequence of calls, and other actors are part of the environment's
  answers); slices that share a backing array (\<open>Go_Memory\<close> gives each slice its own); the HTTP behind a
  transport; the adapters \<open>minioClient\<close> and \<open>portByName\<close>, which only rename a call of a library; the
  manifests and the RBAC markers (what a request needs is the API server's code); the helpers of the end-to-end tests (\<open>test/utils\<close>), which
  run commands; the wording of messages beyond their format and arguments.
\<close>

end
